(* ===== verification/Prelude.thy ===== *)
theory Prelude
  imports Complex_Main "HOL-Library.Word" "HOL-Library.Sublist"
begin

text \<open>
  Shared vocabulary of the development. A C string is a \<open>string\<close>: the bytes before its
  terminating NUL, so \<open>length\<close> is \<open>strlen\<close>. A buffer that may hold NUL bytes is a
  \<open>string\<close> too, and \<open>cstr\<close> reads the C string at its start. The theory defines what the
  program uses of the C library (comparison without case, searching, decimal and
  hexadecimal text, \<open>strtol\<close>, truncating \<open>snprintf\<close>) and the list lemmas that the
  components share. The collection \<open>cbuf\<close> gathers the length bounds of buffers.
\<close>

named_theorems cbuf \<open>bounds on the length of what a fixed-size buffer holds\<close>
named_theorems ctext \<open>what the text functions of the C library return\<close>

section \<open>Bytes and characters\<close>

definition byte :: "char \<Rightarrow> nat" where
  "byte c = of_char c"

lemma byte_less [simp]: "byte c < 256"
  by (simp add: byte_def)

lemma byte_inject [simp]: "byte c = byte d \<longleftrightarrow> c = d"
  by (simp add: byte_def)

lemma byte_char_of [simp]: "byte (char_of (n :: nat)) = n mod 256"
  by (simp add: byte_def)

lemma char_of_byte [simp]: "char_of (byte c) = c"
  by (simp add: byte_def)

lemma char_of_eq_byte: "n < 256 \<Longrightarrow> (char_of n = c) = (byte c = n)"
  by (auto simp: byte_def)

abbreviation (input) NUL :: char where "NUL \<equiv> CHR 0x00"
abbreviation (input) TAB :: char where "TAB \<equiv> CHR 0x09"
abbreviation (input) LF :: char where "LF \<equiv> CHR 0x0A"
abbreviation (input) CR :: char where "CR \<equiv> CHR 0x0D"
abbreviation (input) SP :: char where "SP \<equiv> CHR 0x20"
abbreviation (input) DQ :: char where "DQ \<equiv> CHR 0x22"
abbreviation (input) BSL :: char where "BSL \<equiv> CHR 0x5C"
abbreviation (input) CRLF :: string where "CRLF \<equiv> [CR, LF]"

definition is_digit :: "char \<Rightarrow> bool" where
  "is_digit c \<longleftrightarrow> 48 \<le> byte c \<and> byte c \<le> 57"

definition is_upper :: "char \<Rightarrow> bool" where
  "is_upper c \<longleftrightarrow> 65 \<le> byte c \<and> byte c \<le> 90"

definition is_lower :: "char \<Rightarrow> bool" where
  "is_lower c \<longleftrightarrow> 97 \<le> byte c \<and> byte c \<le> 122"

definition isspace :: "char \<Rightarrow> bool" where
  "isspace c \<longleftrightarrow> byte c = 32 \<or> (9 \<le> byte c \<and> byte c \<le> 13)"

text \<open>The program never calls \<open>setlocale\<close>: case conversion is ASCII only.\<close>

definition tolower :: "char \<Rightarrow> char" where
  "tolower c = (if is_upper c then char_of (byte c + 32) else c)"

lemma byte_tolower: "byte (tolower c) = (if is_upper c then byte c + 32 else byte c)"
  by (auto simp: tolower_def is_upper_def)

lemma tolower_not_upper [simp]: "\<not> is_upper (tolower c)"
  by (auto simp: is_upper_def byte_tolower)

lemma tolower_idem [simp]: "tolower (tolower c) = tolower c"
  by (simp add: tolower_def [of "tolower c"])

text \<open>A UTF-8 continuation byte: \<open>(c & 0xC0) == 0x80\<close>.\<close>

definition is_cont :: "char \<Rightarrow> bool" where
  "is_cont c \<longleftrightarrow> 128 \<le> byte c \<and> byte c < 192"

section \<open>C strings\<close>

text \<open>The C string at the start of a block of bytes.\<close>

definition cstr :: "string \<Rightarrow> string" where
  "cstr bs = takeWhile (\<lambda>c. c \<noteq> NUL) bs"

lemma cstr_id [simp]: "NUL \<notin> set s \<Longrightarrow> cstr s = s"
  by (auto simp: cstr_def takeWhile_eq_all_conv)

lemma cstr_no_NUL [simp]: "NUL \<notin> set (cstr bs)"
  by (auto simp: cstr_def dest: set_takeWhileD)

lemma length_cstr_le [cbuf]: "length (cstr bs) \<le> length bs"
  by (simp add: cstr_def length_takeWhile_le)

text \<open>
  \<open>snprintf(buf, n, "%s", s)\<close> keeps \<open>n - 1\<close> bytes of \<open>s\<close>; \<open>buf_set n s\<close> is what the
  buffer holds afterwards.
\<close>

definition buf_set :: "nat \<Rightarrow> string \<Rightarrow> string" where
  "buf_set n s = take (n - 1) s"

lemma length_buf_set [cbuf]: "length (buf_set n s) \<le> n - 1"
  by (simp add: buf_set_def)

lemma length_buf_set_less [cbuf]: "0 < n \<Longrightarrow> length (buf_set n s) < n"
  by (simp add: buf_set_def min_less_iff_disj)

lemma buf_set_fits [simp]: "length s < n \<Longrightarrow> buf_set n s = s"
  by (simp add: buf_set_def)

lemma set_buf_set: "set (buf_set n s) \<subseteq> set s"
  by (simp add: buf_set_def set_take_subset)

lemma buf_set_idem [simp]: "buf_set n (buf_set n s) = buf_set n s"
  by (simp add: buf_set_def)

definition strcaseeq :: "string \<Rightarrow> string \<Rightarrow> bool" where
  "strcaseeq a b \<longleftrightarrow> map tolower a = map tolower b"

lemma strcaseeq_refl [simp]: "strcaseeq a a"
  by (simp add: strcaseeq_def)

lemma strcaseeq_sym: "strcaseeq a b \<Longrightarrow> strcaseeq b a"
  by (simp add: strcaseeq_def)

lemma strcaseeq_trans: "strcaseeq a b \<Longrightarrow> strcaseeq b c \<Longrightarrow> strcaseeq a c"
  by (simp add: strcaseeq_def)

lemma strcaseeq_length: "strcaseeq a b \<Longrightarrow> length a = length b"
  by (metis length_map strcaseeq_def)

text \<open>An optional string argument: \<open>s && s[0]\<close>.\<close>

definition given :: "string option \<Rightarrow> bool" where
  "given s \<longleftrightarrow> s \<noteq> None \<and> the s \<noteq> []"

text \<open>\<open>strncmp(s, p, strlen(p)) == 0\<close> and the case-insensitive form.\<close>

definition starts_with :: "string \<Rightarrow> string \<Rightarrow> bool" where
  "starts_with p s \<longleftrightarrow> take (length p) s = p"

definition starts_with_ci :: "string \<Rightarrow> string \<Rightarrow> bool" where
  "starts_with_ci p s \<longleftrightarrow> length p \<le> length s \<and> strcaseeq (take (length p) s) p"

definition ends_with :: "string \<Rightarrow> string \<Rightarrow> bool" where
  "ends_with p s \<longleftrightarrow> length p \<le> length s \<and> drop (length s - length p) s = p"

lemma starts_with_append [simp]: "starts_with p (p @ s)"
  by (simp add: starts_with_def)

lemma starts_with_Nil [simp]: "starts_with [] s"
  by (simp add: starts_with_def)

lemma starts_with_split: "starts_with p s \<Longrightarrow> s = p @ drop (length p) s"
  by (metis append_take_drop_id starts_with_def)

lemma error_text: "6 \<le> sz \<Longrightarrow> starts_with ''Error'' (buf_set sz (''Error'' @ x))"
  by (simp add: starts_with_def buf_set_def)

text \<open>\<open>strchr\<close>: the rest of the string from the first \<open>c\<close> on.\<close>

fun strchr :: "char \<Rightarrow> string \<Rightarrow> string option" where
  "strchr c [] = None"
| "strchr c (x # s) = (if x = c then Some (x # s) else strchr c s)"

abbreviation before :: "char \<Rightarrow> string \<Rightarrow> string" where
  "before c s \<equiv> takeWhile (\<lambda>x. x \<noteq> c) s"

lemma strchr_None [ctext]: "strchr c s = None \<longleftrightarrow> c \<notin> set s"
  by (induction s) auto

lemma strchr_Some: "strchr c s = Some r \<Longrightarrow> \<exists>r'. r = c # r' \<and> s = before c s @ c # r'"
  by (induction s) (auto split: if_splits)

lemma strchr_append [ctext]: "c \<notin> set a \<Longrightarrow> strchr c (a @ c # b) = Some (c # b)"
  by (induction a) auto

lemma before_append [ctext]: "c \<notin> set a \<Longrightarrow> before c (a @ c # b) = a"
  by (induction a) auto

lemma length_before_le [cbuf]: "length (before c s) \<le> length s"
  by (rule length_takeWhile_le)

text \<open>\<open>strstr\<close> and \<open>memmem\<close>: the rest from the first occurrence of \<open>p\<close> on.\<close>

fun strstr :: "string \<Rightarrow> string \<Rightarrow> string option" where
  "strstr p [] = (if p = [] then Some [] else None)"
| "strstr p (c # s) = (if starts_with p (c # s) then Some (c # s) else strstr p s)"

lemma strstr_Some: "strstr p s = Some r \<Longrightarrow> \<exists>a. s = a @ r \<and> starts_with p r"
  by (induction p s rule: strstr.induct) (auto split: if_splits intro: exI [of _ "_ # _"])

lemma length_strstr: "strstr p s = Some r \<Longrightarrow> length r \<le> length s"
  by (drule strstr_Some) auto

lemma take_take_append: "take k (take k xs @ ys) = take k (xs @ ys)"
  by (simp add: min_def)

section \<open>Numbers as text\<close>

fun dec_nat :: "nat \<Rightarrow> string" where
  "dec_nat n = (if n < 10 then [char_of (48 + n)]
                else dec_nat (n div 10) @ [char_of (48 + n mod 10)])"

declare dec_nat.simps [simp del]

text \<open>\<open>%d\<close>, and \<open>%0<w>d\<close> for a number that is not negative.\<close>

definition dec_int :: "int \<Rightarrow> string" where
  "dec_int i = (if i < 0 then CHR ''-'' # dec_nat (nat (- i)) else dec_nat (nat i))"

definition dec_pad :: "nat \<Rightarrow> nat \<Rightarrow> string" where
  "dec_pad w n = replicate (w - length (dec_nat n)) (CHR ''0'') @ dec_nat n"

definition hex_digit :: "nat \<Rightarrow> char" where
  "hex_digit n = ''0123456789abcdef'' ! (n mod 16)"

definition digit_val :: "char \<Rightarrow> nat" where
  "digit_val c = byte c - 48"

fun dec_value :: "nat \<Rightarrow> string \<Rightarrow> nat" where
  "dec_value acc [] = acc"
| "dec_value acc (c # cs) = dec_value (acc * 10 + digit_val c) cs"

lemma is_digit_char_of [simp]: "(n :: nat) < 10 \<Longrightarrow> is_digit (char_of (48 + n))"
  by (simp add: is_digit_def)

lemma digit_val_char_of [simp]: "n < 10 \<Longrightarrow> digit_val (char_of (48 + n)) = n"
  by (simp add: digit_val_def)

lemma dec_value_append: "dec_value acc (a @ b) = dec_value (dec_value acc a) b"
  by (induction acc a rule: dec_value.induct) auto

lemma dec_nat_digits: "list_all is_digit (dec_nat n)"
  by (induction n rule: dec_nat.induct) (subst dec_nat.simps, auto)

lemma dec_nat_nonempty [simp]: "dec_nat n \<noteq> []"
  by (subst dec_nat.simps) simp

lemma dec_value_dec_nat: "dec_value 0 (dec_nat n) = n"
proof (induction n rule: dec_nat.induct)
  case (1 n)
  then show ?case
    by (cases "n < 10") (simp_all add: dec_nat.simps [of n] dec_value_append)
qed

lemma length_dec_nat: "n < 10 ^ k \<Longrightarrow> 0 < k \<Longrightarrow> length (dec_nat n) \<le> k"
proof (induction n arbitrary: k rule: dec_nat.induct)
  case (1 n)
  show ?case
  proof (cases "n < 10")
    case True
    with 1(3) show ?thesis by (simp add: dec_nat.simps [of n])
  next
    case False
    then obtain j where k: "k = Suc j" "0 < j" using 1(2,3) by (cases k; cases "k - 1") auto
    then have "n div 10 < 10 ^ j" using 1(2) by (simp add: div_less_iff_less_mult)
    with 1(1) False k show ?thesis by (simp add: dec_nat.simps [of n])
  qed
qed

definition LONG_MAX :: int where "LONG_MAX = 2 ^ 63 - 1"
definition LONG_MIN :: int where "LONG_MIN = - (2 ^ 63)"
definition INT_MAX :: int where "INT_MAX = 2147483647"
definition INT_MIN :: int where "INT_MIN = - 2147483648"

text \<open>Conversion of an integer to a 32-bit \<open>int\<close>.\<close>

definition to_int32 :: "int \<Rightarrow> int" where
  "to_int32 i = (i + 2147483648) mod 4294967296 - 2147483648"

lemma to_int32_id [simp]: "INT_MIN \<le> i \<Longrightarrow> i \<le> INT_MAX \<Longrightarrow> to_int32 i = i"
  by (simp add: to_int32_def INT_MIN_def INT_MAX_def)

lemma to_int32_range: "INT_MIN \<le> to_int32 i \<and> to_int32 i \<le> INT_MAX"
  using pos_mod_bound [of 4294967296 "i + 2147483648"] pos_mod_sign [of 4294967296 "i + 2147483648"]
  by (simp add: to_int32_def INT_MIN_def INT_MAX_def)

text \<open>
  \<open>strtol(s, &end, 10)\<close> on a 64-bit \<open>long\<close>: the value, the rest at \<open>end\<close> and whether
  \<open>errno\<close> became \<open>ERANGE\<close>. Without digits the value is 0 and \<open>end = s\<close>.
\<close>

definition strtol :: "string \<Rightarrow> int \<times> string \<times> bool" where
  "strtol s =
     (let t = dropWhile isspace s;
          neg = (t \<noteq> [] \<and> hd t = CHR ''-'');
          u = (if t \<noteq> [] \<and> (hd t = CHR ''-'' \<or> hd t = CHR ''+'') then tl t else t);
          ds = takeWhile is_digit u;
          v = int (dec_value 0 ds);
          w = (if neg then - v else v)
      in if ds = [] then (0, s, False)
         else if w > LONG_MAX then (LONG_MAX, dropWhile is_digit u, True)
         else if w < LONG_MIN then (LONG_MIN, dropWhile is_digit u, True)
         else (w, dropWhile is_digit u, False))"

text \<open>\<open>atoi(s)\<close> is \<open>(int) strtol(s, NULL, 10)\<close>.\<close>

definition atoi :: "string \<Rightarrow> int" where
  "atoi s = to_int32 (fst (strtol s))"

lemma takeWhile_stop: "list_all P a \<Longrightarrow> b = [] \<or> \<not> P (hd b) \<Longrightarrow> takeWhile P (a @ b) = a"
  by (induction a) (cases b, auto)+

lemma dropWhile_stop: "list_all P a \<Longrightarrow> b = [] \<or> \<not> P (hd b) \<Longrightarrow> dropWhile P (a @ b) = b"
  by (induction a) (cases b, auto)+

lemma digit_not_space: "is_digit c \<Longrightarrow> \<not> isspace c \<and> c \<noteq> CHR ''-'' \<and> c \<noteq> CHR ''+''"
  by (auto simp: is_digit_def isspace_def byte_def)

lemma strtol_dec_nat [ctext]:
  assumes "int n \<le> LONG_MAX" "t = [] \<or> \<not> is_digit (hd t)"
  shows "strtol (dec_nat n @ t) = (int n, t, False)"
proof -
  obtain c cs where d: "dec_nat n = c # cs" by (cases "dec_nat n") auto
  then have "is_digit c" using dec_nat_digits [of n] by simp
  then have "dropWhile isspace (dec_nat n @ t) = dec_nat n @ t" "hd (dec_nat n @ t) \<noteq> CHR ''-''"
    "hd (dec_nat n @ t) \<noteq> CHR ''+''"
    using digit_not_space [of c] by (simp_all add: d)
  moreover have "LONG_MIN \<le> int n" by (simp add: LONG_MIN_def)
  ultimately show ?thesis
    using assms takeWhile_stop [OF dec_nat_digits assms(2), of n] dropWhile_stop [OF dec_nat_digits assms(2), of n]
    by (simp add: strtol_def Let_def dec_value_dec_nat)
qed

lemma atoi_dec_nat [ctext]:
  "int n \<le> INT_MAX \<Longrightarrow> t = [] \<or> \<not> is_digit (hd t) \<Longrightarrow> atoi (dec_nat n @ t) = int n"
  by (simp add: atoi_def strtol_dec_nat LONG_MAX_def INT_MAX_def INT_MIN_def)

section \<open>The end of a list\<close>

definition last_n :: "nat \<Rightarrow> 'a list \<Rightarrow> 'a list" where
  "last_n k xs = drop (length xs - k) xs"

lemma length_last_n: "length (last_n k xs) = min k (length xs)"
  by (simp add: last_n_def)

lemma last_n_id [simp]: "length xs \<le> k \<Longrightarrow> last_n k xs = xs"
  by (simp add: last_n_def)

lemma last_n_last_n: "last_n k (last_n k xs @ ys) = last_n k (xs @ ys)"
proof (cases "length xs \<le> k")
  case False
  have d: "drop m xs = drop m' xs" if "m = m'" for m m' using that by simp
  show ?thesis
    using False by (auto simp: last_n_def intro!: d)
qed simp

lemma set_last_n: "set (last_n k xs) \<subseteq> set xs"
  by (simp add: last_n_def set_drop_subset)

text \<open>
  A log that keeps the last \<open>cap\<close> entries: what its users rely on. The lemmas hold for every
  implementation of it.
\<close>

locale bounded_log =
  fixes wf :: "'s \<Rightarrow> bool"
    and put :: "'x \<Rightarrow> 's \<Rightarrow> 's"
    and item :: "'x \<Rightarrow> 'e"
    and items :: "'s \<Rightarrow> 'e list"
    and cap :: nat
  assumes put_wf: "wf s \<Longrightarrow> wf (put x s)"
    and items_put: "wf s \<Longrightarrow> items (put x s) = last_n cap (items s @ [item x])"
    and items_cap: "wf s \<Longrightarrow> length (items s) \<le> cap"
begin

lemma puts_wf: "wf s \<Longrightarrow> wf (fold put xs s)"
  by (induction xs arbitrary: s) (simp_all add: put_wf)

lemma items_puts: "wf s \<Longrightarrow> items (fold put xs s) = last_n cap (items s @ map item xs)"
proof (induction xs arbitrary: s)
  case Nil
  then show ?case using items_cap by simp
next
  case (Cons x xs)
  then have "items (fold put (x # xs) s) = last_n cap (last_n cap (items s @ [item x]) @ map item xs)"
    by (simp add: put_wf items_put)
  also have "\<dots> = last_n cap (items s @ item x # map item xs)" by (simp add: last_n_last_n)
  finally show ?case by simp
qed

lemma latest_kept: "wf s \<Longrightarrow> 0 < cap \<Longrightarrow> last (items (put x s)) = item x"
  by (simp add: items_put last_n_def)

end

end
