(* ===== verification/Calendar.thy ===== *)
theory Calendar
  imports Prelude
begin

text \<open>
  What the program uses of the C library's calendar: \<open>struct tm\<close>, \<open>gmtime_r\<close> and
  \<open>timegm\<close> on the proleptic Gregorian calendar. A \<open>time_t\<close> is an \<open>int\<close> (it has 64 bits
  in every build). Local time depends on the time zone of the host, so \<open>localtime_r\<close> and
  \<open>mktime\<close> are an environment \<open>tzone\<close> given to the functions that use them.
\<close>

type_synonym time = int

record tm =
  tm_year :: int \<comment> \<open>years since 1900\<close>
  tm_mon :: int \<comment> \<open>0 to 11\<close>
  tm_mday :: int
  tm_hour :: int
  tm_min :: int
  tm_sec :: int

record tzone =
  localtime_r :: "time \<Rightarrow> tm"
  mktime :: "tm \<Rightarrow> time"

definition leap :: "int \<Rightarrow> bool" where
  "leap y \<longleftrightarrow> y mod 4 = 0 \<and> (y mod 100 \<noteq> 0 \<or> y mod 400 = 0)"

text \<open>Days from 0001-01-01 to the first day of year \<open>y\<close>.\<close>

definition days_before_year :: "int \<Rightarrow> int" where
  "days_before_year y =
     (let n = y - 1 in 365 * n + n div 4 - n div 100 + n div 400)"

definition month_days :: "int \<Rightarrow> int list" where
  "month_days y = [31, if leap y then 29 else 28, 31, 30, 31, 30, 31, 31, 30, 31, 30, 31]"

definition days_before_month :: "int \<Rightarrow> nat \<Rightarrow> int" where
  "days_before_month y m = sum_list (take m (month_days y))"

text \<open>Day 719162 is 1970-01-01.\<close>

definition timegm :: "tm \<Rightarrow> time" where
  "timegm t =
     (days_before_year (tm_year t + 1900) + days_before_month (tm_year t + 1900) (nat (tm_mon t))
       + tm_mday t - 1 - 719162) * 86400
     + tm_hour t * 3600 + tm_min t * 60 + tm_sec t"

definition year_of_day :: "int \<Rightarrow> int" where
  "year_of_day d =
     (let y = d * 400 div 146097 + 1
      in if d < days_before_year y then y - 1
         else if days_before_year (y + 1) \<le> d then y + 1
         else y)"

fun split_month :: "nat \<Rightarrow> int list \<Rightarrow> int \<Rightarrow> nat \<times> int" where
  "split_month m [] d = (m, d)"
| "split_month m [l] d = (m, d)"
| "split_month m (l # l' # ls) d = (if d < l then (m, d) else split_month (Suc m) (l' # ls) (d - l))"

definition gmtime_r :: "time \<Rightarrow> tm" where
  "gmtime_r t =
     (let d = t div 86400 + 719162; r = t mod 86400;
          y = year_of_day d;
          (m, k) = split_month 0 (month_days y) (d - days_before_year y)
      in \<lparr>tm_year = y - 1900, tm_mon = int m, tm_mday = k + 1,
          tm_hour = r div 3600, tm_min = r mod 3600 div 60, tm_sec = r mod 60\<rparr>)"

lemma div_lower: "(0 :: int) < k \<Longrightarrow> k * (n div k) \<le> n"
  and div_upper: "(0 :: int) < k \<Longrightarrow> n < k * (n div k) + k"
  using mult_div_mod_eq [of k n] pos_mod_bound [of k n] pos_mod_sign [of k n] by linarith+

lemma days_before_year_lower: "146097 * (y - 1) - 699 \<le> 400 * days_before_year y"
  and days_before_year_upper: "400 * days_before_year y \<le> 146097 * (y - 1) + 400"
proof -
  define n a b c where abc: "n = y - 1" "a = n div 4" "b = n div 100" "c = n div 400"
  have "4 * a \<le> n" "n < 4 * a + 4" "100 * b \<le> n" "n < 100 * b + 100"
    "400 * c \<le> n" "n < 400 * c + 400"
    unfolding abc(2,3,4) by (rule div_lower div_upper; simp)+
  moreover have "days_before_year y = 365 * n + a - b + c"
    by (simp add: days_before_year_def Let_def abc)
  ultimately show "146097 * (y - 1) - 699 \<le> 400 * days_before_year y"
    and "400 * days_before_year y \<le> 146097 * (y - 1) + 400"
    unfolding abc(1) [symmetric] by linarith+
qed

lemma year_of_day_bounds:
  "days_before_year (year_of_day d) \<le> d \<and> d < days_before_year (year_of_day d + 1)"
proof -
  define y where "y = d * 400 div 146097 + 1"
  have a: "146097 * (y - 1) \<le> d * 400" and b: "d * 400 < 146097 * y"
    using div_lower [of 146097 "d * 400"] div_upper [of 146097 "d * 400"]
    unfolding y_def by simp_all
  have "d < days_before_year (y + 2)" and "days_before_year (y - 1) \<le> d"
    using a b days_before_year_lower [of "y + 2"] days_before_year_upper [of "y - 1"]
    by (simp_all add: algebra_simps)
  moreover have "year_of_day d = (if d < days_before_year y then y - 1
      else if days_before_year (y + 1) \<le> d then y + 1 else y)"
    unfolding year_of_day_def Let_def y_def ..
  ultimately show ?thesis by (simp add: add.commute)
qed

lemma div_succ:
  assumes "(0 :: int) < k"
  shows "(n + 1) div k = n div k + (if (n + 1) mod k = 0 then 1 else 0)"
proof (cases "n mod k + 1 < k")
  case True
  have e: "n + 1 = k * (n div k) + (n mod k + 1)" by simp
  have "0 \<le> n mod k" using assms by simp
  then show ?thesis
    using int_div_pos_eq [OF e] int_mod_pos_eq [OF e] True by auto
next
  case False
  have e: "n + 1 = k * (n div k + 1) + 0"
    using False assms pos_mod_bound [of k n] mult_div_mod_eq [of k n]
    unfolding distrib_left by linarith
  show ?thesis
    using int_div_pos_eq [OF e] int_mod_pos_eq [OF e] assms by simp
qed

lemma year_length:
  "days_before_year (y + 1) - days_before_year y = (if leap y then 366 else 365)"
proof -
  define p where "p k \<longleftrightarrow> y mod k = 0" for k
  define b where "b k = (if p k then 1 else 0 :: int)" for k
  have m: "p 400 \<Longrightarrow> p 100" "p 100 \<Longrightarrow> p 4"
    using mod_mod_cancel [of 100 400 y] mod_mod_cancel [of 4 100 y] by (simp_all add: p_def)
  have l: "leap y \<longleftrightarrow> p 4 \<and> (\<not> p 100 \<or> p 400)"
    by (simp add: leap_def p_def)
  define q where "q k = (y - 1) div k" for k
  have d: "y div k = q k + b k" if "0 < k" for k
    using div_succ [OF that, of "y - 1"] by (simp add: b_def p_def q_def)
  have "days_before_year (y + 1) = 365 * y + y div 4 - y div 100 + y div 400"
    and "days_before_year y = 365 * (y - 1) + q 4 - q 100 + q 400"
    by (simp_all only: days_before_year_def Let_def q_def add_diff_cancel_right')
  moreover have "y div 4 = q 4 + b 4" "y div 100 = q 100 + b 100" "y div 400 = q 400 + b 400"
    by (rule d; simp)+
  ultimately have e: "days_before_year (y + 1) - days_before_year y = 365 + b 4 - b 100 + b 400"
    by (simp only: algebra_simps)
  show ?thesis unfolding e l b_def using m
    by (cases "p 400"; cases "p 100"; cases "p 4") simp_all
qed

lemma split_month_sum:
  "split_month m ls d = (m', k) \<Longrightarrow> m \<le> m' \<and> d = sum_list (take (m' - m) ls) + k"
proof (induction m ls d rule: split_month.induct)
  case (3 m l l' ls d)
  show ?case
  proof (cases "d < l")
    case False
    with 3 have "Suc m \<le> m'" and "d - l = sum_list (take (m' - Suc m) (l' # ls)) + k"
      by auto
    moreover from this have "m' - m = Suc (m' - Suc m)" by simp
    ultimately show ?thesis by simp
  qed (use 3 in auto)
qed auto

lemma split_month_range:
  "split_month m ls d = (m', k) \<Longrightarrow> ls \<noteq> [] \<Longrightarrow> 0 \<le> d \<Longrightarrow> d < sum_list ls \<Longrightarrow>
     m' < m + length ls \<and> 0 \<le> k \<and> k < ls ! (m' - m)"
proof (induction m ls d rule: split_month.induct)
  case (3 m l l' ls d)
  show ?case
  proof (cases "d < l")
    case False
    with 3 have "m' < Suc m + length (l' # ls) \<and> 0 \<le> k \<and> k < (l' # ls) ! (m' - Suc m)"
      by auto
    moreover have "Suc m \<le> m'"
      using 3(2) False split_month_sum [of "Suc m" "l' # ls" "d - l" m' k] by simp
    ultimately show ?thesis by (auto simp: nth_Cons' Suc_diff_le)
  qed (use 3 in auto)
qed auto

lemma sum_month_days: "sum_list (month_days y) = (if leap y then 366 else 365)"
  by (simp add: month_days_def)

lemma month_days_le: "m < 12 \<Longrightarrow> month_days y ! m \<le> 31"
  by (auto simp: month_days_def nth_Cons' less_Suc_eq numeral_eq_Suc)

lemma gmtime_r_fields:
  fixes t :: time
  defines "u \<equiv> gmtime_r t"
  shows "0 \<le> tm_mon u \<and> tm_mon u \<le> 11" and "1 \<le> tm_mday u \<and> tm_mday u \<le> 31"
    and "0 \<le> tm_hour u \<and> tm_hour u \<le> 23" and "0 \<le> tm_min u \<and> tm_min u \<le> 59"
    and "0 \<le> tm_sec u \<and> tm_sec u \<le> 59"
proof -
  define d where "d = t div 86400 + 719162"
  define y where "y = year_of_day d"
  obtain m k where mk: "split_month 0 (month_days y) (d - days_before_year y) = (m, k)"
    by fastforce
  have "d - days_before_year y < sum_list (month_days y)" "0 \<le> d - days_before_year y"
    using year_of_day_bounds [of d] year_length [of y] by (auto simp: y_def sum_month_days split: if_splits)
  then have r: "m < 12" "0 \<le> k" "k < month_days y ! m"
    using split_month_range [OF mk] by (auto simp: month_days_def)
  have u: "u = \<lparr>tm_year = y - 1900, tm_mon = int m, tm_mday = k + 1,
      tm_hour = t mod 86400 div 3600, tm_min = t mod 86400 mod 3600 div 60,
      tm_sec = t mod 86400 mod 60\<rparr>"
    using mk by (simp add: u_def gmtime_r_def Let_def d_def y_def)
  show "0 \<le> tm_mon u \<and> tm_mon u \<le> 11" using r by (simp add: u)
  show "1 \<le> tm_mday u \<and> tm_mday u \<le> 31"
    using r month_days_le [OF r(1), of y] by (simp add: u)
  have s: "0 \<le> t mod 86400" "t mod 86400 < 86400"
    "0 \<le> t mod 86400 mod 3600" "t mod 86400 mod 3600 < 3600"
    "0 \<le> t mod 86400 mod 60" "t mod 86400 mod 60 < 60"
    by (rule pos_mod_sign pos_mod_bound; simp)+
  define h i where hi: "h = t mod 86400 div 3600" "i = t mod 86400 mod 3600 div 60"
  have "3600 * h \<le> t mod 86400" "0 \<le> h" "60 * i \<le> t mod 86400 mod 3600" "0 \<le> i"
    unfolding hi using s by (simp_all add: div_lower pos_imp_zdiv_nonneg_iff del: mod_mod_cancel)
  then have "h < 24" "i < 60" "0 \<le> h" "0 \<le> i"
    using s(2,4) by linarith+
  then show "0 \<le> tm_hour u \<and> tm_hour u \<le> 23" and "0 \<le> tm_min u \<and> tm_min u \<le> 59"
    by (simp_all add: u hi [symmetric])
  show "0 \<le> tm_sec u \<and> tm_sec u \<le> 59" using s(5,6) by (simp add: u)
qed

lemma timegm_gmtime_r: "timegm (gmtime_r t) = t"
proof -
  define d where "d = t div 86400 + 719162"
  define y where "y = year_of_day d"
  obtain m k where mk: "split_month 0 (month_days y) (d - days_before_year y) = (m, k)"
    by fastforce
  have "d = days_before_year y + days_before_month y m + k"
    using split_month_sum [OF mk] by (simp add: days_before_month_def)
  then have "timegm (gmtime_r t) = t div 86400 * 86400 + t mod 86400 div 3600 * 3600
      + t mod 86400 mod 3600 div 60 * 60 + t mod 86400 mod 60"
    using mk by (simp add: timegm_def gmtime_r_def Let_def d_def y_def)
  also have "\<dots> = t"
  proof -
    have "t mod 86400 mod 60 = t mod 86400 mod 3600 mod 60"
      by (simp add: mod_mod_cancel)
    then show ?thesis by (simp add: add.assoc)
  qed
  finally show ?thesis .
qed

text \<open>The time zone of a host that keeps UTC.\<close>

definition utc :: tzone where "utc = \<lparr>localtime_r = gmtime_r, mktime = timegm\<rparr>"

end
