(* ===== verification/Util.thy ===== *)
theory Util
  imports Calendar
begin

text \<open>
  \<open>src/util.c\<close> without its JSON helpers (those are in \<open>Cjson\<close>): random identifiers, complete
  writes, atomic file replacement, bounded appending to a buffer, UTF-8 prefixes and
  scrubbing, directory creation and ISO 8601 time.

  The kernel is an explicit environment: \<open>write\<close> outcomes are a script of results, after
  which every write succeeds in full; a file system maps paths to files. The lemmas show
  that a write is complete or reported, that a reader of a replaced file sees the old or the
  new content and nothing else, that appending never leaves the buffer, and that scrubbing
  yields UTF-8 in the sense of the Unicode encoding form, written down independently as
  \<open>utf8_text\<close>.
\<close>

unbundle bit_operations_syntax

section \<open>Identifiers\<close>

text \<open>
  \<open>rnd\<close> is what 16 bytes of \<open>/dev/urandom\<close> gave, \<open>None\<close> when it cannot be read in full; the
  fallback mixes the time and the address of \<open>out\<close>, little-endian.
\<close>

definition le64_bytes :: "64 word \<Rightarrow> nat list" where
  "le64_bytes w = map (\<lambda>i. unat (drop_bit (8 * i) w AND 255)) [0..<8]"

definition uuid_entropy :: "nat list option \<Rightarrow> 64 word \<Rightarrow> 64 word \<Rightarrow> nat list" where
  "uuid_entropy rnd now ptr =
     (case rnd of Some bs \<Rightarrow> bs
      | None \<Rightarrow> (let t = now XOR ptr; u = (NOT t) * 6364136223846793005 + 1
                 in le64_bytes t @ le64_bytes u))"

definition uuid_short :: "nat list option \<Rightarrow> 64 word \<Rightarrow> 64 word \<Rightarrow> int \<Rightarrow> string" where
  "uuid_short rnd now ptr len =
     (if len \<le> 0 then []
      else let n = nat (if len > 32 then 32 else len); buf = uuid_entropy rnd now ptr
           in map (\<lambda>i. let b = buf ! (i div 2)
                       in hex_digit (if odd i then b mod 16 else b div 16)) [0..<n])"

lemma length_uuid_short [cbuf]: "length (uuid_short rnd now ptr len) = nat (min len 32)"
  by (auto simp: uuid_short_def Let_def)

lemma hex_digit_in: "hex_digit n \<in> set ''0123456789abcdef''"
  unfolding hex_digit_def by (rule nth_mem) simp

lemma set_uuid_short: "set (uuid_short rnd now ptr len) \<subseteq> set ''0123456789abcdef''"
proof
  fix c assume "c \<in> set (uuid_short rnd now ptr len)"
  then obtain n where "c = hex_digit n"
    by (auto simp: uuid_short_def Let_def split: if_splits)
  then show "c \<in> set ''0123456789abcdef''" by (simp only: hex_digit_in)
qed

section \<open>Complete writes\<close>

datatype io_res = Wrote nat | EIntr | IoErr

text \<open>Result: the bytes that reached the descriptor, and whether \<open>write_all\<close> returned 0.\<close>

fun write_all :: "io_res list \<Rightarrow> string \<Rightarrow> string \<times> bool" where
  "write_all env [] = ([], True)"
| "write_all [] (c # cs) = (c # cs, True)"
| "write_all (EIntr # env) (c # cs) = write_all env (c # cs)"
| "write_all (IoErr # env) (c # cs) = ([], False)"
| "write_all (Wrote n # env) (c # cs) =
     (if n = 0 then ([], False)
      else let (w, ok) = write_all env (drop n (c # cs)) in (take n (c # cs) @ w, ok))"

lemma write_all_prefix: "write_all env s = (w, ok) \<Longrightarrow> prefix w s \<and> (ok \<longrightarrow> w = s)"
proof (induction env s arbitrary: w rule: write_all.induct)
  case (5 n env c cs)
  show ?case
  proof (cases "n = 0")
    case False
    obtain w' where "write_all env (drop n (c # cs)) = (w', ok)"
      and w: "w = take n (c # cs) @ w'"
      using 5(2) False by (auto split: prod.splits)
    with 5(1) False have p: "prefix w' (drop n (c # cs)) \<and> (ok \<longrightarrow> w' = drop n (c # cs))"
      by blast
    then have "prefix (take n (c # cs) @ w') (take n (c # cs) @ drop n (c # cs))"
      by (simp only: same_prefix_prefix)
    with p w show ?thesis by (simp only: append_take_drop_id) auto
  qed (use 5(2) in auto)
qed auto

section \<open>Files\<close>

text \<open>A file whose content the process may not read exists all the same.\<close>

datatype fnode = File string | Unreadable string

type_synonym fs = "string \<Rightarrow> fnode option"

datatype slurp = Slurped string | NoEnt | SlurpErr

definition file_slurp :: "fs \<Rightarrow> string \<Rightarrow> slurp" where
  "file_slurp fs path =
     (case fs path of None \<Rightarrow> NoEnt | Some (Unreadable d) \<Rightarrow> SlurpErr | Some (File d) \<Rightarrow> Slurped d)"

definition file_exists :: "fs \<Rightarrow> string \<Rightarrow> bool" where
  "file_exists fs path \<longleftrightarrow> fs path \<noteq> None"

record wenv =
  open_err :: bool
  wscript :: "io_res list"
  rename_err :: bool
  wpid :: int
  wseq :: int

definition tmp_name :: "wenv \<Rightarrow> string \<Rightarrow> string" where
  "tmp_name e path = buf_set 4200 (path @ ''.tmp.'' @ dec_int (wpid e) @ ''.'' @ dec_int (wseq e))"

text \<open>An environment in which nothing fails.\<close>

definition sample_wenv :: wenv where
  "sample_wenv = \<lparr>open_err = False, wscript = [], rename_err = False, wpid = 1, wseq = 0\<rparr>"

text \<open>
  The states of the file system after each call, and the result code. The code ignores what
  \<open>unlink\<close> of the temporary file returns after a failure; here it succeeds, as it does for a
  file that the same process has just created in that directory. If it failed, the temporary file
  would stay behind beside \<open>path\<close>, which is untouched either way.
\<close>

definition atomic_write_trace :: "wenv \<Rightarrow> string \<Rightarrow> string \<Rightarrow> fs \<Rightarrow> fs list \<times> int" where
  "atomic_write_trace e path data fs =
     (let tmp = tmp_name e path
      in if open_err e \<or> fs tmp \<noteq> None then ([], -1)
         else let (w, ok) = write_all (wscript e) data;
                  created = fs(tmp \<mapsto> File []);
                  written = fs(tmp \<mapsto> File w)
              in if \<not> ok \<or> rename_err e then ([created, written, written(tmp := None)], -1)
                 else ([created, written, (written(tmp := None))(path \<mapsto> File w)], 0))"

definition atomic_write :: "wenv \<Rightarrow> string \<Rightarrow> string \<Rightarrow> fs \<Rightarrow> fs \<times> int" where
  "atomic_write e path data fs =
     (let (tr, rc) = atomic_write_trace e path data fs in (last (fs # tr), rc))"

lemma atomic_write_rc: "snd (atomic_write e path data fs) = 0 \<or> snd (atomic_write e path data fs) = -1"
  by (auto simp: atomic_write_def atomic_write_trace_def Let_def split: prod.splits)

lemma tmp_name_neq: "length path < 4199 \<Longrightarrow> tmp_name e path \<noteq> path"
proof
  assume "length path < 4199" and "tmp_name e path = path"
  then have "length (tmp_name e path) = length path" by simp
  with \<open>length path < 4199\<close> show False
    by (simp add: tmp_name_def buf_set_def min_def split: if_splits)
qed

lemma atomic_write_ok:
  "atomic_write e path data fs = (fs', 0) \<Longrightarrow>
     fs' = (fs(tmp_name e path := None))(path \<mapsto> File data) \<and> fs (tmp_name e path) = None"
  by (auto simp: atomic_write_def atomic_write_trace_def Let_def
      split: prod.splits if_splits dest!: write_all_prefix)

lemma atomic_write_fail:
  "atomic_write e path data fs = (fs', rc) \<Longrightarrow> rc \<noteq> 0 \<Longrightarrow> fs' = fs"
  by (auto simp: atomic_write_def atomic_write_trace_def Let_def fun_upd_idem
      split: prod.splits if_splits)

lemma sample_write:
  "fs (tmp_name sample_wenv path) = None \<Longrightarrow>
     atomic_write sample_wenv path data fs = ((fs(tmp_name sample_wenv path := None))(path \<mapsto> File data), 0)"
  by (cases data) (auto simp: atomic_write_def atomic_write_trace_def Let_def sample_wenv_def)

text \<open>
  What the stores of the program (sessions, tasks, facts, inboxes) rely on: a save that
  reports success is what is read back, a save that fails leaves everything as it was.
\<close>

fun saves :: "('e \<Rightarrow> 'd \<Rightarrow> 's \<Rightarrow> 's \<times> int) \<Rightarrow> ('e \<times> 'd) list \<Rightarrow> 's \<Rightarrow> 's \<times> 'd list" where
  "saves save [] s = (s, [])"
| "saves save ((e, d) # eds) s =
     (let (s1, rc) = save e d s; (s2, ds) = saves save eds s1 in (s2, if rc = 0 then d # ds else ds))"

locale atomic_store =
  fixes save :: "'e \<Rightarrow> 'd \<Rightarrow> 's \<Rightarrow> 's \<times> int"
    and content :: "'s \<Rightarrow> 'd option"
  assumes save_ok: "save e d s = (s', 0) \<Longrightarrow> content s' = Some d"
    and save_fail: "save e d s = (s', rc) \<Longrightarrow> rc \<noteq> 0 \<Longrightarrow> s' = s"
begin

text \<open>After any sequence of saves, the content is the last one that was reported as saved.\<close>

lemma saves_last:
  "saves save eds s = (s', ds) \<Longrightarrow> content s' = (if ds = [] then content s else Some (last ds))"
proof (induction eds arbitrary: s ds)
  case (Cons ed eds)
  obtain e d where ed: "ed = (e, d)" by (cases ed)
  obtain s1 rc where s1: "save e d s = (s1, rc)" by fastforce
  obtain ds' where s2: "saves save eds s1 = (s', ds')" "ds = (if rc = 0 then d # ds' else ds')"
    using Cons.prems ed s1 by (auto split: prod.splits)
  note IH = Cons.IH [OF s2(1)]
  show ?case
  proof (cases "rc = 0")
    case True
    with IH s2 save_ok [of e d s s1] s1 show ?thesis by simp
  next
    case False
    with IH s2 save_fail [OF s1] show ?thesis by simp
  qed
qed simp

end

text \<open>
  The same for stores that grow: an addition that reports success is the new last item, one
  that fails changes nothing.
\<close>

fun adds :: "('e \<Rightarrow> 's \<Rightarrow> 's \<times> bool) \<Rightarrow> 'e list \<Rightarrow> 's \<Rightarrow> 's \<times> 'e list" where
  "adds add [] s = (s, [])"
| "adds add (e # es) s =
     (let (s1, ok) = add e s; (s2, added) = adds add es s1 in (s2, if ok then e # added else added))"

locale append_store =
  fixes add :: "'e \<Rightarrow> 's \<Rightarrow> 's \<times> bool"
    and item :: "'e \<Rightarrow> 'x"
    and items :: "'s \<Rightarrow> 'x list"
    and wf :: "'s \<Rightarrow> bool"
  assumes add_ok: "wf s \<Longrightarrow> add e s = (s', True) \<Longrightarrow> wf s' \<and> items s' = items s @ [item e]"
    and add_fail: "add e s = (s', False) \<Longrightarrow> s' = s"
begin

lemma adds_items: "wf s \<Longrightarrow> adds add es s = (s', added) \<Longrightarrow> wf s' \<and> items s' = items s @ map item added"
proof (induction es arbitrary: s added)
  case (Cons e es)
  obtain s1 ok where s1: "add e s = (s1, ok)" by fastforce
  obtain rest where s2: "adds add es s1 = (s', rest)" "added = (if ok then e # rest else rest)"
    using Cons.prems(2) s1 by (auto split: prod.splits)
  show ?case
  proof (cases ok)
    case True
    then have "wf s1" "items s1 = items s @ [item e]" using add_ok [OF Cons.prems(1), of e s1] s1 by simp_all
    with Cons.IH [OF _ s2(1)] s2(2) True show ?thesis by simp
  next
    case False
    then have s: "s1 = s" using add_fail [of e s s1] s1 by simp
    show ?thesis using Cons.IH [OF Cons.prems(1)] s2 False unfolding s by simp
  qed
qed simp

end

definition file_content :: "string \<Rightarrow> fs \<Rightarrow> string option" where
  "file_content path fs = (case file_slurp fs path of Slurped d \<Rightarrow> Some d | _ \<Rightarrow> None)"

interpretation fstore: atomic_store "\<lambda>e d fs. atomic_write e path d fs" "file_content path"
  for path :: string
proof
  fix e d fs fs' assume "atomic_write e path d fs = (fs', 0)"
  then show "file_content path fs' = Some d"
    using atomic_write_ok [of e path d fs fs'] by (simp add: file_content_def file_slurp_def)
next
  fix e d fs fs' and rc :: int assume "atomic_write e path d fs = (fs', rc)" "rc \<noteq> 0"
  then show "fs' = fs" by (rule atomic_write_fail)
qed

lemma atomic_write_trace_states:
  assumes "length path < 4199" "atomic_write_trace e path data fs = (tr, rc)" "g \<in> set tr"
  shows "g path = fs path \<or> g path = Some (File data)"
proof -
  obtain w ok where w: "write_all (wscript e) data = (w, ok)" by fastforce
  with write_all_prefix [OF w] tmp_name_neq [OF assms(1), of e] assms(2,3) show ?thesis
    by (auto simp: atomic_write_trace_def Let_def split: if_splits)
qed

section \<open>Directories\<close>

text \<open>The paths \<open>mkdirs\<close> hands to \<open>mkdir\<close>, in order: each prefix that ends before a slash.\<close>

definition mkdirs :: "string \<Rightarrow> string list" where
  "mkdirs path =
     (let tmp = buf_set 4096 path
      in map (\<lambda>i. take i tmp) (filter (\<lambda>i. tmp ! i = CHR ''/'') [1..<length tmp]) @ [tmp])"

definition mkdirs_for :: "string \<Rightarrow> string list" where
  "mkdirs_for path =
     (let tmp = buf_set 4096 path
      in if CHR ''/'' \<notin> set tmp then []
         else let parent = rev (tl (dropWhile (\<lambda>c. c \<noteq> CHR ''/'') (rev tmp)))
              in if parent = [] then [] else mkdirs parent)"

section \<open>Bounded appending\<close>

text \<open>
  \<open>buf_appendf(buf, sz, &off, ...)\<close>: \<open>buf\<close> is the text before \<open>off\<close> and \<open>s\<close> what the
  format gives.
\<close>

definition buf_appendf :: "nat \<Rightarrow> string \<Rightarrow> string \<Rightarrow> string" where
  "buf_appendf sz buf s =
     (if sz = 0 \<or> length buf \<ge> sz - 1 then buf else buf @ take (sz - length buf - 1) s)"

lemma buf_appendf_take:
  "length buf \<le> sz - 1 \<Longrightarrow> buf_appendf sz buf s = take (sz - 1) (buf @ s)"
  by (auto simp: buf_appendf_def)

lemma length_buf_appendf [cbuf]:
  "length buf \<le> sz - 1 \<Longrightarrow> length (buf_appendf sz buf s) \<le> sz - 1"
  by (simp add: buf_appendf_take)

lemma buf_appendf_append:
  "length buf \<le> sz - 1 \<Longrightarrow>
     buf_appendf sz (buf_appendf sz buf s) t = buf_appendf sz buf (s @ t)"
  using buf_appendf_take [OF length_buf_appendf, of buf sz s t]
  by (simp only: buf_appendf_take take_take_append append_assoc)

lemma fold_buf_appendf:
  "length buf \<le> sz - 1 \<Longrightarrow>
     fold (\<lambda>x b. buf_appendf sz b (f x)) xs buf = take (sz - 1) (buf @ concat (map f xs))"
proof (induction xs arbitrary: buf)
  case (Cons x xs)
  have "fold (\<lambda>x b. buf_appendf sz b (f x)) xs (buf_appendf sz buf (f x)) =
      take (sz - 1) (buf_appendf sz buf (f x) @ concat (map f xs))"
    using Cons.prems by (intro Cons.IH length_buf_appendf)
  also have "\<dots> = take (sz - 1) ((buf @ f x) @ concat (map f xs))"
    by (simp only: buf_appendf_take [OF Cons.prems] take_take_append)
  finally show ?case by simp
qed simp

section \<open>UTF-8\<close>

fun back_off :: "string \<Rightarrow> nat \<Rightarrow> nat" where
  "back_off s 0 = 0"
| "back_off s (Suc n) =
     (if Suc n < length s \<and> is_cont (s ! Suc n) then back_off s n else Suc n)"

definition utf8_prefix :: "string \<Rightarrow> nat \<Rightarrow> nat" where
  "utf8_prefix s mx =
     (let n = min (length s) mx in if n = mx then back_off s n else n)"

text \<open>Number of continuation bytes that a first byte announces; \<open>None\<close> for \<open>-1\<close>.\<close>

definition utf8_follow :: "char \<Rightarrow> nat option" where
  "utf8_follow c =
     (let b = byte c
      in if b < 128 then Some 0 else if b < 194 then None else if b < 224 then Some 1
         else if b < 240 then Some 2 else if b < 245 then Some 3 else None)"

definition utf8_ok :: "char \<Rightarrow> string \<Rightarrow> bool" where
  "utf8_ok c cs =
     (case utf8_follow c of None \<Rightarrow> False
      | Some n \<Rightarrow> n \<le> length cs \<and> list_all is_cont (take n cs)
          \<and> (n = 2 \<longrightarrow> \<not> (byte c = 224 \<and> byte (hd cs) < 160) \<and> \<not> (byte c = 237 \<and> byte (hd cs) > 159))
          \<and> (n = 3 \<longrightarrow> \<not> (byte c = 240 \<and> byte (hd cs) < 144) \<and> \<not> (byte c = 244 \<and> byte (hd cs) > 143)))"

function utf8_scrub :: "string \<Rightarrow> string" where
  "utf8_scrub [] = []"
| "utf8_scrub (c # cs) =
     (if utf8_ok c cs
      then let n = the (utf8_follow c) in c # take n cs @ utf8_scrub (drop n cs)
      else CHR ''?'' # utf8_scrub cs)"
  by pat_completeness auto
termination
  by (relation "measure length") auto

text \<open>The Unicode encoding form UTF-8, by code point.\<close>

definition scalar :: "nat \<Rightarrow> bool" where
  "scalar n \<longleftrightarrow> n < 1114112 \<and> \<not> (55296 \<le> n \<and> n \<le> 57343)"

definition utf8_encode :: "nat \<Rightarrow> string" where
  "utf8_encode n =
     map char_of
       (if n < 128 then [n]
        else if n < 2048 then [192 + n div 64, 128 + n mod 64]
        else if n < 65536 then [224 + n div 4096, 128 + n div 64 mod 64, 128 + n mod 64]
        else [240 + n div 262144, 128 + n div 4096 mod 64, 128 + n div 64 mod 64, 128 + n mod 64])"

inductive utf8_text :: "string \<Rightarrow> bool" where
  utf8_nil: "utf8_text []"
| utf8_char: "scalar n \<Longrightarrow> utf8_text s \<Longrightarrow> utf8_text (utf8_encode n @ s)"

lemma utf8_encode_1: "n < 128 \<Longrightarrow> utf8_encode n = [char_of n]"
  and utf8_encode_2: "128 \<le> n \<Longrightarrow> n < 2048 \<Longrightarrow>
    utf8_encode n = [char_of (192 + n div 64), char_of (128 + n mod 64)]"
  and utf8_encode_3: "2048 \<le> n \<Longrightarrow> n < 65536 \<Longrightarrow>
    utf8_encode n = [char_of (224 + n div 4096), char_of (128 + n div 64 mod 64), char_of (128 + n mod 64)]"
  and utf8_encode_4: "65536 \<le> n \<Longrightarrow>
    utf8_encode n = [char_of (240 + n div 262144), char_of (128 + n div 4096 mod 64),
                     char_of (128 + n div 64 mod 64), char_of (128 + n mod 64)]"
  by (simp_all add: utf8_encode_def)

lemma utf8_encode_nonempty [simp]: "utf8_encode n \<noteq> []"
  by (simp add: utf8_encode_def)

lemma is_cont_tail: "is_cont (char_of (128 + n mod 64 :: nat))"
  using mod_less_divisor [of 64 n] by (simp add: is_cont_def)

lemma utf8_encode_conts: "list_all is_cont (tl (utf8_encode n))"
  using is_cont_tail by (simp add: utf8_encode_def)

lemma scalar_cases [consumes 1]:
  assumes "scalar n"
  obtains "n < 128" | "128 \<le> n" "n < 2048"
    | "2048 \<le> n" "n < 65536" "n < 55296 \<or> 57343 < n" | "65536 \<le> n" "n < 1114112"
  using assms unfolding scalar_def by force

lemma div_digit: "(b::nat) < k \<Longrightarrow> (a * k + b) div k = a"
  and mod_digit: "(b::nat) < k \<Longrightarrow> (a * k + b) mod k = b"
  by simp_all

lemma encode_2:
  assumes "2 \<le> a" "a < 32" "x < 64"
  shows "scalar (a * 64 + x) \<and> utf8_encode (a * 64 + x) = [char_of (192 + a), char_of (128 + x)]"
  using assms by (simp add: scalar_def utf8_encode_2 div_digit mod_digit)

lemma div_4096: "(n :: nat) div 4096 = n div 64 div 64"
  and div_262144: "(n :: nat) div 262144 = n div 64 div 64 div 64"
  by (simp_all flip: div_mult2_eq)

lemmas digits64 = div_4096 div_262144 div_digit mod_digit

lemma encode_3:
  assumes "a < 16" "x < 64" "y < 64" "a = 0 \<Longrightarrow> 32 \<le> x" "a = 13 \<Longrightarrow> x < 32"
  shows "scalar ((a * 64 + x) * 64 + y) \<and>
    utf8_encode ((a * 64 + x) * 64 + y) = [char_of (224 + a), char_of (128 + x), char_of (128 + y)]"
proof -
  define n where "n = (a * 64 + x) * 64 + y"
  have "n mod 64 = y" "n div 4096 = a" "n div 64 mod 64 = x"
    unfolding n_def using assms by (simp_all only: digits64)
  moreover have "n < 65536" unfolding n_def using assms by simp
  moreover have "2048 \<le> n" unfolding n_def using assms by (cases "a = 0") auto
  moreover consider "a < 13" | "a = 13" | "13 < a" by linarith
  then have "n < 55296 \<or> 57343 < n"
    unfolding n_def using assms by cases auto
  ultimately show ?thesis
    unfolding n_def [symmetric] by (auto simp: scalar_def utf8_encode_3)
qed

lemma encode_4:
  assumes "a < 5" "x < 64" "y < 64" "z < 64" "a = 0 \<Longrightarrow> 16 \<le> x" "a = 4 \<Longrightarrow> x < 16"
  shows "scalar (((a * 64 + x) * 64 + y) * 64 + z) \<and>
    utf8_encode (((a * 64 + x) * 64 + y) * 64 + z) =
      [char_of (240 + a), char_of (128 + x), char_of (128 + y), char_of (128 + z)]"
proof -
  define n where "n = ((a * 64 + x) * 64 + y) * 64 + z"
  have "n mod 64 = z" "n div 64 mod 64 = y" "n div 4096 mod 64 = x" "n div 262144 = a"
    unfolding n_def using assms by (simp_all only: digits64)
  moreover have "65536 \<le> n" unfolding n_def using assms by (cases "a = 0") auto
  moreover have "n < 1114112" unfolding n_def using assms by (cases "a = 4") auto
  ultimately show ?thesis
    unfolding n_def [symmetric] by (simp add: scalar_def utf8_encode_4)
qed

lemma is_cont_bits: "is_cont c \<Longrightarrow> \<exists>x<64 :: nat. byte c = 128 + x \<and> c = char_of (128 + x)"
  by (intro exI [of _ "byte c - 128"]) (auto simp: is_cont_def)

lemma utf8_ok_cases:
  assumes "utf8_ok c cs"
  obtains (one) "byte c < 128" "utf8_follow c = Some 0"
  | (two) a :: nat and x xs where "c = char_of (192 + a)" "2 \<le> a" "a < 32" "cs = x # xs" "is_cont x"
      "utf8_follow c = Some 1"
  | (three) a :: nat and x y xs where "c = char_of (224 + a)" "a < 16" "cs = x # y # xs" "is_cont x" "is_cont y"
      "a = 0 \<Longrightarrow> 160 \<le> byte x" "a = 13 \<Longrightarrow> byte x < 160" "utf8_follow c = Some 2"
  | (four) a :: nat and x y z xs where "c = char_of (240 + a)" "a < 5" "cs = x # y # z # xs"
      "is_cont x" "is_cont y" "is_cont z"
      "a = 0 \<Longrightarrow> 144 \<le> byte x" "a = 4 \<Longrightarrow> byte x < 144" "utf8_follow c = Some 3"
proof -
  from assms obtain k where k: "utf8_follow c = Some k" "k \<le> length cs" "list_all is_cont (take k cs)"
    by (auto simp: utf8_ok_def split: option.splits)
  then consider "k = 0" "byte c < 128" | "k = 1" "194 \<le> byte c" "byte c < 224"
    | "k = 2" "224 \<le> byte c" "byte c < 240" | "k = 3" "240 \<le> byte c" "byte c < 245"
    by (auto simp: utf8_follow_def Let_def split: if_splits)
  then show ?thesis
  proof cases
    case 1 with k show ?thesis by (simp add: one)
  next
    case 2 with k show ?thesis
      by (intro two [of "byte c - 192" "hd cs" "tl cs"]; cases cs) auto
  next
    case 3 with k assms show ?thesis
      by (intro three [of "byte c - 224" "hd cs" "cs ! 1" "drop 2 cs"]; cases cs; cases "tl cs")
         (auto simp: utf8_ok_def)
  next
    case 4 with k assms show ?thesis
      by (intro four [of "byte c - 240" "hd cs" "cs ! 1" "cs ! 2" "drop 3 cs"];
          cases cs; cases "tl cs"; cases "tl (tl cs)") (auto simp: utf8_ok_def)
  qed
qed

lemma utf8_ok_encode:
  assumes "utf8_ok c cs"
  shows "\<exists>n. scalar n \<and> c # take (the (utf8_follow c)) cs = utf8_encode n"
  using assms
proof (cases rule: utf8_ok_cases)
  case one
  then show ?thesis by (intro exI [of _ "byte c"]) (simp add: scalar_def utf8_encode_1)
next
  case (two a x xs)
  moreover obtain u :: nat where "u < 64" "x = char_of (128 + u)"
    using is_cont_bits [OF two(5)] by blast
  ultimately show ?thesis using encode_2 [of a u] by fastforce
next
  case (three a x y xs)
  moreover obtain u v :: nat where "u < 64" "x = char_of (128 + u)" "byte x = 128 + u"
    "v < 64" "y = char_of (128 + v)"
    using is_cont_bits [OF three(4)] is_cont_bits [OF three(5)] by blast
  ultimately show ?thesis using encode_3 [of a u v] by (fastforce simp: numeral_2_eq_2)
next
  case (four a x y z xs)
  moreover obtain u v w :: nat where "u < 64" "x = char_of (128 + u)" "byte x = 128 + u"
    "v < 64" "y = char_of (128 + v)" "w < 64" "z = char_of (128 + w)"
    using is_cont_bits [OF four(4)] is_cont_bits [OF four(5)] is_cont_bits [OF four(6)] by blast
  ultimately show ?thesis using encode_4 [of a u v w] by (fastforce simp: numeral_3_eq_3)
qed

lemma question_mark: "utf8_encode 63 = ''?''"
  by code_simp

lemma utf8_scrub_text: "utf8_text (utf8_scrub s)"
proof (induction s rule: utf8_scrub.induct)
  case (2 c cs)
  show ?case
  proof (cases "utf8_ok c cs")
    case True
    then obtain n where "scalar n" "c # take (the (utf8_follow c)) cs = utf8_encode n"
      using utf8_ok_encode by blast
    with 2(1) True show ?thesis
      using utf8_char [of n "utf8_scrub (drop (the (utf8_follow c)) cs)"]
      by (simp add: Let_def) (metis append_Cons)
  next
    case False
    with 2(2) show ?thesis
      using utf8_char [of 63 "utf8_scrub cs"] by (simp add: scalar_def question_mark)
  qed
qed (simp add: utf8_nil)

lemma length_utf8_scrub: "length (utf8_scrub s) = length s"
  by (induction s rule: utf8_scrub.induct) (auto simp: Let_def utf8_ok_def split: option.splits)

lemma utf8_encode_ok:
  assumes "scalar n" "utf8_encode n = c # cs"
  shows "utf8_follow c = Some (length cs) \<and> utf8_ok c (cs @ s)"
  using assms(1)
proof (cases rule: scalar_cases)
  case 1
  with assms(2) have "byte c < 128" "cs = []" by (auto simp: utf8_encode_1)
  then show ?thesis by (simp add: utf8_ok_def utf8_follow_def)
next
  case 2
  then have "2 \<le> n div 64" "n div 64 < 32"
    by (simp_all add: div_le_mono div_less_iff_less_mult less_eq_div_iff_mult_less_eq)
  with 2 assms(2) show ?thesis
    by (auto simp: utf8_encode_2 utf8_ok_def utf8_follow_def is_cont_tail)
next
  case 3
  define m where "m = n div 64"
  define a where "a = m div 64"
  have m: "32 \<le> m" "m < 1024" "m < 864 \<or> 895 < m"
    using 3 by (auto simp: m_def div_less_iff_less_mult less_eq_div_iff_mult_less_eq)
  have a: "a < 16" "m = a * 64 + m mod 64" "m mod 64 < 64"
    using m by (simp_all add: a_def div_less_iff_less_mult)
  have "a = 0 \<Longrightarrow> 32 \<le> m mod 64" "a = 13 \<Longrightarrow> m mod 64 < 32"
    using a m by linarith+
  with 3 assms(2) a show ?thesis
    by (auto simp: utf8_encode_3 utf8_ok_def utf8_follow_def is_cont_tail div_4096
        m_def [symmetric] a_def [symmetric])
next
  case 4
  define m where "m = n div 64 div 64"
  define a where "a = m div 64"
  have m: "16 \<le> m" "m < 272"
    using 4 by (auto simp: m_def div_less_iff_less_mult less_eq_div_iff_mult_less_eq)
  have a: "a < 5" "m = a * 64 + m mod 64" "m mod 64 < 64"
    using m by (simp_all add: a_def div_less_iff_less_mult)
  have "a = 0 \<Longrightarrow> 16 \<le> m mod 64" "a = 4 \<Longrightarrow> m mod 64 < 16"
    using a m by linarith+
  with 4 assms(2) a show ?thesis
    by (auto simp: utf8_encode_4 utf8_ok_def utf8_follow_def is_cont_tail div_4096 div_262144
        m_def [symmetric] a_def [symmetric])
qed

lemma utf8_scrub_id: "utf8_text s \<Longrightarrow> utf8_scrub s = s"
proof (induction rule: utf8_text.induct)
  case (utf8_char n s)
  obtain c cs where c: "utf8_encode n = c # cs"
    by (cases "utf8_encode n") auto
  with utf8_encode_ok [OF utf8_char(1) c, of s] utf8_char(3) show ?case
    by simp
qed simp

lemma utf8_scrub_idem: "utf8_scrub (utf8_scrub s) = utf8_scrub s"
  by (rule utf8_scrub_id [OF utf8_scrub_text])

text \<open>Where a text may be cut: at its ends and before a byte that is no continuation.\<close>

definition utf8_boundary :: "string \<Rightarrow> nat \<Rightarrow> bool" where
  "utf8_boundary s k \<longleftrightarrow> k = 0 \<or> k = length s \<or> (k < length s \<and> \<not> is_cont (s ! k))"

lemma back_off_props:
  "n \<le> length s \<Longrightarrow> back_off s n \<le> n \<and> utf8_boundary s (back_off s n) \<and>
     (\<forall>k\<le>n. utf8_boundary s k \<longrightarrow> k \<le> back_off s n)"
proof (induction s n rule: back_off.induct)
  case (2 s n)
  show ?case
  proof (cases "Suc n < length s \<and> is_cont (s ! Suc n)")
    case True
    then have "\<not> utf8_boundary s (Suc n)" by (auto simp: utf8_boundary_def)
    with 2 True show ?thesis by (auto simp: le_Suc_eq)
  next
    case False
    with 2 show ?thesis by (auto simp: utf8_boundary_def)
  qed
qed (simp add: utf8_boundary_def)

lemma utf8_prefix_props:
  "utf8_prefix s mx \<le> mx \<and> utf8_prefix s mx \<le> length s \<and> utf8_boundary s (utf8_prefix s mx) \<and>
     (\<forall>k\<le>mx. utf8_boundary s k \<longrightarrow> k \<le> utf8_prefix s mx)"
proof (cases "mx \<le> length s")
  case True
  with back_off_props [OF True] show ?thesis
    by (auto simp: utf8_prefix_def Let_def)
next
  case False
  then show ?thesis by (auto simp: utf8_prefix_def Let_def utf8_boundary_def)
qed

lemma utf8_text_Cons:
  assumes "utf8_text (c # s)"
  obtains n cs t where "scalar n" "utf8_encode n = c # cs" "s = cs @ t" "utf8_text t"
  using assms
proof cases
  case (utf8_char n t)
  then show ?thesis by (cases "utf8_encode n") (auto intro: that)
qed

lemma utf8_text_head: "utf8_text (c # s) \<Longrightarrow> \<not> is_cont c"
  by (erule utf8_text_Cons)
     (auto dest!: utf8_encode_ok simp: utf8_follow_def is_cont_def Let_def split: if_splits)

lemma utf8_text_tl: "utf8_text (c # s) \<Longrightarrow> byte c < 128 \<Longrightarrow> utf8_text s"
  by (erule utf8_text_Cons) (auto dest!: utf8_encode_ok simp: utf8_follow_def Let_def)

lemma utf8_text_split:
  "utf8_text s \<Longrightarrow> utf8_boundary s k \<Longrightarrow> utf8_text (take k s) \<and> utf8_text (drop k s)"
proof (induction arbitrary: k rule: utf8_text.induct)
  case (utf8_char n s)
  let ?e = "utf8_encode n"
  consider "k = 0" | "0 < k" "k < length ?e" | "length ?e \<le> k" by linarith
  then show ?case
  proof cases
    case 2
    then have "is_cont ((?e @ s) ! k)"
      using utf8_encode_conts [of n]
      by (cases "?e") (auto simp: nth_append nth_Cons' list_all_length)
    with 2 utf8_char(4) show ?thesis by (auto simp: utf8_boundary_def)
  next
    case 3
    with utf8_char(4) have "utf8_boundary s (k - length ?e)"
      by (auto simp: utf8_boundary_def nth_append)
    with 3 utf8_char show ?thesis
      by (auto intro: utf8_text.utf8_char)
  qed (use utf8_char in \<open>auto intro: utf8_text.intros\<close>)
qed (simp add: utf8_nil)

text \<open>A text has a place to cut in every window of four bytes.\<close>

lemma length_utf8_encode: "length (utf8_encode n) \<le> 4"
  by (simp add: utf8_encode_def)

lemma utf8_boundary_near:
  "utf8_text s \<Longrightarrow> k + 3 \<le> length s \<Longrightarrow> \<exists>j. k \<le> j \<and> j \<le> k + 3 \<and> utf8_boundary s j"
proof (induction arbitrary: k rule: utf8_text.induct)
  case (utf8_char n s)
  let ?e = "utf8_encode n"
  have start: "utf8_boundary (?e @ s) (length ?e)"
    using utf8_char(2) utf8_text_head [of "hd s" "tl s"]
    by (cases s rule: list.exhaust) (auto simp: utf8_boundary_def nth_append)
  consider "k = 0" | "0 < k" "k < length ?e" | "length ?e \<le> k" by linarith
  then show ?case
  proof cases
    case 1
    then show ?thesis by (intro exI [of _ 0]) (simp add: utf8_boundary_def)
  next
    case 2
    then show ?thesis using start length_utf8_encode [of n] by (intro exI [of _ "length ?e"]) auto
  next
    case 3
    then have "k - length ?e + 3 \<le> length s" using utf8_char(4) by simp
    then obtain j where j: "k - length ?e \<le> j" "j \<le> k - length ?e + 3" "utf8_boundary s j"
      using utf8_char(3) by blast
    then have "utf8_boundary (?e @ s) (length ?e + j)"
      using start by (auto simp: utf8_boundary_def nth_append)
    with 3 j show ?thesis by (intro exI [of _ "length ?e + j"]) auto
  qed
qed (simp add: utf8_boundary_def)

lemma utf8_text_append: "utf8_text a \<Longrightarrow> utf8_text b \<Longrightarrow> utf8_text (a @ b)"
  by (induction rule: utf8_text.induct) (simp_all add: utf8_text.utf8_char)

lemma utf8_text_ascii: "list_all (\<lambda>c. byte c < 128) s \<Longrightarrow> utf8_text s"
proof (induction s)
  case (Cons c s)
  then have "utf8_text (utf8_encode (byte c) @ s)" by (intro utf8_char) (auto simp: scalar_def)
  with Cons show ?case by (simp add: utf8_encode_1)
qed (simp add: utf8_nil)

lemma utf8_encode_high: "128 \<le> n \<Longrightarrow> scalar n \<Longrightarrow> c \<in> set (utf8_encode n) \<Longrightarrow> 128 \<le> byte c"
proof -
  assume n: "128 \<le> n" "scalar n" and c: "c \<in> set (utf8_encode n)"
  have "n div 64 < 64" if "n < 2048" using that by (simp add: div_less_iff_less_mult)
  moreover have "n div 4096 < 32" if "n < 65536" using that by (simp add: div_less_iff_less_mult)
  moreover have "n div 262144 < 16" using n(2) by (simp add: scalar_def div_less_iff_less_mult)
  moreover have "x mod 64 < 128" for x :: nat using mod_less_divisor [of 64 x] by linarith
  ultimately show ?thesis using n c by (auto simp: utf8_encode_def split: if_splits)
qed

text \<open>Replacing ASCII characters by ASCII characters keeps a text.\<close>

lemma utf8_text_map:
  assumes "\<And>c. byte c < 128 \<Longrightarrow> byte (f c) < 128" "\<And>c. 128 \<le> byte c \<Longrightarrow> f c = c"
  shows "utf8_text s \<Longrightarrow> utf8_text (map f s)"
proof (induction rule: utf8_text.induct)
  case (utf8_char n s)
  show ?case
  proof (cases "n < 128")
    case True
    then have "list_all (\<lambda>c. byte c < 128) (map f (utf8_encode n))"
      using assms(1) by (simp add: utf8_encode_1)
    with utf8_char show ?thesis by (simp add: utf8_text_append utf8_text_ascii)
  next
    case False
    then have "map f (utf8_encode n) = utf8_encode n"
      using assms(2) utf8_encode_high [OF _ utf8_char(1)] by (intro map_idI) auto
    with utf8_char show ?thesis by (simp add: utf8_text.utf8_char)
  qed
qed (simp add: utf8_nil)

lemma utf8_text_prefix: "utf8_text s \<Longrightarrow> utf8_text (take (utf8_prefix s mx) s)"
  using utf8_text_split utf8_prefix_props by blast

section \<open>Time\<close>

text \<open>\<open>%0<w>d\<close>: the sign counts for the width.\<close>

definition fmt_0d :: "nat \<Rightarrow> int \<Rightarrow> string" where
  "fmt_0d w i = (if i < 0 then CHR ''-'' # dec_pad (w - 1) (nat (- i)) else dec_pad w (nat i))"

definition format_time :: "tzone \<Rightarrow> time \<Rightarrow> bool \<Rightarrow> nat \<Rightarrow> string" where
  "format_time tz t loc sz =
     (let u = (if loc then localtime_r tz t else gmtime_r t)
      in buf_set sz (fmt_0d 4 (tm_year u + 1900) @ ''-'' @ fmt_0d 2 (tm_mon u + 1) @ ''-'' @
           fmt_0d 2 (tm_mday u) @ ''T'' @ fmt_0d 2 (tm_hour u) @ '':'' @ fmt_0d 2 (tm_min u) @
           '':'' @ fmt_0d 2 (tm_sec u) @ (if loc then '''' else ''Z'')))"

definition now_iso :: "tzone \<Rightarrow> time \<Rightarrow> nat \<Rightarrow> string" where
  "now_iso tz now sz = format_time tz now False sz"

section \<open>Properties\<close>

text \<open>
  (C11) Replacing a file is atomic: in every state of the file system that another process can see
  during \<open>atomic_write\<close>, the path holds its old content or the complete new content, however
  writes are cut or fail. On success the only change is the new content; on failure nothing
  has changed and no temporary file is left.
\<close>

theorem atomic_write_atomic:
  assumes "length path < 4199" "atomic_write_trace e path data fs = (tr, rc)"
  shows "(\<forall>g \<in> set tr. g path = fs path \<or> g path = Some (File data)) \<and>
     (rc = 0 \<longrightarrow> last (fs # tr) = fs(path \<mapsto> File data)) \<and> (rc \<noteq> 0 \<longrightarrow> last (fs # tr) = fs)"
proof -
  have w: "atomic_write e path data fs = (last (fs # tr), rc)" using assms(2) by (simp add: atomic_write_def)
  have "last (fs # tr) = fs(path \<mapsto> File data)" if "rc = 0"
  proof -
    have "fs(tmp_name e path := None) = fs" using atomic_write_ok [OF w [unfolded that]] by (simp add: fun_upd_idem)
    then show ?thesis using atomic_write_ok [OF w [unfolded that]] by simp
  qed
  moreover have "last (fs # tr) = fs" if "rc \<noteq> 0" using atomic_write_fail [OF w that] .
  ultimately show ?thesis using atomic_write_trace_states [OF assms] by blast
qed

theorem atomic_write_atomic_witness:
  "\<exists>tr. atomic_write_trace \<lparr>open_err = False, wscript = [Wrote 1, EIntr, IoErr], rename_err = False, wpid = 7, wseq = 2\<rparr>
      ''f'' ''new'' [''f'' \<mapsto> File ''old''] = (tr, -1) \<and> last ([''f'' \<mapsto> File ''old''] # tr) = [''f'' \<mapsto> File ''old'']"
proof -
  let ?e = "\<lparr>open_err = False, wscript = [Wrote 1, EIntr, IoErr], rename_err = False, wpid = 7, wseq = 2\<rparr>"
  obtain tr rc where t: "atomic_write_trace ?e ''f'' ''new'' [''f'' \<mapsto> File ''old''] = (tr, rc)" by fastforce
  then have "rc = -1" by (auto simp: atomic_write_trace_def Let_def split: if_splits)
  with t atomic_write_atomic [OF _ t] show ?thesis by simp
qed

text \<open>
  Whatever sequence of saves of a file succeeds or fails, reading it gives the content of the
  last save that reported success.
\<close>

theorem atomic_writes_last:
  assumes "saves (\<lambda>e d fs. atomic_write e path d fs) eds fs = (fs', ds)" "ds \<noteq> []"
  shows "file_slurp fs' path = Slurped (last ds)"
  using fstore.saves_last [OF assms(1)] assms(2) by (auto simp: file_content_def split: slurp.splits)

theorem atomic_writes_last_witness:
  "\<exists>fs'. saves (\<lambda>e d fs. atomic_write e ''f'' d fs)
      [(\<lparr>open_err = False, wscript = [], rename_err = False, wpid = 7, wseq = 2\<rparr>, ''a''),
       (\<lparr>open_err = True, wscript = [], rename_err = False, wpid = 7, wseq = 3\<rparr>, ''b'')] (\<lambda>_. None) = (fs', [''a''])
     \<and> file_slurp fs' ''f'' = Slurped ''a''"
proof -
  let ?s = "saves (\<lambda>e d fs. atomic_write e ''f'' d fs)
      [(\<lparr>open_err = False, wscript = [], rename_err = False, wpid = 7, wseq = 2\<rparr>, ''a''),
       (\<lparr>open_err = True, wscript = [], rename_err = False, wpid = 7, wseq = 3\<rparr>, ''b'')] (\<lambda>_. None)"
  obtain fs' where s: "?s = (fs', [''a''])"
    by (simp add: atomic_write_def atomic_write_trace_def Let_def)
  then show ?thesis using atomic_writes_last [OF s] by simp
qed

text \<open>
  \<open>utf8_scrub\<close> makes any bytes valid UTF-8 in the sense of the Unicode standard (no overlong
  forms, no surrogates, nothing past U+10FFFF) without changing the length, and leaves valid
  text alone.
\<close>

theorem utf8_scrub_sound:
  "utf8_text (utf8_scrub s) \<and> length (utf8_scrub s) = length s \<and> (utf8_text s \<longrightarrow> utf8_scrub s = s)"
  using utf8_scrub_text length_utf8_scrub utf8_scrub_id by blast

theorem utf8_scrub_sound_witness:
  "utf8_text (utf8_scrub [CHR 0xC3, CHR 0xA9]) \<and> utf8_scrub (utf8_scrub [CHR 0xC3, CHR 0x28]) = utf8_scrub [CHR 0xC3, CHR 0x28]"
  using utf8_scrub_sound [of "[CHR 0xC3, CHR 0xA9]"] utf8_scrub_sound [of "[CHR 0xC3, CHR 0x28]"]
    utf8_scrub_sound [of "utf8_scrub [CHR 0xC3, CHR 0x28]"] by blast

text \<open>
  \<open>utf8_prefix\<close> is the longest cut of at most \<open>max\<close> bytes that does not fall inside a
  character; a valid text stays valid when cut there.
\<close>

theorem utf8_prefix_longest:
  "utf8_prefix s mx \<le> mx \<and> utf8_boundary s (utf8_prefix s mx) \<and>
   (\<forall>k. k \<le> mx \<and> utf8_boundary s k \<longrightarrow> k \<le> utf8_prefix s mx) \<and>
   (utf8_text s \<longrightarrow> utf8_text (take (utf8_prefix s mx) s))"
  using utf8_prefix_props [of s mx] utf8_text_prefix [of s mx] by blast

theorem utf8_prefix_longest_witness:
  "utf8_prefix [CHR ''a'', CHR 0xC3, CHR 0xA9] 2 = 1 \<and> utf8_text (take 1 [CHR ''a'', CHR 0xC3, CHR 0xA9])"
proof -
  have "utf8_scrub [CHR ''a'', CHR 0xC3, CHR 0xA9] = [CHR ''a'', CHR 0xC3, CHR 0xA9]" by code_simp
  then have "utf8_text [CHR ''a'', CHR 0xC3, CHR 0xA9]" using utf8_scrub_text by metis
  moreover have "utf8_prefix [CHR ''a'', CHR 0xC3, CHR 0xA9] 2 = 1" by code_simp
  ultimately show ?thesis using utf8_prefix_longest [of "[CHR ''a'', CHR 0xC3, CHR 0xA9]" 2] by simp
qed

end
