(* ===== verification/Ini.thy ===== *)
theory Ini
  imports Util
begin

text \<open>
  \<open>src/ini.c\<close>: the configuration parser. A file is its bytes; \<open>fgets\<close> hands them out in
  pieces of at most 4095 bytes, a logical line joins the physical lines that end in a
  backslash, and each logical line is a comment, a section header or an entry. Memory
  allocation succeeds.

  The lemmas show that loading inverts printing for entries that can be printed, that the
  entry array never outgrows its capacity, and that lookup returns the first entry of a
  key. Two facts about real configuration files follow from the same definitions: a
  comment after a value belongs to the value, and a physical line of more than 4095 bytes
  is read as two lines.
\<close>

abbreviation (input) TC_BUF_LG :: nat where "TC_BUF_LG \<equiv> 4096"
abbreviation (input) TC_BUF_XL :: nat where "TC_BUF_XL \<equiv> 32768"

record ini_entry =
  ie_section :: string
  ie_key :: string
  ie_value :: string

record ini_t =
  ini_entries :: "ini_entry list"
  ini_capacity :: nat

section \<open>Reading lines\<close>

definition blank :: "char \<Rightarrow> bool" where
  "blank c \<longleftrightarrow> c = SP \<or> c = TAB"

definition rstrip :: "(char \<Rightarrow> bool) \<Rightarrow> string \<Rightarrow> string" where
  "rstrip P s = rev (dropWhile P (rev s))"

definition ini_rstrip :: "string \<Rightarrow> string" where
  "ini_rstrip s = rstrip (\<lambda>c. c = LF \<or> c = CR \<or> c = SP \<or> c = TAB) s"

definition ini_append :: "nat \<Rightarrow> string \<Rightarrow> string \<Rightarrow> string" where
  "ini_append dst_sz dst src =
     (if length dst + 1 \<ge> dst_sz then dst else dst @ take (dst_sz - length dst - 1) src)"

definition fgets :: "nat \<Rightarrow> string \<Rightarrow> (string \<times> string) option" where
  "fgets n bs =
     (if bs = [] \<or> n < 2 then None
      else let line = (if LF \<in> set bs then Suc (length (before LF bs)) else length bs);
               k = min line (n - 1)
           in Some (take k bs, drop k bs))"

lemma fgets_shrinks: "fgets n bs = Some (l, r) \<Longrightarrow> length r < length bs"
  by (auto simp: fgets_def Let_def split: if_splits)

text \<open>One physical line: the text without its line end, and whether it is continued.\<close>

definition ini_physical :: "string \<Rightarrow> string \<times> bool" where
  "ini_physical piece =
     (let l = rstrip (\<lambda>c. c = LF \<or> c = CR) (cstr piece)
      in if l \<noteq> [] \<and> last l = BSL then (butlast l, True) else (l, False))"

function ini_read_logical_line :: "string \<Rightarrow> string \<Rightarrow> bool \<Rightarrow> nat \<Rightarrow> string \<times> bool \<times> string" where
  "ini_read_logical_line f out got out_sz =
     (case fgets TC_BUF_LG f of
        None \<Rightarrow> (out, got, f)
      | Some (piece, f') \<Rightarrow>
          (let (l, continued) = ini_physical piece; out' = ini_append out_sz out l
           in if continued then ini_read_logical_line f' out' True out_sz else (out', True, f')))"
  by pat_completeness auto
termination
  by (relation "measure (\<lambda>(f, _). length f)") (auto dest: fgets_shrinks)

declare ini_read_logical_line.simps [simp del]

lemma ini_read_logical_line_shrinks:
  "ini_read_logical_line f out got sz = (l, True, r) \<Longrightarrow> \<not> got \<Longrightarrow> length r < length f"
proof -
  have "length r \<le> length f \<and> (\<not> got \<longrightarrow> length r < length f)"
    if "ini_read_logical_line f out got sz = (l, True, r)" for got
    using that
  proof (induction f out got sz rule: ini_read_logical_line.induct)
    case (1 f out got sz)
    show ?case
    proof (cases "fgets TC_BUF_LG f")
      case None
      with 1(2) show ?thesis by (simp add: ini_read_logical_line.simps [of f])
    next
      case (Some p)
      obtain piece f' where p: "p = (piece, f')" by fastforce
      obtain t c where t: "ini_physical piece = (t, c)" by fastforce
      have "length f' < length f" using Some p by (simp add: fgets_shrinks)
      moreover have "length r \<le> length f'"
        using 1 Some p t by (cases c) (auto simp: ini_read_logical_line.simps [of f])
      ultimately show ?thesis by simp
    qed
  qed
  then show "ini_read_logical_line f out got sz = (l, True, r) \<Longrightarrow> \<not> got \<Longrightarrow> length r < length f"
    by blast
qed

section \<open>Values\<close>

fun ini_unescape :: "nat \<Rightarrow> nat \<Rightarrow> string \<Rightarrow> string" where
  "ini_unescape sz di [] = []"
| "ini_unescape sz di [c] = (if di + 1 < sz then [c] else [])"
| "ini_unescape sz di (c # x # cs) =
     (if di + 1 \<ge> sz then []
      else if c \<noteq> BSL then c # ini_unescape sz (di + 1) (x # cs)
      else if x = CHR ''n'' then LF # ini_unescape sz (di + 1) cs
      else if x = CHR ''r'' then CR # ini_unescape sz (di + 1) cs
      else if x = CHR ''t'' then TAB # ini_unescape sz (di + 1) cs
      else if x = BSL then BSL # ini_unescape sz (di + 1) cs
      else if x = DQ then DQ # ini_unescape sz (di + 1) cs
      else if di + 2 < sz then BSL # x # ini_unescape sz (di + 2) cs
      else BSL # ini_unescape sz (di + 1) cs)"

section \<open>Loading\<close>

definition ini_add :: "ini_t \<Rightarrow> string \<Rightarrow> string \<Rightarrow> string \<Rightarrow> ini_t" where
  "ini_add ini sec key val =
     (let cap = (if length (ini_entries ini) \<ge> ini_capacity ini then ini_capacity ini * 2
                 else ini_capacity ini)
      in \<lparr>ini_entries = ini_entries ini @
            [\<lparr>ie_section = buf_set 64 sec, ie_key = buf_set 64 key,
              ie_value = ini_unescape TC_BUF_XL 0 val\<rparr>],
          ini_capacity = cap\<rparr>)"

definition ini_line :: "string \<Rightarrow> ini_t \<Rightarrow> string \<Rightarrow> string \<times> ini_t" where
  "ini_line sec ini raw =
     (let p = dropWhile blank (ini_rstrip raw)
      in if p = [] \<or> hd p = CHR '';'' \<or> hd p = CHR ''#'' then (sec, ini)
         else if hd p = CHR ''['' then
           (if CHR '']'' \<in> set p then (buf_set 64 (tl (before (CHR '']'') p)), ini) else (sec, ini))
         else case strchr (CHR ''='') p of
                None \<Rightarrow> (sec, ini)
              | Some eq \<Rightarrow> (sec, ini_add ini sec (rstrip blank (before (CHR ''='') p))
                                   (dropWhile blank (tl eq))))"

function ini_lines :: "string \<Rightarrow> string \<Rightarrow> ini_t \<Rightarrow> ini_t" where
  "ini_lines f sec ini =
     (case ini_read_logical_line f [] False TC_BUF_XL of
        (line, got, f') \<Rightarrow>
          if \<not> got then ini
          else let (sec', ini') = ini_line sec ini line in ini_lines f' sec' ini')"
  by pat_completeness auto
termination
  by (relation "measure (\<lambda>(f, _). length f)") (auto dest: ini_read_logical_line_shrinks [OF sym])

declare ini_lines.simps [simp del]

definition ini_load :: "fs \<Rightarrow> string \<Rightarrow> ini_t option" where
  "ini_load fs path =
     (case fs path of
        Some (File bytes) \<Rightarrow> Some (ini_lines bytes [] \<lparr>ini_entries = [], ini_capacity = 64\<rparr>)
      | _ \<Rightarrow> None)"

definition ini_get :: "ini_t option \<Rightarrow> string \<Rightarrow> string \<Rightarrow> string option" where
  "ini_get ini sec key =
     (case ini of None \<Rightarrow> None
      | Some i \<Rightarrow> map_option ie_value
                   (find (\<lambda>e. ie_section e = sec \<and> ie_key e = key) (ini_entries i)))"

definition ini_get_int :: "ini_t option \<Rightarrow> string \<Rightarrow> string \<Rightarrow> int \<Rightarrow> int" where
  "ini_get_int ini sec key dflt = (case ini_get ini sec key of None \<Rightarrow> dflt | Some v \<Rightarrow> atoi v)"

definition ini_get_bool :: "ini_t option \<Rightarrow> string \<Rightarrow> string \<Rightarrow> bool \<Rightarrow> bool" where
  "ini_get_bool ini sec key dflt =
     (case ini_get ini sec key of None \<Rightarrow> dflt
      | Some v \<Rightarrow> strcaseeq v ''true'' \<or> v = ''1'' \<or> strcaseeq v ''yes'' \<or> strcaseeq v ''on'')"

text \<open>\<open>cli_data_dir\<close> of \<open>src/util.c\<close>: where CLI and TUI clients find the daemon.\<close>

definition cli_data_dir :: "fs \<Rightarrow> nat \<Rightarrow> string" where
  "cli_data_dir fs sz =
     buf_set sz (case ini_get (ini_load fs ''etc/config.ini'') ''daemon'' ''data_dir'' of
                   None \<Rightarrow> ''./data'' | Some d \<Rightarrow> d)"

section \<open>Bounds\<close>

lemma length_ini_append [cbuf]:
  "length dst < sz \<Longrightarrow> length (ini_append sz dst src) < sz"
  by (auto simp: ini_append_def)

lemma length_ini_unescape: "di < sz \<Longrightarrow> length (ini_unescape sz di src) + di < sz"
  by (induction sz di src rule: ini_unescape.induct) (auto simp: less_diff_conv)

definition ini_wf :: "ini_t \<Rightarrow> bool" where
  "ini_wf ini \<longleftrightarrow> length (ini_entries ini) \<le> ini_capacity ini \<and> 0 < ini_capacity ini \<and>
     list_all (\<lambda>e. length (ie_section e) < 64 \<and> length (ie_key e) < 64 \<and>
                   length (ie_value e) < TC_BUF_XL) (ini_entries ini)"

lemma ini_wf_line: "ini_wf ini \<Longrightarrow> ini_line sec ini raw = (sec', ini') \<Longrightarrow> ini_wf ini'"
  using length_ini_unescape [of 0 TC_BUF_XL]
  by (auto simp: ini_line_def ini_add_def ini_wf_def Let_def length_buf_set_less Suc_le_eq
      split: if_splits option.splits)

lemma ini_wf_lines: "ini_wf ini \<Longrightarrow> ini_wf (ini_lines f sec ini)"
proof (induction f sec ini rule: ini_lines.induct)
  case (1 f sec ini)
  obtain l h f' where l: "ini_read_logical_line f [] False TC_BUF_XL = (l, h, f')"
    by (metis surj_pair)
  obtain sec' ini' where i: "ini_line sec ini l = (sec', ini')" by fastforce
  show ?case
    using 1 l i ini_wf_line [OF 1(2) i] by (auto simp: ini_lines.simps [of f])
qed

lemma ini_wf_load: "ini_load fs path = Some ini \<Longrightarrow> ini_wf ini"
proof -
  have "ini_wf \<lparr>ini_entries = [], ini_capacity = 64\<rparr>" by (simp add: ini_wf_def)
  then show "ini_load fs path = Some ini \<Longrightarrow> ini_wf ini"
    by (auto simp: ini_load_def split: option.splits fnode.splits intro: ini_wf_lines)
qed

section \<open>Printing and loading\<close>

text \<open>How an entry is written so that \<open>ini_load\<close> gives it back.\<close>

definition ini_esc :: "char \<Rightarrow> string" where
  "ini_esc c = (if c = LF then [BSL, CHR ''n''] else if c = CR then [BSL, CHR ''r'']
                else if c = TAB then [BSL, CHR ''t''] else if c = BSL then [BSL, BSL]
                else if c = DQ then [BSL, DQ] else [c])"

definition ini_escape :: "string \<Rightarrow> string" where
  "ini_escape v = concat (map ini_esc v)"

definition ini_show :: "ini_entry \<Rightarrow> string" where
  "ini_show e = ''['' @ ie_section e @ '']'' @ [LF] @
                ie_key e @ '' = '' @ ini_escape (ie_value e) @ [LF]"

definition plain :: "string \<Rightarrow> bool" where
  "plain s \<longleftrightarrow> NUL \<notin> set s \<and> LF \<notin> set s \<and> CR \<notin> set s"

definition ini_writable :: "ini_entry \<Rightarrow> bool" where
  "ini_writable e \<longleftrightarrow>
     plain (ie_section e) \<and> CHR '']'' \<notin> set (ie_section e) \<and> length (ie_section e) < 64 \<and>
     plain (ie_key e) \<and> CHR ''='' \<notin> set (ie_key e) \<and> length (ie_key e) < 64 \<and> ie_key e \<noteq> [] \<and>
     \<not> blank (hd (ie_key e)) \<and> hd (ie_key e) \<notin> set '';#['' \<and> \<not> blank (last (ie_key e)) \<and>
     NUL \<notin> set (ie_value e) \<and>
     (ie_value e \<noteq> [] \<longrightarrow> hd (ie_value e) \<noteq> SP \<and> last (ie_value e) \<noteq> SP \<and> last (ie_value e) \<noteq> BSL) \<and>
     length (ie_key e) + length (ini_escape (ie_value e)) + 3 < 4095"

text \<open>The documented form of a file allows a comment after a value, opened by \<open>;\<close> or \<open>#\<close> at the
  start of the value or after a blank. The parser reads such a comment as part of the value (see
  \<open>ini_inline_comment_kept\<close> below), so a value that would be taken for one with a comment is not
  printable.\<close>

fun comment_free :: "bool \<Rightarrow> string \<Rightarrow> bool" where
  "comment_free b [] = True"
| "comment_free b (c # v) = (\<not> (b \<and> c \<in> set '';#'') \<and> comment_free (blank c) v)"

definition ini_printable :: "ini_entry \<Rightarrow> bool" where
  "ini_printable e \<longleftrightarrow> ini_writable e \<and> comment_free True (ie_value e)"

lemma ini_escape_simps [simp]:
  "ini_escape [] = []" "ini_escape (c # v) = ini_esc c @ ini_escape v"
  "ini_escape (v @ w) = ini_escape v @ ini_escape w" "ini_esc c \<noteq> []"
  by (simp_all add: ini_escape_def ini_esc_def)

lemma ini_escape_Nil [simp]: "ini_escape v = [] \<longleftrightarrow> v = []"
  by (cases v) auto

lemma ini_unescape_escape:
  "di + length v < sz \<Longrightarrow> ini_unescape sz di (ini_escape v) = v"
proof (induction v arbitrary: di)
  case (Cons c v)
  have IH: "ini_unescape sz (di + 1) (ini_escape v) = v" using Cons by simp
  show ?case
  proof (cases "ini_esc c = [c]")
    case True
    then have "c \<noteq> BSL" by (auto simp: ini_esc_def)
    with True IH Cons.prems show ?thesis
      by (cases "ini_escape v") auto
  next
    case False
    then show ?thesis using IH Cons.prems
      by (auto simp: ini_esc_def split: if_splits)
  qed
qed simp

lemma plain_escape: "NUL \<notin> set v \<Longrightarrow> plain (ini_escape v)"
  by (auto simp: plain_def ini_escape_def ini_esc_def split: if_splits)

lemma last_escape: "v \<noteq> [] \<Longrightarrow> last v \<noteq> BSL \<Longrightarrow> last v \<noteq> SP \<Longrightarrow>
  \<not> blank (last (ini_escape v)) \<and> last (ini_escape v) \<noteq> BSL \<and> ini_escape v \<noteq> []"
  by (induction v rule: rev_induct) (auto simp: ini_esc_def blank_def)

lemma hd_escape: "v \<noteq> [] \<Longrightarrow> hd v \<noteq> SP \<Longrightarrow> \<not> blank (hd (ini_escape v)) \<and> ini_escape v \<noteq> []"
  by (cases v) (auto simp: ini_esc_def blank_def)

lemma rstrip_id: "s = [] \<or> \<not> P (last s) \<Longrightarrow> rstrip P s = s"
  by (cases s rule: rev_cases) (auto simp: rstrip_def)

lemma rstrip_snoc: "P c \<Longrightarrow> rstrip P (s @ [c]) = rstrip P s"
  by (simp add: rstrip_def)

lemma plain_last: "plain s \<Longrightarrow> s = [] \<or> \<not> (last s = LF \<or> last s = CR)"
  by (metis last_in_set plain_def)

lemma ini_physical_plain:
  assumes "plain l" "l = [] \<or> last l \<noteq> BSL"
  shows "ini_physical (l @ [LF]) = (l, False)"
proof -
  have "cstr (l @ [LF]) = l @ [LF]" using assms by (intro cstr_id) (auto simp: plain_def)
  moreover have "rstrip (\<lambda>c. c = LF \<or> c = CR) (l @ [LF]) = l"
    using plain_last [OF assms(1)] by (simp add: rstrip_snoc rstrip_id)
  ultimately show ?thesis using assms by (auto simp: ini_physical_def Let_def)
qed

lemma fgets_line:
  "LF \<notin> set l \<Longrightarrow> Suc (length l) < n \<Longrightarrow> fgets n (l @ LF # r) = Some (l @ [LF], r)"
  by (simp add: fgets_def Let_def before_append)

lemma read_plain_line:
  assumes "plain l" "l = [] \<or> last l \<noteq> BSL" "length l < 4095"
  shows "ini_read_logical_line (l @ LF # r) [] False TC_BUF_XL = (l, True, r)"
  using assms ini_physical_plain [OF assms(1,2)]
  by (subst ini_read_logical_line.simps) (simp add: fgets_line plain_def ini_append_def)

lemma ini_line_header:
  assumes "CHR '']'' \<notin> set s" "length s < 64"
  shows "ini_line sec ini (''['' @ s @ '']'') = (s, ini)"
proof -
  have "ini_rstrip (''['' @ s @ '']'') = ''['' @ s @ '']''"
    unfolding ini_rstrip_def by (rule rstrip_id) simp
  then show ?thesis
    using assms before_append [of "CHR '']''" "CHR ''['' # s" "[]"]
    by (simp add: ini_line_def Let_def blank_def)
qed

lemma ini_line_entry:
  assumes k: "k \<noteq> []" "CHR ''='' \<notin> set k" "\<not> blank (hd k)" "hd k \<notin> set '';#[''" "\<not> blank (last k)"
    and v: "plain v" "v = [] \<or> \<not> blank (hd v) \<and> \<not> blank (last v)"
  shows "ini_line sec ini (k @ '' = '' @ v) = (sec, ini_add ini sec k v)"
proof -
  let ?t = "if v = [] then [] else SP # v"
  have "rstrip (\<lambda>c. c = LF \<or> c = CR \<or> c = SP \<or> c = TAB) (k @ '' = '' @ v) = k @ '' ='' @ ?t"
  proof (cases "v = []")
    case True
    have "k @ '' = '' @ v = (k @ '' ='') @ [SP]" using True by simp
    then have "rstrip (\<lambda>c. c = LF \<or> c = CR \<or> c = SP \<or> c = TAB) (k @ '' = '' @ v) =
        rstrip (\<lambda>c. c = LF \<or> c = CR \<or> c = SP \<or> c = TAB) (k @ '' ='')"
      by (simp only: rstrip_snoc simp_thms)
    then show ?thesis using True by (simp add: rstrip_id)
  next
    case False
    then show ?thesis using v plain_last [OF v(1)] by (intro trans [OF rstrip_id]) (auto simp: blank_def)
  qed
  moreover have "dropWhile blank (k @ u) = k @ u" for u
    using k by (cases k) auto
  moreover have "rstrip blank (k @ [SP]) = k"
    using k by (simp add: rstrip_snoc rstrip_id blank_def)
  moreover have "before (CHR ''='') (k @ SP # CHR ''='' # u) = k @ [SP]"
      "strchr (CHR ''='') (k @ SP # CHR ''='' # u) = Some (CHR ''='' # u)" for u
    using k before_append [of "CHR ''=''" "k @ [SP]" u] strchr_append [of "CHR ''=''" "k @ [SP]" u]
    by simp_all
  moreover have "dropWhile blank ?t = v"
    using v by (cases v) (auto simp: blank_def)
  ultimately show ?thesis
    using k by (simp add: ini_line_def ini_rstrip_def Let_def del: dropWhile.simps)
qed

lemma ini_lines_step:
  "ini_read_logical_line f [] False TC_BUF_XL = (l, True, f') \<Longrightarrow>
     ini_line sec ini l = (sec', ini') \<Longrightarrow> ini_lines f sec ini = ini_lines f' sec' ini'"
  by (subst ini_lines.simps) simp

lemma ini_lines_show:
  assumes "ini_writable e"
  shows "ini_lines (ini_show e @ r) sec ini =
     ini_lines r (ie_section e) (ini_add ini (ie_section e) (ie_key e) (ini_escape (ie_value e)))"
proof -
  let ?s = "ie_section e" and ?k = "ie_key e" and ?v = "ini_escape (ie_value e)"
  have p: "plain (''['' @ ?s @ '']'')" "plain (?k @ '' = '' @ ?v)" "plain ?v"
    using assms plain_escape [of "ie_value e"] by (auto simp: ini_writable_def plain_def)
  have v: "?v = [] \<or> \<not> blank (hd ?v) \<and> \<not> blank (last ?v) \<and> last ?v \<noteq> BSL"
    using assms last_escape [of "ie_value e"] hd_escape [of "ie_value e"]
    by (cases "ie_value e = []") (auto simp: ini_writable_def)
  have h: "ini_read_logical_line ((''['' @ ?s @ '']'') @ LF # t) [] False TC_BUF_XL
      = (''['' @ ?s @ '']'', True, t)" for t
    using assms p by (intro read_plain_line) (auto simp: ini_writable_def)
  have l: "ini_read_logical_line ((?k @ '' = '' @ ?v) @ LF # t) [] False TC_BUF_XL
      = (?k @ '' = '' @ ?v, True, t)" for t
    using assms p v by (intro read_plain_line) (auto simp: ini_writable_def)
  have hl: "ini_line sec ini (''['' @ ?s @ '']'') = (?s, ini)"
    using assms by (intro ini_line_header) (auto simp: ini_writable_def)
  have ll: "ini_line ?s ini (?k @ '' = '' @ ?v) = (?s, ini_add ini ?s ?k ?v)"
    using assms p v by (intro ini_line_entry) (auto simp: ini_writable_def)
  have "ini_show e @ r = (''['' @ ?s @ '']'') @ LF # (?k @ '' = '' @ ?v) @ LF # r"
    by (simp add: ini_show_def)
  then show ?thesis
    using ini_lines_step [OF h hl] ini_lines_step [OF l ll] by simp
qed

lemma ini_entries_add:
  assumes "ini_writable e"
  shows "ini_entries (ini_add ini (ie_section e) (ie_key e) (ini_escape (ie_value e))) =
    ini_entries ini @ [e]"
proof -
  have "length v \<le> length (ini_escape v)" for v
    by (induction v) (auto simp: ini_esc_def)
  from this [of "ie_value e"] assms show ?thesis
    by (cases e) (auto simp: ini_add_def Let_def ini_writable_def ini_unescape_escape)
qed

lemma ini_lines_roundtrip:
  "list_all ini_writable es \<Longrightarrow>
     ini_entries (ini_lines (concat (map ini_show es)) sec ini) = ini_entries ini @ es"
proof (induction es arbitrary: sec ini)
  case Nil
  then show ?case
    by (simp add: ini_lines.simps [of "[]"] ini_read_logical_line.simps [of "[]"] fgets_def)
next
  case (Cons e es)
  then show ?case by (simp add: ini_lines_show ini_entries_add)
qed

section \<open>Properties\<close>

text \<open>(C39) Loading a file gives back, in order, exactly the entries that were printed to it, for
  every list of entries that can be printed: names without line ends, a value that neither
  starts nor ends with a space, does not end with a backslash and holds nothing that reads as
  a comment after the value (\<open>;\<close> or \<open>#\<close> first or after a blank), lines of less than 4095
  bytes.\<close>

theorem ini_load_roundtrip:
  assumes "list_all ini_printable es"
  shows "map_option ini_entries (ini_load [path \<mapsto> File (concat (map ini_show es))] path) = Some es"
proof -
  have "list_all ini_writable es"
    using assms by (auto simp: ini_printable_def elim: list.pred_mono_strong)
  then show ?thesis
    using ini_lines_roundtrip [of es "[]" "\<lparr>ini_entries = [], ini_capacity = 64\<rparr>"]
    by (simp add: ini_load_def)
qed

theorem ini_load_roundtrip_witness:
  "map_option ini_entries
     (ini_load [''x'' \<mapsto> File (concat (map ini_show
        [\<lparr>ie_section = ''agent'', ie_key = ''name'', ie_value = ''a;'' @ [LF] @ ''b''\<rparr>]))] ''x'') =
   Some [\<lparr>ie_section = ''agent'', ie_key = ''name'', ie_value = ''a;'' @ [LF] @ ''b''\<rparr>]"
  by (rule ini_load_roundtrip)
     (simp add: ini_printable_def ini_writable_def plain_def blank_def ini_esc_def)

text \<open>Whatever the file holds, the entries fit the array that \<open>ini_load\<close> allocated, and
  every section, key and value fits the buffer it was copied to.\<close>

theorem ini_load_bounds:
  assumes "ini_load fs path = Some ini"
  shows "length (ini_entries ini) \<le> ini_capacity ini \<and>
    (\<forall>e \<in> set (ini_entries ini). length (ie_section e) < 64 \<and> length (ie_key e) < 64 \<and>
       length (ie_value e) < TC_BUF_XL)"
  using ini_wf_load [OF assms] by (simp add: ini_wf_def list_all_iff)

theorem ini_load_bounds_witness:
  "length (ini_entries (ini_lines [] [] \<lparr>ini_entries = [], ini_capacity = 64\<rparr>)) \<le>
   ini_capacity (ini_lines [] [] \<lparr>ini_entries = [], ini_capacity = 64\<rparr>)"
  using ini_load_bounds [of "[''x'' \<mapsto> File []]" "''x''"] by (simp add: ini_load_def)

text \<open>The parser knows no comment after a value: the line
  \<open>reasoning_effort = none   ; gpt-6-* ...\<close> of the README's example configuration sets the key
  to the whole rest of the line, comment included.\<close>

theorem ini_inline_comment_kept:
  "ini_get (ini_load [''etc/config.ini'' \<mapsto> File (''[provider.openai]'' @ [LF] @
       ''reasoning_effort = none   ; gpt-6-* accept function tools only with none'' @ [LF])]
     ''etc/config.ini'') ''provider.openai'' ''reasoning_effort'' =
   Some ''none   ; gpt-6-* accept function tools only with none''"
proof -
  let ?e = "\<lparr>ie_section = ''provider.openai'', ie_key = ''reasoning_effort'',
             ie_value = ''none   ; gpt-6-* accept function tools only with none''\<rparr>"
  have p: "list_all ini_writable [?e]"
    by (simp add: ini_writable_def plain_def blank_def ini_esc_def)
  have f: "concat (map ini_show [?e]) = ''[provider.openai]'' @ [LF] @
      ''reasoning_effort = none   ; gpt-6-* accept function tools only with none'' @ [LF]"
    by (simp add: ini_show_def ini_esc_def)
  show ?thesis
    using ini_lines_roundtrip [OF p, of "[]" "\<lparr>ini_entries = [], ini_capacity = 64\<rparr>"]
    by (simp only: f [symmetric]) (simp add: ini_get_def ini_load_def)
qed

text \<open>A physical line is read in pieces of 4095 bytes: when the first 4095 bytes of the file
  hold no line end, they are a logical line of their own and the rest of the same physical
  line is parsed as the next one, although a logical line may have 32767 bytes.\<close>

theorem ini_long_line_split:
  assumes "plain l" and "last l \<noteq> BSL" and "length l = 4095"
  shows "ini_read_logical_line (l @ r) [] False TC_BUF_XL = (l, True, r)"
proof -
  have "before LF (l @ r) = l @ before LF r"
    using assms(1) by (intro takeWhile_append2) (auto simp: plain_def)
  then have "fgets TC_BUF_LG (l @ r) = Some (l, r)"
    using assms by (auto simp: fgets_def Let_def min_def plain_def)
  moreover have "ini_physical l = (l, False)"
    using assms plain_last [OF assms(1)] by (auto simp: ini_physical_def Let_def plain_def rstrip_id)
  ultimately show ?thesis
    using assms by (subst ini_read_logical_line.simps) (simp add: ini_append_def)
qed

theorem ini_long_line_split_witness:
  "ini_read_logical_line (replicate 4095 (CHR ''a'') @ ''name = x'') [] False TC_BUF_XL =
   (replicate 4095 (CHR ''a''), True, ''name = x'')"
  by (rule ini_long_line_split) (simp_all add: plain_def)

end
