(* ===== verification/Irc_Parse.thy ===== *)
theory Irc_Parse
  imports Util
begin

text \<open>
  \<open>src/irc_parse.c\<close>: which agents an owner message addresses and what each of them gets.
  Positions in the message are offsets. The lemmas relate the array that the last loop fills
  in place, with its \<open>pending\<close> index, to a specification by recursion (\<open>assign\<close>): each
  mentioned agent gets the first non-empty segment at or after its mention.
\<close>

abbreviation (input) TC_IRC_LINE_MAX :: nat where "TC_IRC_LINE_MAX \<equiv> 480"

record mention =
  m_agent :: string
  m_text :: string

record mark =
  mk_at :: nat
  mk_end :: nat
  mk_name :: string

definition find_agent :: "string \<Rightarrow> string list \<Rightarrow> string option" where
  "find_agent s agents = find (\<lambda>a. length a = length s \<and> strcaseeq s a) agents"

definition is_word_char :: "char \<Rightarrow> bool" where
  "is_word_char c \<longleftrightarrow> is_lower c \<or> is_upper c \<or> is_digit c \<or> c \<in> set ''_-.''"

definition set_text :: "string \<Rightarrow> string" where
  "set_text s =
     (let t = dropWhile (\<lambda>c. c = SP \<or> c = TAB \<or> c = CHR '':'' \<or> c = CHR '','') s;
          u = rev (dropWhile (\<lambda>c. c = SP \<or> c = TAB) (rev t))
      in take (TC_IRC_LINE_MAX - 1) u)"

definition mention_stop :: "char \<Rightarrow> bool" where
  "mention_stop c \<longleftrightarrow> c = TAB \<or> c \<in> set '' @,:.!?;''"

definition word_at :: "string \<Rightarrow> nat \<Rightarrow> string" where
  "word_at msg p = takeWhile (\<lambda>c. \<not> mention_stop c) (drop p msg)"

text \<open>The name a word stands for: \<open>all\<close> first, then an agent, as its name is configured.\<close>

definition mention_name :: "string list \<Rightarrow> string \<Rightarrow> string option" where
  "mention_name agents w =
     (let idx = find_agent w agents; all = (length w = 3 \<and> strcaseeq w ''all'')
      in if idx = None \<and> \<not> all then None
         else Some (buf_set 32 (if all then ''all'' else the idx)))"

definition leading_mention :: "string \<Rightarrow> string list \<Rightarrow> mark option" where
  "leading_mention msg agents =
     (let w = word_at msg 0; k = length w
      in if 0 < k \<and> k < length msg \<and> (msg ! k = CHR '':'' \<or> msg ! k = CHR '','')
         then map_option (\<lambda>nm. \<lparr>mk_at = 0, mk_end = k, mk_name = nm\<rparr>) (mention_name agents w)
         else None)"

definition mention_at :: "string \<Rightarrow> string list \<Rightarrow> nat \<Rightarrow> mark option" where
  "mention_at msg agents p =
     (if msg ! p \<noteq> CHR ''@'' \<or> (p > 0 \<and> is_word_char (msg ! (p - 1))) then None
      else let w = word_at msg (p + 1)
           in map_option (\<lambda>nm. \<lparr>mk_at = p, mk_end = p + 1 + length w, mk_name = nm\<rparr>)
                (mention_name agents w))"

lemma mention_at_end: "mention_at msg agents p = Some m \<Longrightarrow> p < mk_end m"
  by (auto simp: mention_at_def Let_def split: if_splits)

function scan_mentions :: "string \<Rightarrow> string list \<Rightarrow> nat \<Rightarrow> nat \<Rightarrow> mark list" where
  "scan_mentions msg agents p n =
     (if p \<ge> length msg \<or> n \<ge> 16 then []
      else case mention_at msg agents p of
             None \<Rightarrow> scan_mentions msg agents (p + 1) n
           | Some m \<Rightarrow> m # scan_mentions msg agents (mk_end m) (n + 1))"
  by pat_completeness auto
termination
  by (relation "measure (\<lambda>(msg, agents, p, n). length msg - p)")
     (auto simp: not_le dest: mention_at_end intro!: diff_less_mono2)

declare scan_mentions.simps [simp del]

definition find_marks :: "string \<Rightarrow> string list \<Rightarrow> mark list" where
  "find_marks msg agents =
     (case leading_mention msg agents of
        None \<Rightarrow> scan_mentions msg agents 0 0
      | Some m \<Rightarrow> m # scan_mentions msg agents (mk_end m) 1)"

text \<open>The text of mention \<open>i\<close>: up to the next mention or the end of the message.\<close>

fun segments :: "string \<Rightarrow> mark list \<Rightarrow> (string \<times> string) list" where
  "segments msg [] = []"
| "segments msg [m] = [(mk_name m, set_text (drop (mk_end m) msg))]"
| "segments msg (m # m' # ms) =
     (mk_name m, set_text (take (mk_at m' - mk_end m) (drop (mk_end m) msg))) # segments msg (m' # ms)"

text \<open>The loop over the mentions, on the array \<open>out[0..count)\<close>.\<close>

definition fill_pending :: "nat \<Rightarrow> string \<Rightarrow> mention list \<Rightarrow> mention list" where
  "fill_pending pending t out =
     map (\<lambda>j. if pending \<le> j \<and> j < length out - 1 then (out ! j)\<lparr>m_text := t\<rparr> else out ! j)
       [0..<length out]"

fun route_loop :: "nat \<Rightarrow> mention list \<Rightarrow> nat \<Rightarrow> (string \<times> string) list \<Rightarrow> mention list \<times> nat" where
  "route_loop max_out out pending [] = (out, pending)"
| "route_loop max_out out pending ((nm, t) # segs) =
     (if length out \<ge> max_out then (out, pending)
      else let out' = out @ [\<lparr>m_agent = buf_set 32 nm, m_text = t\<rparr>]
           in if t \<noteq> [] then route_loop max_out (fill_pending pending t out') (length out') segs
              else route_loop max_out out' pending segs)"

definition parse_mentions :: "string option \<Rightarrow> string list \<Rightarrow> string \<Rightarrow> int \<Rightarrow> mention list" where
  "parse_mentions msgp agents hub max_out =
     (case msgp of None \<Rightarrow> [] | Some msg \<Rightarrow>
       if msg = [] \<or> max_out \<le> 0 then []
       else let m = find_marks msg agents
        in if m = [] then [\<lparr>m_agent = buf_set 32 hub, m_text = set_text msg\<rparr>]
           else case find (\<lambda>x. mk_name x = ''all'') m of
             Some x \<Rightarrow>
               (let clean = buf_set TC_IRC_LINE_MAX (take (mk_at x) msg @ '' '' @ drop (mk_end x) msg);
                    t = set_text clean
                in [\<lparr>m_agent = ''all'', m_text = (if t = [] then set_text msg else t)\<rparr>])
           | None \<Rightarrow>
               (let h = set_text (take (mk_at (hd m)) msg);
                    out = (if mk_at (hd m) > 0 \<and> h \<noteq> []
                           then [\<lparr>m_agent = buf_set 32 hub, m_text = h\<rparr>] else []);
                    (out', pending) = route_loop (nat max_out) out (length out) (segments msg m)
                in take pending out'))"

section \<open>The routing loop against its specification\<close>

definition first_text :: "(string \<times> string) list \<Rightarrow> string option" where
  "first_text segs = map_option snd (find (\<lambda>(_, t). t \<noteq> []) segs)"

fun assign :: "(string \<times> string) list \<Rightarrow> mention list" where
  "assign [] = []"
| "assign ((nm, t) # segs) =
     (case first_text ((nm, t) # segs) of
        None \<Rightarrow> []
      | Some u \<Rightarrow> \<lparr>m_agent = buf_set 32 nm, m_text = u\<rparr> # assign segs)"

lemma first_text_nonempty: "first_text segs = Some u \<Longrightarrow> u \<noteq> []"
  by (auto simp: first_text_def find_Some_iff)

lemma assign_nonempty: "m \<in> set (assign segs) \<Longrightarrow> m_text m \<noteq> []"
proof (induction segs rule: assign.induct)
  case (2 nm t segs)
  then show ?case
    by (cases "first_text ((nm, t) # segs)") (auto dest: first_text_nonempty)
qed simp

lemma assign_None: "first_text segs = None \<Longrightarrow> assign segs = []"
  by (cases segs rule: assign.cases) auto

lemma first_text_append:
  "first_text (as @ bs) = (case first_text as of Some u \<Rightarrow> Some u | None \<Rightarrow> first_text bs)"
  by (induction as) (auto simp: first_text_def)

text \<open>Mentions without a text of their own take the next one.\<close>

lemma assign_empty_prefix:
  assumes "\<forall>(nm, t) \<in> set es. t = []" and "first_text segs = Some u"
  shows "assign (es @ segs) = map (\<lambda>(nm, t). \<lparr>m_agent = buf_set 32 nm, m_text = u\<rparr>) es @ assign segs"
  using assms
proof (induction es)
  case (Cons e es)
  obtain nm t where e: "e = (nm, t)" by fastforce
  have "first_text (e # es) = None"
    using Cons.prems by (auto simp: first_text_def find_None_iff)
  then have "first_text ((e # es) @ segs) = Some u"
    using Cons.prems by (simp only: first_text_append) simp
  with Cons e show ?case by simp
qed simp

lemma fill_pending_split:
  "fill_pending (length a) t (a @ b @ [m]) = a @ map (\<lambda>x. x\<lparr>m_text := t\<rparr>) b @ [m]"
  by (rule nth_equalityI) (auto simp: fill_pending_def nth_append nth_Cons' less_Suc_eq)

text \<open>
  The invariant of the loop: \<open>fin\<close> is final, \<open>es\<close> are the mentions still waiting for a
  text.
\<close>

lemma route_loop_assign:
  assumes "\<forall>(nm, t) \<in> set es. t = []"
    and "length fin + length es \<le> k"
    and "route_loop k (fin @ map (\<lambda>(nm, t). \<lparr>m_agent = buf_set 32 nm, m_text = t\<rparr>) es)
           (length fin) segs = (out', pending)"
  shows "take pending out' = fin @ assign (es @ take (k - length fin - length es) segs)"
  using assms
proof (induction segs arbitrary: fin es)
  case Nil
  then have "first_text es = None" by (auto simp: first_text_def find_None_iff)
  with Nil show ?case using assign_None [of es] by auto
next
  case (Cons s segs)
  obtain nm t where s: "s = (nm, t)" by fastforce
  let ?m = "\<lambda>(nm, t). \<lparr>m_agent = buf_set 32 nm, m_text = t\<rparr>"
  have none: "first_text es = None"
    using Cons.prems(1) by (auto simp: first_text_def find_None_iff)
  consider (full) "length fin + length es = k" | (empty) "length fin + length es < k" "t = []"
    | (filled) "length fin + length es < k" "t \<noteq> []"
    using Cons.prems(2) by linarith
  then show ?case
  proof cases
    case full
    with Cons.prems(3) s assign_None [OF none] show ?thesis by auto
  next
    case empty
    have "take pending out' = fin @ assign ((es @ [(nm, t)]) @ take (k - length fin - length (es @ [(nm, t)])) segs)"
      using Cons.prems empty s by (intro Cons.IH) (auto split: if_splits)
    with empty s show ?thesis by (simp add: take_Cons' Suc_diff_Suc)
  next
    case filled
    let ?d = "fin @ map (\<lambda>(nm, _). \<lparr>m_agent = buf_set 32 nm, m_text = t\<rparr>) es @ [?m (nm, t)]"
    have "fill_pending (length fin) t (fin @ map ?m es @ [?m (nm, t)]) = ?d"
      by (simp add: fill_pending_split case_prod_unfold comp_def)
    then have "route_loop k ?d (length ?d) segs = (out', pending)"
      using Cons.prems(3) filled s by (simp add: Let_def)
    then have "take pending out' = ?d @ assign (take (k - length ?d) segs)"
      using Cons.IH [of "[]" ?d] filled by simp
    moreover have "first_text ((nm, t) # take (k - length fin - length es - 1) segs) = Some t"
      using filled by (simp add: first_text_def)
    ultimately show ?thesis
      using filled s assign_empty_prefix [OF Cons.prems(1)]
      by (simp add: take_Cons' Suc_diff_Suc case_prod_unfold)
  qed
qed

section \<open>The marks\<close>

text \<open>What the array \<open>m[16]\<close> holds: names of configured agents, at places in the message.\<close>

definition mark_ok :: "string \<Rightarrow> string list \<Rightarrow> mark \<Rightarrow> bool" where
  "mark_ok msg agents m \<longleftrightarrow>
     mk_at m < mk_end m \<and> mk_end m \<le> length msg \<and>
     (mk_name m = ''all'' \<or> (\<exists>a \<in> set agents. mk_name m = buf_set 32 a)) \<and>
     (mk_at m = 0 \<or> msg ! mk_at m = CHR ''@'' \<and> \<not> is_word_char (msg ! (mk_at m - 1)))"

lemma find_agent_known: "find_agent w agents = Some a \<Longrightarrow> a \<in> set agents"
  by (auto simp: find_agent_def find_Some_iff)

lemma mention_name_known:
  assumes "mention_name agents w = Some nm"
  shows "nm = ''all'' \<or> (\<exists>a \<in> set agents. nm = buf_set 32 a)"
  using assms find_agent_known [of w agents]
  by (cases "find_agent w agents") (auto simp: mention_name_def Let_def split: if_splits)

lemma length_word_at: "p \<le> length msg \<Longrightarrow> p + length (word_at msg p) \<le> length msg"
  using length_takeWhile_le [of "\<lambda>c. \<not> mention_stop c" "drop p msg"] by (simp add: word_at_def)

lemma mention_at_ok:
  assumes "mention_at msg agents p = Some m" "p < length msg"
  shows "mark_ok msg agents m \<and> mk_at m = p"
proof -
  obtain nm where nm: "mention_name agents (word_at msg (p + 1)) = Some nm"
    and "m = \<lparr>mk_at = p, mk_end = p + 1 + length (word_at msg (p + 1)), mk_name = nm\<rparr>"
    "msg ! p = CHR ''@''" "p = 0 \<or> \<not> is_word_char (msg ! (p - 1))"
    using assms(1) by (auto simp: mention_at_def Let_def split: if_splits)
  then show ?thesis
    using assms(2) mention_name_known [OF nm] length_word_at [of "p + 1" msg] by (auto simp: mark_ok_def)
qed

lemma scan_mentions_ok:
  "(\<forall>m \<in> set (scan_mentions msg agents p n). mark_ok msg agents m \<and> p \<le> mk_at m) \<and>
   sorted_wrt (\<lambda>x y. mk_end x \<le> mk_at y) (scan_mentions msg agents p n) \<and>
   n + length (scan_mentions msg agents p n) \<le> max n 16"
proof (induction msg agents p n rule: scan_mentions.induct)
  case (1 msg agents p n)
  show ?case
  proof (cases "p \<ge> length msg \<or> n \<ge> 16")
    case False
    show ?thesis
    proof (cases "mention_at msg agents p")
      case None
      with 1(1) [OF False] False show ?thesis
        by (auto simp: scan_mentions.simps [of msg agents p n] dest!: bspec)
    next
      case (Some m)
      moreover have "mark_ok msg agents m" "mk_at m = p"
        using mention_at_ok [OF Some] False by auto
      ultimately show ?thesis
        using 1(2) [OF False Some] False mention_at_end [OF Some]
        by (auto simp: scan_mentions.simps [of msg agents p n] dest!: bspec)
    qed
  qed (simp add: scan_mentions.simps)
qed

lemma leading_mention_ok:
  assumes "leading_mention msg agents = Some m"
  shows "mark_ok msg agents m"
proof -
  let ?w = "word_at msg 0"
  obtain nm where nm: "mention_name agents ?w = Some nm" and "0 < length ?w"
    "m = \<lparr>mk_at = 0, mk_end = length ?w, mk_name = nm\<rparr>" "length ?w < length msg"
    using assms by (auto simp: leading_mention_def Let_def split: if_splits)
  then show ?thesis using mention_name_known [OF nm] by (auto simp: mark_ok_def)
qed

lemma find_marks_ok:
  "(\<forall>m \<in> set (find_marks msg agents). mark_ok msg agents m) \<and>
   sorted_wrt (\<lambda>x y. mk_end x \<le> mk_at y) (find_marks msg agents) \<and>
   length (find_marks msg agents) \<le> 16"
proof (cases "leading_mention msg agents")
  case None
  then show ?thesis using scan_mentions_ok [of msg agents 0 0] by (auto simp: find_marks_def)
next
  case (Some m)
  then show ?thesis
    using leading_mention_ok [OF Some] scan_mentions_ok [of msg agents "mk_end m" 1] by (auto simp: find_marks_def)
qed

lemma length_set_text [cbuf]: "length (set_text s) < TC_IRC_LINE_MAX"
  by (simp add: set_text_def Let_def)

lemma first_text_set:
  "first_text segs = Some u \<Longrightarrow> \<exists>nm. (nm, u) \<in> set segs"
  by (auto simp: first_text_def find_Some_iff) (metis nth_mem)

lemma assign_from:
  "m \<in> set (assign segs) \<Longrightarrow>
     (\<exists>s \<in> set segs. m_agent m = buf_set 32 (fst s)) \<and> m_text m \<in> snd ` set segs"
proof (induction segs rule: assign.induct)
  case (2 nm t segs)
  then show ?case
    by (cases "first_text ((nm, t) # segs)") (force dest: first_text_set)+
qed simp

lemma length_assign: "length (assign segs) \<le> length segs"
  by (induction segs rule: assign.induct) (auto split: option.splits)

lemma length_assign_take: "length (assign (take k segs)) \<le> k"
  using length_assign [of "take k segs"] by simp

lemma segments_from:
  "s \<in> set (segments msg ms) \<Longrightarrow>
     (\<exists>m \<in> set ms. fst s = mk_name m) \<and> length (snd s) < TC_IRC_LINE_MAX"
  by (induction msg ms rule: segments.induct) (auto simp: length_set_text)

text \<open>The part for the hub: what stands before the first mention.\<close>

definition hub_part :: "string \<Rightarrow> string \<Rightarrow> mark \<Rightarrow> mention list" where
  "hub_part msg hub m =
     (let h = set_text (take (mk_at m) msg)
      in if mk_at m > 0 \<and> h \<noteq> [] then [\<lparr>m_agent = buf_set 32 hub, m_text = h\<rparr>] else [])"

lemma parse_mentions_assign:
  assumes "msg \<noteq> []" "0 < k" "find_marks msg agents = m # ms"
    "\<forall>x \<in> set (m # ms). mk_name x \<noteq> ''all''"
  shows "parse_mentions (Some msg) agents hub k =
     hub_part msg hub m @ assign (take (nat k - length (hub_part msg hub m)) (segments msg (m # ms)))"
proof -
  have "find (\<lambda>x. mk_name x = ''all'') (m # ms) = None"
    using assms(4) by (auto simp: find_None_iff simp del: find.simps)
  then have "parse_mentions (Some msg) agents hub k =
      (case route_loop (nat k) (hub_part msg hub m) (length (hub_part msg hub m)) (segments msg (m # ms))
       of (out', pending) \<Rightarrow> take pending out')"
    using assms(1-3) by (simp add: parse_mentions_def hub_part_def Let_def del: find.simps)
  moreover have "length (hub_part msg hub m) \<le> nat k"
    using assms(2) by (auto simp: hub_part_def Let_def)
  ultimately show ?thesis
    using route_loop_assign [of "[]" "hub_part msg hub m" "nat k" "segments msg (m # ms)"]
    by (auto split: prod.splits)
qed

lemma hub_part_entry:
  "e \<in> set (hub_part msg hub m) \<Longrightarrow> m_agent e = buf_set 32 hub \<and> length (m_text e) < TC_IRC_LINE_MAX"
  using length_set_text by (auto simp: hub_part_def Let_def split: if_splits)

lemma assign_segments:
  assumes "e \<in> set (assign (take k (segments msg ms)))"
  shows "(\<exists>m \<in> set ms. m_agent e = buf_set 32 (mk_name m)) \<and> length (m_text e) < TC_IRC_LINE_MAX"
proof -
  obtain s t where s: "s \<in> set (segments msg ms)" "t \<in> set (segments msg ms)"
    "m_agent e = buf_set 32 (fst s)" "m_text e = snd t"
    using assign_from [OF assms] by (meson imageE in_set_takeD)
  show ?thesis using segments_from [OF s(1)] segments_from [OF s(2)] s(3,4) by auto
qed

lemma assign_agents:
  assumes "find_marks msg agents = ms" "\<forall>x \<in> set ms. mk_name x \<noteq> ''all''"
    "e \<in> set (assign (take k (segments msg ms)))"
  shows "\<exists>a \<in> set agents. m_agent e = buf_set 32 a \<and> length (m_text e) < TC_IRC_LINE_MAX"
proof -
  obtain m where m: "m \<in> set ms" "m_agent e = buf_set 32 (mk_name m)" "length (m_text e) < TC_IRC_LINE_MAX"
    using assign_segments [OF assms(3)] by blast
  then obtain a where "a \<in> set agents" "mk_name m = buf_set 32 a"
    using find_marks_ok [of msg agents] assms(1,2) by (auto simp: mark_ok_def)
  with m show ?thesis by auto
qed

lemma parse_mentions_cases:
  obtains (trivial) "parse_mentions msgp agents hub max_out = []"
  | (single) e where "parse_mentions msgp agents hub max_out = [e]" "0 < max_out"
      "m_agent e \<in> {buf_set 32 hub, ''all''}" "length (m_text e) < TC_IRC_LINE_MAX"
  | (route) msg m ms where "msgp = Some msg" "msg \<noteq> []" "0 < max_out" "find_marks msg agents = m # ms"
      "\<forall>x \<in> set (m # ms). mk_name x \<noteq> ''all''"
proof (cases "\<exists>msg. msgp = Some msg \<and> msg \<noteq> [] \<and> 0 < max_out")
  case False
  then show ?thesis by (intro trivial) (auto simp: parse_mentions_def split: option.splits)
next
  case True
  then obtain msg where msg: "msgp = Some msg" "msg \<noteq> []" "0 < max_out" by blast
  show ?thesis
  proof (cases "find_marks msg agents")
    case Nil
    with msg show ?thesis
      by (intro single [of "\<lparr>m_agent = buf_set 32 hub, m_text = set_text msg\<rparr>"])
         (auto simp: parse_mentions_def Let_def length_set_text)
  next
    case (Cons m ms)
    show ?thesis
    proof (cases "find (\<lambda>x. mk_name x = ''all'') (m # ms)")
      case None
      with msg Cons show ?thesis by (intro route) (auto simp: find_None_iff simp del: find.simps)
    next
      case (Some x)
      with msg Cons show ?thesis
        by (intro single) (auto simp: parse_mentions_def Let_def length_set_text simp del: find.simps)
    qed
  qed
qed

section \<open>Properties\<close>

text \<open>
  The marks that \<open>parse_mentions\<close> collects fit its array of 16, lie inside the message,
  follow each other without overlap (so no segment length \<open>m[i+1].at - m[i].end\<close> underflows),
  and each names \<open>all\<close> or a configured agent. A mark away from the start of the message is an
  \<open>@\<close> that does not continue a word, as the one in a mail address does.
\<close>

theorem find_marks_sound:
  "length (find_marks msg agents) \<le> 16 \<and>
   sorted_wrt (\<lambda>x y. mk_end x \<le> mk_at y) (find_marks msg agents) \<and>
   (\<forall>m. m \<in> set (find_marks msg agents) \<longrightarrow>
      mk_at m < mk_end m \<and> mk_end m \<le> length msg \<and>
      (mk_name m = ''all'' \<or> (\<exists>a. a \<in> set agents \<and> mk_name m = buf_set 32 a)) \<and>
      (mk_at m = 0 \<or> msg ! mk_at m = CHR ''@'' \<and> \<not> is_word_char (msg ! (mk_at m - 1))))"
  using find_marks_ok [of msg agents] by (auto simp: mark_ok_def)

theorem find_marks_sound_witness:
  "let msg = ''hi @bob x''; m = hd (find_marks msg [''bob'']) in
   find_marks msg [''bob''] \<noteq> [] \<and> mk_end m \<le> length msg \<and> msg ! mk_at m = CHR ''@''"
proof -
  have "find_marks ''hi @bob x'' [''bob''] = [\<lparr>mk_at = 3, mk_end = 7, mk_name = ''bob''\<rparr>]"
    by code_simp
  then show ?thesis
    using find_marks_sound [of "''hi @bob x''" "[''bob'']"] by (simp add: Let_def)
qed

text \<open>
  (C38) A message that mentions agents, and not \<open>all\<close>, is routed as specified by recursion: what
  precedes the first mention goes to the hub, and each mentioned agent, in order, gets the
  first non-empty text at or after its mention, as many as \<open>max_out\<close> allows. The loop of the
  code fills the waiting entries of \<open>out\<close> in place instead.
\<close>

theorem parse_mentions_routes:
  assumes "msg \<noteq> []" "0 < max_out" "find_marks msg agents = m # ms"
    "\<forall>x \<in> set (m # ms). mk_name x \<noteq> ''all''"
  shows "parse_mentions (Some msg) agents hub max_out =
     hub_part msg hub m @ assign (take (nat max_out - length (hub_part msg hub m)) (segments msg (m # ms)))"
  using assms by (rule parse_mentions_assign)

theorem parse_mentions_routes_witness:
  "parse_mentions (Some ''@a @b go'') [''a'', ''b''] ''h'' 8 =
     [\<lparr>m_agent = ''a'', m_text = ''go''\<rparr>, \<lparr>m_agent = ''b'', m_text = ''go''\<rparr>]"
proof -
  let ?m = "\<lparr>mk_at = 0, mk_end = 2, mk_name = ''a''\<rparr>"
  let ?n = "\<lparr>mk_at = 3, mk_end = 5, mk_name = ''b''\<rparr>"
  have "find_marks ''@a @b go'' [''a'', ''b''] = [?m, ?n]"
    by code_simp
  then have "parse_mentions (Some ''@a @b go'') [''a'', ''b''] ''h'' 8 =
     hub_part ''@a @b go'' ''h'' ?m @
       assign (take (nat 8 - length (hub_part ''@a @b go'' ''h'' ?m)) (segments ''@a @b go'' [?m, ?n]))"
    by (intro parse_mentions_routes) simp_all
  also have "\<dots> = [\<lparr>m_agent = ''a'', m_text = ''go''\<rparr>, \<lparr>m_agent = ''b'', m_text = ''go''\<rparr>]"
    by code_simp
  finally show ?thesis .
qed

text \<open>
  Whatever the message, \<open>parse_mentions\<close> returns at most \<open>max_out\<close> entries, every agent name
  and every text fits its field, and every entry is for the hub, for \<open>all\<close> or for a configured
  agent.
\<close>

theorem parse_mentions_bounds:
  "int (length (parse_mentions msgp agents hub max_out)) \<le> max 0 max_out \<and>
   (\<forall>e. e \<in> set (parse_mentions msgp agents hub max_out) \<longrightarrow>
      length (m_agent e) < 32 \<and> length (m_text e) < TC_IRC_LINE_MAX \<and>
      m_agent e \<in> {buf_set 32 hub, ''all''} \<union> buf_set 32 ` set agents)"
proof -
  consider (trivial) "parse_mentions msgp agents hub max_out = []"
    | (single) e where "parse_mentions msgp agents hub max_out = [e]" "0 < max_out"
        "m_agent e \<in> {buf_set 32 hub, ''all''}" "length (m_text e) < TC_IRC_LINE_MAX"
    | (route) msg m ms where "msgp = Some msg" "msg \<noteq> []" "0 < max_out" "find_marks msg agents = m # ms"
        "\<forall>x \<in> set (m # ms). mk_name x \<noteq> ''all''"
    by (rule parse_mentions_cases)
  then show ?thesis
  proof cases
    case route
    let ?h = "hub_part msg hub m"
    let ?a = "assign (take (nat max_out - length ?h) (segments msg (m # ms)))"
    have eq: "parse_mentions msgp agents hub max_out = ?h @ ?a"
      using route by (simp add: parse_mentions_assign)
    have "length ?h \<le> nat max_out" using route by (auto simp: hub_part_def Let_def)
    then have "length (?h @ ?a) \<le> nat max_out"
      using length_assign_take [of "nat max_out - length ?h" "segments msg (m # ms)"]
      by (simp add: le_diff_conv2 add.commute)
    moreover have "length (m_agent e) < 32 \<and> length (m_text e) < TC_IRC_LINE_MAX \<and>
        m_agent e \<in> {buf_set 32 hub, ''all''} \<union> buf_set 32 ` set agents" if "e \<in> set (?h @ ?a)" for e
      using that hub_part_entry [of e msg hub m] assign_agents [OF route(4,5), of e]
        length_buf_set_less [of 32] by fastforce
    ultimately show ?thesis
      using route(3) unfolding eq by auto
  qed (auto simp: length_buf_set_less)
qed

theorem parse_mentions_bounds_witness:
  "length (parse_mentions (Some ''@a go @b @c x'') [''a'', ''b'', ''c''] ''h'' 2) \<le> 2 \<and>
   m_agent (hd (parse_mentions (Some ''@a go'') [''a''] ''h'' 8)) \<in> {''h'', ''all'', ''a''}"
proof -
  have "parse_mentions (Some ''@a go'') [''a''] ''h'' 8 = [\<lparr>m_agent = ''a'', m_text = ''go''\<rparr>]"
    by code_simp
  then show ?thesis
    using parse_mentions_bounds [of "Some ''@a go @b @c x''" "[''a'', ''b'', ''c'']" "''h''" 2]
      parse_mentions_bounds [of "Some ''@a go''" "[''a'']" "''h''" 8]
    by auto
qed

end
