(* ===== verification/Irc.thy ===== *)
theory Irc
  imports Irc_Parse
begin

text \<open>
  \<open>src/irc.c\<close>: the IRC client. The connection is a record with the fields of \<open>irc_t\<close>; every
  operation returns the record and what it did, in order: lines sent to the server, triggers
  handed to the daemon, texts for the terminal clients, pauses. What the network gives
  (\<open>net_connect\<close>, the TLS library, the bytes of a read) is an argument.

  The lemmas show that every line on the wire is one IRC line of at most 512 bytes whatever
  text it carries, that only the owner starts sessions, that the lines handled do not depend
  on how the stream was cut into reads, and that a reply reaches the channel complete, in
  order, with no UTF-8 sequence split.
\<close>

datatype irc_out =
    Send string
  | Trigger string string string
  | Tui "string option" string
  | Sleep nat

record irc_t =
  fd :: int
  enabled :: bool
  tls_state :: bool
  registered :: bool
  base_nick :: string
  nick :: string
  channel :: string
  channel_key :: string
  owner :: string
  hub :: string
  irc_agents :: "string list"
  readbuf :: string
  last_rx :: int
  pinged :: bool
  on_trigger :: bool
  irc_ctx :: bool

section \<open>Sending\<close>

definition irc_sendf :: "irc_t \<Rightarrow> string \<Rightarrow> irc_out list" where
  "irc_sendf irc s =
     (let buf = map (\<lambda>c. if c = CR \<or> c = LF then SP else c) (buf_set 510 s)
      in if fd irc \<ge> 0 then [Send (buf @ CRLF)] else [])"

text \<open>
  \<open>conn\<close>: the descriptor of \<open>net_connect\<close>; \<open>tls_ok\<close>: \<open>tls_client_start\<close> returned 0;
  \<open>hs_closed\<close>: the TLS engine is closed after the first write, as when the handshake failed.
\<close>

definition irc_disconnect :: "irc_t \<Rightarrow> irc_t \<times> irc_out list" where
  "irc_disconnect irc =
     (if fd irc < 0 then (irc, [])
      else (irc\<lparr>tls_state := False, fd := -1\<rparr>, irc_sendf irc ''QUIT :shclaw shutting down''))"

definition irc_connect :: "int option \<Rightarrow> bool \<Rightarrow> bool \<Rightarrow> int \<Rightarrow> int \<Rightarrow> irc_t \<Rightarrow> irc_t \<times> irc_out list \<times> int" where
  "irc_connect conn tls_ok hs_closed now port irc =
     (case conn of
        None \<Rightarrow> (irc, [], -1)
      | Some d \<Rightarrow>
          let tls = (port = 6697)
          in if tls \<and> \<not> tls_ok then (irc, [], -1)
             else let irc1 = irc\<lparr>fd := d, tls_state := tls, readbuf := [], last_rx := now,
                                 pinged := False, registered := False, nick := buf_set 32 (base_nick irc)\<rparr>;
                      out = irc_sendf irc1 (''NICK '' @ nick irc1) @
                            irc_sendf irc1 (''USER '' @ nick irc1 @ '' 0 * :shclaw'')
                  in if tls \<and> hs_closed
                     then let (irc2, out2) = irc_disconnect irc1 in (irc2, out @ out2, -1)
                     else (irc1, out, 0))"

section \<open>Receiving\<close>

text \<open>\<open>:nick!user@host CMD params\<close>: the nick, the command, the parameters.\<close>

definition parse_line :: "string \<Rightarrow> (string \<times> string \<times> string) option" where
  "parse_line line =
     (let split = (\<lambda>who l. let cmd = before SP l;
                              params = (case strchr SP l of Some r \<Rightarrow> tl r | None \<Rightarrow> [])
                          in if cmd \<noteq> [] then Some (who, cmd, params) else None)
      in if line \<noteq> [] \<and> hd line = CHR '':''
         then case strchr SP line of
                None \<Rightarrow> None
              | Some sp \<Rightarrow> split (before (CHR ''!'') (tl (before SP line))) (dropWhile (\<lambda>c. c = SP) (tl sp))
         else split [] line)"

definition next_nick :: "string \<Rightarrow> string" where
  "next_nick n =
     (if length n < 9 then n @ ''_''
      else let c = n ! 8
           in take 8 n @ [if 48 \<le> byte c \<and> byte c < 57 then char_of (byte c + 1) else CHR ''0''])"

definition handle_privmsg :: "irc_t \<Rightarrow> string \<Rightarrow> string \<Rightarrow> irc_out list" where
  "handle_privmsg irc who params =
     (case strstr '' :'' params of
        None \<Rightarrow> []
      | Some r \<Rightarrow>
          let txt = drop 2 r
          in if owner irc \<noteq> [] \<and> \<not> strcaseeq who (owner irc) then []
             else if (txt \<noteq> [] \<and> hd txt = CHR 0x01) \<or> \<not> on_trigger irc then []
             else map (\<lambda>m. Trigger (m_agent m) who (m_text m))
                    (parse_mentions (Some txt) (irc_agents irc) (hub irc) 8))"

definition handle_line :: "irc_t \<Rightarrow> string \<Rightarrow> irc_t \<times> irc_out list" where
  "handle_line irc line =
     (case parse_line line of
        None \<Rightarrow> (irc, [])
      | Some (who, cmd, params) \<Rightarrow>
          if cmd = ''PING'' then (irc, irc_sendf irc (''PONG '' @ params))
          else if cmd = ''001'' then
            (irc\<lparr>registered := True\<rparr>,
             irc_sendf irc (''JOIN '' @ channel irc @
               (if channel_key irc \<noteq> [] then '' '' @ channel_key irc else [])))
          else if cmd = ''433'' then
            (let n = next_nick (nick irc) in (irc\<lparr>nick := n\<rparr>, irc_sendf irc (''NICK '' @ n)))
          else if cmd = ''JOIN'' then
            (irc, if strcaseeq who (nick irc)
                  then (if channel_key irc \<noteq> []
                        then irc_sendf irc (''MODE '' @ channel irc @ '' +k '' @ channel_key irc) else [])
                  else if owner irc \<noteq> [] \<and> strcaseeq who (owner irc)
                  then irc_sendf irc (''MODE '' @ channel irc @ '' +o '' @ owner irc)
                  else [])
          else if cmd = ''PRIVMSG'' then (irc, handle_privmsg irc who params)
          else (irc, []))"

text \<open>The complete lines of a buffer, without their LF, and the rest.\<close>

fun split_lines :: "string \<Rightarrow> string list \<times> string" where
  "split_lines [] = ([], [])"
| "split_lines (c # cs) =
     (let (ls, r) = split_lines cs
      in if c = LF then ([] # ls, r)
         else case ls of [] \<Rightarrow> ([], c # r) | l # ls' \<Rightarrow> ((c # l) # ls', r))"

definition line_text :: "string \<Rightarrow> string" where
  "line_text l = cstr (if l \<noteq> [] \<and> last l = CR then butlast l else l)"

fun handle_lines :: "irc_t \<Rightarrow> string list \<Rightarrow> irc_t \<times> irc_out list" where
  "handle_lines irc [] = (irc, [])"
| "handle_lines irc (l # ls) =
     (let (irc1, o1) = (if line_text l \<noteq> [] then handle_line irc (line_text l) else (irc, []));
          (irc2, o2) = handle_lines irc1 ls
      in (irc2, o1 @ o2))"

text \<open>One round of \<open>irc_poll\<close>, on the bytes of one read.\<close>

definition rx_keep :: "string \<Rightarrow> nat \<Rightarrow> string" where
  "rx_keep rbuf n = (if int n > 4096 - int (length rbuf) - 1 then [] else rbuf)"

definition irc_feed :: "irc_t \<Rightarrow> int \<times> string \<Rightarrow> irc_t \<times> irc_out list" where
  "irc_feed irc rd =
     (let (now, data) = rd;
          (ls, rest) = split_lines (rx_keep (readbuf irc) (length data) @ data);
          (irc', out) = handle_lines (irc\<lparr>last_rx := now, pinged := False\<rparr>) ls
      in (irc'\<lparr>readbuf := rest\<rparr>, out))"

text \<open>
  The reads of one call: the bytes with the time, \<open>None\<close> for an error or the end, and whether
  the TLS engine holds more decrypted data. A call that finds no read left fails.
\<close>

fun irc_poll :: "((int \<times> string) option \<times> bool) list \<Rightarrow> irc_t \<Rightarrow> irc_t \<times> irc_out list \<times> int" where
  "irc_poll [] irc = (irc, [], -1)"
| "irc_poll ((None, pend) # rds) irc = (irc, [], -1)"
| "irc_poll ((Some (now, data), pend) # rds) irc =
     (if fd irc < 0 \<or> data = [] then (irc, [], -1)
      else let (irc1, o1) = irc_feed irc (now, data)
           in if pend \<and> tls_state irc
              then let (irc2, o2, rc) = irc_poll rds irc1 in (irc2, o1 @ o2, rc)
              else (irc1, o1, 0))"

definition irc_keepalive :: "int \<Rightarrow> irc_t \<Rightarrow> irc_t \<times> irc_out list \<times> int" where
  "irc_keepalive now irc =
     (if fd irc < 0 then (irc, [], 0)
      else let idle = now - last_rx irc
           in if idle > 420000 then (irc, [], -1)
              else if idle > 240000 \<and> \<not> pinged irc
              then (irc\<lparr>pinged := True\<rparr>, irc_sendf irc ''PING :shclaw'', 0)
              else (irc, [], 0))"

section \<open>Replies\<close>

fun chunk_back :: "string \<Rightarrow> nat \<Rightarrow> nat \<Rightarrow> nat" where
  "chunk_back p len 0 = 0"
| "chunk_back p len (Suc n) =
     (if Suc n > 1 \<and> Suc n < len \<and> is_cont (p ! Suc n) then chunk_back p len n else Suc n)"

definition chunk_len :: "string \<Rightarrow> nat" where
  "chunk_len p = (let len = length (before LF p) in chunk_back p len (if len > 400 then 400 else len))"

text \<open>Where the loop goes on after a chunk.\<close>

definition after_chunk :: "string \<Rightarrow> string" where
  "after_chunk p =
     (let len = length (before LF p); chunk = chunk_len p; q = drop chunk p
      in if chunk = len \<and> q \<noteq> [] \<and> hd q = LF then tl q else q)"

lemma chunk_back_le: "chunk_back p len n \<le> n"
  by (induction p len n rule: chunk_back.induct) auto

lemma chunk_back_pos: "0 < n \<Longrightarrow> 0 < chunk_back p len n"
  by (induction p len n rule: chunk_back.induct) auto

lemma chunk_len_le [cbuf]: "chunk_len p \<le> 400 \<and> chunk_len p \<le> length (before LF p)"
  using chunk_back_le [of p "length (before LF p)" "if length (before LF p) > 400 then 400 else length (before LF p)"]
  by (auto simp: chunk_len_def Let_def split: if_splits)

lemma chunk_len_pos: "before LF p \<noteq> [] \<Longrightarrow> 0 < chunk_len p"
  by (simp add: chunk_len_def Let_def chunk_back_pos)

lemma after_chunk_less: "p \<noteq> [] \<Longrightarrow> length (after_chunk p) < length p"
  using chunk_len_le [of p] chunk_len_pos [of p] length_before_le [of LF p]
  by (cases p) (auto simp: after_chunk_def Let_def split: if_splits)

function reply_loop :: "irc_t \<Rightarrow> string \<Rightarrow> string \<Rightarrow> nat \<Rightarrow> irc_out list" where
  "reply_loop irc pre p lines =
     (if p = [] then []
      else if chunk_len p = 0 then reply_loop irc pre (after_chunk p) lines
      else if lines + 1 > 20
      then irc_sendf irc (''PRIVMSG '' @ channel irc @ '' :'' @ pre @
             ''[... truncated, full reply in the TUI and logs]'')
      else (if lines + 1 > 4 then [Sleep 1] else []) @
           irc_sendf irc (''PRIVMSG '' @ channel irc @ '' :'' @ pre @ take (chunk_len p) p) @
           reply_loop irc pre (after_chunk p) (lines + 1))"
  by pat_completeness auto
termination
  by (relation "measure (\<lambda>(irc, pre, p, lines). length p)") (auto simp: after_chunk_less)

declare reply_loop.simps [simp del]

definition reply_prefix :: "irc_t \<Rightarrow> string option \<Rightarrow> string" where
  "reply_prefix irc agent_name =
     (case agent_name of None \<Rightarrow> [] | Some a \<Rightarrow> if a \<noteq> [] \<and> a \<noteq> hub irc then a @ '': '' else [])"

definition irc_reply :: "irc_t \<Rightarrow> string option \<Rightarrow> string option \<Rightarrow> irc_out list" where
  "irc_reply irc agent_name txt =
     (case txt of None \<Rightarrow> [] | Some t \<Rightarrow>
       if t = [] then []
       else (if irc_ctx irc then [Tui agent_name t] else []) @
            (if fd irc < 0 then [] else reply_loop irc (reply_prefix irc agent_name) t 0))"

definition irc_action :: "irc_t \<Rightarrow> string option \<Rightarrow> string option \<Rightarrow> irc_out list" where
  "irc_action irc agent_name txt =
     (case txt of None \<Rightarrow> [] | Some t \<Rightarrow>
       if t = [] then []
       else let line = buf_set 512 (''* '' @ (case agent_name of Some a \<Rightarrow> a | None \<Rightarrow> ''system'') @ '' '' @ t)
            in (if irc_ctx irc then [Tui None line] else []) @
               (if fd irc < 0 then []
                else irc_sendf irc (''PRIVMSG '' @ channel irc @ '' :'' @ [CHR 0x01] @ ''ACTION '' @
                       take 400 (drop 2 line) @ [CHR 0x01])))"

section \<open>Well-formed connections\<close>

definition irc_wf :: "irc_t \<Rightarrow> bool" where
  "irc_wf irc \<longleftrightarrow>
     length (base_nick irc) < 32 \<and> length (nick irc) < 32 \<and> length (channel irc) < 64 \<and>
     length (channel_key irc) < 32 \<and> length (owner irc) < 64 \<and> length (hub irc) < 32 \<and>
     length (readbuf irc) < 4096 \<and> LF \<notin> set (readbuf irc)"

lemma length_next_nick: "length (next_nick n) \<le> 9"
  by (auto simp: next_nick_def Let_def)

lemma handle_line_wf: "irc_wf irc \<Longrightarrow> irc_wf (fst (handle_line irc l))"
  using length_next_nick [of "nick irc"] by (auto simp: handle_line_def irc_wf_def Let_def split: option.splits)

lemma handle_lines_wf: "irc_wf irc \<Longrightarrow> irc_wf (fst (handle_lines irc ls))"
  by (induction irc ls rule: handle_lines.induct)
     (auto simp: Let_def split: prod.splits if_splits, (metis fst_conv handle_line_wf)+)

lemma split_lines_rest: "LF \<notin> set (snd (split_lines s)) \<and> length (snd (split_lines s)) \<le> length s"
  by (induction s) (auto split: prod.splits list.splits)

lemma irc_feed_wf:
  assumes "irc_wf irc" "length (snd rd) \<le> 2048"
  shows "irc_wf (fst (irc_feed irc rd))"
proof -
  obtain now data where rd: "rd = (now, data)" by fastforce
  define b where "b = rx_keep (readbuf irc) (length data) @ data"
  have len: "length b < 4096" using assms(2) rd by (auto simp: b_def rx_keep_def)
  obtain ls rest irc' out where sl: "split_lines b = (ls, rest)"
    and h: "handle_lines (irc\<lparr>last_rx := now, pinged := False\<rparr>) ls = (irc', out)" by fastforce
  have "irc_wf (irc\<lparr>last_rx := now, pinged := False\<rparr>)" using assms(1) by (simp add: irc_wf_def)
  from handle_lines_wf [OF this, of ls] have "irc_wf irc'" by (simp add: h)
  then show ?thesis
    using split_lines_rest [of b] len sl h
    by (simp add: irc_feed_def rd b_def [symmetric] irc_wf_def)
qed

section \<open>Framing\<close>

lemma split_lines_append:
  "split_lines (a @ b) =
     (let (ls, r) = split_lines a; (ms, r') = split_lines (r @ b) in (ls @ ms, r'))"
  by (induction a) (auto split: prod.splits list.splits)

lemma handle_lines_append:
  "handle_lines irc (as @ bs) =
     (let (irc1, o1) = handle_lines irc as; (irc2, o2) = handle_lines irc1 bs in (irc2, o1 @ o2))"
  by (induction irc as rule: handle_lines.induct) (auto split: prod.splits)

text \<open>Handling a line neither reads nor writes the receive buffer and the keepalive state.\<close>

definition rx_upd :: "string \<Rightarrow> int \<Rightarrow> bool \<Rightarrow> irc_t \<Rightarrow> irc_t" where
  "rx_upd r t g irc = irc\<lparr>readbuf := r, last_rx := t, pinged := g\<rparr>"

lemma handle_line_rx: "handle_line (rx_upd r t g irc) l = apfst (rx_upd r t g) (handle_line irc l)"
  by (simp add: handle_line_def handle_privmsg_def rx_upd_def irc_sendf_def Let_def split: option.splits)

lemma handle_lines_rx: "handle_lines (rx_upd r t g irc) ls = apfst (rx_upd r t g) (handle_lines irc ls)"
  by (induction irc ls rule: handle_lines.induct) (auto simp: handle_line_rx Let_def split: prod.splits)

lemma rx_upd_rx_upd [simp]: "rx_upd r t g (rx_upd r' t' g' irc) = rx_upd r t g irc"
  by (simp add: rx_upd_def)

fun irc_feeds :: "irc_t \<Rightarrow> (int \<times> string) list \<Rightarrow> irc_t \<times> irc_out list" where
  "irc_feeds irc [] = (irc, [])"
| "irc_feeds irc (rd # rds) =
     (let (irc1, o1) = irc_feed irc rd; (irc2, o2) = irc_feeds irc1 rds in (irc2, o1 @ o2))"

definition short_lines :: "nat \<Rightarrow> string \<Rightarrow> bool" where
  "short_lines k s \<longleftrightarrow>
     list_all (\<lambda>l. length l \<le> k) (fst (split_lines s)) \<and> length (snd (split_lines s)) \<le> k"

lemma split_lines_run:
  "LF \<notin> set r \<Longrightarrow> split_lines (r @ s) =
     (case split_lines s of ([], q) \<Rightarrow> ([], r @ q) | (l # ls, q) \<Rightarrow> ((r @ l) # ls, q))"
  by (induction r) (auto split: prod.splits list.splits)

lemma short_lines_run: "LF \<notin> set r \<Longrightarrow> short_lines k (r @ s) \<Longrightarrow> length r \<le> k"
  by (auto simp: short_lines_def split_lines_run split: prod.splits list.splits)

lemma irc_feed_eq:
  assumes "length (readbuf irc) \<le> 2047" "length data \<le> 2048"
  shows "irc_feed irc (now, data) =
     (let (ls, rest) = split_lines (readbuf irc @ data) in apfst (rx_upd rest now False) (handle_lines irc ls))"
proof -
  have "irc\<lparr>last_rx := now, pinged := False\<rparr> = rx_upd (readbuf irc) now False irc"
    by (simp add: rx_upd_def)
  moreover have "(rx_upd r now False i)\<lparr>readbuf := q\<rparr> = rx_upd q now False i" for r q i
    by (simp add: rx_upd_def)
  moreover have "rx_keep (readbuf irc) (length data) = readbuf irc"
    using assms by (simp add: rx_keep_def)
  ultimately show ?thesis
    by (auto simp: irc_feed_def handle_lines_rx apfst_def map_prod_def split: prod.splits)
qed

lemma irc_feeds_eq:
  assumes "rds \<noteq> []" "LF \<notin> set (readbuf irc)" "list_all (\<lambda>(t, d). length d \<le> 2048) rds"
    "short_lines 2047 (readbuf irc @ concat (map snd rds))"
  shows "irc_feeds irc rds =
     (let (ls, rest) = split_lines (readbuf irc @ concat (map snd rds))
      in apfst (rx_upd rest (fst (last rds)) False) (handle_lines irc ls))"
  using assms
proof (induction rds arbitrary: irc)
  case (Cons rd rds)
  obtain now data where rd: "rd = (now, data)" by fastforce
  obtain ls r where sl: "split_lines (readbuf irc @ data) = (ls, r)" by fastforce
  obtain irc1 o1 where h: "handle_lines irc ls = (irc1, o1)" by fastforce
  have len: "length (readbuf irc) \<le> 2047" "length data \<le> 2048"
    using Cons.prems short_lines_run by (auto simp: rd)
  have f: "irc_feed irc rd = (rx_upd r now False irc1, o1)"
    using irc_feed_eq [OF len] by (simp add: rd sl h)
  show ?case
  proof (cases "rds = []")
    case True
    with f show ?thesis by (simp add: rd sl h)
  next
    case False
    let ?D = "concat (map snd rds)"
    have rb: "readbuf (rx_upd r now False irc1) = r" by (simp add: rx_upd_def)
    have whole: "split_lines (readbuf irc @ concat (map snd (rd # rds))) =
        (ls @ fst (split_lines (r @ ?D)), snd (split_lines (r @ ?D)))"
      using split_lines_append [of "readbuf irc @ data" ?D] by (simp add: rd sl split: prod.splits)
    with Cons.prems(4) have "short_lines 2047 (r @ ?D)"
      by (simp only: short_lines_def fst_conv snd_conv) simp
    moreover have "LF \<notin> set r" using split_lines_rest [of "readbuf irc @ data"] sl by simp
    ultimately have "irc_feeds (rx_upd r now False irc1) rds =
        (let (ls, rest) = split_lines (r @ ?D)
         in apfst (rx_upd rest (fst (last rds)) False) (handle_lines (rx_upd r now False irc1) ls))"
      using Cons.IH [of "rx_upd r now False irc1"] Cons.prems(3) False by (simp add: rb)
    then show ?thesis
      using False unfolding whole
      by (auto simp: f handle_lines_append h handle_lines_rx split: prod.splits)
  qed
qed simp

section \<open>Chunks of a reply\<close>

function reply_chunks :: "string \<Rightarrow> string list" where
  "reply_chunks p =
     (if p = [] then []
      else if chunk_len p = 0 then reply_chunks (after_chunk p)
      else take (chunk_len p) p # reply_chunks (after_chunk p))"
  by pat_completeness auto
termination
  by (relation "measure length") (auto simp: after_chunk_less)

declare reply_chunks.simps [simp del]

lemma before_take: "k \<le> length (before LF p) \<Longrightarrow> LF \<notin> set (take k p)"
proof
  assume k: "k \<le> length (before LF p)" and "LF \<in> set (take k p)"
  then have "LF \<in> set (take (length (before LF p)) p)"
    using set_take_subset_set_take [OF k, of p] by auto
  then show False by (auto simp flip: takeWhile_eq_take dest: set_takeWhileD)
qed

lemma hd_after_before: "drop (length (before LF p)) p \<noteq> [] \<Longrightarrow> hd (drop (length (before LF p)) p) = LF"
  by (metis (mono_tags, lifting) dropWhile_eq_drop hd_dropWhile)

text \<open>A chunk, then a line feed if the chunk ends its line, then the rest.\<close>

lemma after_chunk_cases:
  assumes "p \<noteq> []"
  obtains (newline) "p = take (chunk_len p) p @ LF # after_chunk p" "chunk_len p = length (before LF p)"
  | (plain) "p = take (chunk_len p) p @ after_chunk p" "chunk_len p < length (before LF p) \<or> after_chunk p = []"
proof (cases "chunk_len p = length (before LF p) \<and> drop (chunk_len p) p \<noteq> []")
  case True
  then have "drop (chunk_len p) p = LF # after_chunk p"
    using hd_after_before [of p] list.collapse [of "drop (chunk_len p) p"]
    by (auto simp: after_chunk_def Let_def)
  with True show ?thesis by (intro newline) (metis append_take_drop_id, simp)
next
  case False
  then have "after_chunk p = drop (chunk_len p) p" by (auto simp: after_chunk_def Let_def)
  with False show ?thesis
    using chunk_len_le [of p] by (intro plain) auto
qed

lemma concat_reply_chunks: "concat (reply_chunks p) = filter (\<lambda>c. c \<noteq> LF) p"
proof (induction p rule: reply_chunks.induct)
  case (1 p)
  show ?case
  proof (cases "p = []")
    case False
    let ?t = "take (chunk_len p) p"
    have IH: "concat (reply_chunks (after_chunk p)) = filter (\<lambda>c. c \<noteq> LF) (after_chunk p)"
      using 1 False by (cases "chunk_len p = 0") auto
    have "filter (\<lambda>c. c \<noteq> LF) ?t = ?t"
      using before_take [of "chunk_len p" p] chunk_len_le [of p] by (auto simp: filter_id_conv)
    moreover have "filter (\<lambda>c. c \<noteq> LF) p = filter (\<lambda>c. c \<noteq> LF) ?t @ filter (\<lambda>c. c \<noteq> LF) (after_chunk p)"
      using False
    proof (cases p rule: after_chunk_cases)
      case newline
      from arg_cong [OF newline(1), of "filter (\<lambda>c. c \<noteq> LF)"] show ?thesis by simp
    next
      case plain
      from arg_cong [OF plain(1), of "filter (\<lambda>c. c \<noteq> LF)"] show ?thesis by simp
    qed
    ultimately show ?thesis
      using False IH by (subst reply_chunks.simps) simp
  qed (simp add: reply_chunks.simps)
qed

lemma chunk_back_cut:
  "n < len \<Longrightarrow> 1 \<le> j \<Longrightarrow> j \<le> n \<Longrightarrow> \<not> is_cont (p ! j) \<Longrightarrow> \<not> is_cont (p ! chunk_back p len n)"
proof (induction p len n rule: chunk_back.induct)
  case (2 p len n)
  then show ?case by (cases "j = Suc n") auto
qed simp

lemma chunk_len_boundary:
  assumes "utf8_text p"
  shows "utf8_boundary p (chunk_len p)"
proof -
  let ?l = "length (before LF p)"
  have le: "?l \<le> length p" by (rule length_before_le)
  show ?thesis
  proof (cases "?l > 400")
    case True
    then obtain j where j: "397 \<le> j" "j \<le> 400" "utf8_boundary p j"
      using utf8_boundary_near [OF assms, of 397] le by auto
    then have "\<not> is_cont (p ! j)" using True le by (auto simp: utf8_boundary_def)
    then have "\<not> is_cont (p ! chunk_len p)"
      using chunk_back_cut [of 400 ?l j p] True j by (simp add: chunk_len_def)
    then show ?thesis
      using chunk_len_le [of p] True le by (auto simp: utf8_boundary_def)
  next
    case False
    have "chunk_back p ?l ?l = ?l" by (cases ?l) auto
    then have "chunk_len p = ?l" using False by (simp add: chunk_len_def)
    moreover have "\<not> is_cont (p ! ?l)" if "?l < length p"
      using hd_after_before [of p] that by (simp add: hd_drop_conv_nth is_cont_def byte_def)
    ultimately show ?thesis using le by (auto simp: utf8_boundary_def)
  qed
qed

lemma after_chunk_text:
  assumes "utf8_text p" "p \<noteq> []"
  shows "utf8_text (take (chunk_len p) p) \<and> utf8_text (after_chunk p)"
proof -
  note sp = utf8_text_split [OF assms(1) chunk_len_boundary [OF assms(1)]]
  show ?thesis using assms(2)
  proof (cases p rule: after_chunk_cases)
    case newline
    then have "drop (chunk_len p) p = LF # after_chunk p" by (metis append_take_drop_id same_append_eq)
    with sp show ?thesis using utf8_text_tl [of LF "after_chunk p"] by (simp add: byte_def)
  next
    case plain
    then have "drop (chunk_len p) p = after_chunk p" by (metis append_take_drop_id same_append_eq)
    with sp show ?thesis by simp
  qed
qed

lemma reply_chunks_text:
  "utf8_text p \<Longrightarrow> list_all (\<lambda>c. utf8_text c \<and> c \<noteq> [] \<and> length c \<le> 400) (reply_chunks p)"
proof (induction p rule: reply_chunks.induct)
  case (1 p)
  then show ?case
    using after_chunk_text [of p] chunk_len_le [of p]
    by (cases "p = []"; cases "chunk_len p = 0") (auto simp: reply_chunks.simps [of p] reply_chunks.simps [of "[]"])
qed

lemma reply_chunks_len: "list_all (\<lambda>c. c \<noteq> [] \<and> length c \<le> 400) (reply_chunks p)"
proof (induction p rule: reply_chunks.induct)
  case (1 p)
  then show ?case
    using chunk_len_le [of p]
    by (cases "p = []"; cases "chunk_len p = 0") (auto simp: reply_chunks.simps [of p] reply_chunks.simps [of "[]"])
qed

section \<open>Lines on the wire\<close>

text \<open>One IRC message: a single line, at most 512 bytes with its CRLF.\<close>

definition wire_line :: "string \<Rightarrow> bool" where
  "wire_line s \<longleftrightarrow> (\<exists>l. s = l @ CRLF \<and> CR \<notin> set l \<and> LF \<notin> set l \<and> length s \<le> 512)"

definition wire_ok :: "irc_out list \<Rightarrow> bool" where
  "wire_ok out \<longleftrightarrow> (\<forall>s. Send s \<in> set out \<longrightarrow> wire_line s)"

lemma wire_ok_simps [simp]:
  "wire_ok []" "wire_ok (a @ b) \<longleftrightarrow> wire_ok a \<and> wire_ok b"
  "wire_ok (Tui n t # a) \<longleftrightarrow> wire_ok a" "wire_ok (Sleep k # a) \<longleftrightarrow> wire_ok a"
  by (auto simp: wire_ok_def)

lemma wire_ok_triggers [simp]: "wire_ok (map (\<lambda>m. Trigger (f m) (g m) (h m)) ms)"
  by (auto simp: wire_ok_def)

lemma wire_ok_sendf [simp]: "wire_ok (irc_sendf irc s)"
proof -
  let ?b = "map (\<lambda>c. if c = CR \<or> c = LF then SP else c) (buf_set 510 s)"
  have "CR \<notin> set ?b" "LF \<notin> set ?b" by auto
  moreover have "length (?b @ CRLF) \<le> 512" using length_buf_set [of 510 s] by simp
  ultimately have "wire_line (?b @ CRLF)" unfolding wire_line_def by blast
  then show ?thesis by (simp add: wire_ok_def irc_sendf_def)
qed

lemma wire_ok_handle_line: "wire_ok (snd (handle_line irc l))"
  by (simp add: handle_line_def handle_privmsg_def Let_def split: option.split prod.split)

lemma wire_ok_handle_lines: "wire_ok (snd (handle_lines irc ls))"
  by (induction irc ls rule: handle_lines.induct)
     (auto simp: Let_def split: prod.splits if_splits, (metis snd_conv wire_ok_handle_line)+)

lemma wire_ok_feed: "wire_ok (snd (irc_feed irc rd))"
  using wire_ok_handle_lines by (auto simp: irc_feed_def split: prod.splits) (metis snd_conv)

lemma wire_ok_poll: "wire_ok (fst (snd (irc_poll rds irc)))"
proof (induction rds irc rule: irc_poll.induct)
  case (3 now data pend rds irc)
  obtain irc1 o1 where f: "irc_feed irc (now, data) = (irc1, o1)" by fastforce
  with wire_ok_feed [of irc "(now, data)"] have "wire_ok o1" by simp
  with 3 f show ?case by (auto split: prod.splits)
qed simp_all

lemma wire_ok_reply_loop: "wire_ok (reply_loop irc pre p lines)"
  by (induction irc pre p lines rule: reply_loop.induct) (subst reply_loop.simps, auto)

text \<open>The lines that an output sends, in order.\<close>

definition sends :: "irc_out list \<Rightarrow> string list" where
  "sends out = List.map_filter (\<lambda>x. case x of Send s \<Rightarrow> Some s | _ \<Rightarrow> None) out"

lemma sends_simps [simp]:
  "sends [] = []" "sends (a @ b) = sends a @ sends b" "sends (Send s # a) = s # sends a"
  "sends (Tui n t # a) = sends a" "sends (Sleep k # a) = sends a" "sends (Trigger x y z # a) = sends a"
  by (simp_all add: sends_def List.map_filter_def)

definition privmsg_line :: "irc_t \<Rightarrow> string \<Rightarrow> string \<Rightarrow> string" where
  "privmsg_line irc pre t = ''PRIVMSG '' @ channel irc @ '' :'' @ pre @ t"

definition one_line :: "string \<Rightarrow> string" where
  "one_line s = map (\<lambda>c. if c = CR \<or> c = LF then SP else c) s"

lemma sends_sendf_fits:
  assumes "fd irc \<ge> 0" "length s < 510"
  shows "sends (irc_sendf irc s) = [one_line s @ CRLF]"
  using assms by (simp add: irc_sendf_def one_line_def Let_def)

lemma length_privmsg_line:
  "irc_wf irc \<Longrightarrow> length pre < 34 \<Longrightarrow> length t \<le> 400 \<Longrightarrow> length (privmsg_line irc pre t) < 510"
  by (simp add: privmsg_line_def irc_wf_def)

lemma reply_loop_sends:
  assumes "irc_wf irc" "fd irc \<ge> 0" "length pre < 34"
  shows "lines \<le> 20 \<Longrightarrow> sends (reply_loop irc pre p lines) =
     map (\<lambda>c. one_line (privmsg_line irc pre c) @ CRLF) (take (20 - lines) (reply_chunks p)) @
     (if length (reply_chunks p) > 20 - lines
      then [one_line (privmsg_line irc pre ''[... truncated, full reply in the TUI and logs]'') @ CRLF] else [])"
proof (induction p arbitrary: lines rule: reply_chunks.induct)
  case (1 p)
  have fits: "sends (irc_sendf irc (''PRIVMSG '' @ channel irc @ '' :'' @ pre @ t)) =
      [one_line (privmsg_line irc pre t) @ CRLF]" if "length t \<le> 400" for t
    using sends_sendf_fits [OF assms(2) length_privmsg_line [OF assms(1,3) that]]
    by (simp add: privmsg_line_def)
  consider "p = []" | "p \<noteq> []" "chunk_len p = 0" | "p \<noteq> []" "chunk_len p \<noteq> 0" "lines = 20"
    | "p \<noteq> []" "chunk_len p \<noteq> 0" "lines < 20"
    using 1(3) by linarith
  then show ?case
  proof cases
    case 1
    then show ?thesis by (simp add: reply_loop.simps reply_chunks.simps)
  next
    case 2
    then show ?thesis using 1(1,3) by (simp add: reply_loop.simps [of irc pre p] reply_chunks.simps [of p])
  next
    case 3
    then show ?thesis using fits by (simp add: reply_loop.simps [of irc pre p] reply_chunks.simps [of p])
  next
    case 4
    then have "sends (reply_loop irc pre p lines) =
        (one_line (privmsg_line irc pre (take (chunk_len p) p)) @ CRLF) #
        sends (reply_loop irc pre (after_chunk p) (Suc lines))"
      using fits [of "take (chunk_len p) p"] chunk_len_le [of p] min.coboundedI2 [of "chunk_len p" 400 "length p"]
      by (simp add: reply_loop.simps [of irc pre p lines])
    then show ?thesis
      using 4 1(2) [of "Suc lines"]
      by (simp add: reply_chunks.simps [of p] take_Cons' Suc_diff_Suc) (auto simp: less_Suc_eq_le)
  qed
qed

section \<open>Who starts sessions\<close>

definition from_owner :: "string \<Rightarrow> irc_out list \<Rightarrow> bool" where
  "from_owner ow out \<longleftrightarrow> (\<forall>a who t. Trigger a who t \<in> set out \<longrightarrow> ow = [] \<or> strcaseeq who ow)"

lemma from_owner_simps [simp]:
  "from_owner ow []" "from_owner [] out" "from_owner ow (a @ b) \<longleftrightarrow> from_owner ow a \<and> from_owner ow b"
  "from_owner ow (irc_sendf irc s)"
  unfolding from_owner_def irc_sendf_def by (simp_all add: Let_def) blast

lemma from_owner_privmsg: "from_owner (owner irc) (handle_privmsg irc who params)"
  by (auto simp: handle_privmsg_def from_owner_def Let_def split: option.splits if_splits)

lemma handle_line_owner:
  "from_owner (owner irc) (snd (handle_line irc l)) \<and> owner (fst (handle_line irc l)) = owner irc \<and>
   fd (fst (handle_line irc l)) = fd irc"
  by (simp add: handle_line_def from_owner_privmsg Let_def split: option.split prod.split)

lemma handle_lines_owner:
  "from_owner (owner irc) (snd (handle_lines irc ls)) \<and> owner (fst (handle_lines irc ls)) = owner irc \<and>
   fd (fst (handle_lines irc ls)) = fd irc"
proof (induction irc ls rule: handle_lines.induct)
  case (2 irc l ls)
  obtain irc1 o1 where s: "(if line_text l \<noteq> [] then handle_line irc (line_text l) else (irc, [])) = (irc1, o1)"
    by fastforce
  then have "from_owner (owner irc) o1 \<and> owner irc1 = owner irc \<and> fd irc1 = fd irc"
    using handle_line_owner [of irc "line_text l"] by (auto split: if_splits)
  then show ?case
    using 2 [OF s [symmetric] refl] by (simp add: s case_prod_unfold Let_def)
qed simp

lemma irc_feed_owner:
  "from_owner (owner irc) (snd (irc_feed irc rd)) \<and> owner (fst (irc_feed irc rd)) = owner irc \<and>
   fd (fst (irc_feed irc rd)) = fd irc"
  using handle_lines_owner [of "irc\<lparr>last_rx := fst rd, pinged := False\<rparr>"]
  by (simp add: irc_feed_def case_prod_unfold Let_def)

lemma irc_poll_owner: "from_owner (owner irc) (fst (snd (irc_poll rds irc)))"
proof (induction rds irc rule: irc_poll.induct)
  case (3 now data pend rds irc)
  obtain irc1 o1 where f: "irc_feed irc (now, data) = (irc1, o1)" by fastforce
  with irc_feed_owner [of irc "(now, data)"] have "from_owner (owner irc) o1" "owner irc1 = owner irc"
    by simp_all
  with 3 f show ?case by (auto split: prod.splits)
qed simp_all

text \<open>Polls of one read each.\<close>

fun irc_polls :: "irc_t \<Rightarrow> (int \<times> string) list \<Rightarrow> irc_t \<times> irc_out list" where
  "irc_polls irc [] = (irc, [])"
| "irc_polls irc (rd # rds) =
     (let (irc1, o1, rc) = irc_poll [(Some rd, False)] irc; (irc2, o2) = irc_polls irc1 rds in (irc2, o1 @ o2))"

lemma irc_polls_feeds:
  "fd irc \<ge> 0 \<Longrightarrow> list_all (\<lambda>(t, d). d \<noteq> []) rds \<Longrightarrow> irc_polls irc rds = irc_feeds irc rds"
proof (induction rds arbitrary: irc)
  case (Cons rd rds)
  then show ?case
    using irc_feed_owner [of irc rd] by (cases rd) (auto split: prod.splits)
qed simp

section \<open>Nick retries\<close>

lemma char_0: "char_of (48 :: nat) = CHR ''0''"
  by code_simp

lemma next_nick_digit:
  assumes "length n = 9" "n ! 8 = char_of (48 + d)" "d < 10"
  shows "next_nick n = take 8 n @ [char_of (48 + Suc d mod 10)]"
  using assms by (cases "d = 9") (auto simp: next_nick_def char_0)

lemma next_nick_cycle:
  assumes "length p = 8" "d < 10"
  shows "(next_nick ^^ k) (p @ [char_of (48 + d)]) = p @ [char_of (48 + (d + k) mod 10)]"
proof (induction k)
  case (Suc k)
  then show ?case
    using next_nick_digit [of "p @ [char_of (48 + (d + k) mod 10)]" "(d + k) mod 10"] assms
    by (simp add: mod_Suc_eq nth_append)
qed (use assms in simp)

lemma next_nick_change: "next_nick n \<noteq> n"
proof (cases "length n = 9")
  case True
  have "byte (CHR ''0'') = 48" by (simp add: byte_def)
  with True have "next_nick n ! 8 \<noteq> n ! 8"
    by (auto simp: next_nick_def Let_def nth_append char_of_eq_byte)
  then show ?thesis by metis
next
  case False
  then show ?thesis by (auto simp: next_nick_def Let_def dest: arg_cong [of _ _ length])
qed

lemma irc_keepalive_wf: "irc_wf irc \<Longrightarrow> irc_wf (fst (irc_keepalive now irc))"
  by (simp add: irc_keepalive_def irc_wf_def Let_def)

lemma irc_disconnect_wf: "irc_wf irc \<Longrightarrow> irc_wf (fst (irc_disconnect irc))"
  by (simp add: irc_disconnect_def irc_wf_def)

lemma irc_connect_wf: "irc_wf irc \<Longrightarrow> irc_wf (fst (irc_connect conn tls_ok hs_closed now port irc))"
  by (auto simp: irc_connect_def irc_disconnect_def irc_wf_def Let_def split: option.split)

lemma irc_poll_wf:
  "irc_wf irc \<Longrightarrow> \<forall>t d b. (Some (t, d), b) \<in> set rds \<longrightarrow> length d \<le> 2048 \<Longrightarrow> irc_wf (fst (irc_poll rds irc))"
proof (induction rds irc rule: irc_poll.induct)
  case (3 now data pend rds irc)
  obtain irc1 o1 where f: "irc_feed irc (now, data) = (irc1, o1)" by fastforce
  have "length data \<le> 2048" "\<forall>t d b. (Some (t, d), b) \<in> set rds \<longrightarrow> length d \<le> 2048"
    using 3(3) by (meson list.set_intros)+
  note small = this
  with irc_feed_wf [OF 3(2), of "(now, data)"] f have wf: "irc_wf irc1" by simp
  have "irc_wf (fst (irc_poll rds irc1))" if "\<not> (fd irc < 0 \<or> data = [])" "pend \<and> tls_state irc"
    by (rule 3(1)) (use that f wf small in auto)
  with wf 3(2) f show ?case by (simp add: case_prod_unfold Let_def)
qed simp_all

text \<open>A connection for the witnesses.\<close>

definition sample_irc :: irc_t where
  "sample_irc = \<lparr>fd = 5, enabled = True, tls_state = False, registered = True, base_nick = ''bot'', nick = ''bot'',
     channel = ''#c'', channel_key = [], owner = ''ann'', hub = ''hub'', irc_agents = [''bob''],
     readbuf = [], last_rx = 0, pinged = False, on_trigger = True, irc_ctx = False\<rparr>"

section \<open>Properties\<close>

text \<open>
  (C8) Every line that the IRC client sends, from whichever operation and whatever model output,
  web text or server parameter it carries, is one IRC message: it ends in CRLF, holds no other
  CR or LF, so no text can start a second command, and has at most 512 bytes.
\<close>

theorem irc_lines_on_wire:
  "wire_ok (snd (handle_line irc l)) \<and> wire_ok (fst (snd (irc_poll rds irc))) \<and>
   wire_ok (irc_reply irc agent txt) \<and> wire_ok (irc_action irc agent txt) \<and>
   wire_ok (fst (snd (irc_keepalive now irc))) \<and> wire_ok (snd (irc_disconnect irc)) \<and>
   wire_ok (fst (snd (irc_connect conn tls_ok hs_closed now port irc)))"
  by (simp add: wire_ok_handle_line wire_ok_poll irc_reply_def wire_ok_reply_loop irc_action_def
      irc_keepalive_def irc_disconnect_def irc_connect_def Let_def split: option.split)

text \<open>
  (C9) With an owner configured, whatever bytes the server sends, in however many reads, a session
  is triggered only for a message whose sender nick is the owner's, without regard to case.
\<close>

theorem irc_poll_owner_only:
  assumes "owner irc \<noteq> []" "Trigger a who t \<in> set (fst (snd (irc_poll rds irc)))"
  shows "strcaseeq who (owner irc)"
  using irc_poll_owner [of irc rds] assms by (auto simp: from_owner_def)

theorem irc_poll_owner_only_witness:
  "Trigger ''bob'' ''Ann'' ''hi'' \<in> set (fst (snd (irc_poll [(Some (7, '':Ann!u@h PRIVMSG #c :@bob hi'' @ CRLF), False)] sample_irc)))
   \<and> strcaseeq ''Ann'' (owner sample_irc)"
proof -
  have "Trigger ''bob'' ''Ann'' ''hi'' \<in>
      set (fst (snd (irc_poll [(Some (7, '':Ann!u@h PRIVMSG #c :@bob hi'' @ CRLF), False)] sample_irc)))"
    by code_simp
  moreover have "owner sample_irc \<noteq> []" by (simp add: sample_irc_def)
  ultimately show ?thesis using irc_poll_owner_only by blast
qed

text \<open>
  Polling the connection read by read, as long as the socket delivers, handles exactly the lines
  of the whole byte stream, in order and each once, however the stream was cut into reads:
  outputs and final state are those of splitting the stream at once. The lines must stay below
  2048 bytes (IRC allows 512).
\<close>

theorem irc_polls_framing:
  assumes "irc_wf irc" "fd irc \<ge> 0" "rds \<noteq> []"
    "list_all (\<lambda>(t, d). d \<noteq> [] \<and> length d \<le> 2048) rds"
    "short_lines 2047 (readbuf irc @ concat (map snd rds))"
  shows "irc_polls irc rds =
     (let (ls, rest) = split_lines (readbuf irc @ concat (map snd rds))
      in apfst (rx_upd rest (fst (last rds)) False) (handle_lines irc ls))"
  using assms irc_polls_feeds [OF assms(2), of rds] irc_feeds_eq [of rds irc]
  by (simp add: irc_wf_def list_all_iff case_prod_unfold)

theorem irc_polls_framing_witness:
  "irc_polls sample_irc [(1, ''PI''), (2, ''NG x'' @ CRLF @ ''P'')] =
     (rx_upd ''P'' 2 False sample_irc, [Send (''PONG x'' @ CRLF)])"
proof -
  let ?rds = "[(1 :: int, ''PI''), (2, ''NG x'' @ CRLF @ ''P'')]"
  have sl: "split_lines (''PING x'' @ CRLF @ ''P'') = ([''PING x'' @ [CR]], ''P'')" by code_simp
  have h: "handle_lines sample_irc [''PING x'' @ [CR]] = (sample_irc, [Send (''PONG x'' @ CRLF)])"
    by code_simp
  have "irc_polls sample_irc ?rds =
     (let (ls, rest) = split_lines (readbuf sample_irc @ concat (map snd ?rds))
      in apfst (rx_upd rest (fst (last ?rds)) False) (handle_lines sample_irc ls))"
    by (rule irc_polls_framing)
       (use sl in \<open>simp_all add: irc_wf_def sample_irc_def short_lines_def\<close>)
  with sl h show ?thesis by (simp add: sample_irc_def)
qed

text \<open>
  (C37) A reply reaches the channel complete: the text without its line feeds is the concatenation of
  chunks, each of them valid UTF-8 of at most 400 bytes, never cut inside a character; each
  of the first 20 is sent in order as one untruncated PRIVMSG with the agent's prefix, and a
  longer reply ends in one notice, so at most 21 lines are sent.
\<close>

theorem irc_reply_complete:
  assumes "irc_wf irc" "fd irc \<ge> 0" "t \<noteq> []" "utf8_text t"
    "\<forall>a. agent = Some a \<longrightarrow> length a < 32"
  shows "\<exists>cs. concat cs = filter (\<lambda>c. c \<noteq> LF) t \<and>
     list_all (\<lambda>c. utf8_text c \<and> c \<noteq> [] \<and> length c \<le> 400) cs \<and>
     sends (irc_reply irc agent (Some t)) =
       map (\<lambda>c. one_line (privmsg_line irc (reply_prefix irc agent) c) @ CRLF) (take 20 cs) @
       (if length cs > 20
        then [one_line (privmsg_line irc (reply_prefix irc agent)
                ''[... truncated, full reply in the TUI and logs]'') @ CRLF] else [])"
proof -
  have "length (reply_prefix irc agent) < 34"
    using assms(5) by (auto simp: reply_prefix_def split: option.splits)
  with assms show ?thesis
    by (intro exI [of _ "reply_chunks t"])
       (simp add: concat_reply_chunks reply_chunks_text irc_reply_def reply_loop_sends)
qed

theorem irc_reply_complete_witness:
  "\<exists>cs. concat cs = ''ab'' \<and>
     sends (irc_reply sample_irc (Some ''bob'') (Some [CHR ''a'', LF, CHR ''b''])) =
       map (\<lambda>c. one_line (privmsg_line sample_irc (reply_prefix sample_irc (Some ''bob'')) c) @ CRLF) (take 20 cs) @
       (if length cs > 20
        then [one_line (privmsg_line sample_irc (reply_prefix sample_irc (Some ''bob''))
                ''[... truncated, full reply in the TUI and logs]'') @ CRLF] else [])"
proof -
  have "utf8_text (utf8_scrub [CHR ''a'', LF, CHR ''b''])" by (rule utf8_scrub_text)
  moreover have "utf8_scrub [CHR ''a'', LF, CHR ''b''] = [CHR ''a'', LF, CHR ''b'']" by code_simp
  ultimately have "utf8_text [CHR ''a'', LF, CHR ''b'']" by simp
  then show ?thesis
    using irc_reply_complete [of sample_irc "[CHR ''a'', LF, CHR ''b'']" "Some ''bob''"]
    by (auto simp: irc_wf_def sample_irc_def)
qed

text \<open>
  Every operation keeps the connection well formed: each name fits its array, the nick also
  after any number of "nickname in use" answers, and the receive buffer stays below its 4096
  bytes and holds no complete line.
\<close>

theorem irc_wf_preserved:
  assumes "irc_wf irc"
  shows "irc_wf (fst (handle_line irc l)) \<and> irc_wf (fst (irc_keepalive now irc)) \<and>
     irc_wf (fst (irc_disconnect irc)) \<and> irc_wf (fst (irc_connect conn tls_ok hs_closed now port irc)) \<and>
     ((\<forall>t d b. (Some (t, d), b) \<in> set rds \<longrightarrow> length d \<le> 2048) \<longrightarrow> irc_wf (fst (irc_poll rds irc)))"
  using assms by (simp add: handle_line_wf irc_keepalive_wf irc_disconnect_wf irc_connect_wf irc_poll_wf)

theorem irc_wf_preserved_witness:
  "irc_wf (fst (irc_poll [(Some (7, ''433''  @ CRLF), False)] sample_irc))"
  using irc_wf_preserved [of sample_irc "[]" 0 None True True 0 "[(Some (7, ''433''  @ CRLF), False)]"]
  by (simp add: irc_wf_def sample_irc_def)

text \<open>
  Retrying a nick that is in use never tries the same nick twice in a row, never tries one longer
  than 9 bytes, and once the retry ends in a digit, ten retries go through the ten digits.
\<close>

theorem next_nick_retries:
  "next_nick n \<noteq> n \<and> length (next_nick n) \<le> 9 \<and>
   (length p = 8 \<and> d < 10 \<longrightarrow>
      (next_nick ^^ k) (p @ [char_of (48 + d)]) = p @ [char_of (48 + (d + k) mod 10)])"
  using next_nick_change [of n] length_next_nick [of n] next_nick_cycle [of p d k] by blast

theorem next_nick_retries_witness:
  "(next_nick ^^ 3) (''longnick'' @ ''8'') = ''longnick1''"
proof -
  have "(next_nick ^^ 3) (''longnick'' @ [char_of (48 + 8 :: nat)]) = ''longnick'' @ [char_of (48 + (8 + 3) mod 10 :: nat)]"
    using next_nick_retries [of "[]" "''longnick''" 8 3] by simp
  moreover have "char_of (48 + 8 :: nat) = CHR ''8''" "char_of (48 + (8 + 3) mod 10 :: nat) = CHR ''1''"
    by code_simp+
  ultimately show ?thesis by simp
qed

end
