(* ===== verification/Chat.thy ===== *)
theory Chat
  imports Util
begin

text \<open>
  The owner conversation of \<open>src/session.c\<close> (\<open>chat_log_t\<close>): a ring of the last 20 lines that all
  agents share. The ring is shown to be a bounded log: reading it from the oldest line is the
  list of the last 20 lines added since the conversation opened.
\<close>

abbreviation (input) TC_CHAT_LINES :: nat where "TC_CHAT_LINES \<equiv> 20"
abbreviation (input) TC_CHAT_LINE :: nat where "TC_CHAT_LINE \<equiv> 320"

record chat_line =
  cl_seq :: "32 word"
  cl_agent :: string
  cl_text :: string

record chat_log =
  lines :: "chat_line list"
  ch_n :: nat
  ch_next :: nat
  ch_seq :: "32 word"
  ch_id :: "32 word"
  ch_idle :: int
  ch_last :: time

definition chat_init :: "int \<Rightarrow> chat_log" where
  "chat_init idle_s =
     \<lparr>lines = replicate TC_CHAT_LINES \<lparr>cl_seq = 0, cl_agent = [], cl_text = []\<rparr>,
      ch_n = 0, ch_next = 0, ch_seq = 0, ch_id = 0, ch_idle = idle_s, ch_last = 0\<rparr>"

definition chat_expire :: "time \<Rightarrow> chat_log \<Rightarrow> chat_log" where
  "chat_expire now c =
     (if ch_n c > 0 \<and> now - ch_last c \<ge> ch_idle c
      then c\<lparr>ch_n := 0, ch_next := 0, ch_id := ch_id c + 1\<rparr> else c)"

text \<open>The text of an entry: \<open>HH:MM who: text\<close>, cut between characters, on one line.\<close>

definition chat_text :: "tm \<Rightarrow> string \<Rightarrow> string \<Rightarrow> string" where
  "chat_text t who tx =
     (let mx = TC_CHAT_LINE - 1;
          hdr = fmt_0d 2 (tm_hour t) @ '':'' @ fmt_0d 2 (tm_min t) @ '' '' @ who @ '': '';
          off = min (length hdr) mx;
          keep = utf8_prefix tx (mx - off)
      in map (\<lambda>c. if c = LF \<or> c = CR then SP else c) (take off hdr @ take keep tx))"

text \<open>Storing one entry at \<open>next\<close>.\<close>

definition chat_put :: "chat_line \<Rightarrow> chat_log \<Rightarrow> chat_log" where
  "chat_put e c =
     c\<lparr>lines := (lines c)[ch_next c := e],
       ch_next := (ch_next c + 1) mod TC_CHAT_LINES,
       ch_n := (if ch_n c < TC_CHAT_LINES then ch_n c + 1 else ch_n c)\<rparr>"

text \<open>\<open>t\<close>: the time read at the start; \<open>now\<close>: the time \<open>chat_expire\<close> reads.\<close>

definition chat_add :: "tzone \<Rightarrow> time \<Rightarrow> time \<Rightarrow> string \<Rightarrow> string \<Rightarrow> string option \<Rightarrow> chat_log \<Rightarrow> chat_log" where
  "chat_add tz t now agent who tx c =
     (if tx = None \<or> the tx = [] then c
      else let c1 = chat_expire now c; sq = ch_seq c1 + 1
           in chat_put \<lparr>cl_seq = sq, cl_agent = buf_set 32 agent, cl_text = chat_text (localtime_r tz t) who (the tx)\<rparr>
                (c1\<lparr>ch_last := t, ch_seq := sq\<rparr>))"

definition chat_id :: "time \<Rightarrow> chat_log option \<Rightarrow> chat_log option \<times> 32 word" where
  "chat_id now cp = (case cp of None \<Rightarrow> (None, 0) | Some c \<Rightarrow> (let c1 = chat_expire now c in (Some c1, ch_id c1)))"

text \<open>The loop over the ring, oldest line first.\<close>

definition chat_shown :: "32 word \<Rightarrow> string option \<Rightarrow> chat_line \<Rightarrow> bool" where
  "chat_shown after skip l \<longleftrightarrow> cl_seq l > after \<and> \<not> (skip \<noteq> None \<and> cl_agent l = the skip)"

definition chat_render :: "32 word \<Rightarrow> string option \<Rightarrow> nat \<Rightarrow> chat_log option \<Rightarrow> string \<times> 32 word" where
  "chat_render after skip sz cp =
     (case cp of None \<Rightarrow> ([], 0)
      | Some c \<Rightarrow>
          (fold (\<lambda>i out. let k = nat ((int (ch_next c) - int (ch_n c) + int i + int TC_CHAT_LINES) mod int TC_CHAT_LINES);
                              l = lines c ! k
                          in if chat_shown after skip l then buf_appendf sz out (cl_text l @ [LF]) else out)
             [0..<ch_n c] [], ch_seq c))"

section \<open>The ring is a bounded log\<close>

definition chat_wf :: "chat_log \<Rightarrow> bool" where
  "chat_wf c \<longleftrightarrow> length (lines c) = 20 \<and> ch_n c \<le> 20 \<and> ch_next c < 20"

definition chat_items :: "chat_log \<Rightarrow> chat_line list" where
  "chat_items c = map (\<lambda>i. lines c ! ((ch_next c + 20 - ch_n c + i) mod 20)) [0..<ch_n c]"

lemma chat_index:
  "chat_wf c \<Longrightarrow>
     nat ((int (ch_next c) - int (ch_n c) + int i + int 20) mod int 20) = (ch_next c + 20 - ch_n c + i) mod 20"
proof -
  assume "chat_wf c"
  then have "int (ch_next c) - int (ch_n c) + int i + int 20 = int (ch_next c + 20 - ch_n c + i)"
    by (simp add: chat_wf_def)
  then show ?thesis by (metis nat_int of_nat_mod)
qed

lemma length_chat_items [simp]: "length (chat_items c) = ch_n c"
  by (simp add: chat_items_def)

lemma chat_init_wf: "chat_wf (chat_init idle) \<and> chat_items (chat_init idle) = []"
  by (simp add: chat_wf_def chat_init_def chat_items_def)

lemma chat_expire_wf: "chat_wf c \<Longrightarrow> chat_wf (chat_expire now c)"
  by (simp add: chat_expire_def chat_wf_def)

lemma chat_put_wf: "chat_wf c \<Longrightarrow> chat_wf (chat_put e c)"
  by (auto simp: chat_put_def chat_wf_def)

lemma mod_add_neq:
  fixes a b :: nat
  assumes "a < 20" "0 < b" "b < 20"
  shows "(a + b) mod 20 \<noteq> a"
  using assms by (auto simp: mod_if)

lemma chat_items_put:
  assumes "chat_wf c"
  shows "chat_items (chat_put e c) = last_n 20 (chat_items c @ [e])"
proof (rule nth_equalityI)
  let ?n = "ch_n c" and ?x = "ch_next c"
  have wf: "length (lines c) = 20" "?n \<le> 20" "?x < 20" using assms by (simp_all add: chat_wf_def)
  show "length (chat_items (chat_put e c)) = length (last_n 20 (chat_items c @ [e]))"
    using wf by (simp add: chat_put_def length_last_n)
  fix i assume "i < length (chat_items (chat_put e c))"
  then have i: "i < (if ?n < 20 then ?n + 1 else 20)" using wf by (simp add: chat_put_def split: if_splits)
  show "chat_items (chat_put e c) ! i = last_n 20 (chat_items c @ [e]) ! i"
  proof (cases "?n < 20")
    case True
    have idx: "((?x + 1) mod 20 + 20 - (?n + 1) + i) mod 20 = (?x + 20 - ?n + i) mod 20"
      using True wf i by (auto simp: mod_if)
    have "(?x + 20 - ?n + i) mod 20 = ?x \<longleftrightarrow> i = ?n"
      using True wf i mod_add_neq [of ?x "20 - ?n + i"] by (cases "i = ?n") (auto simp: algebra_simps)
    with True i idx wf show ?thesis
      by (auto simp: chat_items_def chat_put_def nth_append)
  next
    case False
    then have n: "?n = 20" using wf by simp
    have "(?x + 1 + i) mod 20 = ?x \<longleftrightarrow> i = 19"
      using wf i n mod_add_neq [of ?x "1 + i"] by (cases "i = 19") (auto simp: algebra_simps)
    with n i wf show ?thesis
      by (auto simp: chat_items_def chat_put_def nth_append last_n_def mod_Suc_eq mod_simps algebra_simps)
  qed
qed

interpretation chat: bounded_log chat_wf chat_put "\<lambda>l. l" chat_items 20
  by unfold_locales (erule chat_put_wf, erule chat_items_put, simp add: chat_wf_def)

lemma chat_render_items:
  assumes "chat_wf c"
  shows "fst (chat_render after skip sz (Some c)) =
     take (sz - 1) (concat (map (\<lambda>l. cl_text l @ [LF]) (filter (chat_shown after skip) (chat_items c))))"
proof -
  have "fst (chat_render after skip sz (Some c)) =
      fold (\<lambda>l out. if chat_shown after skip l then buf_appendf sz out (cl_text l @ [LF]) else out) (chat_items c) []"
    using chat_index [OF assms] by (simp add: chat_render_def chat_items_def fold_map comp_def Let_def)
  also have "\<dots> = fold (\<lambda>l out. buf_appendf sz out (cl_text l @ [LF])) (filter (chat_shown after skip) (chat_items c)) []"
    by (simp add: fold_filter) (rule fold_cong, auto)
  finally show ?thesis
    using fold_buf_appendf [of "[]" sz "\<lambda>l. cl_text l @ [LF]"] by simp
qed

section \<open>A conversation\<close>

text \<open>The events of an open conversation: the time, the agent, who speaks, the text.\<close>

type_synonym chat_event = "time \<times> string \<times> string \<times> string"

definition chat_adds :: "tzone \<Rightarrow> chat_event list \<Rightarrow> chat_log \<Rightarrow> chat_log" where
  "chat_adds tz evs c = fold (\<lambda>(t, ag, who, tx). chat_add tz t t ag who (Some tx)) evs c"

fun chat_lines :: "tzone \<Rightarrow> 32 word \<Rightarrow> chat_event list \<Rightarrow> chat_line list" where
  "chat_lines tz sq [] = []"
| "chat_lines tz sq ((t, ag, who, tx) # evs) =
     \<lparr>cl_seq = sq + 1, cl_agent = buf_set 32 ag, cl_text = chat_text (localtime_r tz t) who tx\<rparr>
       # chat_lines tz (sq + 1) evs"

text \<open>No silence of \<open>idle\<close> seconds, and no empty text.\<close>

fun lively :: "int \<Rightarrow> time \<Rightarrow> chat_event list \<Rightarrow> bool" where
  "lively idle t0 [] = True"
| "lively idle t0 ((t, ag, who, tx) # evs) = (t - t0 < idle \<and> tx \<noteq> [] \<and> lively idle t evs)"

lemma chat_put_upd: "chat_put e (c\<lparr>ch_last := t, ch_seq := q\<rparr>) = (chat_put e c)\<lparr>ch_last := t, ch_seq := q\<rparr>"
  by (simp add: chat_put_def)

lemma chat_items_upd [simp]: "chat_items (c\<lparr>ch_last := t, ch_seq := q\<rparr>) = chat_items c"
  by (simp add: chat_items_def)

lemma chat_wf_upd [simp]: "chat_wf (c\<lparr>ch_last := t, ch_seq := q\<rparr>) = chat_wf c"
  by (simp add: chat_wf_def)

lemma chat_adds_puts:
  "lively (ch_idle c) (ch_last c) evs \<Longrightarrow>
     \<exists>t q. chat_adds tz evs c = (fold chat_put (chat_lines tz (ch_seq c) evs) c)\<lparr>ch_last := t, ch_seq := q\<rparr>"
proof (induction evs arbitrary: c)
  case Nil
  have "c = c\<lparr>ch_last := ch_last c, ch_seq := ch_seq c\<rparr>" by simp
  then show ?case unfolding chat_adds_def by (metis chat_lines.simps(1) fold_simps(1))
next
  case (Cons ev evs)
  obtain t ag who tx where ev: "ev = (t, ag, who, tx)" by (cases ev)
  define e where "e = \<lparr>cl_seq = ch_seq c + 1, cl_agent = buf_set 32 ag, cl_text = chat_text (localtime_r tz t) who tx\<rparr>"
  have "chat_expire t c = c" using Cons.prems by (auto simp: chat_expire_def ev)
  then have add: "chat_add tz t t ag who (Some tx) c = (chat_put e c)\<lparr>ch_last := t, ch_seq := ch_seq c + 1\<rparr>"
    using Cons.prems by (simp add: chat_add_def e_def ev chat_put_upd Let_def)
  define c' where "c' = chat_add tz t t ag who (Some tx) c"
  have "lively (ch_idle c') (ch_last c') evs" using Cons.prems by (simp add: c'_def add ev chat_put_def)
  then obtain t' q' where IH: "chat_adds tz evs c' = (fold chat_put (chat_lines tz (ch_seq c') evs) c')\<lparr>ch_last := t', ch_seq := q'\<rparr>"
    using Cons.IH by blast
  have fold_upd: "fold chat_put es (d\<lparr>ch_last := a, ch_seq := b\<rparr>) = (fold chat_put es d)\<lparr>ch_last := a, ch_seq := b\<rparr>" for es d a b
    by (induction es arbitrary: d) (simp_all add: chat_put_upd)
  have "chat_adds tz (ev # evs) c = chat_adds tz evs c'" by (simp add: chat_adds_def ev c'_def)
  also have "\<dots> = (fold chat_put (chat_lines tz (ch_seq c) (ev # evs)) c)\<lparr>ch_last := t', ch_seq := q'\<rparr>"
    using IH by (simp add: c'_def add fold_upd ev e_def)
  finally show ?case by blast
qed

lemma length_chat_text [cbuf]: "length (chat_text t who tx) \<le> 319"
proof -
  define hdr where "hdr = fmt_0d 2 (tm_hour t) @ '':'' @ fmt_0d 2 (tm_min t) @ '' '' @ who @ '': ''"
  define off where "off = min (length hdr) 319"
  have "length (chat_text t who tx) = length (take off hdr) + length (take (utf8_prefix tx (319 - off)) tx)"
    unfolding chat_text_def Let_def hdr_def [symmetric] by (simp add: off_def)
  also have "\<dots> \<le> off + (319 - off)"
    using utf8_prefix_props [of tx "319 - off"] by (intro add_mono) auto
  finally show ?thesis by (simp add: off_def)
qed

lemma chat_text_one_line: "LF \<notin> set (chat_text t who tx) \<and> CR \<notin> set (chat_text t who tx)"
  by (auto simp: chat_text_def Let_def)

lemma fmt_2d:
  assumes "0 \<le> i" "i < 100"
  shows "length (fmt_0d 2 i) = 2 \<and> utf8_text (fmt_0d 2 i)"
proof -
  have "length (dec_nat (nat i)) \<le> 2"
    using assms by (subst dec_nat.simps, subst dec_nat.simps) auto
  then have "length (fmt_0d 2 i) = 2" using assms(1) by (simp add: fmt_0d_def dec_pad_def)
  moreover have "list_all (\<lambda>c. byte c < 128) (fmt_0d 2 i)"
    using assms(1) dec_nat_digits [of "nat i"]
    by (auto simp: fmt_0d_def dec_pad_def list_all_iff is_digit_def byte_def)
  ultimately show ?thesis using utf8_text_ascii by blast
qed

lemma chat_text_utf8:
  assumes "utf8_text who" "utf8_text tx" "length who \<le> 200" "0 \<le> tm_hour t" "tm_hour t < 24" "0 \<le> tm_min t" "tm_min t < 60"
  shows "utf8_text (chat_text t who tx)"
proof -
  define hdr where "hdr = fmt_0d 2 (tm_hour t) @ '':'' @ fmt_0d 2 (tm_min t) @ '' '' @ who @ '': ''"
  note h = fmt_2d [of "tm_hour t"] fmt_2d [of "tm_min t"]
  have "length hdr \<le> 319" using h assms by (simp add: hdr_def)
  then have eq: "chat_text t who tx =
      map (\<lambda>c. if c = LF \<or> c = CR then SP else c) (hdr @ take (utf8_prefix tx (319 - length hdr)) tx)"
    unfolding chat_text_def Let_def hdr_def [symmetric] by simp
  have "utf8_text '':''" "utf8_text '' ''" "utf8_text '': ''"
    by (simp_all add: utf8_text_ascii byte_def)
  then have "utf8_text hdr" using h assms unfolding hdr_def by (intro utf8_text_append) simp_all
  then have "utf8_text (hdr @ take (utf8_prefix tx (319 - length hdr)) tx)"
    using utf8_text_append utf8_text_prefix assms(2) by blast
  then show ?thesis unfolding eq by (intro utf8_text_map) (auto simp: byte_def)
qed

section \<open>Properties\<close>

text \<open>
  While a conversation stays open, what an agent is shown is the end of it: after any number of
  messages the ring holds the last 20 lines in the order they were said, and \<open>chat_render\<close>
  prints exactly those of them that are newer than \<open>after\<close> and do not concern \<open>skip\<close>, oldest
  first, cut only at the end of the output buffer.
\<close>

theorem chat_render_conversation:
  assumes "chat_wf c" "lively (ch_idle c) (ch_last c) evs"
  shows "chat_items (chat_adds tz evs c) = last_n 20 (chat_items c @ chat_lines tz (ch_seq c) evs) \<and>
     fst (chat_render after skip sz (Some (chat_adds tz evs c))) =
       take (sz - 1) (concat (map (\<lambda>l. cl_text l @ [LF])
         (filter (chat_shown after skip) (last_n 20 (chat_items c @ chat_lines tz (ch_seq c) evs)))))"
proof -
  let ?ls = "chat_lines tz (ch_seq c) evs"
  obtain t q where eq: "chat_adds tz evs c = (fold chat_put ?ls c)\<lparr>ch_last := t, ch_seq := q\<rparr>"
    using chat_adds_puts [OF assms(2)] by blast
  have "chat_items (chat_adds tz evs c) = last_n 20 (chat_items c @ ?ls)"
    using chat.items_puts [OF assms(1)] by (simp add: eq)
  moreover have "chat_wf (chat_adds tz evs c)" using chat.puts_wf [OF assms(1)] by (simp add: eq)
  ultimately show ?thesis using chat_render_items by simp
qed

theorem chat_render_conversation_witness:
  "fst (chat_render 0 (Some ''bob'') 100 (Some (chat_adds \<lparr>localtime_r = gmtime_r, mktime = timegm\<rparr>
       [(60, ''ann'', ''owner'', ''hi''), (61, ''bob'', ''owner'', ''yo'')] (chat_init 100)))) = ''00:01 owner: hi'' @ [LF]"
proof -
  let ?tz = "\<lparr>localtime_r = gmtime_r, mktime = timegm\<rparr>"
  let ?evs = "[(60, ''ann'', ''owner'', ''hi''), (61, ''bob'', ''owner'', ''yo'')]"
  have "chat_text (gmtime_r 60) ''owner'' ''hi'' = ''00:01 owner: hi''" by code_simp
  then have "concat (map (\<lambda>l. cl_text l @ [LF]) (filter (chat_shown 0 (Some ''bob''))
      (last_n 20 (chat_items (chat_init 100) @ chat_lines ?tz (ch_seq (chat_init 100)) ?evs)))) = ''00:01 owner: hi'' @ [LF]"
    by (simp add: chat_init_wf chat_shown_def) (simp add: chat_init_def)
  then show ?thesis
    using chat_render_conversation [of "chat_init 100" ?evs ?tz 0 "Some ''bob''" 100]
    by (simp add: chat_init_wf) (simp add: chat_init_def)
qed

text \<open>
  A conversation closes after \<open>idle\<close> seconds of silence: the next message opens a new one with
  a new id that holds only that message; before that, the message is appended.
\<close>

theorem chat_add_expiry:
  assumes "chat_wf c" "tx \<noteq> []" "0 < ch_n c"
  shows "\<exists>l. chat_items (chat_add tz t t ag who (Some tx) c) =
       (if t - ch_last c \<ge> ch_idle c then [l] else last_n 20 (chat_items c @ [l])) \<and>
     ch_id (chat_add tz t t ag who (Some tx) c) = (if t - ch_last c \<ge> ch_idle c then ch_id c + 1 else ch_id c) \<and>
     cl_agent l = buf_set 32 ag \<and> length (cl_text l) \<le> 319"
proof -
  let ?c1 = "chat_expire t c"
  define e where "e = \<lparr>cl_seq = ch_seq ?c1 + 1, cl_agent = buf_set 32 ag, cl_text = chat_text (localtime_r tz t) who tx\<rparr>"
  have add: "chat_add tz t t ag who (Some tx) c = (chat_put e ?c1)\<lparr>ch_last := t, ch_seq := ch_seq ?c1 + 1\<rparr>"
    using assms(2) by (simp add: chat_add_def e_def chat_put_upd Let_def)
  have "chat_items (chat_add tz t t ag who (Some tx) c) = last_n 20 (chat_items ?c1 @ [e])"
    using chat.items_put [OF chat_expire_wf [OF assms(1)]] by (simp add: add)
  moreover have "chat_items ?c1 = (if t - ch_last c \<ge> ch_idle c then [] else chat_items c)"
    using assms(3) by (simp add: chat_expire_def chat_items_def)
  ultimately show ?thesis
    using assms(3) length_chat_text
    by (intro exI [of _ e]) (auto simp: add e_def chat_put_def chat_expire_def)
qed

theorem chat_add_expiry_witness:
  "ch_id (chat_add \<lparr>localtime_r = gmtime_r, mktime = timegm\<rparr> 500 500 ''ann'' ''owner'' (Some ''hi'')
      ((chat_init 100)\<lparr>ch_n := 3, ch_next := 3, ch_last := 10\<rparr>)) = 1"
  using chat_add_expiry [of "(chat_init 100)\<lparr>ch_n := 3, ch_next := 3, ch_last := 10\<rparr>" "''hi''"
      "\<lparr>localtime_r = gmtime_r, mktime = timegm\<rparr>" 500 "''ann''" "''owner''"]
  by (auto simp: chat_wf_def chat_init_def)

text \<open>
  A line of the conversation is one line of at most 319 bytes, and when the speaker's name and
  the message are valid UTF-8 the line is too: a long message is cut between characters.
\<close>

theorem chat_text_line:
  "length (chat_text t who tx) \<le> 319 \<and> LF \<notin> set (chat_text t who tx) \<and> CR \<notin> set (chat_text t who tx) \<and>
   (utf8_text who \<and> utf8_text tx \<and> length who \<le> 200 \<and> 0 \<le> tm_hour t \<and> tm_hour t < 24 \<and> 0 \<le> tm_min t \<and> tm_min t < 60
      \<longrightarrow> utf8_text (chat_text t who tx))"
  using length_chat_text [of t who tx] chat_text_one_line chat_text_utf8 [of who tx t] by blast

theorem chat_text_line_witness:
  "utf8_text (chat_text \<lparr>tm_year = 70, tm_mon = 0, tm_mday = 1, tm_hour = 9, tm_min = 5, tm_sec = 0\<rparr> ''ann'' ''hi'')"
  using chat_text_line [of "\<lparr>tm_year = 70, tm_mon = 0, tm_mday = 1, tm_hour = 9, tm_min = 5, tm_sec = 0\<rparr>" "''ann''" "''hi''"]
  by (simp add: utf8_text_ascii byte_def)

end
