(* ===== verification/Cjson.thy ===== *)
theory Cjson
  imports Util
begin

text \<open>
  JSON values and the JSON helpers of \<open>src/util.c\<close>. cJSON is a library the program links: a
  value is a tree (\<open>cjson\<close>), and the library functions the program calls are the fields of
  a record \<open>cjson_api\<close> that the definitions take as an argument. What the program relies on is
  the predicate \<open>cjson_laws\<close>, the documented behaviour of these functions: look-up and
  deletion by key ignore case and take the first match, additions append, and printed text
  parses back to the value printed.

  The lemmas show that a file that is not valid JSON of the wanted kind is never read as
  empty, and that saving and loading is a round trip.
\<close>

datatype cjson =
    CNull
  | CBool bool
  | CNumber int rat \<comment> \<open>\<open>valueint\<close> and \<open>valuedouble\<close>\<close>
  | CString string
  | CArray "cjson list"
  | CObject "(string \<times> cjson) list"

record cjson_api =
  cJSON_Parse :: "string \<Rightarrow> cjson option"
  cJSON_Print :: "cjson \<Rightarrow> string option"
  cJSON_PrintUnformatted :: "cjson \<Rightarrow> string option"
  cJSON_GetObjectItem :: "cjson \<Rightarrow> string \<Rightarrow> cjson option"
  cJSON_AddItemToObject :: "cjson \<Rightarrow> string \<Rightarrow> cjson \<Rightarrow> cjson"
  cJSON_DeleteItemFromObject :: "cjson \<Rightarrow> string \<Rightarrow> cjson"
  cJSON_AddItemToArray :: "cjson \<Rightarrow> cjson \<Rightarrow> cjson"
  cJSON_ReplaceItemInObject :: "cjson \<Rightarrow> string \<Rightarrow> cjson \<Rightarrow> cjson"
  cJSON_ParseWithOpts :: "string \<Rightarrow> cjson option" \<comment> \<open>with \<open>require_null_terminated\<close>\<close>

section \<open>Documented behaviour of cJSON\<close>

definition lookup_ci :: "string \<Rightarrow> (string \<times> cjson) list \<Rightarrow> cjson option" where
  "lookup_ci k kvs = map_option snd (find (\<lambda>kv. strcaseeq (fst kv) k) kvs)"

fun delete_ci :: "string \<Rightarrow> (string \<times> cjson) list \<Rightarrow> (string \<times> cjson) list" where
  "delete_ci k [] = []"
| "delete_ci k (kv # kvs) = (if strcaseeq (fst kv) k then kvs else kv # delete_ci k kvs)"

fun replace_ci :: "string \<Rightarrow> cjson \<Rightarrow> (string \<times> cjson) list \<Rightarrow> (string \<times> cjson) list" where
  "replace_ci k v [] = []"
| "replace_ci k v (kv # kvs) = (if strcaseeq (fst kv) k then (k, v) # kvs else kv # replace_ci k v kvs)"

definition cjson_laws :: "cjson_api \<Rightarrow> bool" where
  "cjson_laws J \<longleftrightarrow>
     (\<forall>v s. cJSON_Print J v = Some s \<longrightarrow> cJSON_Parse J s = Some v) \<and>
     (\<forall>v s. cJSON_PrintUnformatted J v = Some s \<longrightarrow> cJSON_Parse J s = Some v) \<and>
     (\<forall>v s. cJSON_Print J v = Some s \<or> cJSON_PrintUnformatted J v = Some s \<longrightarrow> NUL \<notin> set s) \<and>
     (\<forall>kvs k. cJSON_GetObjectItem J (CObject kvs) k = lookup_ci k kvs) \<and>
     (\<forall>v k. (\<forall>kvs. v \<noteq> CObject kvs) \<longrightarrow> cJSON_GetObjectItem J v k = None) \<and>
     (\<forall>kvs k v. cJSON_AddItemToObject J (CObject kvs) k v = CObject (kvs @ [(k, v)])) \<and>
     (\<forall>kvs k. cJSON_DeleteItemFromObject J (CObject kvs) k = CObject (delete_ci k kvs)) \<and>
     (\<forall>xs v. cJSON_AddItemToArray J (CArray xs) v = CArray (xs @ [v])) \<and>
     (\<forall>kvs k v. cJSON_ReplaceItemInObject J (CObject kvs) k v = CObject (replace_ci k v kvs)) \<and>
     (\<forall>s v. cJSON_ParseWithOpts J s = Some v \<longrightarrow> cJSON_Parse J s = Some v)"

lemma cjson_law:
  assumes "cjson_laws J"
  shows "cJSON_Print J v = Some s \<Longrightarrow> cJSON_Parse J s = Some v"
    and "cJSON_PrintUnformatted J v = Some s \<Longrightarrow> cJSON_Parse J s = Some v"
    and "cJSON_GetObjectItem J (CObject kvs) k = lookup_ci k kvs"
    and "(\<And>kvs. v \<noteq> CObject kvs) \<Longrightarrow> cJSON_GetObjectItem J v k = None"
    and "cJSON_AddItemToObject J (CObject kvs) k v = CObject (kvs @ [(k, v)])"
    and "cJSON_DeleteItemFromObject J (CObject kvs) k = CObject (delete_ci k kvs)"
    and "cJSON_AddItemToArray J (CArray xs) v = CArray (xs @ [v])"
    and "cJSON_Print J v = Some s \<or> cJSON_PrintUnformatted J v = Some s \<Longrightarrow> NUL \<notin> set s"
    and "cJSON_ReplaceItemInObject J (CObject kvs) k v = CObject (replace_ci k v kvs)"
    and "cJSON_ParseWithOpts J s = Some v \<Longrightarrow> cJSON_Parse J s = Some v"
  using assms unfolding cjson_laws_def by auto

lemmas cjson_obj = cjson_law(3,5,6,7,9)

text \<open>
  An instance, for evaluation: the operations on values as documented, and printing limited
  to the values of a table.
\<close>

definition table_cjson :: "(cjson \<times> string) list \<Rightarrow> cjson_api" where
  "table_cjson tab =
     \<lparr>cJSON_Parse = map_of (map (\<lambda>(v, s). (s, v)) tab), cJSON_Print = map_of tab, cJSON_PrintUnformatted = map_of tab,
      cJSON_GetObjectItem = (\<lambda>v k. case v of CObject kvs \<Rightarrow> lookup_ci k kvs | _ \<Rightarrow> None),
      cJSON_AddItemToObject = (\<lambda>v k w. case v of CObject kvs \<Rightarrow> CObject (kvs @ [(k, w)]) | _ \<Rightarrow> v),
      cJSON_DeleteItemFromObject = (\<lambda>v k. case v of CObject kvs \<Rightarrow> CObject (delete_ci k kvs) | _ \<Rightarrow> v),
      cJSON_AddItemToArray = (\<lambda>v w. case v of CArray xs \<Rightarrow> CArray (xs @ [w]) | _ \<Rightarrow> v),
      cJSON_ReplaceItemInObject = (\<lambda>v k w. case v of CObject kvs \<Rightarrow> CObject (replace_ci k w kvs) | _ \<Rightarrow> v),
      cJSON_ParseWithOpts = map_of (map (\<lambda>(v, s). (s, v)) tab)\<rparr>"

lemma table_cjson_laws:
  assumes "distinct (map snd tab)" "list_all (\<lambda>x. NUL \<notin> set (snd x)) tab"
  shows "cjson_laws (table_cjson tab)"
proof -
  have "map_of (map (\<lambda>(v, s). (s, v)) tab) s = Some v" if "map_of tab v = Some s" for v s
  proof (rule map_of_is_SomeI)
    show "distinct (map fst (map (\<lambda>(v, s). (s, v)) tab))" using assms(1) by (simp add: comp_def case_prod_unfold)
    show "(s, v) \<in> set (map (\<lambda>(v, s). (s, v)) tab)" using map_of_SomeD [OF that] by force
  qed
  moreover have "NUL \<notin> set s" if "map_of tab v = Some s" for v s
    using map_of_SomeD [OF that] assms(2) by (auto simp: list_all_iff)
  ultimately show ?thesis by (auto simp: cjson_laws_def table_cjson_def split: cjson.split)
qed

section \<open>The helpers of \<open>util.c\<close>\<close>

definition j_str :: "cjson_api \<Rightarrow> cjson \<Rightarrow> string \<Rightarrow> string option" where
  "j_str J obj key = (case cJSON_GetObjectItem J obj key of Some (CString s) \<Rightarrow> Some s | _ \<Rightarrow> None)"

definition j_int :: "cjson_api \<Rightarrow> cjson \<Rightarrow> string \<Rightarrow> int \<Rightarrow> int" where
  "j_int J obj key def =
     (case cJSON_GetObjectItem J obj key of
        Some (CNumber i d) \<Rightarrow> i
      | Some (CString s) \<Rightarrow>
          (let (v, rest, erange) = strtol s
           in if rest \<noteq> s \<and> rest = [] \<and> \<not> erange \<and> INT_MIN \<le> v \<and> v \<le> INT_MAX then v else def)
      | _ \<Rightarrow> def)"

definition j_bool :: "cjson_api \<Rightarrow> cjson \<Rightarrow> string \<Rightarrow> bool \<Rightarrow> bool" where
  "j_bool J obj key def =
     (case cJSON_GetObjectItem J obj key of
        Some (CBool b) \<Rightarrow> b
      | Some (CNumber i d) \<Rightarrow> d \<noteq> 0
      | Some (CString s) \<Rightarrow>
          if strcaseeq s ''true'' \<or> strcaseeq s ''yes'' \<or> s = ''1'' then True
          else if strcaseeq s ''false'' \<or> strcaseeq s ''no'' \<or> s = ''0'' then False else def
      | _ \<Rightarrow> def)"

definition json_load :: "cjson_api \<Rightarrow> fs \<Rightarrow> string \<Rightarrow> bool \<Rightarrow> cjson option" where
  "json_load J fs path want_array =
     (case file_slurp fs path of
        NoEnt \<Rightarrow> Some (if want_array then CArray [] else CObject [])
      | SlurpErr \<Rightarrow> None
      | Slurped data \<Rightarrow>
          (case cJSON_Parse J (cstr data) of
             Some (CArray xs) \<Rightarrow> if want_array then Some (CArray xs) else None
           | Some (CObject kvs) \<Rightarrow> if want_array then None else Some (CObject kvs)
           | _ \<Rightarrow> None))"

definition json_save_atomic :: "cjson_api \<Rightarrow> wenv \<Rightarrow> string \<Rightarrow> cjson \<Rightarrow> bool \<Rightarrow> fs \<Rightarrow> fs \<times> int" where
  "json_save_atomic J e path obj formatted fs =
     (case (if formatted then cJSON_Print J obj else cJSON_PrintUnformatted J obj) of
        None \<Rightarrow> (fs, -1)
      | Some json \<Rightarrow> atomic_write e path json fs)"

text \<open>\<open>set_string\<close> of \<open>scheduler.c\<close> and \<open>session.c\<close>, and adding a string.\<close>

definition add_string :: "cjson_api \<Rightarrow> string \<Rightarrow> string \<Rightarrow> cjson \<Rightarrow> cjson" where
  "add_string J key val obj = cJSON_AddItemToObject J obj key (CString val)"

definition set_string :: "cjson_api \<Rightarrow> string \<Rightarrow> string \<Rightarrow> cjson \<Rightarrow> cjson" where
  "set_string J key val obj = add_string J key val (cJSON_DeleteItemFromObject J obj key)"

section \<open>Look-up after update\<close>

lemma lookup_ci_append:
  "lookup_ci k (as @ bs) = (case lookup_ci k as of Some v \<Rightarrow> Some v | None \<Rightarrow> lookup_ci k bs)"
  by (induction as) (auto simp: lookup_ci_def)

lemma lookup_ci_simps [simp]:
  "lookup_ci k [] = None" "lookup_ci k ((k', v) # kvs) = (if strcaseeq k' k then Some v else lookup_ci k kvs)"
  by (simp_all add: lookup_ci_def)

lemma lookup_ci_delete_other: "\<not> strcaseeq k' k \<Longrightarrow> lookup_ci k (delete_ci k' kvs) = lookup_ci k kvs"
  by (induction kvs) (auto simp: lookup_ci_def dest: strcaseeq_trans strcaseeq_sym)

text \<open>At most one entry per key, up to case: true of every object the program builds.\<close>

definition keys_ok :: "(string \<times> cjson) list \<Rightarrow> bool" where
  "keys_ok kvs \<longleftrightarrow> distinct (map (map tolower \<circ> fst) kvs)"

lemma keys_ok_Cons: "keys_ok ((k, v) # kvs) \<longleftrightarrow> (\<forall>kv \<in> set kvs. \<not> strcaseeq k (fst kv)) \<and> keys_ok kvs"
  by (auto simp: keys_ok_def strcaseeq_def)

lemma lookup_ci_None: "(\<forall>kv \<in> set kvs. \<not> strcaseeq (fst kv) k) \<Longrightarrow> lookup_ci k kvs = None"
  by (induction kvs) auto

lemma lookup_ci_delete_same: "keys_ok kvs \<Longrightarrow> strcaseeq k' k \<Longrightarrow> lookup_ci k (delete_ci k' kvs) = None"
proof (induction kvs)
  case (Cons kv kvs)
  obtain a v where kv: "kv = (a, v)" by (cases kv)
  show ?case
  proof (cases "strcaseeq a k'")
    case True
    have "lookup_ci k kvs = None"
      using Cons.prems True kv by (intro lookup_ci_None) (auto simp: keys_ok_Cons dest: strcaseeq_trans strcaseeq_sym)
    with True kv show ?thesis by simp
  next
    case False
    then have "\<not> strcaseeq a k" using Cons.prems(2) strcaseeq_trans strcaseeq_sym by blast
    with False Cons kv show ?thesis by (simp add: keys_ok_Cons)
  qed
qed simp

lemma lookup_ci_set:
  "keys_ok kvs \<Longrightarrow> lookup_ci k (delete_ci k' kvs @ [(k', v)]) = (if strcaseeq k' k then Some v else lookup_ci k kvs)"
  by (auto simp: lookup_ci_append lookup_ci_delete_same lookup_ci_delete_other split: option.split)

lemma lookup_ci_replace:
  "lookup_ci k (replace_ci k' v kvs) = (if strcaseeq k' k \<and> lookup_ci k kvs \<noteq> None then Some v else lookup_ci k kvs)"
  by (induction kvs) (auto simp: lookup_ci_def dest: strcaseeq_trans strcaseeq_sym)

lemma set_delete_ci: "set (delete_ci k kvs) \<subseteq> set kvs"
  by (induction kvs) auto

lemma delete_ci_no_key: "keys_ok kvs \<Longrightarrow> kv \<in> set (delete_ci k kvs) \<Longrightarrow> \<not> strcaseeq (fst kv) k"
proof (induction kvs)
  case (Cons x kvs)
  then show ?case
    by (cases x) (auto simp: keys_ok_Cons split: if_splits dest: strcaseeq_trans strcaseeq_sym)
qed simp

lemma keys_ok_delete: "keys_ok kvs \<Longrightarrow> keys_ok (delete_ci k kvs)"
proof (induction kvs)
  case (Cons x kvs)
  then show ?case
    using set_delete_ci [of k kvs] by (cases x) (auto simp: keys_ok_Cons)
qed simp

lemma keys_ok_set: "keys_ok kvs \<Longrightarrow> keys_ok (delete_ci k kvs @ [(k, v)])"
  using keys_ok_delete [of kvs k] delete_ci_no_key [of kvs _ k]
  unfolding keys_ok_def strcaseeq_def by force

text \<open>An object whose keys differ.\<close>

lemma j_str_object: "cjson_laws J \<Longrightarrow> j_str J (CObject kvs) k = (case lookup_ci k kvs of Some (CString s) \<Rightarrow> Some s | _ \<Rightarrow> None)"
  by (simp add: j_str_def cjson_law(3))

definition object_ok :: "cjson \<Rightarrow> bool" where
  "object_ok task \<longleftrightarrow> (case task of CObject kvs \<Rightarrow> keys_ok kvs | _ \<Rightarrow> False)"

lemma set_string_j_str:
  assumes "cjson_laws J" "object_ok task"
  shows "j_str J (set_string J k v task) k' = (if strcaseeq k k' then Some v else j_str J task k')"
    and "object_ok (set_string J k v task)"
proof -
  obtain kvs where "task = CObject kvs" "keys_ok kvs" using assms(2) by (auto simp: object_ok_def split: cjson.splits)
  then show "j_str J (set_string J k v task) k' = (if strcaseeq k k' then Some v else j_str J task k')"
    "object_ok (set_string J k v task)"
    using assms(1) by (simp_all add: set_string_def add_string_def cjson_obj j_str_object lookup_ci_set object_ok_def keys_ok_set)
qed

lemma set_null_j_str:
  assumes "cjson_laws J" "object_ok task"
  shows "j_str J (cJSON_AddItemToObject J (cJSON_DeleteItemFromObject J task k) k CNull) k' =
      (if strcaseeq k k' then None else j_str J task k')"
proof -
  obtain kvs where "task = CObject kvs" "keys_ok kvs" using assms(2) by (auto simp: object_ok_def split: cjson.splits)
  then show ?thesis using assms(1) by (simp add: cjson_obj j_str_object lookup_ci_set)
qed

section \<open>Files\<close>

lemma json_load_save:
  assumes "cjson_laws J" "json_save_atomic J e path v fmt fs = (fs', 0)"
    "case v of CArray xs \<Rightarrow> want | CObject kvs \<Rightarrow> \<not> want | _ \<Rightarrow> False"
  shows "json_load J fs' path want = Some v"
proof -
  obtain s where s: "cJSON_Print J v = Some s \<or> cJSON_PrintUnformatted J v = Some s" "atomic_write e path s fs = (fs', 0)"
    using assms(2) by (auto simp: json_save_atomic_def split: option.splits if_splits)
  then have "fs' path = Some (File s)" using atomic_write_ok [OF s(2)] by simp
  moreover have "cJSON_Parse J s = Some v" using s(1) cjson_law(1,2) [OF assms(1)] by blast
  ultimately show ?thesis
    using assms(3) cjson_law(8) [OF assms(1) s(1)] by (auto simp: json_load_def file_slurp_def split: cjson.splits)
qed

lemma json_save_fail: "json_save_atomic J e path v fmt fs = (fs', rc) \<Longrightarrow> rc \<noteq> 0 \<Longrightarrow> fs' = fs"
  by (auto simp: json_save_atomic_def split: option.splits dest: atomic_write_fail)

end
