(* ===== verification/Memory.thy ===== *)
theory Memory
  imports Cjson "HOL-Library.Multiset"
begin

text \<open>
  \<open>src/memory.c\<close>: the memory log of an agent (\<open>memory.jsonl\<close>, one JSON object per line, with
  a cache of the parsed entries), its keyword search, and the facts (\<open>facts.json\<close>, one
  object). The per-agent lock serialises the operations, so each of them is one step here.

  The lemmas show that the log reloads to what the cache holds, that the in-place top-n list
  of \<open>memory_search\<close> is the stable sort by score of the entries from the newest on, cut at
  \<open>n\<close>, that extracted tags are distinct lower-case words within their buffer, and that the
  facts are a dictionary whose keys ignore case.
\<close>

section \<open>State\<close>

text \<open>The cache, when loaded, is a JSON array: its elements in order.\<close>

record memory_t =
  memory_dir :: string
  mem_cache :: "cjson list option"

definition memory_log_path :: "memory_t \<Rightarrow> string" where
  "memory_log_path m = buf_set 4200 (memory_dir m @ ''/memory.jsonl'')"

definition facts_path :: "memory_t \<Rightarrow> string" where
  "facts_path m = buf_set 4200 (memory_dir m @ ''/facts.json'')"

definition lowercase :: "string \<Rightarrow> string" where
  "lowercase s = map tolower s"

definition mem_word_char :: "char \<Rightarrow> bool" where
  "mem_word_char c \<longleftrightarrow> is_lower c \<or> is_upper c \<or> is_digit c \<or> c \<in> set ''-_@.'' \<or> 128 \<le> byte c"

text \<open>\<open>strtok_r\<close> with one delimiter: the pieces between delimiters that are not empty.\<close>

fun split_on :: "char \<Rightarrow> string \<Rightarrow> string list" where
  "split_on d [] = [[]]"
| "split_on d (c # s) =
     (if c = d then [] # split_on d s
      else case split_on d s of p # ps \<Rightarrow> (c # p) # ps | [] \<Rightarrow> [[c]])"

definition strtok :: "char \<Rightarrow> string \<Rightarrow> string list" where
  "strtok d s = filter (\<lambda>p. p \<noteq> []) (split_on d s)"

definition load_cache :: "cjson_api \<Rightarrow> fs \<Rightarrow> memory_t \<Rightarrow> memory_t" where
  "load_cache J fs m =
     (if mem_cache m \<noteq> None then m
      else case file_slurp fs (memory_log_path m) of
             Slurped data \<Rightarrow> m\<lparr>mem_cache := Some (List.map_filter (cJSON_Parse J) (strtok LF (cstr data)))\<rparr>
           | _ \<Rightarrow> m\<lparr>mem_cache := Some []\<rparr>)"

section \<open>Tags\<close>

text \<open>A word is complete: it becomes a tag when it is long enough, new and one of the first ten.\<close>

definition flush_word :: "string \<Rightarrow> nat \<Rightarrow> cjson list \<Rightarrow> nat \<times> cjson list" where
  "flush_word word tag_count tags =
     (if 4 \<le> length word \<and> tag_count < 10 \<and> CString word \<notin> set tags
      then (Suc tag_count, tags @ [CString word]) else (tag_count, tags))"

fun tag_loop :: "string \<Rightarrow> string \<Rightarrow> nat \<Rightarrow> cjson list \<Rightarrow> cjson list" where
  "tag_loop [] word tag_count tags = snd (flush_word word tag_count tags)"
| "tag_loop (c # cs) word tag_count tags =
     (if mem_word_char c \<and> length word < 62 then tag_loop cs (word @ [tolower c]) tag_count tags
      else let (tag_count', tags') = flush_word word tag_count tags in tag_loop cs [] tag_count' tags')"

definition extract_tags :: "string \<Rightarrow> cjson list \<Rightarrow> cjson list" where
  "extract_tags content tags = tag_loop content [] 0 tags"

definition memory_init :: "string \<Rightarrow> memory_t \<times> string list" where
  "memory_init dir = (\<lparr>memory_dir = buf_set 4096 dir, mem_cache = None\<rparr>, mkdirs dir)"

section \<open>Adding\<close>

text \<open>
  Appending with \<open>fopen(path, "a")\<close>, \<open>fputs\<close>, \<open>fputc\<close> and \<open>fclose\<close>: the file cannot be
  opened, an error is reported after some of the bytes reached it, or all of them did.
\<close>

datatype append_env = AppendOpenErr | AppendErr nat | AppendOk

definition append_node :: "fnode option \<Rightarrow> string \<Rightarrow> fnode" where
  "append_node n s = (case n of None \<Rightarrow> File s | Some (File d) \<Rightarrow> File (d @ s) | Some (Unreadable d) \<Rightarrow> Unreadable (d @ s))"

definition append_file :: "append_env \<Rightarrow> string \<Rightarrow> string \<Rightarrow> fs \<Rightarrow> fs \<times> bool" where
  "append_file e path data fs =
     (case e of
        AppendOpenErr \<Rightarrow> (fs, False)
      | AppendErr k \<Rightarrow> (fs(path \<mapsto> append_node (fs path) (take k data)), False)
      | AppendOk \<Rightarrow> (fs(path \<mapsto> append_node (fs path) data), True))"

definition trim_spaces :: "string \<Rightarrow> string" where
  "trim_spaces s = rev (dropWhile (\<lambda>c. c = SP) (rev (dropWhile (\<lambda>c. c = SP) s)))"

definition csv_tags :: "string \<Rightarrow> cjson list" where
  "csv_tags csv =
     map CString (filter (\<lambda>t. t \<noteq> []) (map (lowercase \<circ> trim_spaces) (strtok (CHR '','') (buf_set 512 csv))))"

definition memory_entry :: "cjson_api \<Rightarrow> string \<Rightarrow> string \<Rightarrow> string \<Rightarrow> string option \<Rightarrow> int \<Rightarrow> string option \<Rightarrow> cjson" where
  "memory_entry J mid now content category importance tags_csv =
     (let category = (if given category then the category else ''general'');
          importance = (if importance \<le> 0 then 5 else importance);
          importance = (if importance > 10 then 10 else importance);
          e = add_string J ''category'' category
                (add_string J ''content'' content (add_string J ''id'' mid (CObject [])));
          e = cJSON_AddItemToObject J e ''importance'' (CNumber importance (of_int importance));
          e = add_string J ''timestamp'' now e;
          tags = (if given tags_csv then csv_tags (the tags_csv) else [])
      in cJSON_AddItemToObject J e ''tags'' (CArray (extract_tags content tags)))"

definition memory_add :: "cjson_api \<Rightarrow> append_env \<Rightarrow> string \<Rightarrow> string \<Rightarrow> string option \<Rightarrow> string option \<Rightarrow> int \<Rightarrow>
    string option \<Rightarrow> nat \<Rightarrow> fs \<times> memory_t \<Rightarrow> (fs \<times> memory_t) \<times> string" where
  "memory_add J e mid now content category importance tags_csv out_sz = (\<lambda>(fs, m).
     (if \<not> given content then ((fs, m), buf_set out_sz ''Error: content is required'')
      else let entry = memory_entry J mid now (the content) category importance tags_csv;
               m1 = load_cache J fs m;
               (fs', wrote) = (case cJSON_PrintUnformatted J entry of
                                 None \<Rightarrow> (fs, False)
                               | Some json_line \<Rightarrow> append_file e (memory_log_path m) (json_line @ [LF]) fs);
               m2 = (if wrote then m1\<lparr>mem_cache := Some (the (mem_cache m1) @ [entry])\<rparr> else m1)
           in ((fs', m2), buf_set out_sz
                 (if \<not> wrote then ''Error: cannot append memory log''
                  else ''Remembered (id='' @ mid @ ''): '' @ take 80 (the content)))))"

section \<open>Searching\<close>

definition entry_hay :: "cjson_api \<Rightarrow> cjson \<Rightarrow> string" where
  "entry_hay J entry =
     (let text_of = (\<lambda>k. case j_str J entry k of Some s \<Rightarrow> s | None \<Rightarrow> []);
          hay = buf_appendf 4096 [] (text_of ''content'' @ [SP] @ text_of ''category'');
          tags = (case cJSON_GetObjectItem J entry ''tags'' of
                    Some (CArray xs) \<Rightarrow> xs | Some (CObject kvs) \<Rightarrow> map snd kvs | _ \<Rightarrow> [])
      in lowercase (fold (\<lambda>t b. case t of CString s \<Rightarrow> buf_appendf 4096 b (SP # s) | _ \<Rightarrow> b) tags hay))"

definition match_score :: "cjson_api \<Rightarrow> cjson \<Rightarrow> string list \<Rightarrow> nat" where
  "match_score J entry words = length (filter (\<lambda>w. strstr w (entry_hay J entry) \<noteq> None) words)"

definition format_entry :: "cjson_api \<Rightarrow> cjson \<Rightarrow> string" where
  "format_entry J e =
     (let content = (case j_str J e ''content'' of Some c \<Rightarrow> c | None \<Rightarrow> [])
      in ''- ['' @ (case j_str J e ''id'' of Some i \<Rightarrow> i | None \<Rightarrow> ''?'') @ ''] ('' @
         (case j_str J e ''category'' of Some c \<Rightarrow> c | None \<Rightarrow> ''general'') @ '', '' @
         (case j_str J e ''timestamp'' of Some t \<Rightarrow> take 10 t | None \<Rightarrow> []) @ '', importance '' @
         dec_int (j_int J e ''importance'' 5) @ '') '' @ take (utf8_prefix content 500) content @ [LF])"

text \<open>At most eight words of two bytes or more, cut at 31 bytes, in lower case.\<close>

function query_words :: "nat \<Rightarrow> string \<Rightarrow> string list" where
  "query_words n_words p =
     (if p = [] \<or> n_words \<ge> 8 then []
      else let p = dropWhile (\<lambda>c. \<not> mem_word_char c) p;
               w = takeWhile mem_word_char p; rest = dropWhile mem_word_char p
           in if length w \<ge> 2 then lowercase (take 31 w) # query_words (Suc n_words) rest
              else query_words n_words rest)"
  by pat_completeness auto

lemma query_rest_shorter:
  "p \<noteq> [] \<Longrightarrow> length (dropWhile P (dropWhile (\<lambda>c. \<not> P c) p)) < length p"
proof (induction p)
  case (Cons c p)
  have "length (dropWhile P (dropWhile (\<lambda>c. \<not> P c) p)) \<le> length p"
    using length_dropWhile_le [of P "dropWhile (\<lambda>c. \<not> P c) p"] length_dropWhile_le [of "\<lambda>c. \<not> P c" p] by linarith
  then show ?case by (auto simp: le_imp_less_Suc length_dropWhile_le)
qed simp

termination query_words
  by (relation "measure (\<lambda>(n, p). length p)") (use query_rest_shorter in auto)

declare query_words.simps [simp del]

text \<open>
  \<open>top[]\<close> and \<open>score[]\<close> are one list of pairs, of length \<open>found\<close>. The position of a new
  entry is found from the end; moving the tail by one place drops the last element of a
  full list.
\<close>

definition top_pos :: "nat \<Rightarrow> (nat \<times> 'e) list \<Rightarrow> nat" where
  "top_pos s ranked = length (dropWhile (\<lambda>x. fst x < s) (rev ranked))"

definition top_insert :: "nat \<Rightarrow> nat \<Rightarrow> nat \<times> 'e \<Rightarrow> (nat \<times> 'e) list \<Rightarrow> (nat \<times> 'e) list" where
  "top_insert n pos x ranked = take n (take pos ranked @ x # drop pos ranked)"

fun search_loop :: "nat \<Rightarrow> bool \<Rightarrow> ('e \<Rightarrow> nat) \<Rightarrow> 'e list \<Rightarrow> (nat \<times> 'e) list \<Rightarrow> (nat \<times> 'e) list" where
  "search_loop n recent_only score [] ranked = ranked"
| "search_loop n recent_only score (e # es) ranked =
     (let s = (if recent_only then 1 else score e); pos = top_pos s ranked
      in if s = 0 then search_loop n recent_only score es ranked
         else if pos \<ge> n then (if recent_only then ranked else search_loop n recent_only score es ranked)
         else search_loop n recent_only score es (top_insert n pos (s, e) ranked))"

definition search_limit :: "int \<Rightarrow> nat" where
  "search_limit n = (let n = (if n \<le> 0 then 20 else n) in nat (if n > 50 then 50 else n))"

definition memory_search :: "cjson_api \<Rightarrow> string option \<Rightarrow> int \<Rightarrow> nat \<Rightarrow> fs \<Rightarrow> memory_t \<Rightarrow> memory_t \<times> string" where
  "memory_search J query n out_sz fs m =
     (let words = query_words 0 (case query of Some q \<Rightarrow> q | None \<Rightarrow> []);
          m1 = load_cache J fs m;
          ranked = search_loop (search_limit n) (words = []) (\<lambda>e. match_score J e words) (rev (the (mem_cache m1))) []
      in (m1, fold (\<lambda>x b. buf_appendf out_sz b (format_entry J (snd x))) ranked []))"

definition memory_clear :: "fs \<times> memory_t \<Rightarrow> fs \<times> memory_t" where
  "memory_clear = (\<lambda>(fs, m). (fs(memory_log_path m := None), m\<lparr>mem_cache := None\<rparr>))"

section \<open>Facts\<close>

definition facts_set :: "cjson_api \<Rightarrow> wenv \<Rightarrow> memory_t \<Rightarrow> string option \<Rightarrow> string option \<Rightarrow> nat \<Rightarrow> fs \<Rightarrow> fs \<times> string" where
  "facts_set J e m key val out_sz fs =
     (if \<not> given key \<or> val = None then (fs, buf_set out_sz ''Error: key and value are required'')
      else let (fs', rc) = (case json_load J fs (facts_path m) False of
                              None \<Rightarrow> (fs, -1)
                            | Some facts \<Rightarrow>
                                json_save_atomic J e (facts_path m)
                                  (add_string J (the key) (the val) (cJSON_DeleteItemFromObject J facts (the key))) True fs)
           in (fs', buf_set out_sz (if rc \<noteq> 0 then ''Error: cannot save fact''
                                    else ''Fact saved: '' @ the key @ '' = '' @ the val)))"

definition facts_clear :: "memory_t \<Rightarrow> fs \<Rightarrow> fs" where
  "facts_clear m fs = fs(facts_path m := None)"

text \<open>The loaded value is an object, or nothing when the file cannot be used.\<close>

definition facts_get :: "cjson_api \<Rightarrow> memory_t \<Rightarrow> string option \<Rightarrow> nat \<Rightarrow> fs \<Rightarrow> string" where
  "facts_get J m key out_sz fs =
     (let facts = json_load J fs (facts_path m) False
      in if \<not> given key
         then fold (\<lambda>(k, v) b. case v of CString s \<Rightarrow> buf_appendf out_sz b (''- '' @ k @ '': '' @ s @ [LF]) | _ \<Rightarrow> b)
                (case facts of Some (CObject kvs) \<Rightarrow> kvs | _ \<Rightarrow> []) []
         else buf_set out_sz (case Option.bind facts (\<lambda>f. j_str J f (the key)) of Some v \<Rightarrow> v | None \<Rightarrow> ''(not found)''))"

section \<open>The log and its cache\<close>

lemma split_on_nonempty [simp]: "split_on d s \<noteq> []"
  by (induction s) (auto split: list.splits)

lemma split_on_append: "split_on d (a @ d # b) = split_on d a @ split_on d b"
  by (induction a) (auto split: list.splits)

lemma split_on_single: "d \<notin> set a \<Longrightarrow> split_on d a = [a]"
  by (induction a) auto

lemma strtok_append: "strtok d (a @ d # b) = strtok d a @ strtok d b"
  by (simp add: strtok_def split_on_append)

lemma strtok_single: "d \<notin> set a \<Longrightarrow> strtok d a = (if a = [] then [] else [a])"
  by (simp add: strtok_def split_on_single)

text \<open>The entries that a fresh process reads from the log.\<close>

definition log_entries :: "cjson_api \<Rightarrow> fs \<Rightarrow> memory_t \<Rightarrow> cjson list" where
  "log_entries J fs m = the (mem_cache (load_cache J fs (m\<lparr>mem_cache := None\<rparr>)))"

definition log_text :: "fs \<Rightarrow> memory_t \<Rightarrow> string option" where
  "log_text fs m = (case fs (memory_log_path m) of None \<Rightarrow> Some [] | Some (File d) \<Rightarrow> Some d | Some (Unreadable d) \<Rightarrow> None)"

text \<open>The log can be read and consists of whole lines, and the cache, when loaded, is its content.\<close>

definition memory_wf :: "cjson_api \<Rightarrow> fs \<Rightarrow> memory_t \<Rightarrow> bool" where
  "memory_wf J fs m \<longleftrightarrow>
     (\<exists>d. log_text fs m = Some d \<and> NUL \<notin> set d \<and> (d = [] \<or> last d = LF)) \<and>
     (mem_cache m = None \<or> mem_cache m = Some (log_entries J fs m))"

lemma log_entries_text:
  "log_text fs m = Some d \<Longrightarrow> NUL \<notin> set d \<Longrightarrow> log_entries J fs m = List.map_filter (cJSON_Parse J) (strtok LF d)"
  by (auto simp: log_entries_def log_text_def load_cache_def file_slurp_def memory_log_path_def strtok_def
      split: option.splits fnode.splits)

lemma load_cache_entries: "memory_wf J fs m \<Longrightarrow> load_cache J fs m = m\<lparr>mem_cache := Some (log_entries J fs m)\<rparr>"
  by (auto simp: memory_wf_def load_cache_def log_entries_def memory_log_path_def split: slurp.splits)

lemma memory_log_path_cache [simp]: "memory_log_path (m\<lparr>mem_cache := c\<rparr>) = memory_log_path m"
  by (simp add: memory_log_path_def)

lemma log_text_cache [simp]: "log_text fs (m\<lparr>mem_cache := c\<rparr>) = log_text fs m"
  by (simp add: log_text_def)

lemma log_entries_cache [simp]: "log_entries J fs (m\<lparr>mem_cache := c\<rparr>) = log_entries J fs m"
  by (simp add: log_entries_def)

lemma map_filter_append: "List.map_filter f (xs @ ys) = List.map_filter f xs @ List.map_filter f ys"
  by (simp add: List.map_filter_def)

lemma log_text_append:
  "log_text fs m = Some d \<Longrightarrow> log_text (fs(memory_log_path m \<mapsto> append_node (fs (memory_log_path m)) s)) m = Some (d @ s)"
  by (auto simp: log_text_def append_node_def split: option.splits fnode.splits)

text \<open>Appending to a log of whole lines: the text up to the next line end is one more line.\<close>

lemma strtok_more:
  assumes "d = [] \<or> last d = LF" "LF \<notin> set line"
  shows "strtok LF (d @ line @ [LF]) = strtok LF d @ (if line = [] then [] else [line])"
proof (cases "d = []")
  case True
  then show ?thesis using strtok_append [of LF line "[]"] strtok_single [OF assms(2)] by (simp add: strtok_def)
next
  case False
  with assms(1) obtain d' where d: "d = d' @ [LF]" by (metis append_butlast_last_id)
  have "strtok LF (d @ line @ [LF]) = strtok LF d' @ strtok LF line @ strtok LF []"
    using strtok_append [of LF d' "line @ [LF]"] strtok_append [of LF line "[]"] by (simp add: d)
  moreover have "strtok LF d = strtok LF d' @ strtok LF []" using strtok_append [of LF d' "[]"] by (simp add: d)
  ultimately show ?thesis using strtok_single [OF assms(2)] by (simp add: strtok_def)
qed

lemma line_entries:
  assumes "log_text fs m = Some d" "NUL \<notin> set d" "d = [] \<or> last d = LF" "NUL \<notin> set line" "LF \<notin> set line" "line \<noteq> []"
    "log_text fs' m = Some (d @ line @ [LF])"
  shows "log_entries J fs' m = log_entries J fs m @ (case cJSON_Parse J line of Some v \<Rightarrow> [v] | None \<Rightarrow> [])"
proof -
  have "log_entries J fs' m = List.map_filter (cJSON_Parse J) (strtok LF (d @ line @ [LF]))"
    by (rule log_entries_text [OF assms(7)]) (use assms in auto)
  then show ?thesis
    using assms log_entries_text [OF assms(1,2), of J] strtok_more [OF assms(3,5)]
    by (simp add: map_filter_append List.map_filter_def split: option.split)
qed

text \<open>Documented: unformatted text is one line. Control characters inside strings are escaped.\<close>

definition cjson_line_law :: "cjson_api \<Rightarrow> bool" where
  "cjson_line_law J \<longleftrightarrow> (\<forall>v s. cJSON_PrintUnformatted J v = Some s \<longrightarrow> s \<noteq> [] \<and> LF \<notin> set s)"

lemma memory_add_written:
  assumes "cjson_laws J" "cjson_line_law J" "memory_wf J fs m" "given content"
    "entry = memory_entry J mid now (the content) category importance tags_csv"
    "cJSON_PrintUnformatted J entry = Some line"
    "memory_add J AppendOk mid now content category importance tags_csv sz (fs, m) = ((fs', m'), out)"
  shows "memory_wf J fs' m' \<and> log_entries J fs' m' = log_entries J fs m @ [entry] \<and>
     mem_cache m' = Some (log_entries J fs m @ [entry]) \<and>
     out = buf_set sz (''Remembered (id='' @ mid @ ''): '' @ take 80 (the content))"
proof -
  obtain d where d: "log_text fs m = Some d" "NUL \<notin> set d" "d = [] \<or> last d = LF"
    using assms(3) by (auto simp: memory_wf_def)
  have l: "NUL \<notin> set line" "LF \<notin> set line" "line \<noteq> []" "cJSON_Parse J line = Some entry"
    using assms(2,6) cjson_law(2) [OF assms(1,6)] cjson_law(8) [OF assms(1), of entry line]
    unfolding cjson_line_law_def by blast+
  have r: "fs' = fs(memory_log_path m \<mapsto> append_node (fs (memory_log_path m)) (line @ [LF]))"
    "m' = m\<lparr>mem_cache := Some (log_entries J fs m @ [entry])\<rparr>"
    "out = buf_set sz (''Remembered (id='' @ mid @ ''): '' @ take 80 (the content))"
    using assms(4-7) load_cache_entries [OF assms(3)]
    by (auto simp: memory_add_def append_file_def Let_def)
  have t: "log_text fs' m = Some (d @ line @ [LF])" using log_text_append [OF d(1)] r(1) by simp
  have "log_entries J fs' m = log_entries J fs m @ [entry]"
    using line_entries [OF d l(1-3) t, of J] l(4) by simp
  moreover have "memory_wf J fs' m'"
    using t d(2) l(1) calculation by (auto simp: memory_wf_def r(2))
  ultimately show ?thesis by (simp add: r(2,3))
qed

lemma memory_add_refused:
  assumes "memory_wf J fs m" "e = AppendOpenErr \<or> \<not> given content \<or>
      cJSON_PrintUnformatted J (memory_entry J mid now (the content) category importance tags_csv) = None"
    "memory_add J e mid now content category importance tags_csv sz (fs, m) = ((fs', m'), out)"
  shows "fs' = fs \<and> memory_wf J fs' m' \<and> log_entries J fs' m' = log_entries J fs m \<and> (\<exists>x. out = buf_set sz (''Error'' @ x))"
proof (cases "given content")
  case False
  then show ?thesis using assms by (auto simp: memory_add_def)
next
  case True
  then show ?thesis
    using assms load_cache_entries [OF assms(1)]
    by (auto simp: memory_add_def append_file_def Let_def memory_wf_def split: option.splits)
qed

section \<open>Tags\<close>

definition tag_word :: "string \<Rightarrow> bool" where
  "tag_word w \<longleftrightarrow> 4 \<le> length w \<and> length w \<le> 62 \<and> list_all (\<lambda>c. mem_word_char c \<and> \<not> is_upper c) w"

lemma mem_word_char_tolower [simp]: "mem_word_char c \<Longrightarrow> mem_word_char (tolower c)"
  by (auto simp: mem_word_char_def tolower_def is_upper_def is_lower_def)

lemma tag_loop_words:
  assumes "length word \<le> 62" "list_all (\<lambda>c. mem_word_char c \<and> \<not> is_upper c) word" "distinct ws" "length ws = n" "n \<le> 10"
    "list_all tag_word ws" "\<forall>w \<in> set ws. CString w \<notin> set tags"
  shows "\<exists>vs. tag_loop cs word n (tags @ map CString ws) = tags @ map CString vs \<and> distinct vs \<and> length vs \<le> 10 \<and>
     list_all tag_word vs \<and> (\<forall>w \<in> set vs. CString w \<notin> set tags)"
  using assms
proof (induction cs arbitrary: word ws n)
  case Nil
  show ?case
  proof (cases "4 \<le> length word \<and> n < 10 \<and> CString word \<notin> set (tags @ map CString ws)")
    case True
    with Nil show ?thesis by (intro exI [of _ "ws @ [word]"]) (auto simp: flush_word_def tag_word_def)
  next
    case False
    with Nil show ?thesis by (intro exI [of _ ws]) (auto simp: flush_word_def)
  qed
next
  case (Cons c cs)
  show ?case
  proof (cases "mem_word_char c \<and> length word < 62")
    case True
    with Cons.prems show ?thesis by (auto intro!: Cons.IH)
  next
    case False
    define new where "new \<longleftrightarrow> 4 \<le> length word \<and> n < 10 \<and> CString word \<notin> set (tags @ map CString ws)"
    define ws' where "ws' = (if new then ws @ [word] else ws)"
    have "flush_word word n (tags @ map CString ws) = (length ws', tags @ map CString ws')"
      using Cons.prems(4) by (auto simp: flush_word_def ws'_def new_def)
    moreover have "\<exists>vs. tag_loop cs [] (length ws') (tags @ map CString ws') = tags @ map CString vs \<and> distinct vs \<and> length vs \<le> 10 \<and>
        list_all tag_word vs \<and> (\<forall>w \<in> set vs. CString w \<notin> set tags)"
      using Cons.prems by (intro Cons.IH) (auto simp: ws'_def new_def tag_word_def)
    ultimately show ?thesis using False by auto
  qed
qed

section \<open>Ranking\<close>

lemma takeWhile_take: "takeWhile P (take n xs) = take n (takeWhile P xs)"
  by (induction xs arbitrary: n) (auto simp: take_Cons split: nat.split)

lemma sorted_insert_between:
  fixes K :: "'e \<Rightarrow> 'k :: linorder"
  shows "sorted (map K (t @ d)) \<Longrightarrow> \<forall>y \<in> set t. K y \<le> K x \<Longrightarrow> \<forall>y \<in> set d. K x \<le> K y \<Longrightarrow> sorted (map K (t @ x # d))"
  by (auto simp: sorted_append)

lemma sort_key_snoc:
  fixes K :: "'e \<Rightarrow> 'k :: linorder"
  shows "sort_key K (xs @ [x]) = takeWhile (\<lambda>y. K y \<le> K x) (sort_key K xs) @ x # dropWhile (\<lambda>y. K y \<le> K x) (sort_key K xs)"
proof -
  define t d where "t = takeWhile (\<lambda>y. K y \<le> K x) (sort_key K xs)" and "d = dropWhile (\<lambda>y. K y \<le> K x) (sort_key K xs)"
  have S: "sort_key K xs = t @ d" by (simp add: t_def d_def)
  have srt: "sorted (map K (t @ d))" unfolding S [symmetric] by simp
  have t: "\<forall>y \<in> set t. K y \<le> K x" by (auto simp: t_def dest: set_takeWhileD)
  have d: "\<forall>y \<in> set d. K x < K y"
  proof (cases d)
    case (Cons y ys)
    then have "K x < K y" using hd_dropWhile [of "\<lambda>y. K y \<le> K x" "sort_key K xs"] by (auto simp: d_def not_le)
    moreover have "sorted (map K (y # ys))" using srt Cons by (simp add: sorted_append)
    ultimately show ?thesis unfolding Cons by auto
  qed simp
  have "sort_key K (xs @ [x]) = t @ x # d"
  proof (rule properties_for_sort_key)
    show "mset (t @ x # d) = mset (xs @ [x])"
      using mset_sort [of K xs] unfolding S by simp
    show "sorted (map K (t @ x # d))"
      using sorted_insert_between [OF srt t] d by (simp add: less_imp_le)
    show "filter (\<lambda>y. K k = K y) (t @ x # d) = filter (\<lambda>y. K k = K y) (xs @ [x])" if "k \<in> set (t @ x # d)" for k
    proof -
      have "filter (\<lambda>y. K y = K k) xs = filter (\<lambda>y. K y = K k) (t @ d)"
        using sort_key_stable [of K "K k" xs] unfolding S by simp
      moreover have "filter (\<lambda>y. K y = K k) d = []" if "K k = K x" using d that by (auto simp: filter_empty_conv)
      ultimately show ?thesis by (simp add: eq_commute [of "K k"])
    qed
  qed
  then show ?thesis by (simp add: t_def d_def)
qed

lemma dropWhile_rev_sorted:
  fixes K :: "'e \<Rightarrow> int"
  assumes "sorted (map K xs)"
  shows "dropWhile (\<lambda>y. k < K y) (rev xs) = rev (takeWhile (\<lambda>y. K y \<le> k) xs)"
  using assms
proof (induction xs)
  case (Cons x xs)
  show ?case
  proof (cases "K x \<le> k")
    case True
    show ?thesis
    proof (cases "\<exists>y \<in> set xs. K y \<le> k")
      case True
      then obtain y where "y \<in> set (rev xs)" "\<not> k < K y" by auto
      with \<open>K x \<le> k\<close> Cons show ?thesis by (simp add: dropWhile_append1 [of y])
    next
      case False
      then have "takeWhile (\<lambda>y. K y \<le> k) xs = []" by (cases xs) auto
      moreover have "dropWhile (\<lambda>y. k < K y) (rev xs @ [x]) = dropWhile (\<lambda>y. k < K y) [x]"
        by (rule dropWhile_append2) (use False in auto)
      ultimately show ?thesis using \<open>K x \<le> k\<close> by simp
    qed
  next
    case False
    then have "\<forall>y \<in> set (x # xs). k < K y" using Cons.prems by auto
    then show ?thesis using False by (auto simp: dropWhile_eq_Nil_conv)
  qed
qed simp

text \<open>The specification of the ranking: matching entries by score, the first of equals first.\<close>

definition ranking :: "('e \<Rightarrow> nat) \<Rightarrow> 'e list \<Rightarrow> 'e list" where
  "ranking s es = sort_key (\<lambda>e. - int (s e)) (filter (\<lambda>e. 0 < s e) es)"

lemma ranking_snoc:
  assumes "0 < s e"
  shows "ranking s (es @ [e]) = takeWhile (\<lambda>y. s e \<le> s y) (ranking s es) @ e # dropWhile (\<lambda>y. s e \<le> s y) (ranking s es)"
  using sort_key_snoc [of "\<lambda>e. - int (s e)"] assms by (simp add: ranking_def)

lemma top_pos_ranking:
  "top_pos (s e) (map (\<lambda>e. (s e, e)) (take n (ranking s es))) = min n (length (takeWhile (\<lambda>y. s e \<le> s y) (ranking s es)))"
proof -
  let ?R = "ranking s es" and ?K = "\<lambda>e. - int (s e)"
  have "sorted (map ?K (take n ?R))"
    unfolding ranking_def take_map [symmetric] by (rule sorted_wrt_take) simp
  from dropWhile_rev_sorted [OF this, of "?K e"]
  have "dropWhile (\<lambda>y. s y < s e) (rev (take n ?R)) = rev (takeWhile (\<lambda>y. s e \<le> s y) (take n ?R))" by simp
  moreover have "dropWhile (\<lambda>x. fst x < s e) (rev (map (\<lambda>e. (s e, e)) (take n ?R))) =
      map (\<lambda>e. (s e, e)) (dropWhile (\<lambda>y. s y < s e) (rev (take n ?R)))"
    by (simp add: rev_map dropWhile_map comp_def)
  ultimately show ?thesis
    by (simp add: top_pos_def takeWhile_take min.commute)
qed

lemma take_insert:
  assumes "p < n" "p \<le> length xs"
  shows "take n (take p (take n xs) @ x # drop p (take n xs)) = take n (take p xs @ x # drop p xs)"
  using assms by (simp add: min_def take_drop [symmetric] drop_take take_Cons' )

lemma top_insert_ranking:
  assumes "0 < s e" "p = length (takeWhile (\<lambda>y. s e \<le> s y) (ranking s es))" "p < n"
  shows "top_insert n p (s e, e) (map (\<lambda>e. (s e, e)) (take n (ranking s es))) = map (\<lambda>e. (s e, e)) (take n (ranking s (es @ [e])))"
proof -
  let ?R = "ranking s es"
  have p: "take p ?R = takeWhile (\<lambda>y. s e \<le> s y) ?R" "drop p ?R = dropWhile (\<lambda>y. s e \<le> s y) ?R" "p \<le> length ?R"
    unfolding assms(2) by (simp_all add: takeWhile_eq_take [symmetric] dropWhile_eq_drop [symmetric] length_takeWhile_le)
  have "top_insert n p (s e, e) (map (\<lambda>e. (s e, e)) (take n ?R)) =
      map (\<lambda>e. (s e, e)) (take n (take p (take n ?R) @ e # drop p (take n ?R)))"
    by (simp add: top_insert_def take_map drop_map take_Cons' del: take_take drop_take)
  also have "\<dots> = map (\<lambda>e. (s e, e)) (take n (take p ?R @ e # drop p ?R))"
    using take_insert [OF assms(3) p(3), of e] by simp
  finally show ?thesis using ranking_snoc [of s e es] assms(1) p by simp
qed

lemma ranking_full:
  assumes "n \<le> length (takeWhile (\<lambda>y. s e \<le> s y) (ranking s es))" "0 < s e"
  shows "take n (ranking s (es @ [e])) = take n (ranking s es)"
  using assms(1) ranking_snoc [of s e es] assms(2) takeWhile_dropWhile_id [of "\<lambda>y. s e \<le> s y" "ranking s es"]
  by (metis take_append take_0 append_Nil2 diff_is_0_eq take_all)

lemma ranking_recent: "ranking (\<lambda>_. Suc 0) es = es"
proof -
  have "sort_key (\<lambda>_. - 1 :: int) es = es" by (induction es) (auto simp: insort_is_Cons)
  then show ?thesis by (simp add: ranking_def)
qed

lemma search_loop_ranking:
  assumes "0 < n" "s = (\<lambda>e. if recent_only then 1 else score e)"
  shows "search_loop n recent_only score es (map (\<lambda>e. (s e, e)) (take n (ranking s ys))) =
     map (\<lambda>e. (s e, e)) (take n (ranking s (ys @ es)))"
proof (induction es arbitrary: ys)
  case (Cons e es)
  let ?p = "length (takeWhile (\<lambda>y. s e \<le> s y) (ranking s ys))"
  note IH = Cons.IH [of "ys @ [e]"]
  have step: "search_loop n recent_only score (e # es) ranked =
      (let pos = top_pos (s e) ranked
       in if s e = 0 then search_loop n recent_only score es ranked
          else if pos \<ge> n then (if recent_only then ranked else search_loop n recent_only score es ranked)
          else search_loop n recent_only score es (top_insert n pos (s e, e) ranked))" for ranked
    by (simp add: assms(2) Let_def)
  note [simp del] = search_loop.simps
  consider "s e = 0" | "0 < s e" "n \<le> ?p" | "0 < s e" "?p < n" by linarith
  then show ?case
  proof cases
    case 1
    then have "ranking s (ys @ [e]) = ranking s ys" by (simp add: ranking_def)
    with 1 IH show ?thesis by (simp add: step)
  next
    case 2
    then have full: "take n (ranking s (ys @ [e])) = take n (ranking s ys)" by (intro ranking_full)
    show ?thesis
    proof (cases recent_only)
      case True
      then have r: "ranking s zs = zs" for zs by (simp add: assms(2) ranking_recent)
      have "n \<le> length ys" using 2 length_takeWhile_le [of "\<lambda>y. s e \<le> s y" ys] by (simp add: r)
      then show ?thesis
        using 2 True step [of "map (\<lambda>e. (s e, e)) (take n ys)"] top_pos_ranking [of s e n ys] by (simp add: r)
    next
      case False
      then show ?thesis
        using 2 IH full step [of "map (\<lambda>e. (s e, e)) (take n (ranking s ys))"] by (simp add: top_pos_ranking)
    qed
  next
    case 3
    with IH show ?thesis by (simp add: step top_pos_ranking top_insert_ranking min_def)
  qed
qed simp

section \<open>Facts as a dictionary\<close>

text \<open>
  What the users of a dictionary kept in a file rely on: a store that reports success is what
  is read back under every spelling of its key, a store that fails changes nothing.
\<close>

fun dict_run :: "('e \<Rightarrow> 'k \<Rightarrow> 'v \<Rightarrow> 's \<Rightarrow> 's \<times> bool) \<Rightarrow> ('e \<times> 'k \<times> 'v) list \<Rightarrow> 's \<Rightarrow> 's \<times> ('k \<times> 'v) list" where
  "dict_run put [] s = (s, [])"
| "dict_run put ((e, k, v) # ops) s =
     (let (s1, ok) = put e k v s; (s2, kvs) = dict_run put ops s1 in (s2, if ok then (k, v) # kvs else kvs))"

lemma find_append: "find P (xs @ ys) = (case find P xs of Some x \<Rightarrow> Some x | None \<Rightarrow> find P ys)"
  by (induction xs) auto

locale dict_store =
  fixes put :: "'e \<Rightarrow> 'k \<Rightarrow> 'v \<Rightarrow> 's \<Rightarrow> 's \<times> bool"
    and get :: "'s \<Rightarrow> 'k \<Rightarrow> 'v option"
    and same :: "'k \<Rightarrow> 'k \<Rightarrow> bool"
    and wf :: "'s \<Rightarrow> bool"
  assumes put_ok: "wf s \<Longrightarrow> put e k v s = (s', True) \<Longrightarrow> wf s' \<and> get s' k' = (if same k k' then Some v else get s k')"
    and put_fail: "put e k v s = (s', False) \<Longrightarrow> s' = s"
begin

lemma put_wf: "wf s \<Longrightarrow> put e k v s = (s', ok) \<Longrightarrow> wf s'"
  using put_ok [of s e k v s'] put_fail [of e k v s s'] by (cases ok) simp_all

lemma dict_run_last:
  "wf s \<Longrightarrow> dict_run put ops s = (s', kvs) \<Longrightarrow>
     wf s' \<and> get s' k = (case find (\<lambda>kv. same (fst kv) k) (rev kvs) of Some kv \<Rightarrow> Some (snd kv) | None \<Rightarrow> get s k)"
proof (induction ops arbitrary: s kvs)
  case (Cons op ops)
  obtain e k0 v where op: "op = (e, k0, v)" by (cases op)
  obtain s1 ok where s1: "put e k0 v s = (s1, ok)" by fastforce
  obtain kvs' where s2: "dict_run put ops s1 = (s', kvs')" "kvs = (if ok then (k0, v) # kvs' else kvs')"
    using Cons.prems(2) op s1 by (auto split: prod.splits)
  note IH = Cons.IH [OF put_wf [OF Cons.prems(1) s1] s2(1)]
  show ?case
  proof (cases ok)
    case True
    then have "get s1 k = (if same k0 k then Some v else get s k)" using put_ok [OF Cons.prems(1), of e k0 v s1 k] s1 by simp
    with IH True s2 show ?thesis by (auto simp: find_append split: option.splits)
  next
    case False
    then have s: "s1 = s" using put_fail [of e k0 v s s1] s1 by simp
    show ?thesis using IH [unfolded s] s2(2) False by simp
  qed
qed (auto)

end

definition fact_put :: "cjson_api \<Rightarrow> memory_t \<Rightarrow> wenv \<Rightarrow> string \<Rightarrow> string \<Rightarrow> fs \<Rightarrow> fs \<times> bool" where
  "fact_put J m e k v fs = (case facts_set J e m (Some k) (Some v) 64 fs of (fs', out) \<Rightarrow> (fs', \<not> starts_with ''Error'' out))"

definition fact_of :: "cjson_api \<Rightarrow> memory_t \<Rightarrow> fs \<Rightarrow> string \<Rightarrow> string option" where
  "fact_of J m fs k = Option.bind (json_load J fs (facts_path m) False) (\<lambda>f. j_str J f k)"

text \<open>The facts file is usable: missing, or an object with one entry per key.\<close>

definition facts_wf :: "cjson_api \<Rightarrow> memory_t \<Rightarrow> fs \<Rightarrow> bool" where
  "facts_wf J m fs \<longleftrightarrow> cjson_laws J \<and> (case json_load J fs (facts_path m) False of Some v \<Rightarrow> object_ok v | None \<Rightarrow> False)"

lemma facts_set_cases:
  assumes "facts_set J e m (Some k) (Some v) sz fs = (fs', out)"
  obtains (error) x where "fs' = fs" "out = buf_set sz (''Error'' @ x)"
  | (saved) f where "json_load J fs (facts_path m) False = Some f" "out = buf_set sz (''Fact saved: '' @ k @ '' = '' @ v)"
      "json_save_atomic J e (facts_path m) (set_string J k v f) True fs = (fs', 0)"
proof (cases "k = []")
  case True
  then show ?thesis using assms by (intro error [of "'': key and value are required''"]) (auto simp: facts_set_def given_def)
next
  case k: False
  show ?thesis
  proof (cases "json_load J fs (facts_path m) False")
    case None
    then show ?thesis using assms k by (intro error [of "'': cannot save fact''"]) (auto simp: facts_set_def given_def)
  next
    case (Some f)
    obtain fs1 rc where rc: "json_save_atomic J e (facts_path m) (set_string J k v f) True fs = (fs1, rc)" by fastforce
    then have r: "fs' = fs1" "out = buf_set sz (if rc \<noteq> 0 then ''Error: cannot save fact'' else ''Fact saved: '' @ k @ '' = '' @ v)"
      using assms k Some by (auto simp: facts_set_def given_def set_string_def)
    show ?thesis
    proof (cases "rc = 0")
      case True
      with r rc Some show ?thesis by (intro saved) auto
    next
      case False
      with r json_save_fail [OF rc] show ?thesis by (intro error [of "'': cannot save fact''"]) auto
    qed
  qed
qed

lemma fact_text: "\<not> starts_with ''Error'' (buf_set sz (''Fact'' @ x))"
  by (cases "sz - 1") (auto simp: starts_with_def buf_set_def dest: arg_cong [of _ _ hd])

interpretation facts: dict_store "fact_put J m" "fact_of J m" strcaseeq "facts_wf J m"
  for J m
proof
  fix e k v fs fs' k'
  assume wf: "facts_wf J m fs" and p: "fact_put J m e k v fs = (fs', True)"
  then obtain out where o: "facts_set J e m (Some k) (Some v) 64 fs = (fs', out)" "\<not> starts_with ''Error'' out"
    by (auto simp: fact_put_def split: prod.splits)
  have J: "cjson_laws J" using wf by (simp add: facts_wf_def)
  from o(1) show "facts_wf J m fs' \<and> fact_of J m fs' k' = (if strcaseeq k k' then Some v else fact_of J m fs k')"
  proof (cases rule: facts_set_cases)
    case (error x)
    with o(2) error_text [of 64 x] show ?thesis by simp
  next
    case (saved f)
    then have ok: "object_ok f" using wf by (simp add: facts_wf_def)
    have "json_load J fs' (facts_path m) False = Some (set_string J k v f)"
      using json_load_save [OF J saved(3)] set_string_j_str(2) [OF J ok, of k v] by (auto simp: object_ok_def split: cjson.splits)
    with saved(1) set_string_j_str [OF J ok] J show ?thesis by (simp add: facts_wf_def fact_of_def)
  qed
next
  fix e k v fs fs'
  assume "fact_put J m e k v fs = (fs', False)"
  then obtain out where o: "facts_set J e m (Some k) (Some v) 64 fs = (fs', out)" "starts_with ''Error'' out"
    by (auto simp: fact_put_def split: prod.splits)
  from o(1) show "fs' = fs"
    by (cases rule: facts_set_cases) (use o(2) fact_text [of 64] in auto)
qed

lemma facts_get_of: "k \<noteq> [] \<Longrightarrow> facts_get J m (Some k) sz fs = buf_set sz (case fact_of J m fs k of Some v \<Rightarrow> v | None \<Rightarrow> ''(not found)'')"
  by (simp add: facts_get_def fact_of_def given_def)

section \<open>Properties\<close>

definition mem_sample :: memory_t where
  "mem_sample = \<lparr>memory_dir = ''d'', mem_cache = None\<rparr>"

definition mem_sample_entry :: cjson where
  "mem_sample_entry = CObject [(''id'', CString ''ab''), (''content'', CString ''Tea''), (''category'', CString ''general''),
     (''importance'', CNumber 5 5), (''timestamp'', CString ''now''), (''tags'', CArray [])]"

definition mem_sample_cjson :: cjson_api where
  "mem_sample_cjson = table_cjson [(mem_sample_entry, ''tea''), (CObject [(''k'', CString ''v'')], ''kv'')]"

lemma mem_sample_laws: "cjson_laws mem_sample_cjson" "cjson_line_law mem_sample_cjson"
proof -
  show "cjson_laws mem_sample_cjson" unfolding mem_sample_cjson_def by (rule table_cjson_laws) simp_all
  show "cjson_line_law mem_sample_cjson" by (auto simp: cjson_line_law_def mem_sample_cjson_def table_cjson_def split: if_splits)
qed

lemma mem_sample_entry_eq:
  "memory_entry mem_sample_cjson ''ab'' ''now'' ''Tea'' None 0 None = mem_sample_entry"
  by (simp add: memory_entry_def mem_sample_entry_def add_string_def given_def cjson_obj [OF mem_sample_laws(1)]
      extract_tags_def flush_word_def)

lemma mem_sample_print: "cJSON_PrintUnformatted mem_sample_cjson mem_sample_entry = Some ''tea''"
  by (simp add: mem_sample_cjson_def table_cjson_def)

lemma mem_sample_wf: "memory_wf J Map.empty mem_sample"
  by (auto simp: memory_wf_def log_text_def mem_sample_def)

text \<open>
  (C31) What is remembered survives a restart: when appending to the log succeeds, or the file cannot even
  be opened, the log stays a file of whole lines that reads back as what the cache holds; it has
  gained exactly the new entry if the answer is not an error, and is unchanged otherwise.
  Clearing leaves no entry.
\<close>

theorem memory_add_survives_restart:
  assumes "cjson_laws J" "cjson_line_law J" "memory_wf J fs m" "e = AppendOk \<or> e = AppendOpenErr" "6 \<le> sz"
    "memory_add J e mid now content category importance tags_csv sz (fs, m) = ((fs', m'), out)"
  shows "memory_wf J fs' m' \<and>
     log_entries J fs' m' = log_entries J fs m @
       (if starts_with ''Error'' out then [] else [memory_entry J mid now (the content) category importance tags_csv]) \<and>
     (case memory_clear (fs', m') of (fs2, m2) \<Rightarrow> memory_wf J fs2 m2 \<and> log_entries J fs2 m2 = [])"
proof -
  let ?entry = "memory_entry J mid now (the content) category importance tags_csv"
  have clear: "case memory_clear (fs', m') of (fs2, m2) \<Rightarrow> memory_wf J fs2 m2 \<and> log_entries J fs2 m2 = []"
    by (simp add: memory_clear_def memory_wf_def log_text_def log_entries_def load_cache_def file_slurp_def)
  show ?thesis
  proof (cases "e = AppendOpenErr \<or> \<not> given content \<or> cJSON_PrintUnformatted J ?entry = None")
    case True
    with memory_add_refused [OF assms(3) True assms(6)] error_text [OF assms(5)] clear show ?thesis by auto
  next
    case False
    then obtain line where "e = AppendOk" "given content" "cJSON_PrintUnformatted J ?entry = Some line" using assms(4) by auto
    with memory_add_written [OF assms(1-3) _ refl] assms(6)
    have w: "memory_wf J fs' m' \<and> log_entries J fs' m' = log_entries J fs m @ [?entry]"
      and "out = buf_set sz (''Remembered (id='' @ mid @ ''): '' @ take 80 (the content))" by blast+
    then have "\<not> starts_with ''Error'' out"
      by (cases "sz - 1") (auto simp: starts_with_def buf_set_def dest: arg_cong [of _ _ hd])
    with w clear show ?thesis by simp
  qed
qed

theorem memory_add_survives_restart_witness:
  "\<exists>fs' m'. memory_add mem_sample_cjson AppendOk ''ab'' ''now'' (Some ''Tea'') None 0 None 64 (Map.empty, mem_sample) =
       ((fs', m'), ''Remembered (id=ab): Tea'') \<and> log_entries mem_sample_cjson fs' m' = [mem_sample_entry]"
proof -
  obtain fs' m' where a: "memory_add mem_sample_cjson AppendOk ''ab'' ''now'' (Some ''Tea'') None 0 None 64 (Map.empty, mem_sample) =
       ((fs', m'), ''Remembered (id=ab): Tea'')"
    by (simp add: memory_add_def given_def mem_sample_entry_eq mem_sample_print append_file_def Let_def)
  have "log_entries mem_sample_cjson Map.empty mem_sample = []"
    by (simp add: log_entries_def load_cache_def file_slurp_def)
  with a memory_add_survives_restart [OF mem_sample_laws mem_sample_wf _ _ a] show ?thesis
    by (auto simp: starts_with_def mem_sample_entry_eq)
qed

text \<open>
  A torn append loses the next memory too. When an append fails after some bytes reached the log, the
  next entry is glued to them: it is answered as remembered and found until the process ends,
  but a restart reads the two as one line, which is dropped when it is not valid JSON.
\<close>

theorem memory_torn_append_loses_next:
  assumes "cjson_laws J" "cjson_line_law J" "memory_wf J fs m" "given c1" "given c2"
    "cJSON_PrintUnformatted J (memory_entry J i1 t1 (the c1) cat1 n1 g1) = Some l1" "0 < k" "k \<le> length l1"
    "entry = memory_entry J i2 t2 (the c2) cat2 n2 g2" "cJSON_PrintUnformatted J entry = Some l2"
    "cJSON_Parse J (take k l1 @ l2) = None"
    "memory_add J (AppendErr k) i1 t1 c1 cat1 n1 g1 sz (fs, m) = ((fs1, m1), out1)"
    "memory_add J AppendOk i2 t2 c2 cat2 n2 g2 sz (fs1, m1) = ((fs2, m2), out2)"
  shows "out1 = buf_set sz ''Error: cannot append memory log'' \<and>
     out2 = buf_set sz (''Remembered (id='' @ i2 @ ''): '' @ take 80 (the c2)) \<and>
     mem_cache m2 = Some (log_entries J fs m @ [entry]) \<and> log_entries J fs2 m2 = log_entries J fs m"
proof -
  obtain d where d: "log_text fs m = Some d" "NUL \<notin> set d" "d = [] \<or> last d = LF"
    using assms(3) by (auto simp: memory_wf_def)
  have l: "NUL \<notin> set l1" "LF \<notin> set l1" "l1 \<noteq> []" "NUL \<notin> set l2" "LF \<notin> set l2" "l2 \<noteq> []"
    using assms(2,6,10) cjson_law(8) [OF assms(1), of _ l1] cjson_law(8) [OF assms(1), of _ l2]
    unfolding cjson_line_law_def by blast+
  let ?p = "memory_log_path m"
  have r1: "fs1 = fs(?p \<mapsto> append_node (fs ?p) (take k l1))" "m1 = m\<lparr>mem_cache := Some (log_entries J fs m)\<rparr>"
    "out1 = buf_set sz ''Error: cannot append memory log''"
    using assms(4,6,8,12) load_cache_entries [OF assms(3)] by (auto simp: memory_add_def append_file_def Let_def)
  have r2: "fs2 = fs1(?p \<mapsto> append_node (fs1 ?p) (l2 @ [LF]))" "m2 = m\<lparr>mem_cache := Some (log_entries J fs m @ [entry])\<rparr>"
    "out2 = buf_set sz (''Remembered (id='' @ i2 @ ''): '' @ take 80 (the c2))"
    using assms(5,9,10,13) by (auto simp: memory_add_def append_file_def Let_def r1(2) load_cache_def)
  have "log_text fs1 m = Some (d @ take k l1)" using log_text_append [OF d(1)] r1(1) by simp
  then have t: "log_text fs2 m = Some (d @ (take k l1 @ l2) @ [LF])" using log_text_append r2(1) by fastforce
  have "NUL \<notin> set (take k l1 @ l2)" "LF \<notin> set (take k l1 @ l2)" "take k l1 @ l2 \<noteq> []"
    using l by (auto dest: in_set_takeD)
  from line_entries [OF d this t, of J] assms(11) have "log_entries J fs2 m = log_entries J fs m" by simp
  with r1(3) r2(2,3) show ?thesis by simp
qed

theorem memory_torn_append_loses_next_witness:
  "\<exists>fs1 m1 fs2 m2. memory_add mem_sample_cjson (AppendErr 2) ''ab'' ''now'' (Some ''Tea'') None 0 None 64 (Map.empty, mem_sample) =
       ((fs1, m1), ''Error: cannot append memory log'') \<and>
     memory_add mem_sample_cjson AppendOk ''ab'' ''now'' (Some ''Tea'') None 0 None 64 (fs1, m1) = ((fs2, m2), ''Remembered (id=ab): Tea'') \<and>
     log_entries mem_sample_cjson fs2 m2 = []"
proof -
  let ?add = "\<lambda>e. memory_add mem_sample_cjson e ''ab'' ''now'' (Some ''Tea'') None 0 None 64"
  obtain fs1 m1 out1 where a: "?add (AppendErr 2) (Map.empty, mem_sample) = ((fs1, m1), out1)" by (metis prod.exhaust)
  obtain fs2 m2 out2 where b: "?add AppendOk (fs1, m1) = ((fs2, m2), out2)" by (metis prod.exhaust)
  have e: "log_entries mem_sample_cjson Map.empty mem_sample = []"
    by (simp add: log_entries_def load_cache_def file_slurp_def)
  have g: "given (Some ''Tea'')" by (simp add: given_def)
  have p: "cJSON_PrintUnformatted mem_sample_cjson (memory_entry mem_sample_cjson ''ab'' ''now'' (the (Some ''Tea'')) None 0 None) = Some ''tea''"
    by (simp add: mem_sample_entry_eq mem_sample_print)
  have n: "cJSON_Parse mem_sample_cjson (take 2 ''tea'' @ ''tea'') = None"
    by (simp add: mem_sample_cjson_def table_cjson_def)
  from memory_torn_append_loses_next [OF mem_sample_laws mem_sample_wf g g p _ _ refl p n a b] a b e
  show ?thesis by simp
qed

text \<open>
  (C32) \<open>memory_search\<close> prints, newest first among equals, the entries with the most query words, at most
  \<open>n\<close> of them (20 when \<open>n\<close> is not positive, never more than 50): the list kept in place during the
  scan, with its early end when there is no query word, is the stable sort by score of the
  matching entries from the newest on, cut at the limit.
\<close>

theorem memory_search_ranked:
  "memory_search J query n sz fs m =
     (let words = query_words 0 (case query of Some q \<Rightarrow> q | None \<Rightarrow> []);
          score = (\<lambda>e. if words = [] then 1 else match_score J e words);
          newest_first = rev (the (mem_cache (load_cache J fs m)));
          ranked = sort_key (\<lambda>e. - int (score e)) (filter (\<lambda>e. 0 < score e) newest_first)
      in (load_cache J fs m, take (sz - 1) (concat (map (format_entry J) (take (search_limit n) ranked)))))
   \<and> 1 \<le> search_limit n \<and> search_limit n \<le> 50"
proof -
  define words where "words = query_words 0 (case query of Some q \<Rightarrow> q | None \<Rightarrow> [])"
  define s where "s = (\<lambda>e. if words = [] then 1 else match_score J e words)"
  have l: "1 \<le> search_limit n \<and> search_limit n \<le> 50" by (auto simp: search_limit_def Let_def)
  have "search_loop (search_limit n) (words = []) (\<lambda>e. match_score J e words) es [] =
      map (\<lambda>e. (s e, e)) (take (search_limit n) (ranking s es))" for es
    using search_loop_ranking [of "search_limit n" s "words = []" "\<lambda>e. match_score J e words" es "[]"] l
    by (simp add: s_def ranking_def)
  then have "memory_search J query n sz fs m = (load_cache J fs m,
      take (sz - 1) (concat (map (format_entry J) (take (search_limit n) (ranking s (rev (the (mem_cache (load_cache J fs m)))))))))"
    using fold_buf_appendf [of "[]" sz "\<lambda>x :: nat \<times> cjson. format_entry J (snd x)"]
    by (simp add: memory_search_def Let_def words_def [symmetric] comp_def)
  with l show ?thesis
    unfolding ranking_def Let_def words_def [symmetric] s_def by simp
qed

text \<open>
  The tags extracted from a text are appended to the given ones: at most ten, all different and
  different from the given ones, each a word of 4 to 62 bytes in lower case.
\<close>

theorem extract_tags_words:
  "\<exists>ws. extract_tags content tags = tags @ map CString ws \<and> distinct ws \<and> length ws \<le> 10 \<and>
     list_all tag_word ws \<and> CString ` set ws \<inter> set tags = {}"
  using tag_loop_words [of "[]" "[]" 0 tags content] by (fastforce simp: extract_tags_def)

text \<open>
  The facts are a dictionary whose keys ignore case: after any sequence of \<open>facts_set\<close> calls, some of
  which may fail, looking up a key gives the value of the last call that reported success for a
  spelling of that key, or what was there before.
\<close>

theorem facts_dictionary:
  assumes "facts_wf J m fs" "dict_run (fact_put J m) ops fs = (fs', kvs)" "k \<noteq> []"
  shows "facts_get J m (Some k) sz fs' =
     (case find (\<lambda>kv. strcaseeq (fst kv) k) (rev kvs) of
        Some kv \<Rightarrow> buf_set sz (snd kv)
      | None \<Rightarrow> facts_get J m (Some k) sz fs) \<and> facts_wf J m fs'"
  using facts.dict_run_last [OF assms(1,2), of k] assms(3) by (auto simp: facts_get_of split: option.splits)

theorem facts_dictionary_witness:
  "\<exists>fs'. dict_run (fact_put mem_sample_cjson mem_sample) [(sample_wenv, ''k'', ''v'')] Map.empty = (fs', [(''k'', ''v'')]) \<and>
     facts_get mem_sample_cjson mem_sample (Some ''K'') 64 fs' = ''v''"
proof -
  have wf: "facts_wf mem_sample_cjson mem_sample Map.empty"
    using mem_sample_laws by (simp add: facts_wf_def json_load_def file_slurp_def object_ok_def keys_ok_def)
  obtain fs' where r: "dict_run (fact_put mem_sample_cjson mem_sample) [(sample_wenv, ''k'', ''v'')] Map.empty = (fs', [(''k'', ''v'')])"
    by (auto simp: fact_put_def facts_set_def given_def json_load_def file_slurp_def json_save_atomic_def add_string_def
        cjson_obj [OF mem_sample_laws(1)] mem_sample_cjson_def table_cjson_def atomic_write_def atomic_write_trace_def sample_wenv_def
        tmp_name_def dec_int_def dec_nat.simps Let_def facts_path_def mem_sample_def mem_sample_entry_def starts_with_def)
  have "strcaseeq ''k'' ''K''" by code_simp
  with facts_dictionary [OF wf r, of "''K''" 64] r show ?thesis by auto
qed

end
