(* ===== verification/Messenger.thy ===== *)
theory Messenger
  imports Cjson
begin

text \<open>
  \<open>src/messenger.c\<close>: the registry of agents and their inboxes, directories with one JSON file per
  message. What \<open>readdir\<close> lists is an argument; \<open>lists\<close> says what the kernel promises of it.
  The lock serialises the operations.

  The lemmas show that the registry holds at most 17 different names, that a message reported
  as sent is received with its content, that receiving consumes every message file and
  touches nothing else, and what is answered on the error paths.
\<close>

abbreviation (input) TC_MAX_AGENTS :: nat where "TC_MAX_AGENTS \<equiv> 16"

record messenger_t =
  ms_dir :: string
  ms_agents :: "string list"

definition messenger_init :: "string \<Rightarrow> messenger_t \<times> string list" where
  "messenger_init dir = (\<lparr>ms_dir = buf_set 4096 dir, ms_agents = []\<rparr>, mkdirs dir)"

definition messenger_resolve :: "messenger_t \<Rightarrow> string option \<Rightarrow> string option" where
  "messenger_resolve m name =
     (case name of
        None \<Rightarrow> None
      | Some n \<Rightarrow> let n = (if n \<noteq> [] \<and> hd n = CHR ''@'' then tl n else n)
                  in find (\<lambda>a. strcaseeq a n) (ms_agents m))"

text \<open>Result: the registry and the directories created.\<close>

definition messenger_register :: "messenger_t \<Rightarrow> string \<Rightarrow> messenger_t \<times> string list" where
  "messenger_register m agent_name =
     (if messenger_resolve m (Some agent_name) \<noteq> None \<or> length (ms_agents m) \<ge> TC_MAX_AGENTS + 1 then (m, [])
      else (m\<lparr>ms_agents := ms_agents m @ [buf_set 32 agent_name]\<rparr>,
            if agent_name = ''owner'' then [] else mkdirs (buf_set 4200 (ms_dir m @ ''/'' @ agent_name))))"

section \<open>Sending\<close>

text \<open>What one delivery draws from its environment: identifier, time and the outcome of the write.\<close>

record send_env =
  se_mid :: string
  se_now :: string
  se_write :: wenv

definition mail_json :: "cjson_api \<Rightarrow> string \<Rightarrow> string \<Rightarrow> string \<Rightarrow> string \<Rightarrow> string \<Rightarrow> string option \<Rightarrow> bool \<Rightarrow> cjson" where
  "mail_json J mid now from to content thread_id reply =
     (let msg = add_string J ''timestamp'' now
            (add_string J ''thread_id'' (case thread_id of Some t \<Rightarrow> t | None \<Rightarrow> [])
              (add_string J ''content'' content (add_string J ''to'' to
                (add_string J ''from'' from (add_string J ''id'' mid (CObject []))))))
      in if reply then cJSON_AddItemToObject J msg ''reply'' (CBool True) else msg)"

definition mail_path :: "messenger_t \<Rightarrow> string \<Rightarrow> string \<Rightarrow> string" where
  "mail_path m to mid = buf_set 4200 (ms_dir m @ ''/'' @ to @ ''/'' @ mid @ ''.json'')"

definition send_one :: "cjson_api \<Rightarrow> send_env \<Rightarrow> messenger_t \<Rightarrow> string \<Rightarrow> string \<Rightarrow> string \<Rightarrow> string option \<Rightarrow> bool \<Rightarrow> nat \<Rightarrow> fs \<Rightarrow> fs \<times> string" where
  "send_one J e m from to content thread_id reply out_sz fs =
     (let path = mail_path m to (se_mid e);
          (fs', rc) = (case cJSON_PrintUnformatted J (mail_json J (se_mid e) (se_now e) from to content thread_id reply) of
                         None \<Rightarrow> (fs, -1)
                       | Some json \<Rightarrow> atomic_write (se_write e) path json fs)
      in (fs', buf_set out_sz (if rc \<noteq> 0 then ''Error: cannot deliver the message to '' @ to
                               else ''Message sent to '' @ to @ ''.'')))"

text \<open>The loop over the registry: each delivery has its own environment, the answers are dropped.\<close>

definition broadcast_to :: "messenger_t \<Rightarrow> string \<Rightarrow> string list" where
  "broadcast_to m from = filter (\<lambda>a. a \<noteq> from \<and> a \<noteq> ''owner'') (ms_agents m)"

fun broadcast :: "cjson_api \<Rightarrow> (nat \<Rightarrow> send_env) \<Rightarrow> messenger_t \<Rightarrow> string \<Rightarrow> string \<Rightarrow> string option \<Rightarrow> bool \<Rightarrow>
    string list \<Rightarrow> nat \<Rightarrow> fs \<Rightarrow> fs \<times> nat" where
  "broadcast J env m from content thread_id reply [] sent fs = (fs, sent)"
| "broadcast J env m from content thread_id reply (a # as) sent fs =
     broadcast J env m from content thread_id reply as (Suc sent)
       (fst (send_one J (env sent) m from a content thread_id reply 256 fs))"

definition unknown_recipient :: "messenger_t \<Rightarrow> string option \<Rightarrow> nat \<Rightarrow> string" where
  "unknown_recipient m to out_sz =
     buf_appendf out_sz
       (fold (\<lambda>a b. buf_appendf out_sz b (SP # a @ '','')) (ms_agents m)
         (buf_appendf out_sz [] (''Error: unknown recipient '' @ [CHR 0x27] @ (case to of Some t \<Rightarrow> t | None \<Rightarrow> []) @ [CHR 0x27] @ ''. Valid:'')))
       '' all''"

definition messenger_send :: "cjson_api \<Rightarrow> (nat \<Rightarrow> send_env) \<Rightarrow> messenger_t \<Rightarrow> string \<Rightarrow> string option \<Rightarrow> string \<Rightarrow> string option \<Rightarrow> bool \<Rightarrow>
    nat \<Rightarrow> fs \<Rightarrow> fs \<times> string" where
  "messenger_send J env m from to content thread_id reply out_sz fs =
     (if to \<noteq> None \<and> strcaseeq (the to) ''all''
      then let (fs', sent) = broadcast J env m from content thread_id reply (broadcast_to m from) 0 fs
           in (fs', buf_set out_sz (''Broadcast sent to '' @ dec_nat sent @ '' agents.''))
      else case messenger_resolve m to of
             None \<Rightarrow> (fs, unknown_recipient m to out_sz)
           | Some name \<Rightarrow>
               if name = ''owner'' then (fs, unknown_recipient m to out_sz)
               else if name = from
               then (fs, buf_set out_sz ''Error: you cannot send a message to yourself. Reply in text to answer the owner.'')
               else send_one J (env 0) m from name content thread_id reply out_sz fs)"

section \<open>Receiving\<close>

definition is_mail_name :: "string \<Rightarrow> bool" where
  "is_mail_name n \<longleftrightarrow> \<not> (n \<noteq> [] \<and> hd n = CHR ''.'') \<and> ends_with ''.json'' n"

fun receive_loop :: "cjson_api \<Rightarrow> string \<Rightarrow> string list \<Rightarrow> fs \<times> cjson list \<Rightarrow> fs \<times> cjson list" where
  "receive_loop J inbox [] s = s"
| "receive_loop J inbox (n # ns) (fs, msgs) =
     (if \<not> is_mail_name n then receive_loop J inbox ns (fs, msgs)
      else let path = buf_set 4200 (inbox @ ''/'' @ n);
               msgs' = (case file_slurp fs path of
                          Slurped data \<Rightarrow> (case cJSON_Parse J (cstr data) of Some msg \<Rightarrow> msgs @ [msg] | None \<Rightarrow> msgs)
                        | _ \<Rightarrow> msgs)
           in receive_loop J inbox ns (fs(path := None), msgs'))"

text \<open>\<open>names\<close> is \<open>None\<close> when the directory cannot be opened. The count returned is the number of messages.\<close>

definition messenger_receive :: "cjson_api \<Rightarrow> messenger_t \<Rightarrow> string \<Rightarrow> string list option \<Rightarrow> fs \<Rightarrow> fs \<times> cjson list" where
  "messenger_receive J m agent_name names fs =
     (case names of None \<Rightarrow> (fs, [])
      | Some ns \<Rightarrow> receive_loop J (buf_set 4200 (ms_dir m @ ''/'' @ agent_name)) ns (fs, []))"

section \<open>The registry\<close>

definition agent_name_ok :: "string \<Rightarrow> bool" where
  "agent_name_ok a \<longleftrightarrow> a \<noteq> [] \<and> length a < 32 \<and> hd a \<noteq> CHR ''@''"

definition messenger_wf :: "messenger_t \<Rightarrow> bool" where
  "messenger_wf m \<longleftrightarrow> length (ms_agents m) \<le> TC_MAX_AGENTS + 1 \<and> list_all agent_name_ok (ms_agents m) \<and>
     distinct (map (map tolower) (ms_agents m))"

lemma messenger_resolve_name:
  "agent_name_ok n \<Longrightarrow> messenger_resolve m (Some n) = find (\<lambda>a. strcaseeq a n) (ms_agents m)"
  by (simp add: messenger_resolve_def agent_name_ok_def)

lemma messenger_resolve_Some: "messenger_resolve m to = Some a \<Longrightarrow> a \<in> set (ms_agents m)"
  by (auto simp: messenger_resolve_def Let_def find_Some_iff split: option.splits)

lemma messenger_register_wf:
  assumes "messenger_wf m" "agent_name_ok n" "messenger_register m n = (m', dirs)"
  shows "messenger_wf m' \<and> set (ms_agents m) \<subseteq> set (ms_agents m')"
proof (cases "messenger_resolve m (Some n) \<noteq> None \<or> length (ms_agents m) \<ge> 17")
  case True
  then show ?thesis using assms by (auto simp: messenger_register_def)
next
  case False
  then have m': "m' = m\<lparr>ms_agents := ms_agents m @ [n]\<rparr>"
    using assms(2,3) by (auto simp: messenger_register_def agent_name_ok_def)
  have "\<forall>a \<in> set (ms_agents m). map tolower a \<noteq> map tolower n"
    using False messenger_resolve_name [OF assms(2), of m] by (auto simp: find_None_iff strcaseeq_def)
  then show ?thesis using False assms(1,2) by (auto simp: m' messenger_wf_def)
qed

section \<open>The inbox\<close>

definition inbox :: "messenger_t \<Rightarrow> string \<Rightarrow> string" where
  "inbox m a = ms_dir m @ ''/'' @ a"

text \<open>
  A listing of a directory: names without a slash, none twice, each at most 255 bytes, and
  every file of the directory among them.
\<close>

definition lists :: "fs \<Rightarrow> string \<Rightarrow> string list \<Rightarrow> bool" where
  "lists fs dir ns \<longleftrightarrow> distinct ns \<and> (\<forall>n \<in> set ns. CHR ''/'' \<notin> set n \<and> length n \<le> 255) \<and>
     (\<forall>n. n \<noteq> [] \<and> CHR ''/'' \<notin> set n \<and> fs (dir @ ''/'' @ n) \<noteq> None \<longrightarrow> n \<in> set ns)"

definition mail_in :: "cjson_api \<Rightarrow> fs \<Rightarrow> string \<Rightarrow> string \<Rightarrow> cjson list" where
  "mail_in J fs dir n =
     (case file_slurp fs (dir @ ''/'' @ n) of
        Slurped data \<Rightarrow> (case cJSON_Parse J (cstr data) of Some msg \<Rightarrow> [msg] | None \<Rightarrow> [])
      | _ \<Rightarrow> [])"

lemma mail_in_other: "n \<noteq> n' \<Longrightarrow> mail_in J (fs(dir @ ''/'' @ n' := None)) dir n = mail_in J fs dir n"
  by (simp add: mail_in_def file_slurp_def)

lemma receive_loop_spec:
  assumes "distinct ns" "\<forall>n \<in> set ns. length dir + length n < 4198"
  shows "receive_loop J dir ns (fs, msgs) =
     ((\<lambda>p. if p \<in> (\<lambda>n. dir @ ''/'' @ n) ` set (filter is_mail_name ns) then None else fs p),
      msgs @ concat (map (mail_in J fs dir) (filter is_mail_name ns)))"
  using assms
proof (induction ns arbitrary: fs msgs)
  case (Cons n ns)
  show ?case
  proof (cases "is_mail_name n")
    case True
    have b: "buf_set 4200 (dir @ ''/'' @ n) = dir @ ''/'' @ n" using Cons.prems(2) by simp
    have "map (mail_in J (fs(dir @ ''/'' @ n := None)) dir) (filter is_mail_name ns) = map (mail_in J fs dir) (filter is_mail_name ns)"
      using Cons.prems(1) by (intro map_cong) (auto intro!: mail_in_other [simplified])
    moreover have "(case file_slurp fs (dir @ ''/'' @ n) of
        Slurped data \<Rightarrow> (case cJSON_Parse J (cstr data) of Some msg \<Rightarrow> msgs @ [msg] | None \<Rightarrow> msgs) | _ \<Rightarrow> msgs) = msgs @ mail_in J fs dir n"
      by (simp add: mail_in_def split: slurp.split option.split)
    ultimately have e: "receive_loop J dir (n # ns) (fs, msgs) = receive_loop J dir ns (fs(dir @ ''/'' @ n := None), msgs @ mail_in J fs dir n)"
      and m: "map (mail_in J (fs(dir @ ''/'' @ n := None)) dir) (filter is_mail_name ns) = map (mail_in J fs dir) (filter is_mail_name ns)"
      using True b by simp_all
    show ?thesis
      unfolding e by (subst Cons.IH) (use Cons.prems True m in \<open>auto simp: fun_eq_iff intro!: arg_cong [of _ _ concat]\<close>)
  qed (use Cons in auto)
qed simp

lemma messenger_receive_lists:
  assumes "lists fs (inbox m a) ns" "length (inbox m a) \<le> 3900"
  shows "messenger_receive J m a (Some ns) fs =
     ((\<lambda>p. if p \<in> (\<lambda>n. inbox m a @ ''/'' @ n) ` set (filter is_mail_name ns) then None else fs p),
      concat (map (mail_in J fs (inbox m a)) (filter is_mail_name ns)))"
proof -
  have "buf_set 4200 (ms_dir m @ ''/'' @ a) = inbox m a" using assms(2) by (simp add: inbox_def)
  then show ?thesis
    using assms receive_loop_spec [of ns "inbox m a" J fs "[]"] by (fastforce simp: messenger_receive_def lists_def)
qed

section \<open>Delivery\<close>

text \<open>Identifiers as \<open>uuid_short\<close> makes them.\<close>

definition mid_ok :: "string \<Rightarrow> bool" where
  "mid_ok mid \<longleftrightarrow> length mid = 8 \<and> set mid \<subseteq> set ''0123456789abcdef''"

lemma uuid_short_mid_ok: "mid_ok (uuid_short rnd now ptr 8)"
  using set_uuid_short [of rnd now ptr 8] by (simp add: mid_ok_def length_uuid_short)

lemma mid_mail_name:
  assumes "mid_ok mid"
  shows "is_mail_name (mid @ ''.json'')" "CHR ''/'' \<notin> set (mid @ ''.json'')"
proof -
  have "CHR ''/'' \<notin> set mid" "CHR ''.'' \<notin> set mid" "mid \<noteq> []" using assms by (auto simp: mid_ok_def)
  moreover from this have "hd mid \<noteq> CHR ''.''" by (metis hd_in_set)
  ultimately show "is_mail_name (mid @ ''.json'')" "CHR ''/'' \<notin> set (mid @ ''.json'')"
    by (auto simp: is_mail_name_def ends_with_def)
qed

lemma send_one_cases:
  assumes "send_one J e m from to content tid reply sz fs = (fs', out)"
  obtains (error) x where "fs' = fs" "out = buf_set sz (''Error'' @ x)"
  | (sent) json where "cJSON_PrintUnformatted J (mail_json J (se_mid e) (se_now e) from to content tid reply) = Some json"
      "atomic_write (se_write e) (mail_path m to (se_mid e)) json fs = (fs', 0)" "out = buf_set sz (''Message sent to '' @ to @ ''.'')"
proof (cases "cJSON_PrintUnformatted J (mail_json J (se_mid e) (se_now e) from to content tid reply)")
  case None
  then show ?thesis
    using assms by (intro error [of "'': cannot deliver the message to '' @ to"]) (auto simp: send_one_def)
next
  case (Some json)
  obtain fs1 rc where rc: "atomic_write (se_write e) (mail_path m to (se_mid e)) json fs = (fs1, rc)" by fastforce
  with assms Some have r: "fs' = fs1"
    "out = buf_set sz (if rc \<noteq> 0 then ''Error: cannot deliver the message to '' @ to else ''Message sent to '' @ to @ ''.'')"
    by (auto simp: send_one_def Let_def)
  show ?thesis
  proof (cases "rc = 0")
    case True
    with r rc Some show ?thesis by (intro sent) auto
  next
    case False
    with r atomic_write_fail [OF rc] show ?thesis by (intro error [of "'': cannot deliver the message to '' @ to"]) auto
  qed
qed

lemma unknown_recipient_error: "6 \<le> sz \<Longrightarrow> starts_with ''Error'' (unknown_recipient m to sz)"
proof -
  assume "6 \<le> sz"
  have f: "fold (\<lambda>a b. buf_appendf sz b (SP # a @ '','')) as b = take (sz - 1) (b @ concat (map (\<lambda>a. SP # a @ '','') as))"
    if "length b \<le> sz - 1" for as b
    using fold_buf_appendf [OF that, of "\<lambda>a. SP # a @ '',''"] by simp
  obtain x where "unknown_recipient m to sz = take (sz - 1) (''Error'' @ x)"
    unfolding unknown_recipient_def
    by (simp add: buf_appendf_take f take_take_append length_buf_appendf del: take_append)
  then show ?thesis using error_text [OF \<open>6 \<le> sz\<close>] by (simp add: buf_set_def)
qed

lemma broadcast_count: "snd (broadcast J env m from content tid reply as sent fs) = sent + length as"
  by (induction as arbitrary: sent fs) auto

lemma broadcast_fails:
  "\<forall>i. open_err (se_write (env i)) \<Longrightarrow> fst (broadcast J env m from content tid reply as sent fs) = fs"
  by (induction as arbitrary: sent)
     (auto simp: send_one_def Let_def atomic_write_def atomic_write_trace_def split: option.splits)

section \<open>Properties\<close>

definition mail_sample :: cjson where
  "mail_sample = CObject [(''id'', CString ''0123abcd''), (''from'', CString ''ada''), (''to'', CString ''bob''),
     (''content'', CString ''hi''), (''thread_id'', CString []), (''timestamp'', CString ''now'')]"

definition mail_cjson :: cjson_api where
  "mail_cjson = table_cjson [(mail_sample, ''mail'')]"

definition mail_box :: messenger_t where
  "mail_box = \<lparr>ms_dir = ''in'', ms_agents = [''owner'', ''ada'', ''bob'']\<rparr>"

definition mail_env :: "nat \<Rightarrow> send_env" where
  "mail_env i = \<lparr>se_mid = ''0123abcd'', se_now = ''now'', se_write = sample_wenv\<rparr>"

lemma dec_one: "dec_nat (Suc 0) = ''1''"
  by code_simp

lemma mail_cjson_laws: "cjson_laws mail_cjson"
  unfolding mail_cjson_def by (rule table_cjson_laws) simp_all

text \<open>
  The registry never holds more than 17 names nor two that differ only in case. A name that is
  registered resolves from then on, in any spelling and with or without a leading \<open>@\<close>, to
  the name registered first, unless the registry was full.
\<close>

theorem messenger_registry:
  assumes "messenger_wf m" "agent_name_ok n" "messenger_register m n = (m', dirs)" "strcaseeq n n2" "agent_name_ok n2"
  shows "messenger_wf m' \<and>
     (if messenger_resolve m (Some n) = None \<and> length (ms_agents m) \<ge> 17 then m' = m
      else \<exists>a. strcaseeq a n \<and> messenger_resolve m' (Some n2) = Some a \<and> messenger_resolve m' (Some (CHR ''@'' # n2)) = Some a)"
proof -
  have same: "strcaseeq a n = strcaseeq a n2" for a using assms(4) by (auto simp: strcaseeq_def)
  have at: "messenger_resolve m' (Some (CHR ''@'' # n2)) = messenger_resolve m' (Some n2)"
    using assms(5) by (simp add: messenger_resolve_def agent_name_ok_def)
  have r: "messenger_resolve m2 (Some n2) = messenger_resolve m2 (Some n)" for m2
    using assms(2,5) by (simp add: messenger_resolve_name same)
  have found: "strcaseeq a n" if "messenger_resolve m2 (Some n) = Some a" for m2 a
    using that assms(2) by (auto simp: messenger_resolve_name find_Some_iff)
  have "\<exists>a. messenger_resolve m' (Some n) = Some a" if "\<not> (messenger_resolve m (Some n) = None \<and> length (ms_agents m) \<ge> 17)"
  proof (cases "messenger_resolve m (Some n)")
    case None
    with that have "ms_agents m' = ms_agents m @ [n]"
      using assms(2,3) by (auto simp: messenger_register_def agent_name_ok_def)
    then show ?thesis using assms(2) by (simp add: messenger_resolve_name) (metis find_None_iff UnI2 list.set_intros(1) not_None_eq set_append strcaseeq_refl)
  next
    case (Some a)
    then show ?thesis using assms(3) by (auto simp: messenger_register_def)
  qed
  with messenger_register_wf [OF assms(1-3)] found assms(3) show ?thesis
    unfolding at r by (auto simp: messenger_register_def)
qed

theorem messenger_registry_witness:
  "\<exists>a. strcaseeq a ''eve'' \<and> messenger_resolve (fst (messenger_register mail_box ''eve'')) (Some ''@EVE'') = Some a"
proof -
  have "messenger_wf mail_box" "agent_name_ok ''eve''" "agent_name_ok ''EVE''" "strcaseeq ''eve'' ''EVE''" by code_simp+
  moreover obtain m' dirs where "messenger_register mail_box ''eve'' = (m', dirs)" by fastforce
  moreover have "length (ms_agents mail_box) = 3" by (simp add: mail_box_def)
  ultimately show ?thesis using messenger_registry [of mail_box "''eve''" m' dirs "''EVE''"] by auto
qed

text \<open>
  (C33) A message to one agent is delivered or refused: when the answer is an error the file system is
  unchanged; otherwise the name resolved to another registered agent and, whatever the
  directory listing, that agent's next \<open>messenger_receive\<close> returns the message as sent.
\<close>

theorem messenger_send_receive:
  assumes "cjson_laws J" "6 \<le> sz" "\<not> strcaseeq to ''all''" "messenger_wf m" "length (ms_dir m) \<le> 3800" "mid_ok (se_mid (env 0))"
    "messenger_send J env m from (Some to) content tid reply sz fs = (fs', out)"
  shows "if starts_with ''Error'' out then fs' = fs
     else \<exists>name. messenger_resolve m (Some to) = Some name \<and> name \<noteq> from \<and> name \<noteq> ''owner'' \<and>
       (\<forall>ns. lists fs' (inbox m name) ns \<longrightarrow>
          mail_json J (se_mid (env 0)) (se_now (env 0)) from name content tid reply
            \<in> set (snd (messenger_receive J m name (Some ns) fs')))"
proof (cases "messenger_resolve m (Some to)")
  case None
  then show ?thesis using assms unknown_recipient_error [OF assms(2)] by (auto simp: messenger_send_def)
next
  case (Some name)
  show ?thesis
  proof (cases "name = ''owner'' \<or> name = from")
    case True
    moreover have "starts_with ''Error'' (buf_set sz ''Error: you cannot send a message to yourself. Reply in text to answer the owner.'')"
      using error_text [OF assms(2), of "'': you cannot send a message to yourself. Reply in text to answer the owner.''"] by simp
    ultimately show ?thesis
      using Some assms unknown_recipient_error [OF assms(2)] by (auto simp: messenger_send_def split: if_splits)
  next
    case False
    then have "send_one J (env 0) m from name content tid reply sz fs = (fs', out)"
      using Some assms(3,7) by (simp add: messenger_send_def)
    then show ?thesis
    proof (cases rule: send_one_cases)
      case (error x)
      then show ?thesis using error_text [OF assms(2)] by simp
    next
      case (sent json)
      let ?mid = "se_mid (env 0)" and ?msg = "mail_json J (se_mid (env 0)) (se_now (env 0)) from name content tid reply"
      have len: "length name < 32" "length ?mid = 8"
        using messenger_resolve_Some [OF Some] assms(4,6) by (auto simp: messenger_wf_def list_all_iff agent_name_ok_def mid_ok_def)
      then have path: "mail_path m name ?mid = inbox m name @ ''/'' @ ?mid @ ''.json''" and in_len: "length (inbox m name) \<le> 3900"
        using assms(5) by (simp_all add: mail_path_def inbox_def)
      have p: "cJSON_Parse J json = Some ?msg" "NUL \<notin> set json"
        using cjson_law(2,8) [OF assms(1)] sent(1) by blast+
      have f: "fs' (inbox m name @ ''/'' @ ?mid @ ''.json'') = Some (File json)"
        using atomic_write_ok [OF sent(2)] path by simp
      have "?msg \<in> set (snd (messenger_receive J m name (Some ns) fs'))" if l: "lists fs' (inbox m name) ns" for ns
      proof -
        have "?mid @ ''.json'' \<in> set ns" using l f mid_mail_name [OF assms(6)] by (auto simp: lists_def)
        moreover have "?msg \<in> set (mail_in J fs' (inbox m name) (?mid @ ''.json''))"
          using f p by (simp add: mail_in_def file_slurp_def)
        ultimately show ?thesis
          using messenger_receive_lists [OF l in_len, of J] mid_mail_name(1) [OF assms(6)] by auto
      qed
      moreover have "\<not> starts_with ''Error'' out"
        unfolding sent(3) by (cases "sz - 1") (auto simp: starts_with_def buf_set_def dest: arg_cong [of _ _ hd])
      ultimately show ?thesis using Some False by simp
    qed
  qed
qed

theorem messenger_send_receive_witness:
  "\<exists>fs'. messenger_send mail_cjson mail_env mail_box ''ada'' (Some ''@Bob'') ''hi'' None False 64 Map.empty = (fs', ''Message sent to bob.'') \<and>
     (\<forall>ns. lists fs' ''in/bob'' ns \<longrightarrow> mail_sample \<in> set (snd (messenger_receive mail_cjson mail_box ''bob'' (Some ns) fs')))"
proof -
  have res: "messenger_resolve mail_box (Some ''@Bob'') = Some ''bob''" by code_simp
  have na: "\<not> strcaseeq ''@Bob'' ''all''" and wf: "messenger_wf mail_box" "mid_ok ''0123abcd''" by code_simp+
  have js: "mail_json mail_cjson ''0123abcd'' ''now'' ''ada'' ''bob'' ''hi'' None False = mail_sample"
    by (simp add: mail_json_def add_string_def cjson_obj [OF mail_cjson_laws] mail_sample_def)
  have pr: "cJSON_PrintUnformatted mail_cjson mail_sample = Some ''mail''" by (simp add: mail_cjson_def table_cjson_def)
  obtain fs' where s: "messenger_send mail_cjson mail_env mail_box ''ada'' (Some ''@Bob'') ''hi'' None False 64 Map.empty = (fs', ''Message sent to bob.'')"
    by (auto simp: messenger_send_def na res send_one_def js pr mail_env_def atomic_write_def atomic_write_trace_def sample_wenv_def Let_def)
  have "inbox mail_box ''bob'' = ''in/bob''" by (simp add: inbox_def mail_box_def)
  with messenger_send_receive [OF mail_cjson_laws _ na wf(1) _ _ s] s res js wf(2) show ?thesis
    by (simp add: starts_with_def mail_env_def mail_box_def)
qed

text \<open>
  Receiving consumes the inbox: the result is the valid messages of the inbox in listing order, no
  message file is left, no other file changes, and receiving again returns nothing.
\<close>

theorem messenger_receive_consumes:
  assumes "lists fs (inbox m a) ns" "length (inbox m a) \<le> 3900" "messenger_receive J m a (Some ns) fs = (fs', msgs)"
  shows "msgs = concat (map (mail_in J fs (inbox m a)) (filter is_mail_name ns)) \<and>
     (\<forall>n. is_mail_name n \<and> CHR ''/'' \<notin> set n \<longrightarrow> fs' (inbox m a @ ''/'' @ n) = None) \<and>
     (\<forall>p. fs' p = fs p \<or> (\<exists>n. p = inbox m a @ ''/'' @ n \<and> is_mail_name n)) \<and>
     (\<forall>ns'. lists fs' (inbox m a) ns' \<longrightarrow> messenger_receive J m a (Some ns') fs' = (fs', []))"
proof -
  note r = messenger_receive_lists [OF assms(1,2), of J, unfolded assms(3), simplified]
  have gone: "fs' (inbox m a @ ''/'' @ n) = None" if "is_mail_name n" "CHR ''/'' \<notin> set n" for n
  proof (cases "n \<in> set ns")
    case False
    moreover have "n \<noteq> []" using that(1) by (auto simp: is_mail_name_def ends_with_def)
    ultimately show ?thesis using assms(1) that r by (auto simp: lists_def)
  qed (use that r in auto)
  have again: "messenger_receive J m a (Some ns') fs' = (fs', [])" if l: "lists fs' (inbox m a) ns'" for ns'
  proof -
    have g: "fs' (inbox m a @ ''/'' @ n) = None" if "n \<in> set (filter is_mail_name ns')" for n
      using that l gone by (auto simp: lists_def)
    then have "concat (map (mail_in J fs' (inbox m a)) (filter is_mail_name ns')) = []"
      by (auto simp: mail_in_def file_slurp_def)
    moreover have "(\<lambda>p. if p \<in> (\<lambda>n. inbox m a @ ''/'' @ n) ` set (filter is_mail_name ns') then None else fs' p) = fs'"
      using g by (auto simp: fun_eq_iff)
    ultimately show ?thesis using messenger_receive_lists [OF l assms(2), of J] by simp
  qed
  show ?thesis using r gone again by auto
qed

theorem messenger_receive_consumes_witness:
  "messenger_receive mail_cjson mail_box ''bob'' (Some [''.'', ''a.json'']) [''in/bob/a.json'' \<mapsto> File ''mail''] = (Map.empty, [mail_sample])"
proof -
  let ?fs = "[''in/bob/a.json'' \<mapsto> File ''mail'']"
  have i: "inbox mail_box ''bob'' = ''in/bob''" by (simp add: inbox_def mail_box_def)
  have l: "lists ?fs (inbox mail_box ''bob'') [''.'', ''a.json'']" by (auto simp: lists_def i split: if_splits)
  obtain fs' msgs where r: "messenger_receive mail_cjson mail_box ''bob'' (Some [''.'', ''a.json'']) ?fs = (fs', msgs)" by fastforce
  have n: "is_mail_name ''a.json''" "\<not> is_mail_name ''.''" by code_simp+
  have "msgs = [mail_sample]" "fs' p = None" for p
  proof -
    from messenger_receive_consumes [OF l _ r] i
    have c: "msgs = concat (map (mail_in mail_cjson ?fs ''in/bob'') (filter is_mail_name [''.'', ''a.json'']))"
      "fs' (''in/bob'' @ ''/'' @ ''a.json'') = None" "fs' p = ?fs p \<or> (\<exists>n. p = ''in/bob'' @ ''/'' @ n \<and> is_mail_name n)"
      "\<forall>n. is_mail_name n \<and> CHR ''/'' \<notin> set n \<longrightarrow> fs' (''in/bob'' @ ''/'' @ n) = None"
      using n by auto
    show "msgs = [mail_sample]" using c(1) n by (simp add: mail_in_def file_slurp_def mail_cjson_def table_cjson_def)
    show "fs' p = None" using r n i by (auto simp: messenger_receive_def mail_box_def Let_def)
  qed
  then show ?thesis using r by (simp add: fun_eq_iff)
qed

text \<open>
  A broadcast answers with the number of agents it addressed, not the number it reached: even when no
  message could be written, the file system being unchanged, it reports them all as sent.
\<close>

theorem messenger_broadcast_overcounts:
  assumes "\<forall>i. open_err (se_write (env i))" "strcaseeq to ''all''"
  shows "messenger_send J env m from (Some to) content tid reply sz fs =
     (fs, buf_set sz (''Broadcast sent to '' @ dec_nat (length (filter (\<lambda>a. a \<noteq> from \<and> a \<noteq> ''owner'') (ms_agents m))) @ '' agents.''))"
proof -
  obtain fs' n where b: "broadcast J env m from content tid reply (broadcast_to m from) 0 fs = (fs', n)" by fastforce
  with broadcast_count [of J env m "from" content tid reply "broadcast_to m from" 0 fs]
    broadcast_fails [OF assms(1), of J m "from" content tid reply "broadcast_to m from" 0 fs]
  show ?thesis using assms(2) by (simp add: messenger_send_def broadcast_to_def)
qed

theorem messenger_broadcast_overcounts_witness:
  "messenger_send mail_cjson (\<lambda>i. (mail_env i)\<lparr>se_write := sample_wenv\<lparr>open_err := True\<rparr>\<rparr>) mail_box ''ada'' (Some ''all'') ''hi'' None False 64 Map.empty =
     (Map.empty, ''Broadcast sent to 1 agents.'')"
  using dec_one messenger_broadcast_overcounts [of "\<lambda>i. (mail_env i)\<lparr>se_write := sample_wenv\<lparr>open_err := True\<rparr>\<rparr>" "''all''" mail_cjson mail_box "''ada''"
      "''hi''" None False 64 Map.empty]
  by (simp add: mail_box_def)

end
