(* ===== verification/Session.thy ===== *)
theory Session
  imports Cjson
begin

text \<open>
  The session files of \<open>src/session.c\<close>, one JSON object per session with its messages, the
  agents involved and its status. (The owner conversation of the same file is in \<open>Chat\<close>.)
  The store's lock serialises the operations.

  The lemmas show that the log of a session only grows: after any sequence of additions, some
  of which may fail, it holds exactly the messages reported as saved, in order, and the
  agents involved are named once each, without \<open>owner\<close>, \<open>system\<close> and \<open>all\<close>.
\<close>

datatype session_status = SESS_ACTIVE | SESS_CLOSED | SESS_FAILED

datatype msg_type = MSG_TEXT | MSG_THINKING | MSG_TOOL_CALL | MSG_TOOL_RESULT | MSG_DELEGATION

fun status_str :: "session_status \<Rightarrow> string" where
  "status_str SESS_ACTIVE = ''active''"
| "status_str SESS_CLOSED = ''closed''"
| "status_str SESS_FAILED = ''failed''"

fun msgtype_str :: "msg_type \<Rightarrow> string" where
  "msgtype_str MSG_TEXT = ''text''"
| "msgtype_str MSG_THINKING = ''thinking''"
| "msgtype_str MSG_TOOL_CALL = ''tool_call''"
| "msgtype_str MSG_TOOL_RESULT = ''tool_result''"
| "msgtype_str MSG_DELEGATION = ''delegation''"

text \<open>The store is its directory.\<close>

definition session_store_init :: "string \<Rightarrow> string \<times> string list" where
  "session_store_init dir = (buf_set 4096 dir, mkdirs dir)"

definition session_file :: "string \<Rightarrow> string \<Rightarrow> string" where
  "session_file s sid = buf_set 4200 (s @ ''/'' @ sid @ ''.json'')"

definition load_session :: "cjson_api \<Rightarrow> fs \<Rightarrow> string \<Rightarrow> string option \<Rightarrow> cjson option" where
  "load_session J fs s sid =
     (if \<not> given sid then None
      else case file_slurp fs (session_file s (the sid)) of
             Slurped data \<Rightarrow> cJSON_Parse J (cstr data)
           | _ \<Rightarrow> None)"

definition new_session :: "cjson_api \<Rightarrow> string \<Rightarrow> string \<Rightarrow> string \<Rightarrow> string option \<Rightarrow> string \<Rightarrow> cjson" where
  "new_session J sid type title initiator now =
     (let s1 = add_string J ''status'' ''active'' (add_string J ''updated_at'' now (add_string J ''created_at'' now
                 (add_string J ''initiator'' (case initiator of Some i \<Rightarrow> i | None \<Rightarrow> ''system'')
                   (add_string J ''title'' title (add_string J ''trigger_type'' type (add_string J ''id'' sid (CObject [])))))))
      in cJSON_AddItemToObject J (cJSON_AddItemToObject J s1 ''agents_involved'' (CArray [])) ''messages'' (CArray []))"

definition session_create :: "cjson_api \<Rightarrow> wenv \<Rightarrow> string \<Rightarrow> string \<Rightarrow> string \<Rightarrow> string \<Rightarrow> string \<Rightarrow> string option \<Rightarrow> fs \<Rightarrow> fs \<times> string option" where
  "session_create J e sid now s type title initiator fs =
     (let (fs', rc) = json_save_atomic J e (session_file s sid) (new_session J sid type title initiator now) False fs
      in (fs', if rc \<noteq> 0 then None else Some sid))"

section \<open>Adding a message\<close>

definition session_msg :: "cjson_api \<Rightarrow> string \<Rightarrow> string \<Rightarrow> string \<Rightarrow> string option \<Rightarrow> string \<Rightarrow> msg_type \<Rightarrow> cjson" where
  "session_msg J mid now sender recipient content msg_type =
     add_string J ''timestamp'' now (add_string J ''type'' (msgtype_str msg_type)
       (add_string J ''content'' content (add_string J ''recipient'' (case recipient of Some r \<Rightarrow> r | None \<Rightarrow> [])
         (add_string J ''sender'' sender (add_string J ''id'' mid (CObject []))))))"

text \<open>Changing in place the item that \<open>cJSON_GetObjectItem\<close> returns; a missing item is left missing.\<close>

fun update_ci :: "string \<Rightarrow> (cjson \<Rightarrow> cjson) \<Rightarrow> (string \<times> cjson) list \<Rightarrow> (string \<times> cjson) list" where
  "update_ci k f [] = []"
| "update_ci k f ((k', v) # kvs) = (if strcaseeq k' k then (k', f v) # kvs else (k', v) # update_ci k f kvs)"

definition update_item :: "string \<Rightarrow> (cjson \<Rightarrow> cjson) \<Rightarrow> cjson \<Rightarrow> cjson" where
  "update_item k f obj = (case obj of CObject kvs \<Rightarrow> CObject (update_ci k f kvs) | v \<Rightarrow> v)"

definition ignored :: "string list" where
  "ignored = [''owner'', ''system'', ''all'']"

definition array_items :: "cjson \<Rightarrow> cjson list" where
  "array_items v = (case v of CArray xs \<Rightarrow> xs | CObject kvs \<Rightarrow> map snd kvs | _ \<Rightarrow> [])"

definition involve :: "cjson_api \<Rightarrow> string option \<Rightarrow> cjson \<Rightarrow> cjson" where
  "involve J name agents =
     (if \<not> given name \<or> the name \<in> set ignored \<or> CString (the name) \<in> set (array_items agents) then agents
      else cJSON_AddItemToArray J agents (CString (the name)))"

definition session_add_message :: "cjson_api \<Rightarrow> wenv \<Rightarrow> string \<Rightarrow> string \<Rightarrow> string \<Rightarrow> string option \<Rightarrow> string \<Rightarrow> string option \<Rightarrow>
    string \<Rightarrow> msg_type \<Rightarrow> fs \<Rightarrow> fs \<times> int" where
  "session_add_message J e mid now s sid sender recipient content msg_type fs =
     (case load_session J fs s sid of
        None \<Rightarrow> (fs, -1)
      | Some session \<Rightarrow>
          let msg = session_msg J mid now sender recipient content msg_type;
              s1 = update_item ''messages'' (\<lambda>a. cJSON_AddItemToArray J a msg) session;
              s2 = set_string J ''updated_at'' now s1;
              s3 = update_item ''agents_involved'' (\<lambda>a. involve J recipient (involve J (Some sender) a)) s2
          in json_save_atomic J e (session_file s (the sid)) s3 False fs)"

definition session_set_status :: "cjson_api \<Rightarrow> wenv \<Rightarrow> string \<Rightarrow> string \<Rightarrow> string option \<Rightarrow> session_status \<Rightarrow> fs \<Rightarrow> fs \<times> int" where
  "session_set_status J e now s sid status fs =
     (case load_session J fs s sid of
        None \<Rightarrow> (fs, -1)
      | Some session \<Rightarrow>
          json_save_atomic J e (session_file s (the sid))
            (set_string J ''updated_at'' now (set_string J ''status'' (status_str status) session)) False fs)"

section \<open>The session as a value\<close>

text \<open>
  The shape of a session file: one entry per key, an array of messages and the array of the
  agents involved, who are all the senders and recipients but the ignored ones, once each.
\<close>

definition takes_part :: "cjson_api \<Rightarrow> cjson \<Rightarrow> string \<Rightarrow> bool" where
  "takes_part J msg n \<longleftrightarrow> j_str J msg ''sender'' = Some n \<or> j_str J msg ''recipient'' = Some n"

definition session_ok :: "cjson_api \<Rightarrow> cjson \<Rightarrow> bool" where
  "session_ok J v \<longleftrightarrow>
     (case v of CObject kvs \<Rightarrow> keys_ok kvs \<and> (\<exists>ms as. lookup_ci ''messages'' kvs = Some (CArray ms) \<and>
        lookup_ci ''agents_involved'' kvs = Some (CArray (map CString as)) \<and> distinct as \<and> set as \<inter> set ignored = {} \<and>
        (\<forall>msg n. msg \<in> set ms \<and> takes_part J msg n \<and> n \<noteq> [] \<and> n \<notin> set ignored \<longrightarrow> n \<in> set as)) | _ \<Rightarrow> False)"

definition session_items :: "string \<Rightarrow> cjson \<Rightarrow> cjson list" where
  "session_items k v = (case v of CObject kvs \<Rightarrow> (case lookup_ci k kvs of Some a \<Rightarrow> array_items a | None \<Rightarrow> []) | _ \<Rightarrow> [])"

lemma lookup_update_ci:
  "lookup_ci k' (update_ci k f kvs) = (if strcaseeq k k' then map_option f (lookup_ci k' kvs) else lookup_ci k' kvs)"
proof (induction kvs)
  case (Cons kv kvs)
  obtain a v where kv: "kv = (a, v)" by (cases kv)
  have "strcaseeq a k' = strcaseeq a k" if "strcaseeq k k'" using that by (auto simp: strcaseeq_def)
  moreover have "\<not> strcaseeq a k'" if "\<not> strcaseeq k k'" "strcaseeq a k" using that by (auto simp: strcaseeq_def)
  ultimately show ?case using Cons by (auto simp: kv)
qed simp

lemma keys_update_ci: "map fst (update_ci k f kvs) = map fst kvs"
  by (induction k f kvs rule: update_ci.induct) auto

lemma keys_ok_update_ci: "keys_ok (update_ci k f kvs) = keys_ok kvs"
  using arg_cong [OF keys_update_ci, of "map (map tolower)" k f kvs] by (simp add: keys_ok_def map_map [symmetric] del: map_map)

lemma session_keys_differ [simp]:
  "\<not> strcaseeq ''messages'' ''agents_involved''" "\<not> strcaseeq ''agents_involved'' ''messages''"
  "\<not> strcaseeq ''updated_at'' ''messages''" "\<not> strcaseeq ''updated_at'' ''agents_involved''"
  "\<not> strcaseeq ''status'' ''messages''" "\<not> strcaseeq ''status'' ''agents_involved''"
  "\<not> strcaseeq ''messages'' ''status''" "\<not> strcaseeq ''agents_involved'' ''status''"
  "\<not> strcaseeq ''updated_at'' ''status''"
  by (auto dest: strcaseeq_length)

lemma involve_names:
  assumes "cjson_laws J" "distinct as" "set as \<inter> set ignored = {}"
  shows "\<exists>as'. involve J name (CArray (map CString as)) = CArray (map CString as') \<and> distinct as' \<and>
     set as' \<inter> set ignored = {} \<and> set as \<subseteq> set as' \<and> (given name \<and> the name \<notin> set ignored \<longrightarrow> the name \<in> set as')"
proof (cases "\<not> given name \<or> the name \<in> set ignored \<or> the name \<in> set as")
  case True
  with assms show ?thesis by (intro exI [of _ as]) (auto simp: involve_def array_items_def)
next
  case False
  with assms show ?thesis
    by (intro exI [of _ "as @ [the name]"]) (auto simp: involve_def array_items_def cjson_law(7))
qed

lemma session_msg_object:
  assumes "cjson_laws J"
  shows "session_msg J mid now sender recipient content mt =
     CObject [(''id'', CString mid), (''sender'', CString sender), (''recipient'', CString (case recipient of Some r \<Rightarrow> r | None \<Rightarrow> [])),
       (''content'', CString content), (''type'', CString (msgtype_str mt)), (''timestamp'', CString now)]"
  by (simp add: session_msg_def add_string_def cjson_obj [OF assms])

lemma takes_part_msg:
  assumes "cjson_laws J" "takes_part J (session_msg J mid now sender recipient content mt) n"
  shows "n = sender \<or> Some n = recipient \<or> n = []"
proof -
  have d: "\<not> strcaseeq ''id'' ''sender''" "\<not> strcaseeq ''id'' ''recipient''" "\<not> strcaseeq ''sender'' ''recipient''"
    by (auto dest: strcaseeq_length)
  show ?thesis using assms(2) d
    by (auto simp: takes_part_def session_msg_object [OF assms(1)] j_str_object [OF assms(1)] split: option.splits)
qed

lemma new_session_ok:
  assumes "cjson_laws J"
  shows "session_ok J (new_session J sid type title initiator now)"
    and "session_items ''messages'' (new_session J sid type title initiator now) = []"
    and "j_str J (new_session J sid type title initiator now) ''status'' = Some ''active''"
proof -
  let ?kvs = "[(''id'', CString sid), (''trigger_type'', CString type), (''title'', CString title),
      (''initiator'', CString (case initiator of Some i \<Rightarrow> i | None \<Rightarrow> ''system'')), (''created_at'', CString now),
      (''updated_at'', CString now), (''status'', CString ''active''), (''agents_involved'', CArray []), (''messages'', CArray [])]"
  have n: "new_session J sid type title initiator now = CObject ?kvs"
    by (simp add: new_session_def add_string_def cjson_obj [OF assms])
  have "keys_ok ?kvs" unfolding keys_ok_def by simp code_simp
  moreover have "lookup_ci ''messages'' ?kvs = Some (CArray [])" "lookup_ci ''agents_involved'' ?kvs = Some (CArray [])"
    "lookup_ci ''status'' ?kvs = Some (CString ''active'')"
    by (auto dest: strcaseeq_length)
  ultimately show "session_ok J (new_session J sid type title initiator now)"
    "session_items ''messages'' (new_session J sid type title initiator now) = []"
    "j_str J (new_session J sid type title initiator now) ''status'' = Some ''active''"
    unfolding n by (simp_all add: session_ok_def session_items_def array_items_def j_str_object [OF assms])
qed

lemma session_saved:
  assumes "cjson_laws J" "json_save_atomic J e (session_file s sid) v False fs = (fs', 0)" "sid \<noteq> []"
  shows "load_session J fs' s (Some sid) = Some v"
proof -
  obtain json where j: "cJSON_PrintUnformatted J v = Some json" "atomic_write e (session_file s sid) json fs = (fs', 0)"
    using assms(2) by (auto simp: json_save_atomic_def split: option.splits)
  have "cJSON_Parse J json = Some v" "NUL \<notin> set json" using cjson_law(2,8) [OF assms(1)] j(1) by blast+
  with atomic_write_ok [OF j(2)] assms(3) show ?thesis by (simp add: load_session_def given_def file_slurp_def)
qed

lemma set_string_session:
  assumes "cjson_laws J" "session_ok J v" "\<not> strcaseeq k ''messages''" "\<not> strcaseeq k ''agents_involved''"
  shows "session_ok J (set_string J k w v)"
    and "session_items ''messages'' (set_string J k w v) = session_items ''messages'' v"
    and "session_items ''agents_involved'' (set_string J k w v) = session_items ''agents_involved'' v"
proof -
  obtain kvs where v: "v = CObject kvs" "keys_ok kvs" using assms(2) by (auto simp: session_ok_def split: cjson.splits)
  have u: "set_string J k w (CObject kvs) = CObject (delete_ci k kvs @ [(k, CString w)])"
    using v by (simp add: set_string_def add_string_def cjson_obj [OF assms(1)])
  have "lookup_ci ''messages'' (delete_ci k kvs @ [(k, CString w)]) = lookup_ci ''messages'' kvs"
    "lookup_ci ''agents_involved'' (delete_ci k kvs @ [(k, CString w)]) = lookup_ci ''agents_involved'' kvs"
    using v(2) assms(3,4) by (simp_all add: lookup_ci_set)
  then show "session_ok J (set_string J k w v)" "session_items ''messages'' (set_string J k w v) = session_items ''messages'' v"
    "session_items ''agents_involved'' (set_string J k w v) = session_items ''agents_involved'' v"
    using assms(2) keys_ok_set [OF v(2)] unfolding v(1) u by (simp_all add: session_ok_def session_items_def)
qed

text \<open>What \<open>session_add_message\<close> does to the session in memory.\<close>

definition with_message :: "cjson_api \<Rightarrow> string \<Rightarrow> cjson \<Rightarrow> string \<Rightarrow> string option \<Rightarrow> cjson \<Rightarrow> cjson" where
  "with_message J now msg sender recipient v =
     update_item ''agents_involved'' (\<lambda>a. involve J recipient (involve J (Some sender) a))
       (set_string J ''updated_at'' now (update_item ''messages'' (\<lambda>a. cJSON_AddItemToArray J a msg) v))"

lemma involve_two:
  assumes "cjson_laws J" "distinct as" "set as \<inter> set ignored = {}"
  obtains as' where "involve J recipient (involve J (Some sender) (CArray (map CString as))) = CArray (map CString as')"
    "distinct as'" "set as' \<inter> set ignored = {}" "set as \<subseteq> set as'"
    "\<And>n. Some n = recipient \<or> n = sender \<Longrightarrow> n \<noteq> [] \<Longrightarrow> n \<notin> set ignored \<Longrightarrow> n \<in> set as'"
proof -
  obtain as1 where a1: "involve J (Some sender) (CArray (map CString as)) = CArray (map CString as1)" "distinct as1"
    "set as1 \<inter> set ignored = {}" "set as \<subseteq> set as1" "given (Some sender) \<and> sender \<notin> set ignored \<longrightarrow> sender \<in> set as1"
    using involve_names [OF assms, of "Some sender"] by auto
  obtain as2 where a2: "involve J recipient (CArray (map CString as1)) = CArray (map CString as2)" "distinct as2"
    "set as2 \<inter> set ignored = {}" "set as1 \<subseteq> set as2" "given recipient \<and> the recipient \<notin> set ignored \<longrightarrow> the recipient \<in> set as2"
    using involve_names [OF assms(1) a1(2,3), of recipient] by auto
  show ?thesis
    by (rule that [of as2]) (use a1 a2 in \<open>auto simp: given_def\<close>)
qed

lemma with_message_ok:
  assumes "cjson_laws J" "session_ok J v" "msg = session_msg J mid now sender recipient content mt"
  shows "session_ok J (with_message J now msg sender recipient v) \<and>
     session_items ''messages'' (with_message J now msg sender recipient v) = session_items ''messages'' v @ [msg]"
proof -
  obtain kvs ms as where v: "v = CObject kvs" "keys_ok kvs" "lookup_ci ''messages'' kvs = Some (CArray ms)"
    "lookup_ci ''agents_involved'' kvs = Some (CArray (map CString as))" "distinct as" "set as \<inter> set ignored = {}"
    "\<And>msg n. msg \<in> set ms \<Longrightarrow> takes_part J msg n \<Longrightarrow> n \<noteq> [] \<Longrightarrow> n \<notin> set ignored \<Longrightarrow> n \<in> set as"
    using assms(2) by (auto simp: session_ok_def split: cjson.splits)
  obtain as' where as': "involve J recipient (involve J (Some sender) (CArray (map CString as))) = CArray (map CString as')"
    "distinct as'" "set as' \<inter> set ignored = {}" "set as \<subseteq> set as'"
    "\<And>n. Some n = recipient \<or> n = sender \<Longrightarrow> n \<noteq> [] \<Longrightarrow> n \<notin> set ignored \<Longrightarrow> n \<in> set as'"
    using involve_two [OF assms(1) v(5,6)] by metis
  let ?k1 = "update_ci ''messages'' (\<lambda>a. cJSON_AddItemToArray J a msg) kvs"
  let ?k2 = "delete_ci ''updated_at'' ?k1 @ [(''updated_at'', CString now)]"
  let ?k3 = "update_ci ''agents_involved'' (\<lambda>a. involve J recipient (involve J (Some sender) a)) ?k2"
  have w: "with_message J now msg sender recipient v = CObject ?k3"
    by (simp add: with_message_def update_item_def v(1) set_string_def add_string_def cjson_obj [OF assms(1)])
  have k: "keys_ok ?k1" "keys_ok ?k3" using v(2) by (simp_all add: keys_ok_update_ci keys_ok_set)
  have l: "lookup_ci ''messages'' ?k3 = Some (CArray (ms @ [msg]))" "lookup_ci ''agents_involved'' ?k3 = Some (CArray (map CString as'))"
    using v(3,4) as'(1) by (simp_all add: lookup_update_ci lookup_ci_set [OF k(1)] cjson_law(7) [OF assms(1)])
  have "n \<in> set as'" if "m \<in> set (ms @ [msg])" "takes_part J m n" "n \<noteq> []" "n \<notin> set ignored" for m n
    using that v(7) as'(4,5) takes_part_msg [OF assms(1), of mid now sender recipient content mt n] unfolding assms(3) by auto
  with k(2) l as'(2,3) have "session_ok J (CObject ?k3)" unfolding session_ok_def by auto
  with l(1) v(1,3) show ?thesis unfolding w by (simp add: session_items_def array_items_def)
qed

section \<open>The log of a session as a growing store\<close>

record session_event =
  ev_write :: wenv
  ev_mid :: string
  ev_now :: string
  ev_sender :: string
  ev_recipient :: "string option"
  ev_content :: string
  ev_type :: msg_type

definition event_msg :: "cjson_api \<Rightarrow> session_event \<Rightarrow> cjson" where
  "event_msg J ev = session_msg J (ev_mid ev) (ev_now ev) (ev_sender ev) (ev_recipient ev) (ev_content ev) (ev_type ev)"

definition session_add :: "cjson_api \<Rightarrow> string \<Rightarrow> string \<Rightarrow> session_event \<Rightarrow> fs \<Rightarrow> fs \<times> bool" where
  "session_add J s sid ev fs =
     (let (fs', rc) = session_add_message J (ev_write ev) (ev_mid ev) (ev_now ev) s (Some sid) (ev_sender ev) (ev_recipient ev)
            (ev_content ev) (ev_type ev) fs
      in (fs', rc = 0))"

definition session_log :: "cjson_api \<Rightarrow> string \<Rightarrow> string \<Rightarrow> fs \<Rightarrow> cjson list" where
  "session_log J s sid fs = (case load_session J fs s (Some sid) of Some v \<Rightarrow> session_items ''messages'' v | None \<Rightarrow> [])"

definition session_wf :: "cjson_api \<Rightarrow> string \<Rightarrow> string \<Rightarrow> fs \<Rightarrow> bool" where
  "session_wf J s sid fs \<longleftrightarrow> cjson_laws J \<and> sid \<noteq> [] \<and>
     (case load_session J fs s (Some sid) of Some v \<Rightarrow> session_ok J v | None \<Rightarrow> False)"

lemma session_add_message_with:
  "session_add_message J e mid now s sid sender recipient content mt fs =
     (case load_session J fs s sid of None \<Rightarrow> (fs, -1)
      | Some v \<Rightarrow> json_save_atomic J e (session_file s (the sid))
          (with_message J now (session_msg J mid now sender recipient content mt) sender recipient v) False fs)"
  by (simp add: session_add_message_def with_message_def Let_def split: option.split)

interpretation slog: append_store "session_add J s sid" "event_msg J" "session_log J s sid" "session_wf J s sid"
  for J s sid
proof
  fix ev fs fs'
  assume wf: "session_wf J s sid fs" and a: "session_add J s sid ev fs = (fs', True)"
  then obtain v where v: "load_session J fs s (Some sid) = Some v" "session_ok J v" "cjson_laws J" "sid \<noteq> []"
    by (auto simp: session_wf_def split: option.splits)
  let ?w = "with_message J (ev_now ev) (event_msg J ev) (ev_sender ev) (ev_recipient ev) v"
  have "json_save_atomic J (ev_write ev) (session_file s sid) ?w False fs = (fs', 0)"
    using a v(1) by (auto simp: session_add_def session_add_message_with event_msg_def split: prod.splits)
  from session_saved [OF v(3) this v(4)] with_message_ok [OF v(3,2) event_msg_def] v
  show "session_wf J s sid fs' \<and> session_log J s sid fs' = session_log J s sid fs @ [event_msg J ev]"
    by (simp add: session_wf_def session_log_def)
next
  fix ev fs fs'
  assume "session_add J s sid ev fs = (fs', False)"
  then show "fs' = fs"
    by (auto simp: session_add_def session_add_message_with split: prod.splits option.splits dest: json_save_fail)
qed

section \<open>Properties\<close>

definition sess_sample0 :: cjson where
  "sess_sample0 = new_session (table_cjson []) ''s1'' ''owner'' ''t'' None ''now''"

definition sess_event :: session_event where
  "sess_event = \<lparr>ev_write = sample_wenv, ev_mid = ''m1'', ev_now = ''now'', ev_sender = ''owner'', ev_recipient = Some ''bob'',
     ev_content = ''hi'', ev_type = MSG_TEXT\<rparr>"

definition sess_sample1 :: cjson where
  "sess_sample1 = with_message (table_cjson []) ''now'' (event_msg (table_cjson []) sess_event) ''owner'' (Some ''bob'') sess_sample0"

definition sess_sample2 :: cjson where
  "sess_sample2 = set_string (table_cjson []) ''updated_at'' ''now'' (set_string (table_cjson []) ''status'' ''closed'' sess_sample0)"

definition sess_cjson :: cjson_api where
  "sess_cjson = table_cjson [(sess_sample0, ''zero''), (sess_sample1, ''one''), (sess_sample2, ''two'')]"

lemma sess_cjson_laws: "cjson_laws sess_cjson"
  unfolding sess_cjson_def by (rule table_cjson_laws) simp_all

lemma sess_ops:
  "cJSON_AddItemToObject sess_cjson = cJSON_AddItemToObject (table_cjson [])"
  "cJSON_DeleteItemFromObject sess_cjson = cJSON_DeleteItemFromObject (table_cjson [])"
  "cJSON_AddItemToArray sess_cjson = cJSON_AddItemToArray (table_cjson [])"
  by (simp_all add: sess_cjson_def table_cjson_def)

lemmas sess_build = new_session_def with_message_def event_msg_def session_msg_def set_string_def add_string_def involve_def sess_ops

lemma sess_print:
  "cJSON_PrintUnformatted sess_cjson sess_sample0 = Some ''zero''" "cJSON_PrintUnformatted sess_cjson sess_sample1 = Some ''one''"
  "cJSON_PrintUnformatted sess_cjson sess_sample2 = Some ''two''"
  by code_simp+

lemma sess_sample0: "new_session sess_cjson ''s1'' ''owner'' ''t'' None ''now'' = sess_sample0"
  by (simp only: sess_sample0_def sess_build)

lemma sess_paths: "tmp_name sample_wenv ''d/s1.json'' = ''d/s1.json.tmp.1.0''" "session_file ''d'' ''s1'' = ''d/s1.json''"
  by code_simp+

text \<open>
  (C34) A session file keeps the shape of a session and its log only grows: after it is created and after
  any sequence of \<open>session_add_message\<close> calls, some of which may fail, the file holds exactly the
  messages reported as saved, in order, and lists everybody who sent or received one (but
  \<open>owner\<close>, \<open>system\<close> and \<open>all\<close>) once.
\<close>

theorem session_log_grows:
  assumes "cjson_laws J" "sid \<noteq> []" "session_create J e sid now s type title initiator fs = (fs0, Some sid)"
    "adds (session_add J s sid) evs fs0 = (fs', added)"
  shows "\<exists>v. load_session J fs' s (Some sid) = Some v \<and> session_ok J v \<and> session_items ''messages'' v = map (event_msg J) added"
proof -
  have "json_save_atomic J e (session_file s sid) (new_session J sid type title initiator now) False fs = (fs0, 0)"
    using assms(3) by (auto simp: session_create_def Let_def split: prod.splits if_splits)
  from session_saved [OF assms(1) this assms(2)]
  have "session_wf J s sid fs0" "session_log J s sid fs0 = []"
    using new_session_ok [OF assms(1)] assms(1,2) by (simp_all add: session_wf_def session_log_def)
  with slog.adds_items [OF _ assms(4)] show ?thesis
    by (auto simp: session_wf_def session_log_def split: option.splits)
qed

theorem session_log_grows_witness:
  "\<exists>fs0 fs' v. session_create sess_cjson sample_wenv ''s1'' ''now'' ''d'' ''owner'' ''t'' None Map.empty = (fs0, Some ''s1'') \<and>
     adds (session_add sess_cjson ''d'' ''s1'') [sess_event] fs0 = (fs', [sess_event]) \<and>
     load_session sess_cjson fs' ''d'' (Some ''s1'') = Some v \<and> session_items ''messages'' v = [event_msg sess_cjson sess_event]"
proof -
  note n0 = sess_sample0 and p = sess_print and tmp = sess_paths(1) and f = sess_paths(2)
  have n1: "with_message sess_cjson ''now'' (event_msg sess_cjson sess_event) ''owner'' (Some ''bob'') sess_sample0 = sess_sample1"
    by (simp only: sess_sample1_def sess_build)
  obtain fs0 where c: "session_create sess_cjson sample_wenv ''s1'' ''now'' ''d'' ''owner'' ''t'' None Map.empty = (fs0, Some ''s1'')"
    and s0: "json_save_atomic sess_cjson sample_wenv ''d/s1.json'' sess_sample0 False Map.empty = (fs0, 0)"
    and fs0: "fs0 ''d/s1.json.tmp.1.0'' = None"
    by (auto simp: session_create_def json_save_atomic_def n0 p f sample_write tmp)
  have l: "load_session sess_cjson fs0 ''d'' (Some ''s1'') = Some sess_sample0"
    using session_saved [OF sess_cjson_laws, of sample_wenv "''d''" "''s1''" sess_sample0 Map.empty fs0] s0 by (simp add: f)
  obtain fs' where a: "adds (session_add sess_cjson ''d'' ''s1'') [sess_event] fs0 = (fs', [sess_event])"
    using fs0 n1
    by (auto simp: session_add_def session_add_message_with l event_msg_def f json_save_atomic_def p sample_write sess_event_def tmp)
  from session_log_grows [OF sess_cjson_laws _ c a] c a show ?thesis by auto
qed

text \<open>
  Closing or failing a session records the status and leaves the messages and the agents involved as
  they are; when the write fails, the file is unchanged.
\<close>

theorem session_set_status_keeps_log:
  assumes "session_wf J s sid fs" "session_set_status J e now s (Some sid) status fs = (fs', rc)"
  shows "if rc = 0
     then \<exists>v v'. load_session J fs s (Some sid) = Some v \<and> load_session J fs' s (Some sid) = Some v' \<and> session_ok J v' \<and>
       j_str J v' ''status'' = Some (status_str status) \<and> session_items ''messages'' v' = session_items ''messages'' v \<and>
       session_items ''agents_involved'' v' = session_items ''agents_involved'' v
     else fs' = fs"
proof -
  obtain v where v: "load_session J fs s (Some sid) = Some v" "session_ok J v" "cjson_laws J" "sid \<noteq> []"
    using assms(1) by (auto simp: session_wf_def split: option.splits)
  let ?v1 = "set_string J ''status'' (status_str status) v"
  let ?v' = "set_string J ''updated_at'' now ?v1"
  have s: "json_save_atomic J e (session_file s sid) ?v' False fs = (fs', rc)"
    using assms(2) v(1) by (simp add: session_set_status_def)
  have "object_ok v" using v(2) by (auto simp: session_ok_def object_ok_def split: cjson.splits)
  note st = set_string_j_str [OF v(3) this, of "''status''" "status_str status"]
  have "j_str J ?v' ''status'' = Some (status_str status)"
    using set_string_j_str(1) [OF v(3) st(2)] st(1) by simp
  moreover note v1 = set_string_session [OF v(3,2), of "''status''" "status_str status", simplified]
  moreover note set_string_session [OF v(3) v1(1), of "''updated_at''" now, simplified]
  ultimately show ?thesis
    using session_saved [OF v(3) _ v(4)] s v(1) json_save_fail [OF s] by auto
qed

theorem session_set_status_keeps_log_witness:
  "\<exists>v'. load_session sess_cjson (fst (session_set_status sess_cjson sample_wenv ''now'' ''d'' (Some ''s1'') SESS_CLOSED
       [''d/s1.json'' \<mapsto> File ''zero''])) ''d'' (Some ''s1'') = Some v' \<and> j_str sess_cjson v' ''status'' = Some ''closed''"
proof -
  let ?fs = "[''d/s1.json'' \<mapsto> File ''zero'']"
  note n0 = sess_sample0 and p = sess_print(3) and tmp = sess_paths(1) and f = sess_paths(2)
  have "cJSON_Parse sess_cjson ''zero'' = Some sess_sample0" by (simp add: sess_cjson_def table_cjson_def)
  then have l: "load_session sess_cjson ?fs ''d'' (Some ''s1'') = Some sess_sample0"
    by (simp add: load_session_def given_def f file_slurp_def)
  have n2: "set_string sess_cjson ''updated_at'' ''now'' (set_string sess_cjson ''status'' ''closed'' sess_sample0) = sess_sample2"
    by (simp only: sess_sample2_def sess_build)
  have wf: "session_wf sess_cjson ''d'' ''s1'' ?fs"
    using new_session_ok(1) [OF sess_cjson_laws, of "''s1''" "''owner''" "''t''" None "''now''"] l sess_cjson_laws
    by (simp add: session_wf_def n0)
  obtain fs' where "session_set_status sess_cjson sample_wenv ''now'' ''d'' (Some ''s1'') SESS_CLOSED ?fs = (fs', 0)"
    by (auto simp: session_set_status_def l n2 p json_save_atomic_def f sample_write tmp)
  with session_set_status_keeps_log [OF wf this] show ?thesis by auto
qed

end
