(* ===== verification/Scheduler.thy ===== *)
theory Scheduler
  imports Cjson "HOL-Library.Multiset"
begin

text \<open>
  \<open>src/scheduler.c\<close>: one-shot and recurring tasks in a JSON file. The clock, the time zone, the
  identifier drawn by \<open>uuid_short\<close> and the file system are arguments; every operation returns
  the file system and the text for the model.

  The lemmas show that times printed by the program parse back, that an accepted time lies in
  the future, that the list is the stable sort by run time, that a file that is not valid is
  never overwritten, that an operation which reports an error changes nothing, and that a task
  marked done is no longer due.
\<close>

definition INTERVALS :: "(string \<times> int) list" where
  "INTERVALS = [(''every_30min'', 1800), (''hourly'', 3600), (''every_6h'', 21600), (''every_12h'', 43200),
                (''daily'', 86400), (''weekly'', 604800)]"

definition TIME_HELP :: string where
  "TIME_HELP = ''Use local time as YYYY-MM-DDTHH:MM:SS, e.g. 2026-01-31T18:30:00''"

definition INTERVAL_HELP :: string where
  "INTERVAL_HELP = ''every_30min, hourly, every_6h, every_12h, daily, weekly''"

definition interval_seconds :: "string option \<Rightarrow> int" where
  "interval_seconds name =
     (if \<not> given name then 0
      else case map_of INTERVALS (the name) of Some s \<Rightarrow> s | None \<Rightarrow> 0)"

section \<open>Times\<close>

fun two_digits :: "string \<Rightarrow> int" where
  "two_digits (a # b # r) =
     (if is_digit a \<and> is_digit b then int (digit_val a) * 10 + int (digit_val b) else -1)"
| "two_digits r = -1"

definition char_at :: "string \<Rightarrow> nat \<Rightarrow> char" where
  "char_at s i = (if i < length s then s ! i else NUL)"

text \<open>The zone after the time: \<open>Z\<close>, an offset, or local time.\<close>

definition parse_zone :: "tzone \<Rightarrow> tm \<Rightarrow> string \<Rightarrow> time" where
  "parse_zone tz t p =
     (if char_at p 0 = CHR ''Z'' \<or> char_at p 0 = CHR ''z'' then timegm t
      else if char_at p 0 = CHR ''+'' \<or> char_at p 0 = CHR ''-'' then
        (let sign = (if char_at p 0 = CHR ''-'' then -1 else 1); oh = two_digits (drop 1 p)
         in if oh < 0 then 0
            else let q = drop 3 p; q' = (if char_at q 0 = CHR '':'' then drop 1 q else q);
                     om = (if two_digits q' \<ge> 0 then two_digits q' else 0)
                 in timegm t - sign * (oh * 3600 + om * 60))
      else mktime tz t)"

definition sched_parse_time :: "tzone \<Rightarrow> string option \<Rightarrow> time" where
  "sched_parse_time tz isop =
     (case isop of None \<Rightarrow> 0 | Some s \<Rightarrow>
       if length s < 4 \<or> \<not> list_all is_digit (take 4 s) then 0
       else let year = int (dec_value 0 (take 4 s)); p = drop 4 s;
                mon = two_digits (drop 1 p); mday = two_digits (drop 4 p);
                hour = two_digits (drop 7 p); mins = two_digits (drop 10 p)
        in if char_at p 0 \<noteq> CHR ''-'' \<or> mon < 0 \<or> char_at p 3 \<noteq> CHR ''-'' \<or> mday < 0
              \<or> (char_at p 6 \<noteq> CHR ''T'' \<and> char_at p 6 \<noteq> SP) \<or> hour < 0 \<or> char_at p 9 \<noteq> CHR '':'' \<or> mins < 0
           then 0
           else let q = drop 12 p; colon = (char_at q 0 = CHR '':'');
                    sec = (if colon then two_digits (drop 1 q) else 0);
                    r = (if colon then drop 3 q else q);
                    r' = (if colon \<and> char_at r 0 = CHR ''.'' then dropWhile is_digit (drop 1 r) else r)
                in if sec < 0 then 0
                   else if mon < 1 \<or> mon > 12 \<or> mday < 1 \<or> mday > 31 \<or> hour > 23 \<or> mins > 59 \<or> sec > 60 then 0
                   else parse_zone tz \<lparr>tm_year = year - 1900, tm_mon = mon - 1, tm_mday = mday,
                                       tm_hour = hour, tm_min = mins, tm_sec = sec\<rparr> r')"

text \<open>\<open>while (t <= now) t += secs\<close>, for a positive step.\<close>

function next_run :: "int \<Rightarrow> time \<Rightarrow> time \<Rightarrow> time" where
  "next_run secs now t = (if secs \<le> 0 \<or> t > now then t else next_run secs now (t + secs))"
  by pat_completeness auto
termination
  by (relation "measure (\<lambda>(secs, now, t). nat (now - t + 1))") auto

declare next_run.simps [simp del]

text \<open>The run time to store, or the error.\<close>

definition check_task :: "tzone \<Rightarrow> time \<Rightarrow> string option \<Rightarrow> string option \<Rightarrow> string + string option" where
  "check_task tz now run_at interval =
     (let t = (if given run_at then sched_parse_time tz run_at else 0)
      in if given run_at \<and> t = 0
         then Inl (''Error: invalid run_at '' @ [CHR 0x27] @ the run_at @ [CHR 0x27] @ ''. '' @ TIME_HELP)
         else if given interval \<and> interval_seconds interval = 0
         then Inl (''Error: invalid interval '' @ [CHR 0x27] @ the interval @ [CHR 0x27] @ ''. Use one of: '' @ INTERVAL_HELP)
         else if t \<noteq> 0 \<and> t \<le> now then
           (if \<not> given interval
            then Inl (''Error: run_at '' @ the run_at @ '' is not in the future (local time is now '' @
                   format_time tz now True 32 @
                   ''). Pick a later time, or do the task now instead of scheduling it.'')
            else Inr (Some (format_time tz (next_run (interval_seconds interval) now t) False 32)))
         else Inr run_at)"

section \<open>The task file\<close>

definition load_tasks :: "cjson_api \<Rightarrow> fs \<Rightarrow> string \<Rightarrow> cjson list option" where
  "load_tasks J fs path = (case json_load J fs path True of Some (CArray xs) \<Rightarrow> Some xs | _ \<Rightarrow> None)"

definition corrupt :: "string \<Rightarrow> string" where
  "corrupt path = ''Error: '' @ path @ '' is not valid JSON: fix or delete it''"

definition scheduler_init :: "string \<Rightarrow> string \<times> string list" where
  "scheduler_init json_path = (buf_set 4096 json_path, mkdirs_for json_path)"

definition new_task :: "cjson_api \<Rightarrow> string \<Rightarrow> string \<Rightarrow> string \<Rightarrow> string option \<Rightarrow> string option \<Rightarrow> string \<Rightarrow> cjson" where
  "new_task J tid run_at desc prompt interval created =
     (let t1 = add_string J ''id'' tid (CObject []);
          t2 = add_string J ''run_at'' run_at t1;
          t3 = add_string J ''description'' desc t2;
          t4 = add_string J ''prompt'' (case prompt of Some p \<Rightarrow> p | None \<Rightarrow> []) t3;
          t5 = (if given interval then add_string J ''recurring'' (the interval) t4
                else cJSON_AddItemToObject J t4 ''recurring'' CNull)
      in add_string J ''created_at'' created t5)"

definition sched_add :: "cjson_api \<Rightarrow> tzone \<Rightarrow> wenv \<Rightarrow> time \<Rightarrow> string \<Rightarrow> string \<Rightarrow> string option \<Rightarrow> string option \<Rightarrow>
    string option \<Rightarrow> string option \<Rightarrow> nat \<Rightarrow> fs \<Rightarrow> fs \<times> string" where
  "sched_add J tz e now tid path run_at desc prompt interval out_sz fs =
     (if \<not> given run_at \<or> \<not> given desc then (fs, buf_set out_sz ''Error: run_at and description are required'')
      else case check_task tz now run_at interval of
             Inl err \<Rightarrow> (fs, buf_set out_sz err)
           | Inr run_at' \<Rightarrow>
               let task = new_task J tid (the run_at') (the desc) prompt interval (now_iso tz now 32)
               in case load_tasks J fs path of
                    None \<Rightarrow> (fs, buf_set out_sz (corrupt path))
                  | Some tasks \<Rightarrow>
                      let (fs', rc) = json_save_atomic J e path (cJSON_AddItemToArray J (CArray tasks) task) True fs
                      in (fs', buf_set out_sz
                            (if rc \<noteq> 0 then ''Error: cannot save the task''
                             else ''Task scheduled (id='' @ tid @ ''): '' @ the desc @ '' at '' @ the run_at' @
                                  (if given interval then '', recurring '' @ the interval else []))))"

text \<open>One step of the insertion sort: later tasks move up, from the end.\<close>

definition run_time :: "cjson_api \<Rightarrow> tzone \<Rightarrow> cjson \<Rightarrow> time" where
  "run_time J tz task = sched_parse_time tz (j_str J task ''run_at'')"

fun insert_from_end :: "('a \<Rightarrow> int) \<Rightarrow> 'a \<Rightarrow> 'a list \<Rightarrow> 'a list" where
  "insert_from_end key x [] = [x]"
| "insert_from_end key x (y # rs) = (if key y > key x then y # insert_from_end key x rs else x # y # rs)"

definition sort_tasks :: "('a \<Rightarrow> int) \<Rightarrow> 'a list \<Rightarrow> 'a list" where
  "sort_tasks key tasks = rev (fold (\<lambda>x rs. insert_from_end key x rs) tasks [])"

definition task_line :: "cjson_api \<Rightarrow> cjson \<Rightarrow> string" where
  "task_line J task =
     ''- ['' @ (case j_str J task ''id'' of Some i \<Rightarrow> i | None \<Rightarrow> ''?'') @ ''] '' @
     (case j_str J task ''description'' of Some d \<Rightarrow> d | None \<Rightarrow> []) @ '', at '' @
     (case j_str J task ''run_at'' of Some r \<Rightarrow> r | None \<Rightarrow> ''?'') @
     (case j_str J task ''recurring'' of Some r \<Rightarrow> '', recurring '' @ r | None \<Rightarrow> []) @ [LF]"

definition sched_list :: "cjson_api \<Rightarrow> tzone \<Rightarrow> string \<Rightarrow> nat \<Rightarrow> fs \<Rightarrow> string" where
  "sched_list J tz path out_sz fs =
     (case load_tasks J fs path of
        None \<Rightarrow> buf_set out_sz (corrupt path)
      | Some tasks \<Rightarrow>
          fold (\<lambda>task out.
                  let out1 = buf_appendf out_sz out (task_line J task)
                  in case j_str J task ''prompt'' of
                       Some p \<Rightarrow> if p \<noteq> [] then buf_appendf out_sz out1 (''  prompt: '' @ take (utf8_prefix p 300) p @ [LF]) else out1
                     | None \<Rightarrow> out1)
            (sort_tasks (run_time J tz) tasks) [])"

text \<open>Position of the task with this id.\<close>

fun find_task :: "cjson_api \<Rightarrow> string \<Rightarrow> cjson list \<Rightarrow> nat option" where
  "find_task J tid [] = None"
| "find_task J tid (task # tasks) =
     (if j_str J task ''id'' = Some tid then Some 0 else map_option Suc (find_task J tid tasks))"

definition update_task :: "cjson_api \<Rightarrow> string option \<Rightarrow> string option \<Rightarrow> string option \<Rightarrow> string option \<Rightarrow> cjson \<Rightarrow> cjson" where
  "update_task J run_at desc prompt interval task =
     (let t1 = (if given run_at then set_string J ''run_at'' (the run_at) task else task);
          t2 = (if given desc then set_string J ''description'' (the desc) t1 else t1);
          t3 = (case prompt of Some p \<Rightarrow> set_string J ''prompt'' p t2 | None \<Rightarrow> t2)
      in case interval of
           None \<Rightarrow> t3
         | Some i \<Rightarrow> let t4 = cJSON_DeleteItemFromObject J t3 ''recurring''
                    in if i \<noteq> [] then add_string J ''recurring'' i t4
                       else cJSON_AddItemToObject J t4 ''recurring'' CNull)"

definition sched_update :: "cjson_api \<Rightarrow> tzone \<Rightarrow> wenv \<Rightarrow> time \<Rightarrow> string \<Rightarrow> string option \<Rightarrow> string option \<Rightarrow> string option \<Rightarrow>
    string option \<Rightarrow> string option \<Rightarrow> nat \<Rightarrow> fs \<Rightarrow> fs \<times> string" where
  "sched_update J tz e now path idp run_at desc prompt interval out_sz fs =
     (if \<not> given idp then (fs, buf_set out_sz ''Error: task_id is required'')
      else case load_tasks J fs path of
             None \<Rightarrow> (fs, buf_set out_sz (corrupt path))
           | Some tasks \<Rightarrow>
               (case find_task J (the idp) tasks of
                  None \<Rightarrow> (fs, buf_set out_sz (''Error: task '' @ the idp @ '' not found.''))
                | Some i \<Rightarrow>
                    (case check_task tz now run_at (if interval \<noteq> None then interval else j_str J (tasks ! i) ''recurring'') of
                       Inl err \<Rightarrow> (fs, buf_set out_sz err)
                     | Inr run_at' \<Rightarrow>
                         let tasks' = tasks[i := update_task J run_at' desc prompt interval (tasks ! i)];
                             (fs', rc) = json_save_atomic J e path (CArray tasks') True fs
                         in (fs', buf_set out_sz (if rc \<noteq> 0 then ''Error: cannot save the task''
                                                  else ''Task '' @ the idp @ '' updated.'')))))"

definition remove_at :: "nat \<Rightarrow> 'a list \<Rightarrow> 'a list" where
  "remove_at i xs = take i xs @ drop (Suc i) xs"

definition sched_cancel :: "cjson_api \<Rightarrow> wenv \<Rightarrow> string \<Rightarrow> string option \<Rightarrow> nat \<Rightarrow> fs \<Rightarrow> fs \<times> string" where
  "sched_cancel J e path idp out_sz fs =
     (if \<not> given idp then (fs, buf_set out_sz ''Error: task_id is required'')
      else case load_tasks J fs path of
             None \<Rightarrow> (fs, buf_set out_sz (corrupt path))
           | Some tasks \<Rightarrow>
               (case find_task J (the idp) tasks of
                  None \<Rightarrow> (fs, buf_set out_sz (''Error: task '' @ the idp @ '' not found.''))
                | Some i \<Rightarrow>
                    let (fs', rc) = json_save_atomic J e path (CArray (remove_at i tasks)) True fs
                    in (fs', buf_set out_sz (if rc \<noteq> 0 then ''Error: cannot save the task list''
                                             else ''Task '' @ the idp @ '' cancelled.''))))"

definition sched_get_due :: "cjson_api \<Rightarrow> tzone \<Rightarrow> time \<Rightarrow> string \<Rightarrow> fs \<Rightarrow> cjson list" where
  "sched_get_due J tz now path fs =
     filter (\<lambda>task. run_time J tz task > 0 \<and> run_time J tz task \<le> now)
       (case load_tasks J fs path of Some tasks \<Rightarrow> tasks | None \<Rightarrow> [])"

definition mark_one :: "cjson_api \<Rightarrow> tzone \<Rightarrow> time \<Rightarrow> cjson \<Rightarrow> cjson list \<Rightarrow> cjson list" where
  "mark_one J tz now idv tasks =
     (case find_task J (case idv of CString s \<Rightarrow> s | _ \<Rightarrow> []) tasks of
        None \<Rightarrow> tasks
      | Some i \<Rightarrow>
          let task = tasks ! i; secs = interval_seconds (j_str J task ''recurring'')
          in if secs \<le> 0 then remove_at i tasks
             else tasks[i := set_string J ''run_at'' (format_time tz (next_run secs now (run_time J tz task)) False 32) task])"

definition sched_mark_done :: "cjson_api \<Rightarrow> tzone \<Rightarrow> wenv \<Rightarrow> time \<Rightarrow> string \<Rightarrow> cjson list \<Rightarrow> fs \<Rightarrow> fs" where
  "sched_mark_done J tz e now path ids fs =
     (case load_tasks J fs path of
        None \<Rightarrow> fs
      | Some tasks \<Rightarrow> fst (json_save_atomic J e path (CArray (fold (mark_one J tz now) ids tasks)) True fs))"

section \<open>Times printed and parsed\<close>

lemma dec_value_zeros: "dec_value 0 (replicate j (CHR ''0'') @ s) = dec_value 0 s"
  by (induction j) (simp_all add: digit_val_def byte_def)

lemma fmt_0d_props:
  assumes "0 \<le> i" "i < 10 ^ w" "0 < w"
  shows "length (fmt_0d w i) = w" "list_all is_digit (fmt_0d w i)" "int (dec_value 0 (fmt_0d w i)) = i"
proof -
  have n: "length (dec_nat (nat i)) \<le> w"
  proof (rule length_dec_nat)
    have "int (nat i) < int (10 ^ w)" using assms by simp
    then show "nat i < 10 ^ w" by (simp only: of_nat_less_iff)
  qed (rule assms(3))
  then show "length (fmt_0d w i) = w" using assms(1) by (simp add: fmt_0d_def dec_pad_def)
  show "list_all is_digit (fmt_0d w i)"
    using assms(1) dec_nat_digits [of "nat i"]
    by (auto simp: fmt_0d_def dec_pad_def list_all_iff is_digit_def byte_def)
  show "int (dec_value 0 (fmt_0d w i)) = i"
    using assms(1) by (simp add: fmt_0d_def dec_pad_def dec_value_zeros dec_value_dec_nat)
qed

lemma fmt_2_two_digits:
  assumes "0 \<le> i" "i < 100"
  obtains a b where "fmt_0d 2 i = [a, b]" "\<And>r. two_digits (a # b # r) = i"
proof -
  note p = fmt_0d_props [of i 2, simplified, OF assms]
  obtain a b where ab: "fmt_0d 2 i = [a, b]" using p(1) by (auto simp: length_Suc_conv numeral_2_eq_2)
  with p(2,3) show ?thesis by (intro that [of a b]) (auto simp: algebra_simps)
qed

lemma parse_format_time:
  assumes "0 \<le> tm_year (gmtime_r t) + 1900" "tm_year (gmtime_r t) + 1900 \<le> 9999"
  shows "sched_parse_time tz (Some (format_time tz' t False 32)) = t"
proof -
  let ?u = "gmtime_r t"
  note f = gmtime_r_fields [of t]
  obtain y1 y2 y3 y4 where y: "fmt_0d 4 (tm_year ?u + 1900) = [y1, y2, y3, y4]"
    using fmt_0d_props(1) [of "tm_year ?u + 1900" 4] assms by (auto simp: length_Suc_conv numeral_eq_Suc)
  have yv: "list_all is_digit [y1, y2, y3, y4]" "int (dec_value 0 [y1, y2, y3, y4]) = tm_year ?u + 1900"
    using fmt_0d_props(2,3) [of "tm_year ?u + 1900" 4] assms by (simp_all only: y) simp_all
  obtain m1 m2 where m: "fmt_0d 2 (tm_mon ?u + 1) = [m1, m2]" "\<And>r. two_digits (m1 # m2 # r) = tm_mon ?u + 1"
    by (rule fmt_2_two_digits [of "tm_mon ?u + 1"]) (use f in auto)
  obtain d1 d2 where d: "fmt_0d 2 (tm_mday ?u) = [d1, d2]" "\<And>r. two_digits (d1 # d2 # r) = tm_mday ?u"
    by (rule fmt_2_two_digits [of "tm_mday ?u"]) (use f in auto)
  obtain h1 h2 where h: "fmt_0d 2 (tm_hour ?u) = [h1, h2]" "\<And>r. two_digits (h1 # h2 # r) = tm_hour ?u"
    by (rule fmt_2_two_digits [of "tm_hour ?u"]) (use f in auto)
  obtain i1 i2 where i: "fmt_0d 2 (tm_min ?u) = [i1, i2]" "\<And>r. two_digits (i1 # i2 # r) = tm_min ?u"
    by (rule fmt_2_two_digits [of "tm_min ?u"]) (use f in auto)
  obtain s1 s2 where s: "fmt_0d 2 (tm_sec ?u) = [s1, s2]" "\<And>r. two_digits (s1 # s2 # r) = tm_sec ?u"
    by (rule fmt_2_two_digits [of "tm_sec ?u"]) (use f in auto)
  have tx: "format_time tz' t False 32 =
      [y1, y2, y3, y4, CHR ''-'', m1, m2, CHR ''-'', d1, d2, CHR ''T'', h1, h2, CHR '':'', i1, i2, CHR '':'', s1, s2, CHR ''Z'']"
    by (simp add: format_time_def Let_def y m(1) d(1) h(1) i(1) s(1))
  have "timegm \<lparr>tm_year = tm_year ?u, tm_mon = tm_mon ?u, tm_mday = tm_mday ?u, tm_hour = tm_hour ?u,
      tm_min = tm_min ?u, tm_sec = tm_sec ?u\<rparr> = t" using timegm_gmtime_r [of t] by (simp add: timegm_def)
  with f yv show ?thesis
    unfolding tx sched_parse_time_def
    by (simp add: Let_def char_at_def m(2) d(2) h(2) i(2) s(2) parse_zone_def del: two_digits.simps)
qed

text \<open>The times with a four-digit year.\<close>

lemma gmtime_year:
  assumes "0 \<le> t" "t < 253402300800"
  shows "0 \<le> tm_year (gmtime_r t) + 1900" "tm_year (gmtime_r t) + 1900 \<le> 9999"
proof -
  define d where "d = t div 86400 + 719162"
  define y where "y = year_of_day d"
  have d: "719162 \<le> d" "d < 3652059"
    using assms by (auto simp: d_def div_less_iff_less_mult pos_imp_zdiv_nonneg_iff)
  have b: "days_before_year y \<le> d" "d < days_before_year (y + 1)"
    using year_of_day_bounds [of d] by (simp_all add: y_def)
  have "tm_year (gmtime_r t) = y - 1900"
    by (simp add: gmtime_r_def Let_def d_def y_def case_prod_unfold Let_def)
  moreover have "0 \<le> y"
  proof (rule ccontr)
    assume "\<not> 0 \<le> y"
    then have "146097 * y + 400 \<le> 400 * 2" by simp
    then have "days_before_year (y + 1) \<le> 2" using days_before_year_upper [of "y + 1"] by simp
    with b d show False by simp
  qed
  moreover have "y \<le> 9999"
  proof (rule ccontr)
    assume "\<not> y \<le> 9999"
    then consider "y = 10000" | "10001 \<le> y" by linarith
    then show False
    proof cases
      case 1
      have "days_before_year 10000 = 3652059" by (simp add: days_before_year_def)
      with 1 b d show False by simp
    next
      case 2
      then have "1460970000 \<le> 146097 * (y - 1)" by simp
      with days_before_year_lower [of y] have "1460969301 \<le> 400 * days_before_year y" by linarith
      with b d show False by simp
    qed
  qed
  ultimately show "0 \<le> tm_year (gmtime_r t) + 1900" "tm_year (gmtime_r t) + 1900 \<le> 9999" by simp_all
qed

lemma next_run_props:
  "0 < secs \<Longrightarrow> now < next_run secs now t \<and> t \<le> next_run secs now t \<and>
     (t \<le> now \<longrightarrow> next_run secs now t \<le> now + secs) \<and> (next_run secs now t - t) mod secs = 0"
proof (induction secs now t rule: next_run.induct)
  case (1 secs now t)
  show ?case
  proof (cases "t > now")
    case True
    then show ?thesis by (simp add: next_run.simps)
  next
    case False
    then have eq: "next_run secs now t = next_run secs now (t + secs)"
      using 1(2) by (subst next_run.simps) simp
    have IH: "now < next_run secs now (t + secs) \<and> t + secs \<le> next_run secs now (t + secs) \<and>
       (t + secs \<le> now \<longrightarrow> next_run secs now (t + secs) \<le> now + secs) \<and> (next_run secs now (t + secs) - (t + secs)) mod secs = 0"
      using 1 False by simp
    moreover have "next_run secs now (t + secs) = t + secs" if "now < t + secs"
      using that by (simp add: next_run.simps)
    moreover have "(next_run secs now (t + secs) - t) mod secs = (next_run secs now (t + secs) - (t + secs)) mod secs"
      by (metis diff_diff_eq minus_mod_self2)
    ultimately show ?thesis unfolding eq using False 1(2) by (cases "now < t + secs") auto
  qed
qed

lemma interval_seconds_range: "0 \<le> interval_seconds i \<and> interval_seconds i \<le> 604800"
  by (auto simp: interval_seconds_def INTERVALS_def split: option.splits)

section \<open>The sort\<close>

lemma mset_insert_from_end: "mset (insert_from_end key x rs) = add_mset x (mset rs)"
  by (induction rs) auto

lemma filter_insert_from_end:
  "filter (\<lambda>y. key y = k) (rev (insert_from_end key x rs)) =
     filter (\<lambda>y. key y = k) (rev rs) @ (if key x = k then [x] else [])"
  by (induction rs) auto

lemma sorted_insert_from_end:
  "sorted_wrt (\<lambda>a b. key b \<le> key a) rs \<Longrightarrow> sorted_wrt (\<lambda>a b. key b \<le> key a) (insert_from_end key x rs)"
proof (induction rs)
  case (Cons y rs)
  have "set (insert_from_end key x rs) = insert x (set rs)"
    using mset_insert_from_end [of key x rs] by (metis set_mset_add_mset_insert set_mset_mset)
  with Cons show ?case by fastforce
qed simp

lemma sort_tasks_fold:
  fixes key :: "'a \<Rightarrow> int"
  shows "sorted_wrt (\<lambda>a b. key b \<le> key a) rs \<Longrightarrow>
     (let r = fold (insert_from_end key) xs rs
      in sorted_wrt (\<lambda>a b. key b \<le> key a) r \<and> mset r = mset rs + mset xs \<and>
         filter (\<lambda>y. key y = k) (rev r) = filter (\<lambda>y. key y = k) (rev rs) @ filter (\<lambda>y. key y = k) xs)"
proof (induction xs arbitrary: rs)
  case (Cons x xs)
  from Cons.IH [OF sorted_insert_from_end [OF Cons.prems], of x] show ?case
    by (simp add: Let_def mset_insert_from_end filter_insert_from_end)
qed simp

lemma sort_tasks_sort_key: "sort_tasks key xs = sort_key key xs"
proof -
  let ?r = "fold (insert_from_end key) xs []"
  note p = sort_tasks_fold [of key "[]" xs, unfolded Let_def]
  have "sort_key key xs = rev ?r"
  proof (rule properties_for_sort_key)
    show "mset (rev ?r) = mset xs" using p by simp
    show "filter (\<lambda>x. key k = key x) (rev ?r) = filter (\<lambda>x. key k = key x) xs" if "k \<in> set (rev ?r)" for k
      using p [of "key k"] by (simp add: eq_commute)
    show "sorted (map key (rev ?r))"
      using p by (simp add: sorted_map sorted_wrt_rev)
  qed
  then show ?thesis by (simp add: sort_tasks_def)
qed

section \<open>Finding and updating tasks\<close>

lemma find_task_Some:
  "find_task J tid tasks = Some i \<Longrightarrow>
     i < length tasks \<and> j_str J (tasks ! i) ''id'' = Some tid \<and> (\<forall>j<i. j_str J (tasks ! j) ''id'' \<noteq> Some tid)"
  by (induction tasks arbitrary: i) (auto split: if_splits simp: less_Suc_eq_0_disj)

lemma find_task_None: "find_task J tid tasks = None \<longleftrightarrow> (\<forall>task \<in> set tasks. j_str J task ''id'' \<noteq> Some tid)"
  by (induction tasks) auto

lemma new_task_object:
  assumes "cjson_laws J"
  shows "new_task J tid run_at desc prompt interval created =
     CObject [(''id'', CString tid), (''run_at'', CString run_at), (''description'', CString desc),
       (''prompt'', CString (case prompt of Some p \<Rightarrow> p | None \<Rightarrow> [])),
       (''recurring'', if given interval then CString (the interval) else CNull), (''created_at'', CString created)]"
  by (simp add: new_task_def Let_def add_string_def cjson_obj [OF assms])

lemma task_keys_differ: "\<not> strcaseeq ''run_at'' ''id''" "\<not> strcaseeq ''run_at'' ''recurring''"
  by (auto dest: strcaseeq_length)

text \<open>A task as the tools and the daemon read it: its id, time, description, prompt and interval.\<close>

definition task_fields :: "cjson_api \<Rightarrow> cjson \<Rightarrow> string option list" where
  "task_fields J t = map (j_str J t) [''id'', ''run_at'', ''description'', ''prompt'', ''recurring'']"

lemma task_keys_distinct:
  "\<not> strcaseeq ''id'' ''run_at''" "\<not> strcaseeq ''id'' ''description''" "\<not> strcaseeq ''id'' ''prompt''" "\<not> strcaseeq ''id'' ''recurring''"
  "\<not> strcaseeq ''run_at'' ''id''" "\<not> strcaseeq ''run_at'' ''description''" "\<not> strcaseeq ''run_at'' ''prompt''" "\<not> strcaseeq ''run_at'' ''recurring''"
  "\<not> strcaseeq ''description'' ''id''" "\<not> strcaseeq ''description'' ''run_at''" "\<not> strcaseeq ''description'' ''prompt''" "\<not> strcaseeq ''description'' ''recurring''"
  "\<not> strcaseeq ''prompt'' ''id''" "\<not> strcaseeq ''prompt'' ''run_at''" "\<not> strcaseeq ''prompt'' ''description''" "\<not> strcaseeq ''prompt'' ''recurring''"
  "\<not> strcaseeq ''recurring'' ''id''" "\<not> strcaseeq ''recurring'' ''run_at''" "\<not> strcaseeq ''recurring'' ''description''" "\<not> strcaseeq ''recurring'' ''prompt''"
  by (code_simp+)

lemma new_task_fields:
  assumes "cjson_laws J"
  shows "task_fields J (new_task J tid r desc prompt interval created) =
     [Some tid, Some r, Some desc, Some (case prompt of Some p \<Rightarrow> p | None \<Rightarrow> []), if given interval then interval else None]"
  by (cases interval)
     (simp_all add: task_fields_def new_task_object [OF assms] j_str_object [OF assms] task_keys_distinct given_def)

lemma update_task_fields:
  assumes "cjson_laws J" "object_ok t"
  shows "task_fields J (update_task J r desc prompt interval t) =
     [j_str J t ''id'', if given r then r else j_str J t ''run_at'', if given desc then desc else j_str J t ''description'',
      if prompt \<noteq> None then prompt else j_str J t ''prompt'',
      case interval of None \<Rightarrow> j_str J t ''recurring'' | Some i \<Rightarrow> if i = [] then None else Some i]"
proof -
  define t1 where "t1 = (if given r then set_string J ''run_at'' (the r) t else t)"
  define t2 where "t2 = (if given desc then set_string J ''description'' (the desc) t1 else t1)"
  define t3 where "t3 = (case prompt of Some p \<Rightarrow> set_string J ''prompt'' p t2 | None \<Rightarrow> t2)"
  note s = set_string_j_str [OF assms(1)] given_def
  have 1: "object_ok t1" "j_str J t1 k = (if given r \<and> strcaseeq ''run_at'' k then r else j_str J t k)" for k
    using assms(2) by (auto simp: t1_def s)
  have 2: "object_ok t2" "j_str J t2 k = (if given desc \<and> strcaseeq ''description'' k then desc else j_str J t1 k)" for k
    using 1(1) by (auto simp: t2_def s)
  have 3: "object_ok t3" "j_str J t3 k = (if prompt \<noteq> None \<and> strcaseeq ''prompt'' k then prompt else j_str J t2 k)" for k
    using 2(1) by (auto simp: t3_def s split: option.split)
  have "update_task J r desc prompt interval t = (case interval of None \<Rightarrow> t3 | Some i \<Rightarrow>
      if i \<noteq> [] then set_string J ''recurring'' i t3
      else cJSON_AddItemToObject J (cJSON_DeleteItemFromObject J t3 ''recurring'') ''recurring'' CNull)"
    by (simp add: update_task_def Let_def t1_def t2_def t3_def set_string_def split: option.split)
  then show ?thesis
    using 3(1) by (cases interval) (simp_all add: task_fields_def 1 2 3 s set_null_j_str [OF assms(1)] task_keys_distinct)
qed

section \<open>Tasks done\<close>

definition done_task :: "cjson_api \<Rightarrow> tzone \<Rightarrow> time \<Rightarrow> cjson \<Rightarrow> cjson list" where
  "done_task J tz now task =
     (let secs = interval_seconds (j_str J task ''recurring'')
      in if secs \<le> 0 then []
         else [set_string J ''run_at'' (format_time tz (next_run secs now (run_time J tz task)) False 32) task])"

definition done_tasks :: "cjson_api \<Rightarrow> tzone \<Rightarrow> time \<Rightarrow> string set \<Rightarrow> cjson list \<Rightarrow> cjson list" where
  "done_tasks J tz now ids tasks =
     concat (map (\<lambda>task. if (\<exists>i \<in> ids. j_str J task ''id'' = Some i) then done_task J tz now task else [task]) tasks)"

definition task_ids :: "cjson_api \<Rightarrow> cjson list \<Rightarrow> string option list" where
  "task_ids J tasks = map (\<lambda>task. j_str J task ''id'') tasks"

lemma done_tasks_id: "\<forall>task \<in> set tasks. j_str J task ''id'' \<notin> Some ` ids \<Longrightarrow> done_tasks J tz now ids tasks = tasks"
proof (induction tasks)
  case (Cons task tasks)
  then have "\<not> (\<exists>i \<in> ids. j_str J task ''id'' = Some i)" by auto
  with Cons show ?case by (simp add: done_tasks_def)
qed (simp add: done_tasks_def)

lemma mark_one_done:
  assumes "distinct (task_ids J tasks)"
  shows "mark_one J tz now (CString i) tasks = done_tasks J tz now {i} tasks"
proof (cases "find_task J i tasks")
  case None
  then have "done_tasks J tz now {i} tasks = tasks"
    by (intro done_tasks_id) (auto simp: find_task_None)
  with None show ?thesis by (simp add: mark_one_def)
next
  case (Some n)
  note n = find_task_Some [OF Some]
  have split: "tasks = take n tasks @ tasks ! n # drop (Suc n) tasks" using n by (simp add: id_take_nth_drop)
  have "Some i \<notin> set (task_ids J (take n tasks))" "Some i \<notin> set (task_ids J (drop (Suc n) tasks))"
  proof -
    have "distinct (task_ids J (take n tasks) @ Some i # task_ids J (drop (Suc n) tasks))"
      using assms n by (subst (asm) split) (simp add: task_ids_def)
    then show "Some i \<notin> set (task_ids J (take n tasks))" "Some i \<notin> set (task_ids J (drop (Suc n) tasks))" by auto
  qed
  then have "done_tasks J tz now {i} (take n tasks) = take n tasks"
    "done_tasks J tz now {i} (drop (Suc n) tasks) = drop (Suc n) tasks"
    by (auto intro!: done_tasks_id simp: task_ids_def image_iff)
  then have "done_tasks J tz now {i} (take n tasks @ tasks ! n # drop (Suc n) tasks) =
      take n tasks @ done_task J tz now (tasks ! n) @ drop (Suc n) tasks"
    using n by (simp add: done_tasks_def)
  then have "done_tasks J tz now {i} tasks = take n tasks @ done_task J tz now (tasks ! n) @ drop (Suc n) tasks"
    using split by simp
  with Some n show ?thesis
    by (simp add: mark_one_def done_task_def Let_def remove_at_def upd_conv_take_nth_drop)
qed

lemma done_task_keeps:
  assumes "cjson_laws J" "object_ok task" "t \<in> set (done_task J tz now task)"
  shows "j_str J t ''id'' = j_str J task ''id''" "object_ok t"
  using assms set_string_j_str [OF assms(1,2)] task_keys_differ
  by (auto simp: done_task_def Let_def split: if_splits)

lemma length_done_task: "length (done_task J tz now task) \<le> 1"
  by (simp add: done_task_def Let_def)

lemma done_tasks_keeps:
  assumes "cjson_laws J" "list_all object_ok tasks" "distinct (task_ids J tasks)"
  shows "set (task_ids J (done_tasks J tz now ids tasks)) \<subseteq> set (task_ids J tasks) \<and>
     list_all object_ok (done_tasks J tz now ids tasks) \<and> distinct (task_ids J (done_tasks J tz now ids tasks))"
  using assms(2,3)
proof (induction tasks)
  case (Cons task tasks)
  let ?hd = "if (\<exists>i \<in> ids. j_str J task ''id'' = Some i) then done_task J tz now task else [task]"
  have eq: "done_tasks J tz now ids (task # tasks) = ?hd @ done_tasks J tz now ids tasks"
    by (simp add: done_tasks_def)
  have hd: "\<forall>t \<in> set ?hd. j_str J t ''id'' = j_str J task ''id'' \<and> object_ok t"
    using done_task_keeps [OF assms(1), of task _ tz now] Cons.prems(1) by auto
  have "length ?hd \<le> 1" using length_done_task [of J tz now task] by auto
  then consider "?hd = []" | t where "?hd = [t]" by (cases ?hd) auto
  then show ?case
  proof cases
    case 1
    with Cons eq show ?thesis by (auto simp: task_ids_def)
  next
    case (2 t)
    with Cons eq hd show ?thesis by (auto simp: task_ids_def)
  qed
qed (simp add: done_tasks_def task_ids_def)

lemma done_tasks_compose:
  assumes "cjson_laws J" "list_all object_ok tasks" "i \<notin> L"
  shows "done_tasks J tz now L (done_tasks J tz now {i} tasks) = done_tasks J tz now (insert i L) tasks"
  using assms(2)
proof (induction tasks)
  case (Cons task tasks)
  have app: "done_tasks J tz now K (as @ bs) = done_tasks J tz now K as @ done_tasks J tz now K bs" for K as bs
    by (simp add: done_tasks_def)
  show ?case
  proof (cases "j_str J task ''id'' = Some i")
    case True
    then have "done_tasks J tz now L (done_task J tz now task) = done_task J tz now task"
      using done_task_keeps [OF assms(1)] Cons.prems assms(3) by (intro done_tasks_id) auto
    with True Cons app [of "{i}" "[task]" tasks] app [of "insert i L" "[task]" tasks] app [of L] show ?thesis
      by (simp add: done_tasks_def)
  next
    case False
    with Cons app [of "{i}" "[task]" tasks] app [of "insert i L" "[task]" tasks] app [of L "[task]"] show ?thesis
      by (simp add: done_tasks_def)
  qed
qed (simp add: done_tasks_def)

lemma fold_mark_one:
  assumes "cjson_laws J"
  shows "list_all object_ok tasks \<Longrightarrow> distinct (task_ids J tasks) \<Longrightarrow> distinct L \<Longrightarrow>
     fold (mark_one J tz now) (map CString L) tasks = done_tasks J tz now (set L) tasks"
proof (induction L arbitrary: tasks)
  case Nil
  then show ?case by (simp add: done_tasks_id)
next
  case (Cons i L)
  note k = done_tasks_keeps [OF assms Cons.prems(1,2), of tz now "{i}"]
  have "fold (mark_one J tz now) (map CString (i # L)) tasks =
      fold (mark_one J tz now) (map CString L) (done_tasks J tz now {i} tasks)"
    using Cons.prems by (simp add: mark_one_done)
  also have "\<dots> = done_tasks J tz now (set L) (done_tasks J tz now {i} tasks)"
    using k Cons.prems by (intro Cons.IH) auto
  also have "\<dots> = done_tasks J tz now (set (i # L)) tasks"
    using done_tasks_compose [OF assms Cons.prems(1)] Cons.prems(3) by simp
  finally show ?case .
qed

lemma done_task_future:
  assumes "cjson_laws J" "object_ok task" "run_time J tz task \<le> now" "0 \<le> now" "now + 604800 < 253402300800"
    "t \<in> set (done_task J tz now task)"
  shows "now < run_time J tz t"
proof -
  define secs where "secs = interval_seconds (j_str J task ''recurring'')"
  define nx where "nx = next_run secs now (run_time J tz task)"
  have s: "0 < secs" "t = set_string J ''run_at'' (format_time tz nx False 32) task"
    using assms(6) by (auto simp: done_task_def Let_def secs_def nx_def split: if_splits)
  have "now < nx" "nx \<le> now + secs" using next_run_props [OF s(1), of now "run_time J tz task"] assms(3) by (simp_all add: nx_def)
  moreover have "secs \<le> 604800" using interval_seconds_range by (simp add: secs_def)
  ultimately have "sched_parse_time tz (Some (format_time tz nx False 32)) = nx"
    using assms(4,5) by (intro parse_format_time gmtime_year) linarith+
  with \<open>now < nx\<close> s(2) show ?thesis
    by (simp add: run_time_def set_string_j_str(1) [OF assms(1,2)])
qed

section \<open>Saving\<close>

lemma save_tasks:
  "cjson_laws J \<Longrightarrow> json_save_atomic J e path (CArray xs) True fs = (fs', 0) \<Longrightarrow> load_tasks J fs' path = Some xs"
  by (simp add: load_tasks_def json_load_save)

lemma check_task_future:
  assumes "check_task tz now run_at interval = Inr r" "given run_at" "0 \<le> now" "now + 604800 < 253402300800"
  shows "given r \<and> now < sched_parse_time tz r"
proof -
  let ?t = "sched_parse_time tz run_at"
  show ?thesis
  proof (cases "?t \<le> now")
    case True
    then have i: "given interval" "interval_seconds interval \<noteq> 0" "?t \<noteq> 0"
      and r: "r = Some (format_time tz (next_run (interval_seconds interval) now ?t) False 32)"
      using assms(1,2) by (auto simp: check_task_def Let_def split: if_splits)
    define nx where "nx = next_run (interval_seconds interval) now ?t"
    have s: "0 < interval_seconds interval" "interval_seconds interval \<le> 604800"
      using i(2) interval_seconds_range [of interval] by linarith+
    then have n: "now < nx" "nx \<le> now + 604800"
      using next_run_props [OF s(1), of now ?t] True by (auto simp: nx_def)
    then have "sched_parse_time tz (Some (format_time tz nx False 32)) = nx"
      using assms(3,4) by (intro parse_format_time gmtime_year) linarith+
    moreover from this have "format_time tz nx False 32 \<noteq> []" using n assms(3) by (auto simp: sched_parse_time_def)
    ultimately show ?thesis using n r by (simp add: given_def nx_def)
  next
    case False
    then have "r = run_at"
      using assms(1,2) by (auto simp: check_task_def Let_def split: if_splits)
    with False assms(2) show ?thesis by simp
  qed
qed

lemma task_text: "\<not> starts_with ''Error'' (buf_set sz (''Task'' @ x))"
  by (cases "sz - 1") (auto simp: starts_with_def buf_set_def dest: arg_cong [of _ _ hd])

text \<open>
  What the three changing operations do, in one form: they report an error and leave the
  file alone, or they save a new list of tasks.
\<close>

definition edit_outcome :: "cjson_api \<Rightarrow> wenv \<Rightarrow> string \<Rightarrow> nat \<Rightarrow> fs \<Rightarrow> fs \<times> string \<Rightarrow> (cjson list \<Rightarrow> cjson list \<Rightarrow> bool) \<Rightarrow> bool" where
  "edit_outcome J e path sz fs r rel \<longleftrightarrow>
     (\<exists>x. r = (fs, buf_set sz (''Error'' @ x))) \<or>
     (\<exists>x tasks tasks' fs'. r = (fs', buf_set sz (''Task'' @ x)) \<and> load_tasks J fs path = Some tasks \<and> rel tasks tasks' \<and>
        json_save_atomic J e path (CArray tasks') True fs = (fs', 0))"

lemma edit_outcome_error: "edit_outcome J e path sz fs (fs, buf_set sz (''Error'' @ x)) rel"
  by (auto simp: edit_outcome_def)

lemma edit_outcome_save:
  assumes "load_tasks J fs path = Some tasks" "rel tasks tasks'"
  shows "edit_outcome J e path sz fs
     (let (fs', rc) = json_save_atomic J e path (CArray tasks') True fs
      in (fs', buf_set sz (if rc \<noteq> 0 then ''Error'' @ x else ''Task'' @ y))) rel"
proof -
  obtain fs' rc where s: "json_save_atomic J e path (CArray tasks') True fs = (fs', rc)" by fastforce
  show ?thesis
  proof (cases "rc = 0")
    case True
    with s assms show ?thesis unfolding edit_outcome_def by auto
  next
    case False
    with s json_save_fail [OF s] show ?thesis unfolding edit_outcome_def by auto
  qed
qed

lemma edit_outcome_case:
  assumes "edit_outcome J e path sz fs r rel" "6 \<le> sz" "cjson_laws J"
    "\<And>fs' tasks tasks'. load_tasks J fs path = Some tasks \<Longrightarrow> rel tasks tasks' \<Longrightarrow> load_tasks J fs' path = Some tasks' \<Longrightarrow> P fs'"
  shows "case r of (fs', out) \<Rightarrow> if starts_with ''Error'' out then fs' = fs else P fs'"
  using assms(1) unfolding edit_outcome_def
proof (elim disjE exE conjE)
  fix x assume "r = (fs, buf_set sz (''Error'' @ x))"
  then show ?thesis using error_text [OF assms(2), of x] by simp
next
  fix x tasks tasks' fs'
  assume r: "r = (fs', buf_set sz (''Task'' @ x))" and l: "load_tasks J fs path = Some tasks" "rel tasks tasks'"
    and "json_save_atomic J e path (CArray tasks') True fs = (fs', 0)"
  then have "P fs'" using assms(4) [OF l] save_tasks [OF assms(3)] by blast
  then show ?thesis unfolding r using task_text [of sz x] by simp
qed

lemma check_task_error: "check_task tz now run_at interval = Inl err \<Longrightarrow> \<exists>x. err = ''Error'' @ x"
  by (auto simp: check_task_def Let_def split: if_splits)

lemma check_task_given: "check_task tz now run_at interval = Inr r \<Longrightarrow> given run_at \<Longrightarrow> \<exists>s. r = Some s"
  by (auto simp: check_task_def Let_def given_def split: if_splits)

lemma corrupt_error: "corrupt path = ''Error'' @ '': '' @ path @ '' is not valid JSON: fix or delete it''"
  by (simp add: corrupt_def)

lemma sched_add_outcome:
  assumes "cjson_laws J"
  shows "edit_outcome J e path sz fs (sched_add J tz e now tid path run_at desc prompt interval sz fs)
     (\<lambda>tasks tasks'. \<exists>r. given run_at \<and> given desc \<and> check_task tz now run_at interval = Inr r \<and>
        tasks' = tasks @ [new_task J tid (the r) (the desc) prompt interval (now_iso tz now 32)])"
proof (cases "\<not> given run_at \<or> \<not> given desc")
  case True
  then show ?thesis
    using edit_outcome_error [where x = "'': run_at and description are required''"] by (simp add: sched_add_def)
next
  case False
  show ?thesis
  proof (cases "check_task tz now run_at interval")
    case (Inl err)
    with False check_task_error [OF Inl] show ?thesis
      using edit_outcome_error by (auto simp: sched_add_def)
  next
    case (Inr r)
    show ?thesis
    proof (cases "load_tasks J fs path")
      case None
      with False Inr show ?thesis
        using edit_outcome_error by (simp add: sched_add_def corrupt_error)
    next
      case (Some tasks)
      let ?t = "new_task J tid (the r) (the desc) prompt interval (now_iso tz now 32)"
      have eq: "sched_add J tz e now tid path run_at desc prompt interval sz fs =
          (let (fs', rc) = json_save_atomic J e path (CArray (tasks @ [?t])) True fs
           in (fs', buf_set sz (if rc \<noteq> 0 then ''Error'' @ '': cannot save the task''
                 else ''Task'' @ '' scheduled (id='' @ tid @ ''): '' @ the desc @ '' at '' @ the r @
                      (if given interval then '', recurring '' @ the interval else []))))"
        using False Inr Some by (simp add: sched_add_def cjson_law(7) [OF assms] case_prod_unfold Let_def)
      show ?thesis unfolding eq by (rule edit_outcome_save [OF Some]) (use False Inr in blast)
    qed
  qed
qed

lemma sched_update_outcome:
  "edit_outcome J e path sz fs (sched_update J tz e now path idp run_at desc prompt interval sz fs)
     (\<lambda>tasks tasks'. \<exists>i r. given idp \<and> find_task J (the idp) tasks = Some i \<and>
        check_task tz now run_at (if interval \<noteq> None then interval else j_str J (tasks ! i) ''recurring'') = Inr r \<and>
        tasks' = tasks[i := update_task J r desc prompt interval (tasks ! i)])"
proof (cases "given idp")
  case False
  then show ?thesis
    using edit_outcome_error [where x = "'': task_id is required''"] by (simp add: sched_update_def)
next
  case given: True
  show ?thesis
  proof (cases "load_tasks J fs path")
    case None
    with given show ?thesis
      using edit_outcome_error by (simp add: sched_update_def corrupt_error)
  next
    case (Some tasks)
    show ?thesis
    proof (cases "find_task J (the idp) tasks")
      case None
      with given Some show ?thesis
        using edit_outcome_error [where x = "'': task '' @ the idp @ '' not found.''"] by (simp add: sched_update_def)
    next
      case i: (Some i)
      let ?c = "check_task tz now run_at (if interval \<noteq> None then interval else j_str J (tasks ! i) ''recurring'')"
      show ?thesis
      proof (cases ?c)
        case (Inl err)
        with given Some i check_task_error [OF Inl] show ?thesis
          using edit_outcome_error by (auto simp: sched_update_def)
      next
        case (Inr r)
        let ?ts = "tasks[i := update_task J r desc prompt interval (tasks ! i)]"
        have eq: "sched_update J tz e now path idp run_at desc prompt interval sz fs =
            (let (fs', rc) = json_save_atomic J e path (CArray ?ts) True fs
             in (fs', buf_set sz (if rc \<noteq> 0 then ''Error'' @ '': cannot save the task''
                   else ''Task'' @ '' '' @ the idp @ '' updated.'')))"
          using given Some i Inr by (simp add: sched_update_def case_prod_unfold Let_def)
        show ?thesis unfolding eq by (rule edit_outcome_save [OF Some]) (use given i Inr in blast)
      qed
    qed
  qed
qed

lemma sched_cancel_outcome:
  "edit_outcome J e path sz fs (sched_cancel J e path idp sz fs)
     (\<lambda>tasks tasks'. \<exists>i. given idp \<and> find_task J (the idp) tasks = Some i \<and> tasks' = remove_at i tasks)"
proof (cases "given idp")
  case False
  then show ?thesis
    using edit_outcome_error [where x = "'': task_id is required''"] by (simp add: sched_cancel_def)
next
  case given: True
  show ?thesis
  proof (cases "load_tasks J fs path")
    case None
    with given show ?thesis
      using edit_outcome_error by (simp add: sched_cancel_def corrupt_error)
  next
    case (Some tasks)
    show ?thesis
    proof (cases "find_task J (the idp) tasks")
      case None
      with given Some show ?thesis
        using edit_outcome_error [where x = "'': task '' @ the idp @ '' not found.''"] by (simp add: sched_cancel_def)
    next
      case i: (Some i)
      have eq: "sched_cancel J e path idp sz fs =
          (let (fs', rc) = json_save_atomic J e path (CArray (remove_at i tasks)) True fs
           in (fs', buf_set sz (if rc \<noteq> 0 then ''Error'' @ '': cannot save the task list''
                 else ''Task'' @ '' '' @ the idp @ '' cancelled.'')))"
        using given Some i by (simp add: sched_cancel_def case_prod_unfold Let_def)
      show ?thesis unfolding eq by (rule edit_outcome_save [OF Some]) (use given i in blast)
    qed
  qed
qed

lemma done_tasks_not_due:
  assumes "cjson_laws J" "list_all object_ok tasks" "distinct (task_ids J tasks)" "0 \<le> now" "now + 604800 < 253402300800"
    "map Some L = task_ids J (filter (\<lambda>task. run_time J tz task > 0 \<and> run_time J tz task \<le> now) tasks)"
    "t \<in> set (done_tasks J tz now (set L) tasks)"
  shows "\<not> (run_time J tz t > 0 \<and> run_time J tz t \<le> now)"
proof -
  let ?due = "\<lambda>task. run_time J tz task > 0 \<and> run_time J tz task \<le> now"
  obtain task where task: "task \<in> set tasks"
    "t \<in> set (if \<exists>i \<in> set L. j_str J task ''id'' = Some i then done_task J tz now task else [task])"
    using assms(7) by (auto simp: done_tasks_def)
  have ok: "object_ok task" using task(1) assms(2) by (simp add: list_all_iff)
  have in_L: "(\<exists>i \<in> set L. j_str J task ''id'' = Some i) \<longleftrightarrow> ?due task"
  proof -
    have "(\<exists>i \<in> set L. j_str J task ''id'' = Some i) \<longleftrightarrow> j_str J task ''id'' \<in> set (map Some L)" by auto
    also have "\<dots> \<longleftrightarrow> j_str J task ''id'' \<in> (\<lambda>task. j_str J task ''id'') ` {x \<in> set tasks. ?due x}"
      unfolding assms(6) by (simp add: task_ids_def)
    also have "\<dots> \<longleftrightarrow> task \<in> {x \<in> set tasks. ?due x}"
      using assms(3) task(1) by (intro inj_on_image_mem_iff [of _ "set tasks"]) (auto simp: task_ids_def distinct_map)
    finally show ?thesis using task(1) by simp
  qed
  show ?thesis
  proof (cases "?due task")
    case True
    then have "t \<in> set (done_task J tz now task)" using in_L task(2) by simp
    with done_task_future [OF assms(1) ok _ assms(4,5)] True show ?thesis by fastforce
  next
    case False
    then have "t = task" using task(2) unfolding in_L by (auto split: if_splits)
    with False show ?thesis by simp
  qed
qed

lemmas edit_outcomes = sched_add_outcome sched_update_outcome sched_cancel_outcome

text \<open>A task file with one due one-shot task, for the witnesses.\<close>

definition sample_task :: cjson where
  "sample_task = CObject [(''id'', CString ''t1''), (''run_at'', CString ''1970-01-01T00:01:00Z''),
     (''description'', CString ''d''), (''prompt'', CString []), (''recurring'', CNull), (''created_at'', CString ''c'')]"
definition moved_task :: cjson where
  "moved_task = CObject [(''id'', CString ''t1''), (''description'', CString ''d''), (''prompt'', CString []),
     (''recurring'', CNull), (''created_at'', CString ''c''), (''run_at'', CString ''1970-01-01T00:02:00Z'')]"
definition sample_cjson :: cjson_api where
  "sample_cjson = table_cjson [(CArray [sample_task], ''one''), (CArray [], ''none''), (CArray [moved_task], ''moved'')]"
definition sample_fs :: fs where "sample_fs = [''s'' \<mapsto> File ''one'']"
lemma sample_cjson_laws: "cjson_laws sample_cjson"
  unfolding sample_cjson_def by (rule table_cjson_laws) simp_all

lemma sample_load: "load_tasks sample_cjson sample_fs ''s'' = Some [sample_task]"
  by (simp add: load_tasks_def json_load_def file_slurp_def sample_fs_def sample_cjson_def table_cjson_def)

lemma sample_get: "j_str sample_cjson sample_task ''id'' = Some ''t1''"
    "j_str sample_cjson sample_task ''run_at'' = Some ''1970-01-01T00:01:00Z''"
    "j_str sample_cjson sample_task ''recurring'' = None"
    "j_str sample_cjson sample_task ''description'' = Some ''d''"
    "j_str sample_cjson sample_task ''prompt'' = Some []"
  by (simp_all add: sample_task_def j_str_object [OF sample_cjson_laws] strcaseeq_def tolower_def is_upper_def byte_def)

lemma sample_save: "snd (json_save_atomic sample_cjson sample_wenv ''s'' (CArray []) True sample_fs) = 0"
  by (simp add: sample_cjson_def json_save_atomic_def table_cjson_def atomic_write_def atomic_write_trace_def sample_wenv_def
      sample_fs_def tmp_name_def dec_int_def dec_nat.simps Let_def)

lemma sample_moved:
  "update_task sample_cjson (Some ''1970-01-01T00:02:00Z'') None None None sample_task = moved_task"
  "snd (json_save_atomic sample_cjson sample_wenv ''s'' (CArray [moved_task]) True sample_fs) = 0"
  by (simp_all add: update_task_def set_string_def add_string_def sample_task_def moved_task_def cjson_obj [OF sample_cjson_laws]
      given_def strcaseeq_def tolower_def is_upper_def byte_def)
     (simp add: sample_cjson_def json_save_atomic_def table_cjson_def atomic_write_def atomic_write_trace_def sample_wenv_def
      sample_fs_def sample_task_def moved_task_def tmp_name_def dec_int_def dec_nat.simps Let_def)

lemma sample_task_ok: "object_ok sample_task"
  by code_simp

section \<open>Properties\<close>

text \<open>
  Every time from 1970 to the year 9999 that the program prints in UTC is parsed back to the same
  second, whatever the host's time zone.
\<close>

theorem sched_time_roundtrip:
  assumes "0 \<le> t" "t < 253402300800"
  shows "sched_parse_time tz (Some (format_time tz' t False 32)) = t"
  using parse_format_time gmtime_year assms by blast

theorem sched_time_roundtrip_witness:
  "sched_parse_time utc (Some (format_time utc 1767225599 False 32)) = 1767225599"
  by (rule sched_time_roundtrip) simp_all

text \<open>
  What \<open>check_task\<close> accepts lies in the future: a past one-shot time is refused, and a past
  recurring start is moved to the next point of its own schedule, so no accepted task fires
  at once.
\<close>

theorem check_task_accepts_future:
  assumes "check_task tz now run_at interval = Inr r" "given run_at" "0 \<le> now" "now + 604800 < 253402300800"
  shows "given r \<and> now < sched_parse_time tz r"
  using assms by (rule check_task_future)

theorem check_task_accepts_future_witness:
  "\<exists>r. check_task utc 5000 (Some ''1970-01-01T00:00:10Z'') (Some ''hourly'') = Inr r \<and> 5000 < sched_parse_time utc r"
proof -
  have "check_task utc 5000 (Some ''1970-01-01T00:00:10Z'') (Some ''hourly'') = Inr (Some ''1970-01-01T02:00:10Z'')"
    by code_simp
  with check_task_accepts_future [OF this] show ?thesis by (simp add: given_def)
qed

text \<open>
  The next run of a recurring task is the first point of its schedule after now: it is later than
  now, not later than one interval after now when the task was due, and a whole number of
  intervals after the old time. The loop that finds it always ends.
\<close>

theorem next_run_on_schedule:
  assumes "0 < secs"
  shows "now < next_run secs now t \<and> (t \<le> now \<longrightarrow> next_run secs now t \<le> now + secs) \<and>
     (next_run secs now t - t) mod secs = 0"
  using next_run_props [OF assms] by blast

theorem next_run_on_schedule_witness:
  "(10 :: int) < next_run 3600 10 5 \<and> next_run 3600 10 5 \<le> 10 + 3600 \<and> (next_run 3600 10 5 - 5) mod 3600 = 0"
  using next_run_on_schedule [of 3600 10 5] by simp

text \<open>
  The task list is shown in the stable order of run times: the insertion sort of the code is
  sorting by run time with ties in file order, and no task is lost or repeated.
\<close>

theorem sched_list_sorted:
  "sort_tasks (run_time J tz) tasks = sort_key (run_time J tz) tasks"
  by (rule sort_tasks_sort_key)

text \<open>
  (C36) Adding, changing and cancelling a task is all or nothing: when the answer is an error the file
  system is unchanged; otherwise the time was accepted by \<open>check_task\<close> (for a change, with the
  interval the task will have) and the file holds the old tasks with the new one at the end (add),
  with exactly the named task changed (update) or removed (cancel). The new task reads as the given
  time, description, prompt and interval. The changed task keeps its id and reads as the accepted time, the
  given description, prompt and interval, and as before wherever none is given; an empty interval
  makes it a one-shot task.
\<close>

theorem sched_edits_transactional:
  assumes "cjson_laws J" "6 \<le> sz" "\<forall>tasks. load_tasks J fs path = Some tasks \<longrightarrow> list_all object_ok tasks"
  shows "(case sched_add J tz e now tid path run_at desc prompt interval sz fs of (fs', out) \<Rightarrow>
       if starts_with ''Error'' out then fs' = fs
       else \<exists>tasks r. load_tasks J fs path = Some tasks \<and> check_task tz now run_at interval = Inr (Some r) \<and>
         load_tasks J fs' path = Some (tasks @ [new_task J tid r (the desc) prompt interval (now_iso tz now 32)]) \<and>
         task_fields J (new_task J tid r (the desc) prompt interval (now_iso tz now 32)) =
           [Some tid, Some r, desc, Some (case prompt of Some p \<Rightarrow> p | None \<Rightarrow> []), if given interval then interval else None]) \<and>
     (case sched_update J tz e now path idp run_at desc prompt interval sz fs of (fs', out) \<Rightarrow>
       if starts_with ''Error'' out then fs' = fs
       else \<exists>tasks i r t. load_tasks J fs path = Some tasks \<and> find_task J (the idp) tasks = Some i \<and>
         check_task tz now run_at (if interval \<noteq> None then interval else j_str J (tasks ! i) ''recurring'') = Inr r \<and>
         t = update_task J r desc prompt interval (tasks ! i) \<and> load_tasks J fs' path = Some (tasks[i := t]) \<and>
         task_fields J t = [idp, if given r then r else j_str J (tasks ! i) ''run_at'',
           if given desc then desc else j_str J (tasks ! i) ''description'',
           if prompt \<noteq> None then prompt else j_str J (tasks ! i) ''prompt'',
           case interval of None \<Rightarrow> j_str J (tasks ! i) ''recurring'' | Some v \<Rightarrow> if v = [] then None else Some v]) \<and>
     (case sched_cancel J e path idp sz fs of (fs', out) \<Rightarrow>
       if starts_with ''Error'' out then fs' = fs
       else \<exists>tasks i. load_tasks J fs path = Some tasks \<and> find_task J (the idp) tasks = Some i \<and>
         load_tasks J fs' path = Some (remove_at i tasks))"
proof (intro conjI, goal_cases)
  case 1
  show ?case
  proof (rule edit_outcome_case [OF sched_add_outcome [OF assms(1)] assms(2,1)])
    fix fs' tasks tasks'
    assume l: "load_tasks J fs path = Some tasks" "load_tasks J fs' path = Some tasks'"
      and "\<exists>r. given run_at \<and> given desc \<and> check_task tz now run_at interval = Inr r \<and>
        tasks' = tasks @ [new_task J tid (the r) (the desc) prompt interval (now_iso tz now 32)]"
    then obtain r where r: "given desc" "check_task tz now run_at interval = Inr (Some r)"
        "tasks' = tasks @ [new_task J tid r (the desc) prompt interval (now_iso tz now 32)]"
      using check_task_given by fastforce
    then show "\<exists>tasks r. load_tasks J fs path = Some tasks \<and> check_task tz now run_at interval = Inr (Some r) \<and>
         load_tasks J fs' path = Some (tasks @ [new_task J tid r (the desc) prompt interval (now_iso tz now 32)]) \<and>
         task_fields J (new_task J tid r (the desc) prompt interval (now_iso tz now 32)) =
           [Some tid, Some r, desc, Some (case prompt of Some p \<Rightarrow> p | None \<Rightarrow> []), if given interval then interval else None]"
      using l by (auto simp: new_task_fields [OF assms(1)] given_def)
  qed
next
  case 2
  show ?case
  proof (rule edit_outcome_case [OF sched_update_outcome assms(2,1)])
    fix fs' tasks tasks'
    assume l: "load_tasks J fs path = Some tasks" "load_tasks J fs' path = Some tasks'"
      and "\<exists>i r. given idp \<and> find_task J (the idp) tasks = Some i \<and>
        check_task tz now run_at (if interval \<noteq> None then interval else j_str J (tasks ! i) ''recurring'') = Inr r \<and>
        tasks' = tasks[i := update_task J r desc prompt interval (tasks ! i)]"
    then obtain i r where r: "given idp" "find_task J (the idp) tasks = Some i"
        "check_task tz now run_at (if interval \<noteq> None then interval else j_str J (tasks ! i) ''recurring'') = Inr r"
        "tasks' = tasks[i := update_task J r desc prompt interval (tasks ! i)]" by blast
    have i: "object_ok (tasks ! i)" "j_str J (tasks ! i) ''id'' = idp"
      using find_task_Some [OF r(2)] assms(3) l(1) r(1) by (auto simp: list_all_length given_def)
    show "\<exists>tasks i r t. load_tasks J fs path = Some tasks \<and> find_task J (the idp) tasks = Some i \<and>
         check_task tz now run_at (if interval \<noteq> None then interval else j_str J (tasks ! i) ''recurring'') = Inr r \<and>
         t = update_task J r desc prompt interval (tasks ! i) \<and> load_tasks J fs' path = Some (tasks[i := t]) \<and>
         task_fields J t = [idp, if given r then r else j_str J (tasks ! i) ''run_at'',
           if given desc then desc else j_str J (tasks ! i) ''description'',
           if prompt \<noteq> None then prompt else j_str J (tasks ! i) ''prompt'',
           case interval of None \<Rightarrow> j_str J (tasks ! i) ''recurring'' | Some v \<Rightarrow> if v = [] then None else Some v]"
      using l r update_task_fields [OF assms(1) i(1), of r desc prompt interval] unfolding i(2)
      by (intro exI [of _ tasks] exI [of _ i] exI [of _ r] exI [of _ "update_task J r desc prompt interval (tasks ! i)"]) simp
  qed
next
  case 3
  show ?case
    by (rule edit_outcome_case [OF sched_cancel_outcome assms(2,1)]) blast
qed

text \<open>The witness moves the sample task to another time.\<close>

theorem sched_edits_transactional_witness:
  "\<exists>fs'. sched_update sample_cjson utc sample_wenv 0 ''s'' (Some ''t1'') (Some ''1970-01-01T00:02:00Z'') None None None 64
        sample_fs = (fs', ''Task t1 updated.'') \<and>
     load_tasks sample_cjson fs' ''s'' = Some [moved_task] \<and>
     task_fields sample_cjson moved_task =
       [Some ''t1'', Some ''1970-01-01T00:02:00Z'', Some ''d'', Some [], None]"
proof -
  have f: "find_task sample_cjson ''t1'' [sample_task] = Some 0" by (simp add: sample_get)
  have c: "check_task utc 0 (Some ''1970-01-01T00:02:00Z'') None = Inr (Some ''1970-01-01T00:02:00Z'')" by code_simp
  obtain fs' where js: "json_save_atomic sample_cjson sample_wenv ''s'' (CArray [moved_task]) True sample_fs = (fs', 0)"
    using sample_moved(2) by (metis prod.collapse)
  then have u: "sched_update sample_cjson utc sample_wenv 0 ''s'' (Some ''t1'') (Some ''1970-01-01T00:02:00Z'') None None None 64
      sample_fs = (fs', ''Task t1 updated.'')"
    using f c by (simp add: sched_update_def given_def sample_load sample_get sample_moved(1) del: find_task.simps)
  then show ?thesis
    using sched_edits_transactional [OF sample_cjson_laws, where sz = 64 and e = sample_wenv and path = "''s''" and
        fs = sample_fs and idp = "Some ''t1''" and tz = utc and now = 0 and tid = "''t2''" and
        run_at = "Some ''1970-01-01T00:02:00Z''" and desc = None and prompt = None and interval = None] f c
    by (auto simp: starts_with_def sample_load sample_get sample_moved(1) sample_task_ok given_def simp del: find_task.simps)
qed

text \<open>
  A task file that is not valid JSON, or cannot be read, is never overwritten: every operation
  leaves the file system as it is, and the ones that answer say what is wrong.
\<close>

theorem sched_corrupt_kept:
  assumes "load_tasks J fs path = None"
  shows "fst (sched_add J tz e now tid path run_at desc prompt interval sz fs) = fs \<and>
     fst (sched_update J tz e now path idp run_at desc prompt interval sz fs) = fs \<and>
     fst (sched_cancel J e path idp sz fs) = fs \<and> sched_mark_done J tz e now path ids fs = fs \<and>
     sched_list J tz path sz fs = buf_set sz (''Error: '' @ path @ '' is not valid JSON: fix or delete it'')"
  using assms by (simp add: sched_add_def sched_update_def sched_cancel_def sched_mark_done_def sched_list_def corrupt_def
      split: sum.split)

theorem sched_corrupt_kept_witness:
  "fst (sched_cancel sample_cjson sample_wenv ''s'' (Some ''t1'') 64 [''s'' \<mapsto> File ''junk'']) = [''s'' \<mapsto> File ''junk'']"
proof -
  have "load_tasks sample_cjson [''s'' \<mapsto> File ''junk''] ''s'' = None"
    by (simp add: load_tasks_def json_load_def file_slurp_def sample_cjson_def table_cjson_def)
  then show ?thesis using sched_corrupt_kept by blast
qed

text \<open>
  Tasks that have run do not run again: after the due tasks are marked done and the file saved,
  nothing is due at that moment any more. One-shot tasks are gone, recurring ones are kept at
  their next run, and tasks that were not due are untouched.
\<close>

theorem sched_mark_done_clears_due:
  assumes "cjson_laws J" "load_tasks J fs path = Some tasks" "list_all object_ok tasks" "distinct (task_ids J tasks)"
    "distinct L" "map Some L = task_ids J (sched_get_due J tz now path fs)" "0 \<le> now" "now + 604800 < 253402300800"
    "snd (json_save_atomic J e path (CArray (fold (mark_one J tz now) (map CString L) tasks)) True fs) = 0"
  shows "load_tasks J (sched_mark_done J tz e now path (map CString L) fs) path = Some (done_tasks J tz now (set L) tasks) \<and>
     sched_get_due J tz now path (sched_mark_done J tz e now path (map CString L) fs) = []"
proof -
  let ?new = "done_tasks J tz now (set L) tasks"
  let ?fs = "sched_mark_done J tz e now path (map CString L) fs"
  have f: "fold (mark_one J tz now) (map CString L) tasks = ?new"
    using fold_mark_one [OF assms(1,3,4,5)] .
  have "json_save_atomic J e path (CArray ?new) True fs = (?fs, 0)"
    using assms(2,9) f by (simp add: sched_mark_done_def prod_eq_iff)
  then have l: "load_tasks J ?fs path = Some ?new" by (rule save_tasks [OF assms(1)])
  have "\<not> (run_time J tz t > 0 \<and> run_time J tz t \<le> now)" if "t \<in> set ?new" for t
    using done_tasks_not_due [OF assms(1,3,4,7,8) _ that] assms(2,6) by (simp add: sched_get_due_def)
  with l show ?thesis by (simp add: sched_get_due_def filter_empty_conv)
qed

theorem sched_mark_done_clears_due_witness:
  "sched_get_due sample_cjson utc 100 ''s'' sample_fs = [sample_task] \<and>
   sched_get_due sample_cjson utc 100 ''s'' (sched_mark_done sample_cjson utc sample_wenv 100 ''s'' [CString ''t1''] sample_fs) = []"
proof -
  have "sched_parse_time utc (Some ''1970-01-01T00:01:00Z'') = 60" by code_simp
  then have due: "sched_get_due sample_cjson utc 100 ''s'' sample_fs = [sample_task]"
    by (simp add: sched_get_due_def sample_load run_time_def sample_get)
  have "mark_one sample_cjson utc 100 (CString ''t1'') [sample_task] = []"
    by (simp add: mark_one_def sample_get interval_seconds_def given_def remove_at_def)
  then have "snd (json_save_atomic sample_cjson sample_wenv ''s''
      (CArray (fold (mark_one sample_cjson utc 100) (map CString [''t1'']) [sample_task])) True sample_fs) = 0"
    by (simp add: sample_save)
  then show ?thesis
    using sched_mark_done_clears_due [OF sample_cjson_laws sample_load, of "[''t1'']" utc 100 sample_wenv] due
    by (simp add: task_ids_def sample_get sample_task_ok)
qed

end
