(* ===== verification/Config.thy ===== *)
theory Config
  imports Ini Irc Chat Memory Messenger Session Scheduler "HOL-Library.Char_ord" "HOL-Library.List_Lexorder"
begin

text \<open>
  The daemon's configuration, the part of \<open>src/daemon.c\<close> that runs before the event loop: providers
  and tiers, resolving a model, the IRC secret, loading the agents and starting up. It also
  holds the records \<open>agent_ctx\<close> and \<open>daemon_t\<close>. Agents are numbered by their place in the
  array; a pointer to an agent is its number.

  The lemmas show that at most eight providers and tiers and sixteen agents are loaded, that the agents'
  names are valid and different, so that each has its own directory, IRC mention and inbox,
  and that a daemon that starts is well-formed.
\<close>

section \<open>Providers and tiers\<close>

record provider_ref =
  provider_name :: string
  provider_type :: string
  api_key :: string
  base_url :: string
  pr_model :: string
  max_tokens :: int
  pr_timeout :: int
  cache_key :: string
  reasoning_effort :: string

definition or_empty :: "string option \<Rightarrow> string" where
  "or_empty s = (case s of Some v \<Rightarrow> v | None \<Rightarrow> [])"

definition new_provider :: "ini_t \<Rightarrow> string \<Rightarrow> provider_ref" where
  "new_provider cfg section =
     (let pname = drop 9 section; get = ini_get (Some cfg) section
      in \<lparr>provider_name = buf_set 32 pname,
          provider_type = buf_set 16 (if (case get ''type'' of Some t \<Rightarrow> t | None \<Rightarrow> pname) = ''anthropic'' then ''anthropic'' else ''openai''),
          api_key = buf_set 256 (or_empty (get ''api_key'')), base_url = buf_set 256 (or_empty (get ''base_url'')), pr_model = [],
          max_tokens = ini_get_int (Some cfg) section ''max_tokens'' 0, pr_timeout = ini_get_int (Some cfg) section ''timeout'' 0,
          cache_key = [], reasoning_effort = buf_set 16 (or_empty (get ''reasoning_effort''))\<rparr>)"

definition is_provider_section :: "string \<Rightarrow> bool" where
  "is_provider_section s \<longleftrightarrow> (starts_with ''provider:'' s \<or> starts_with ''provider.'' s) \<and> drop 9 s \<noteq> []"

fun provider_loop :: "ini_t \<Rightarrow> ini_entry list \<Rightarrow> provider_ref list \<Rightarrow> provider_ref list" where
  "provider_loop cfg [] ps = ps"
| "provider_loop cfg (e # es) ps =
     (if length ps \<ge> 8 then ps
      else if \<not> is_provider_section (ie_section e) \<or> list_ex (\<lambda>p. provider_name p = drop 9 (ie_section e)) ps
      then provider_loop cfg es ps
      else provider_loop cfg es (ps @ [new_provider cfg (ie_section e)]))"

definition load_providers :: "ini_t \<Rightarrow> provider_ref list" where
  "load_providers cfg = provider_loop cfg (ini_entries cfg) []"

type_synonym tier = "string \<times> string"

definition load_tiers :: "ini_t \<Rightarrow> tier list" where
  "load_tiers cfg =
     take 8 (map (\<lambda>e. (buf_set 32 (ie_key e), buf_set 96 (ie_value e))) (filter (\<lambda>e. ie_section e = ''tiers'') (ini_entries cfg)))"

definition daemon_resolve_provider :: "tier list \<Rightarrow> provider_ref list \<Rightarrow> string \<Rightarrow> provider_ref option" where
  "daemon_resolve_provider tiers providers model_ref =
     (let model_ref = (case find (\<lambda>t. fst t = model_ref) tiers of Some t \<Rightarrow> snd t | None \<Rightarrow> model_ref)
      in case strchr (CHR ''/'') model_ref of
           Some rest \<Rightarrow> map_option (\<lambda>p. p\<lparr>pr_model := buf_set 64 (tl rest)\<rparr>)
                          (find (\<lambda>p. provider_name p = before (CHR ''/'') model_ref) providers)
         | None \<Rightarrow> map_option (\<lambda>p. p\<lparr>pr_model := buf_set 64 model_ref\<rparr>) (find (\<lambda>p. api_key p \<noteq> []) providers))"

section \<open>The state of the daemon\<close>

record agent_ctx =
  a_name :: string
  a_personality :: string
  a_prompt_extra :: string
  a_specialty :: string
  a_max_turns :: int
  a_history_budget :: int
  a_is_hub :: bool
  a_is_builder :: bool
  a_provider :: provider_ref
  a_memory :: memory_t
  a_scheduler :: string
  a_objectives :: "string list"
  a_n_peers :: nat
  a_busy :: bool
  a_last_session :: int

text \<open>The queue of owner messages (\<open>trigger_queue\<close>, a static of the file) is part of the record.\<close>

record daemon_t =
  d_data_dir :: string
  d_log_dir :: string
  d_socket_path :: string
  d_irc_host :: string
  d_irc_port :: int
  d_providers :: "provider_ref list"
  d_tiers :: "tier list"
  d_sessions :: string
  d_chat :: chat_log
  d_messenger :: messenger_t
  d_irc :: irc_t
  d_irc_retry_at :: int
  d_irc_backoff :: int
  d_sock_fd :: int
  d_tui_clients :: "int list"
  d_agents :: "agent_ctx list"
  d_queue :: "(nat \<times> string) list"
  d_shutdown :: bool

section \<open>The IRC secret\<close>

definition seed_bytes :: "64 word \<Rightarrow> nat list" where
  "seed_bytes seed =
     map (\<lambda>s. unat (drop_bit 32 s AND 255))
       (tl (rev (fold (\<lambda>_ ss. (hd ss * 6364136223846793005 + 1) # ss) [0..<16] [seed])))"

definition hex2 :: "nat \<Rightarrow> string" where
  "hex2 b = [hex_digit (b div 16), hex_digit (b mod 16)]"

definition irc_charset :: string where
  "irc_charset = ''abcdefghijklmnopqrstuvwxyz0123456789''"

definition secret_channel :: "nat list \<Rightarrow> irc_t \<Rightarrow> irc_t" where
  "secret_channel bs irc =
     (let irc1 = (if channel irc = [] then irc\<lparr>channel := buf_set 64 (''#tb-'' @ hex2 (bs ! 0) @ hex2 (bs ! 1) @ hex2 (bs ! 2))\<rparr> else irc)
      in if channel_key irc1 = []
         then irc1\<lparr>channel_key := map (\<lambda>i. irc_charset ! (bs ! (3 + i) mod 36)) [0..<12]\<rparr> else irc1)"

definition irc_info :: "daemon_t \<Rightarrow> string \<Rightarrow> string" where
  "irc_info d nk =
     ''channel='' @ channel (d_irc d) @ [LF] @ ''key='' @ channel_key (d_irc d) @ [LF] @ ''host='' @ d_irc_host d @ [LF] @
     ''port='' @ dec_int (d_irc_port d) @ [LF] @ ''nick='' @ nk @ [LF]"

text \<open>\<open>rnd\<close>: 16 bytes of \<open>/dev/urandom\<close>, \<open>None\<close> when it cannot be read in full.\<close>

definition generate_irc_secret :: "nat list option \<Rightarrow> 64 word \<Rightarrow> wenv \<Rightarrow> daemon_t \<times> fs \<Rightarrow> daemon_t \<times> fs" where
  "generate_irc_secret rnd seed e = (\<lambda>(d, fs).
     (let bs = (case rnd of Some r \<Rightarrow> r | None \<Rightarrow> seed_bytes seed);
          d1 = d\<lparr>d_irc := secret_channel bs (d_irc d)\<rparr>
      in (d1, fst (atomic_write e (buf_set 4200 (d_data_dir d @ ''/irc.secret'')) (buf_set 512 (irc_info d1 (base_nick (d_irc d1)))) fs))))"

section \<open>Agents\<close>

text \<open>\<open>tool_name_valid\<close> of \<open>src/tools.c\<close>: \<open>[A-Za-z0-9_-]{1,64}\<close>.\<close>

definition tool_name_valid :: "string \<Rightarrow> bool" where
  "tool_name_valid s \<longleftrightarrow>
     list_all (\<lambda>c. is_lower c \<or> is_upper c \<or> is_digit c \<or> c = CHR ''_'' \<or> c = CHR ''-'') s \<and> 0 < length s \<and> length s \<le> 64"

definition agent_name_free :: "daemon_t \<Rightarrow> string \<Rightarrow> bool" where
  "agent_name_free d name \<longleftrightarrow>
     tool_name_valid name \<and> length name < 32 \<and> \<not> strcaseeq name ''all'' \<and> \<not> strcaseeq name ''owner'' \<and>
     \<not> list_ex (\<lambda>a. strcaseeq (a_name a) name) (d_agents d)"

definition new_agent :: "ini_t \<Rightarrow> string \<Rightarrow> string \<Rightarrow> provider_ref \<Rightarrow> agent_ctx" where
  "new_agent cfg data_dir name prov =
     (let get = ini_get (Some cfg) ''agent''
      in \<lparr>a_name = buf_set 32 name, a_personality = buf_set TC_BUF_LG (or_empty (get ''personality'')),
          a_prompt_extra = buf_set TC_BUF_XL (or_empty (get ''system_prompt_extra'')), a_specialty = buf_set 256 (or_empty (get ''specialty'')),
          a_max_turns = ini_get_int (Some cfg) ''agent'' ''max_turns'' 100,
          a_history_budget = ini_get_int (Some cfg) ''agent'' ''history_budget'' 0,
          a_is_hub = ini_get_bool (Some cfg) ''agent'' ''hub'' False, a_is_builder = ini_get_bool (Some cfg) ''agent'' ''builder'' False,
          a_provider = prov\<lparr>cache_key := buf_set 48 (''shclaw-'' @ name)\<rparr>,
          a_memory = fst (memory_init (buf_set 4200 (data_dir @ ''/'' @ name @ ''/memory''))),
          a_scheduler = fst (scheduler_init (buf_set 4200 (data_dir @ ''/'' @ name @ ''/scheduler.json''))),
          a_objectives = take 16 (map (\<lambda>e. buf_set 256 (ie_value e)) (filter (\<lambda>e. ie_section e = ''objectives'') (ini_entries cfg))),
          a_n_peers = 0, a_busy = False, a_last_session = - 5\<rparr>)"

definition load_agent :: "fs \<Rightarrow> string \<Rightarrow> daemon_t \<Rightarrow> daemon_t" where
  "load_agent fs ini_path d =
     (if length (d_agents d) \<ge> TC_MAX_AGENTS then d
      else case ini_load fs ini_path of
             None \<Rightarrow> d
           | Some cfg \<Rightarrow>
               (case ini_get (Some cfg) ''agent'' ''name'' of
                  None \<Rightarrow> d
                | Some name \<Rightarrow>
                    if \<not> agent_name_free d name then d
                    else let model_ref = (case ini_get (Some cfg) ''agent'' ''tier'' of
                                            Some t \<Rightarrow> t
                                          | None \<Rightarrow> (case ini_get (Some cfg) ''agent'' ''model'' of Some m \<Rightarrow> m | None \<Rightarrow> ''standard''))
                         in case daemon_resolve_provider (d_tiers d) (d_providers d) model_ref of
                              None \<Rightarrow> d
                            | Some prov \<Rightarrow>
                                d\<lparr>d_agents := d_agents d @ [new_agent cfg (d_data_dir d) name prov],
                                  d_messenger := fst (messenger_register (d_messenger d) name)\<rparr>))"

text \<open>\<open>names\<close> is what \<open>readdir\<close> gives for \<open>etc/agents\<close>, \<open>None\<close> when it cannot be opened. \<open>strcmp\<close> is the order of bytes.\<close>

definition agent_files :: "string list \<Rightarrow> string list" where
  "agent_files names = sort (take 64 (filter (\<lambda>n. length n > 4 \<and> ends_with ''.ini'' n) names))"

definition load_agents :: "fs \<Rightarrow> string list option \<Rightarrow> daemon_t \<Rightarrow> daemon_t" where
  "load_agents fs names d =
     (case names of
        None \<Rightarrow> d
      | Some ns \<Rightarrow>
          let d1 = fold (\<lambda>n. load_agent fs (buf_set 4200 (''etc/agents/'' @ n))) (agent_files ns) d
          in d1\<lparr>d_agents := map (\<lambda>a. a\<lparr>a_n_peers := length (d_agents d1)\<rparr>) (d_agents d1)\<rparr>)"

section \<open>Starting\<close>

record boot_env =
  be_writable :: bool
  be_names :: "string list option"
  be_rnd :: "nat list option"
  be_seed :: "64 word"
  be_write :: wenv
  be_sock :: int

text \<open>The daemon's zeroed state, with the configuration read and nothing loaded yet.\<close>

definition blank_irc :: "ini_t \<Rightarrow> irc_t" where
  "blank_irc cfg =
     (let get = ini_get (Some cfg) ''irc'';
          host = (case get ''host'' of Some h \<Rightarrow> Some h | None \<Rightarrow> get ''server'')
      in \<lparr>fd = -1, enabled = given host, tls_state = False, registered = False,
          base_nick = buf_set 32 (case get ''nick'' of Some n \<Rightarrow> n | None \<Rightarrow> ''shclaw''), nick = [],
          channel = buf_set 64 (or_empty (get ''channel'')), channel_key = buf_set 32 (or_empty (get ''channel_key'')),
          owner = buf_set 64 (or_empty (get ''owner'')), hub = [], irc_agents = [], readbuf = [], last_rx = 0, pinged = False,
          on_trigger = False, irc_ctx = False\<rparr>)"

definition blank_daemon :: "ini_t \<Rightarrow> daemon_t" where
  "blank_daemon cfg =
     (let get = ini_get (Some cfg) ''daemon'';
          data_dir = buf_set 4096 (case get ''data_dir'' of Some v \<Rightarrow> v | None \<Rightarrow> ''./data'');
          irc_host = (case ini_get (Some cfg) ''irc'' ''host'' of Some h \<Rightarrow> Some h | None \<Rightarrow> ini_get (Some cfg) ''irc'' ''server'')
      in \<lparr>d_data_dir = data_dir, d_log_dir = buf_set 4096 (case get ''log_dir'' of Some v \<Rightarrow> v | None \<Rightarrow> ''./logs''), d_socket_path = [],
          d_irc_host = buf_set 256 (if given irc_host then the irc_host else []), d_irc_port = ini_get_int (Some cfg) ''irc'' ''port'' 6697,
          d_providers = load_providers cfg, d_tiers = load_tiers cfg,
          d_sessions = fst (session_store_init (buf_set 4200 (data_dir @ ''/sessions''))),
          d_chat = chat_init (to_int32 (ini_get_int (Some cfg) ''daemon'' ''conversation_timeout'' 15 * 60)),
          d_messenger = fst (messenger_register (fst (messenger_init (buf_set 4200 (data_dir @ ''/messages'')))) ''owner''),
          d_irc = blank_irc cfg, d_irc_retry_at = 0, d_irc_backoff = 0, d_sock_fd = -1, d_tui_clients = [], d_agents = [],
          d_queue = [], d_shutdown = False\<rparr>)"

definition hub_name :: "agent_ctx list \<Rightarrow> string" where
  "hub_name as = (case find a_is_hub as of Some a \<Rightarrow> a_name a | None \<Rightarrow> a_name (hd as))"

text \<open>\<open>daemon_run\<close> up to its event loop: \<open>None\<close> when it returns 1 (the daemon cannot start).\<close>

definition daemon_start :: "boot_env \<Rightarrow> ini_t \<Rightarrow> fs \<Rightarrow> (daemon_t \<times> fs) option" where
  "daemon_start e cfg fs =
     (if \<not> be_writable e then None
      else let d1 = load_agents fs (be_names e) (blank_daemon cfg)
           in if d_agents d1 = [] then None
              else let d2 = d1\<lparr>d_irc := (d_irc d1)\<lparr>hub := buf_set 32 (hub_name (d_agents d1)), irc_agents := map a_name (d_agents d1),
                                                   on_trigger := True, irc_ctx := True\<rparr>\<rparr>;
                       (d3, fs') = (if enabled (d_irc d2) then generate_irc_secret (be_rnd e) (be_seed e) (be_write e) (d2, fs) else (d2, fs))
                   in Some (d3\<lparr>d_socket_path := buf_set 4200 (d_data_dir d3 @ ''/shclaw.sock''), d_sock_fd := be_sock e\<rparr>, fs'))"

section \<open>Loaded providers\<close>

definition provider_names :: "provider_ref list \<Rightarrow> string list" where
  "provider_names ps = map provider_name ps"

lemma provider_loop_bound: "length ps \<le> 8 \<Longrightarrow> length (provider_loop cfg es ps) \<le> 8"
  by (induction cfg es ps rule: provider_loop.induct) auto

lemma provider_name_new [simp]: "provider_name (new_provider cfg s) = buf_set 32 (drop 9 s)"
  by (simp add: new_provider_def Let_def)

lemma provider_loop_distinct:
  "distinct (provider_names ps) \<Longrightarrow> \<forall>e \<in> set es. length (ie_section e) < 41 \<Longrightarrow> distinct (provider_names (provider_loop cfg es ps))"
proof (induction cfg es ps rule: provider_loop.induct)
  case (2 cfg e es ps)
  show ?case
  proof (cases "length ps \<ge> 8 \<or> \<not> is_provider_section (ie_section e) \<or> list_ex (\<lambda>p. provider_name p = drop 9 (ie_section e)) ps")
    case True
    with 2 show ?thesis by auto
  next
    case False
    then have "distinct (provider_names (ps @ [new_provider cfg (ie_section e)]))"
      using 2(3,4) by (auto simp: provider_names_def list_ex_iff)
    with 2 False show ?thesis by auto
  qed
qed simp

lemma provider_loop_long:
  assumes "\<forall>e \<in> set es. ie_section e = ''provider:'' @ n" "32 \<le> length n" "\<forall>p \<in> set ps. length (provider_name p) < 32"
  shows "length (provider_loop cfg es ps) = (if length ps \<ge> 8 then length ps else min 8 (length ps + length es))"
  using assms
proof (induction cfg es ps rule: provider_loop.induct)
  case (2 cfg e es ps)
  have "\<not> list_ex (\<lambda>p. provider_name p = n) ps" using 2(4,5) by (auto simp: list_ex_iff)
  moreover have "is_provider_section (''provider:'' @ n)" using 2(4) by (auto simp: is_provider_section_def starts_with_def)
  moreover have "length (provider_name (new_provider cfg (''provider:'' @ n))) < 32"
    by (simp add: new_provider_def Let_def length_buf_set_less)
  ultimately show ?case using 2 by (auto simp: min_def)
qed (simp add: min_def)

section \<open>Loaded agents\<close>

text \<open>
  What loading keeps: at most sixteen agents with valid, different names, and a messenger that
  knows exactly the owner and them.
\<close>

definition agents_wf :: "daemon_t \<Rightarrow> bool" where
  "agents_wf d \<longleftrightarrow> length (d_agents d) \<le> 16 \<and>
     list_all (\<lambda>a. tool_name_valid (a_name a) \<and> length (a_name a) < 32 \<and> \<not> strcaseeq (a_name a) ''all'' \<and> \<not> strcaseeq (a_name a) ''owner'')
       (d_agents d) \<and>
     distinct (map (map tolower) (map a_name (d_agents d))) \<and> ms_agents (d_messenger d) = ''owner'' # map a_name (d_agents d)"

lemma tool_name_agent_name:
  assumes "tool_name_valid n" "length n < 32"
  shows "agent_name_ok n"
proof -
  obtain c cs where n: "n = c # cs" using assms(1) by (cases n) (auto simp: tool_name_valid_def)
  then have "is_lower c \<or> is_upper c \<or> is_digit c \<or> c = CHR ''_'' \<or> c = CHR ''-''" using assms(1) by (simp add: tool_name_valid_def)
  then have "c \<noteq> CHR ''@''" by (auto simp: is_lower_def is_upper_def is_digit_def byte_def)
  with n assms(2) show ?thesis by (simp add: agent_name_ok_def)
qed

lemma register_agent:
  assumes "agents_wf d" "agent_name_free d n" "length (d_agents d) < 16"
  shows "ms_agents (fst (messenger_register (d_messenger d) n)) = ms_agents (d_messenger d) @ [n]"
proof -
  have n: "agent_name_ok n" "length n < 32" using assms(2) tool_name_agent_name by (auto simp: agent_name_free_def)
  have "\<not> strcaseeq ''owner'' n" using assms(2) strcaseeq_sym by (auto simp: agent_name_free_def)
  then have "find (\<lambda>a. strcaseeq a n) (''owner'' # map a_name (d_agents d)) = None"
    using assms(2) by (auto simp: find_None_iff agent_name_free_def list_ex_iff)
  then show ?thesis
    using assms(1,3) n by (simp add: messenger_register_def messenger_resolve_name agents_wf_def)
qed

lemma load_agent_cases:
  obtains (skipped) "load_agent fs path d = d"
  | (loaded) cfg name prov where "length (d_agents d) < 16" "agent_name_free d name"
      "load_agent fs path d = d\<lparr>d_agents := d_agents d @ [new_agent cfg (d_data_dir d) name prov],
         d_messenger := fst (messenger_register (d_messenger d) name)\<rparr>"
proof (cases "length (d_agents d) \<ge> 16 \<or> ini_load fs path = None \<or> ini_get (ini_load fs path) ''agent'' ''name'' = None")
  case True
  then show ?thesis by (intro skipped) (auto simp: load_agent_def split: option.split)
next
  case False
  then obtain cfg name where c: "length (d_agents d) < 16" "ini_load fs path = Some cfg" "ini_get (Some cfg) ''agent'' ''name'' = Some name"
    by (cases "ini_load fs path"; cases "ini_get (ini_load fs path) ''agent'' ''name''") auto
  define r where "r = daemon_resolve_provider (d_tiers d) (d_providers d) (case ini_get (Some cfg) ''agent'' ''tier'' of
      Some t \<Rightarrow> t | None \<Rightarrow> (case ini_get (Some cfg) ''agent'' ''model'' of Some m \<Rightarrow> m | None \<Rightarrow> ''standard''))"
  have l: "load_agent fs path d = (if \<not> agent_name_free d name then d else case r of None \<Rightarrow> d
      | Some prov \<Rightarrow> d\<lparr>d_agents := d_agents d @ [new_agent cfg (d_data_dir d) name prov],
          d_messenger := fst (messenger_register (d_messenger d) name)\<rparr>)"
    using c by (simp add: load_agent_def r_def)
  show ?thesis
  proof (cases "\<not> agent_name_free d name \<or> r = None")
    case True
    then show ?thesis by (intro skipped) (auto simp: l)
  next
    case False
    then obtain prov where "r = Some prov" by blast
    with False c(1) show ?thesis by (intro loaded [of name cfg prov]) (simp_all add: l)
  qed
qed

lemma load_agent_wf: "agents_wf d \<Longrightarrow> agents_wf (load_agent fs path d)"
proof (cases rule: load_agent_cases [of fs path d])
  case l: (loaded cfg name prov)
  assume wf: "agents_wf d"
  have nm: "a_name (new_agent cfg (d_data_dir d) name prov) = name"
    using l(2) by (simp add: new_agent_def Let_def agent_name_free_def)
  have "map tolower name \<notin> set (map (map tolower) (map a_name (d_agents d)))"
    using l(2) by (auto simp: agent_name_free_def list_ex_iff strcaseeq_def)
  moreover have "tool_name_valid name" "length name < 32" "\<not> strcaseeq name ''all''" "\<not> strcaseeq name ''owner''"
    using l(2) by (simp_all add: agent_name_free_def)
  ultimately show ?thesis
    using wf l(1) register_agent [OF wf l(2,1)] unfolding l(3) agents_wf_def by (simp add: nm)
qed simp

lemma load_agents_fold_wf: "agents_wf d \<Longrightarrow> agents_wf (fold (\<lambda>n. load_agent fs (f n)) ns d)"
  by (induction ns arbitrary: d) (simp_all add: load_agent_wf)

lemma load_agent_keeps:
  "d_irc (load_agent fs path d) = d_irc d \<and> d_providers (load_agent fs path d) = d_providers d \<and> d_tiers (load_agent fs path d) = d_tiers d \<and>
   d_tui_clients (load_agent fs path d) = d_tui_clients d \<and> d_queue (load_agent fs path d) = d_queue d \<and>
   d_irc_backoff (load_agent fs path d) = d_irc_backoff d \<and> d_irc_host (load_agent fs path d) = d_irc_host d \<and> d_irc_port (load_agent fs path d) = d_irc_port d \<and>
   (list_all (\<lambda>a. \<not> a_busy a) (d_agents d) \<longrightarrow> list_all (\<lambda>a. \<not> a_busy a) (d_agents (load_agent fs path d)))"
  by (cases rule: load_agent_cases [of fs path d]) (auto simp: new_agent_def Let_def)

lemma load_agents_fold_keeps:
  "let d' = fold (\<lambda>n. load_agent fs (f n)) ns d
   in d_irc d' = d_irc d \<and> d_providers d' = d_providers d \<and> d_tiers d' = d_tiers d \<and> d_tui_clients d' = d_tui_clients d \<and>
      d_queue d' = d_queue d \<and> d_irc_backoff d' = d_irc_backoff d \<and> d_irc_host d' = d_irc_host d \<and> d_irc_port d' = d_irc_port d \<and>
      (list_all (\<lambda>a. \<not> a_busy a) (d_agents d) \<longrightarrow> list_all (\<lambda>a. \<not> a_busy a) (d_agents d'))"
proof (induction ns arbitrary: d)
  case (Cons n ns)
  then show ?case using load_agent_keeps [of fs "f n" d] by (auto simp: Let_def)
qed simp

lemma blank_agents_wf: "agents_wf (blank_daemon cfg)"
  by (simp add: agents_wf_def blank_daemon_def Let_def messenger_register_def messenger_init_def messenger_resolve_def)

lemma load_agents_props:
  assumes "d1 = load_agents fs names d" "agents_wf d"
  shows "agents_wf d1" "d_irc d1 = d_irc d" "d_providers d1 = d_providers d" "d_tiers d1 = d_tiers d"
    "d_tui_clients d1 = d_tui_clients d" "d_queue d1 = d_queue d" "d_irc_backoff d1 = d_irc_backoff d \<and> d_irc_host d1 = d_irc_host d \<and> d_irc_port d1 = d_irc_port d \<and> d_irc_host d1 = d_irc_host d \<and> d_irc_port d1 = d_irc_port d"
    "list_all (\<lambda>a. \<not> a_busy a) (d_agents d) \<Longrightarrow> list_all (\<lambda>a. \<not> a_busy a) (d_agents d1)"
proof -
  have peers: "agents_wf (x\<lparr>d_agents := map (\<lambda>a. a\<lparr>a_n_peers := k\<rparr>) (d_agents x)\<rparr>) = agents_wf x" for x k
    by (simp add: agents_wf_def list_all_iff comp_def)
  note w = load_agents_fold_wf [OF assms(2), of fs "\<lambda>n. buf_set 4200 (''etc/agents/'' @ n)"]
  note k = load_agents_fold_keeps [of fs "\<lambda>n. buf_set 4200 (''etc/agents/'' @ n)" _ d, unfolded Let_def]
  show "agents_wf d1" using assms w by (simp add: load_agents_def Let_def peers split: option.split)
  show "d_irc d1 = d_irc d" "d_providers d1 = d_providers d" "d_tiers d1 = d_tiers d"
    "d_tui_clients d1 = d_tui_clients d" "d_queue d1 = d_queue d" "d_irc_backoff d1 = d_irc_backoff d \<and> d_irc_host d1 = d_irc_host d \<and> d_irc_port d1 = d_irc_port d \<and> d_irc_host d1 = d_irc_host d \<and> d_irc_port d1 = d_irc_port d"
    using assms(1) k by (simp_all add: load_agents_def Let_def split: option.split)
  show "list_all (\<lambda>a. \<not> a_busy a) (d_agents d1)" if "list_all (\<lambda>a. \<not> a_busy a) (d_agents d)"
    using that assms(1) k by (simp add: load_agents_def Let_def list_all_iff split: option.split)
qed

section \<open>A daemon that starts\<close>

lemma secret_channel_wf:
  assumes "irc_wf irc"
  shows "irc_wf (secret_channel bs irc) \<and> channel (secret_channel bs irc) \<noteq> [] \<and> channel_key (secret_channel bs irc) \<noteq> [] \<and>
     (channel irc \<noteq> [] \<longrightarrow> channel (secret_channel bs irc) = channel irc) \<and>
     (channel_key irc \<noteq> [] \<longrightarrow> channel_key (secret_channel bs irc) = channel_key irc)"
  using assms by (auto simp: secret_channel_def irc_wf_def Let_def hex2_def)

lemma blank_irc_wf: "irc_wf (blank_irc cfg)"
  by (simp add: blank_irc_def irc_wf_def Let_def length_buf_set_less)

lemma secret_channel_keeps:
  "hub (secret_channel bs irc) = hub irc \<and> irc_agents (secret_channel bs irc) = irc_agents irc \<and> enabled (secret_channel bs irc) = enabled irc"
  by (simp add: secret_channel_def Let_def)

definition daemon_wf :: "daemon_t \<Rightarrow> bool" where
  "daemon_wf d \<longleftrightarrow> agents_wf d \<and> irc_wf (d_irc d) \<and> length (d_queue d) \<le> 64 \<and> length (d_tui_clients d) \<le> 8 \<and>
     distinct (d_tui_clients d) \<and> (\<forall>t \<in> set (d_queue d). fst t < length (d_agents d)) \<and>
     (d_irc_backoff d = 0 \<or> 5 \<le> d_irc_backoff d) \<and> d_irc_backoff d \<le> 300 \<and>
     length (d_irc_host d) < 256 \<and> - (2 ^ 31) \<le> d_irc_port d \<and> d_irc_port d < 2 ^ 31"

lemma ini_get_int_range: "- (2 ^ 31) \<le> n \<and> n < 2 ^ 31 \<Longrightarrow> - (2 ^ 31) \<le> ini_get_int ini s k n \<and> ini_get_int ini s k n < 2 ^ 31"
  by (simp add: ini_get_int_def atoi_def to_int32_def split: option.split)

lemma hub_name_agent: "as \<noteq> [] \<Longrightarrow> hub_name as \<in> set (map a_name as)"
  by (auto simp: hub_name_def find_Some_iff split: option.split)

text \<open>The state in which the event loop begins.\<close>

lemma daemon_start_props:
  assumes "daemon_start e cfg fs = Some (d, fs')"
  shows "daemon_wf d \<and> d_agents d \<noteq> [] \<and> length (d_providers d) \<le> 8 \<and> length (d_tiers d) \<le> 8 \<and>
     hub (d_irc d) \<in> set (map a_name (d_agents d)) \<and> irc_agents (d_irc d) = map a_name (d_agents d) \<and>
     (\<forall>a \<in> set (d_agents d). messenger_resolve (d_messenger d) (Some (a_name a)) = Some (a_name a) \<and> \<not> a_busy a) \<and>
     (enabled (d_irc d) \<longrightarrow> channel (d_irc d) \<noteq> [] \<and> channel_key (d_irc d) \<noteq> []) \<and> d_queue d = [] \<and> d_tui_clients d = []"
proof -
  let ?b = "blank_daemon cfg"
  define d1 where "d1 = load_agents fs (be_names e) ?b"
  note p = load_agents_props [OF d1_def blank_agents_wf]
  have b: "d_irc ?b = blank_irc cfg" "d_tui_clients ?b = []" "d_queue ?b = []" "d_irc_backoff ?b = 0" "d_agents ?b = []"
    "length (d_irc_host ?b) < 256 \<and> - (2 ^ 31) \<le> d_irc_port ?b \<and> d_irc_port ?b < 2 ^ 31"
    "length (d_providers ?b) \<le> 8" "length (d_tiers ?b) \<le> 8"
    using provider_loop_bound [of "[]" cfg "ini_entries cfg"] ini_get_int_range [of 6697 "Some cfg" "''irc''" "''port''"]
    by (simp_all add: blank_daemon_def Let_def load_providers_def load_tiers_def length_buf_set_less)
  define irc2 where "irc2 = (d_irc d1)\<lparr>hub := buf_set 32 (hub_name (d_agents d1)), irc_agents := map a_name (d_agents d1), on_trigger := True, irc_ctx := True\<rparr>"
  define irc3 where "irc3 = (if enabled irc2 then secret_channel (case be_rnd e of Some r \<Rightarrow> r | None \<Rightarrow> seed_bytes (be_seed e)) irc2 else irc2)"
  have d: "d_agents d1 \<noteq> []" "d = d1\<lparr>d_irc := irc3, d_socket_path := d_socket_path d, d_sock_fd := d_sock_fd d\<rparr>"
    using assms unfolding daemon_start_def d1_def [symmetric] irc3_def irc2_def
    by (auto simp: Let_def generate_irc_secret_def split: if_splits)
  have hub: "hub_name (d_agents d1) \<in> set (map a_name (d_agents d1))" using d(1) by (rule hub_name_agent)
  then have hl: "length (hub_name (d_agents d1)) < 32" using p(1) by (auto simp: agents_wf_def list_all_iff)
  have "irc_wf irc2" using blank_irc_wf [of cfg] hl by (simp add: irc2_def p(2) b(1) irc_wf_def)
  then have irc: "irc_wf irc3" "enabled irc3 \<longrightarrow> channel irc3 \<noteq> [] \<and> channel_key irc3 \<noteq> []" "hub irc3 = hub_name (d_agents d1)"
    "irc_agents irc3 = map a_name (d_agents d1)"
    using secret_channel_wf [of irc2] secret_channel_keeps hl by (simp_all add: irc3_def irc2_def)
  have w: "agents_wf d" using p(1) by (subst d(2)) (simp add: agents_wf_def)
  have "messenger_resolve (d_messenger d) (Some (a_name a)) = Some (a_name a)" if a: "a \<in> set (d_agents d)" for a
  proof -
    have ok: "agent_name_ok (a_name a)" "\<not> strcaseeq ''owner'' (a_name a)"
      using w a tool_name_agent_name strcaseeq_sym by (auto simp: agents_wf_def list_all_iff)
    have "find (\<lambda>x. strcaseeq x (a_name a)) (map a_name (d_agents d)) = Some (a_name a)"
    proof -
      obtain i where i: "i < length (d_agents d)" "d_agents d ! i = a" using a by (auto simp: in_set_conv_nth)
      have "distinct (map (map tolower) (map a_name (d_agents d)))" using w by (simp add: agents_wf_def)
      then have "\<not> strcaseeq (a_name (d_agents d ! j)) (a_name a)" if "j < i" for j
        using that i by (auto simp: strcaseeq_def distinct_conv_nth)
      with i show ?thesis by (auto simp: find_Some_iff intro!: exI [of _ i])
    qed
    with ok w show ?thesis by (simp add: messenger_resolve_name agents_wf_def)
  qed
  moreover have "d_queue d = []" "d_tui_clients d = []" "d_irc_backoff d = 0" "d_agents d = d_agents d1" "d_irc d = irc3"
    "d_providers d = d_providers d1" "d_tiers d = d_tiers d1" "d_irc_host d = d_irc_host d1" "d_irc_port d = d_irc_port d1"
    using p(5-7) b(2-4) by (subst d(2), simp)+
  moreover have "\<forall>a \<in> set (d_agents d1). \<not> a_busy a" using p(8) b(5) by (simp add: list_all_iff)
  ultimately show ?thesis
    using w irc d(1) hub b(6-8) p(3,4,7) by (simp add: daemon_wf_def)
qed

section \<open>Properties\<close>

definition boot_cfg :: ini_t where
  "boot_cfg = \<lparr>ini_entries = [\<lparr>ie_section = ''provider:x'', ie_key = ''api_key'', ie_value = ''k''\<rparr>], ini_capacity = 64\<rparr>"

definition boot_agent :: "ini_entry list" where
  "boot_agent = [\<lparr>ie_section = ''agent'', ie_key = ''name'', ie_value = ''bob''\<rparr>, \<lparr>ie_section = ''agent'', ie_key = ''model'', ie_value = ''x/m''\<rparr>]"

definition boot_fs :: fs where
  "boot_fs = [''etc/agents/a.ini'' \<mapsto> File (concat (map ini_show boot_agent))]"

definition boot_sample :: boot_env where
  "boot_sample = \<lparr>be_writable = True, be_names = Some [''a.ini''], be_rnd = None, be_seed = 7, be_write = sample_wenv, be_sock = 4\<rparr>"

lemma boot_sample_starts: "\<exists>d fs'. daemon_start boot_sample boot_cfg boot_fs = Some (d, fs')"
proof -
  obtain acfg where a: "ini_load boot_fs ''etc/agents/a.ini'' = Some acfg" "ini_entries acfg = boot_agent"
    using ini_lines_roundtrip [of boot_agent "[]" "\<lparr>ini_entries = [], ini_capacity = 64\<rparr>"]
    by (auto simp: ini_load_def boot_fs_def boot_agent_def ini_writable_def plain_def blank_def ini_esc_def)
  have files: "agent_files [''a.ini''] = [''a.ini'']" by (simp add: agent_files_def ends_with_def)
  have get: "ini_get (Some acfg) ''agent'' ''name'' = Some ''bob''" "ini_get (Some acfg) ''agent'' ''tier'' = None"
    "ini_get (Some acfg) ''agent'' ''model'' = Some ''x/m''"
    by (simp_all add: ini_get_def a(2) boot_agent_def)
  have free: "agent_name_free (blank_daemon boot_cfg) ''bob''" by (simp add: agent_name_free_def blank_daemon_def Let_def) code_simp
  have "d_providers (blank_daemon boot_cfg) = [new_provider boot_cfg ''provider:x'']" "d_tiers (blank_daemon boot_cfg) = []"
    by (simp_all add: blank_daemon_def Let_def load_providers_def load_tiers_def boot_cfg_def is_provider_section_def starts_with_def)
  then obtain prov where pr: "daemon_resolve_provider (d_tiers (blank_daemon boot_cfg)) (d_providers (blank_daemon boot_cfg)) ''x/m'' = Some prov"
    by (simp add: daemon_resolve_provider_def)
  have nb: "d_agents (blank_daemon boot_cfg) = []" by (simp add: blank_daemon_def Let_def)
  have "d_agents (load_agents boot_fs (Some [''a.ini'']) (blank_daemon boot_cfg)) \<noteq> []"
    by (simp add: load_agents_def Let_def files load_agent_def a(1) get free pr nb)
  then show ?thesis by (fastforce simp: daemon_start_def boot_sample_def Let_def split: prod.splits)
qed

text \<open>
  A daemon that starts is well-formed, whatever its configuration: between one and sixteen agents with
  valid names that differ ignoring case and are neither \<open>all\<close> nor \<open>owner\<close>, each of them
  resolved by the messenger to itself and known to the IRC link, the hub one of them; at most
  eight providers and tiers; an IRC state within its arrays, with a channel and a key when IRC
  is enabled; no agent busy, nothing queued, no client attached.
\<close>

theorem daemon_start_wf:
  assumes "daemon_start e cfg fs = Some (d, fs')"
  shows "daemon_wf d \<and> d_agents d \<noteq> [] \<and> length (d_providers d) \<le> 8 \<and> length (d_tiers d) \<le> 8 \<and>
     hub (d_irc d) \<in> set (map a_name (d_agents d)) \<and> irc_agents (d_irc d) = map a_name (d_agents d) \<and>
     (\<forall>a \<in> set (d_agents d). messenger_resolve (d_messenger d) (Some (a_name a)) = Some (a_name a) \<and> \<not> a_busy a) \<and>
     (enabled (d_irc d) \<longrightarrow> channel (d_irc d) \<noteq> [] \<and> channel_key (d_irc d) \<noteq> []) \<and> d_queue d = [] \<and> d_tui_clients d = []"
  by (rule daemon_start_props [OF assms])

theorem daemon_start_wf_witness:
  "\<exists>d fs'. daemon_start boot_sample boot_cfg boot_fs = Some (d, fs') \<and> daemon_wf d \<and> hub (d_irc d) \<in> set (map a_name (d_agents d))"
proof -
  obtain d fs' where s: "daemon_start boot_sample boot_cfg boot_fs = Some (d, fs')" using boot_sample_starts by blast
  from s daemon_start_wf [OF s] show ?thesis by blast
qed

text \<open>
  A provider whose name has 32 bytes or more is loaded once for every line of its section, not once:
  its stored name is cut and never equals the section's, so the section alone can fill the
  table of eight.
\<close>

theorem provider_long_name_repeats:
  assumes "ini_entries cfg = map (\<lambda>(k, v). \<lparr>ie_section = ''provider:'' @ n, ie_key = k, ie_value = v\<rparr>) kvs" "32 \<le> length n"
  shows "length (load_providers cfg) = min 8 (length kvs)"
  using provider_loop_long [of "ini_entries cfg" n "[]" cfg] assms
  by (auto simp: load_providers_def case_prod_unfold)

theorem provider_long_name_repeats_witness:
  "length (load_providers \<lparr>ini_entries = map (\<lambda>(k, v). \<lparr>ie_section = ''provider:'' @ replicate 32 (CHR ''x''), ie_key = k, ie_value = v\<rparr>)
     [(''type'', ''openai''), (''api_key'', ''k'')], ini_capacity = 64\<rparr>) = 2"
  using provider_long_name_repeats [of "\<lparr>ini_entries = map (\<lambda>(k, v). \<lparr>ie_section = ''provider:'' @ replicate 32 (CHR ''x''), ie_key = k, ie_value = v\<rparr>)
     [(''type'', ''openai''), (''api_key'', ''k'')], ini_capacity = 64\<rparr>" "replicate 32 (CHR ''x'')" "[(''type'', ''openai''), (''api_key'', ''k'')]"]
  by simp

end
