(* ===== verification/Sock.thy ===== *)
theory Sock
  imports Util
begin

text \<open>
  \<open>src/sock.c\<close>: the frames between the daemon and its terminal clients. What a descriptor
  delivers is a script of \<open>read\<close> outcomes, cut arbitrarily; \<open>stream\<close> is the byte stream behind it.
  The lemmas show that a frame sent is the frame received, however the kernel cuts writes and
  reads, and that a frame longer than the receiver's buffer leaves the stream at the next frame.
\<close>

datatype rd_res = RBytes string | RIntr | RErr

text \<open>
  \<open>read_full\<close>: the \<open>len\<close> bytes and what is left to read; \<open>None\<close> for \<open>-1\<close>. A read never returns
  more than it was asked for: the rest of a delivery stays. An empty delivery, and the end of
  the script, is the end of the stream.
\<close>

fun read_full :: "rd_res list \<Rightarrow> nat \<Rightarrow> (string \<times> rd_res list) option" where
  "read_full env 0 = Some ([], env)"
| "read_full [] (Suc n) = None"
| "read_full (RIntr # env) (Suc n) = read_full env (Suc n)"
| "read_full (RErr # env) (Suc n) = None"
| "read_full (RBytes b # env) (Suc n) =
     (if b = [] then None
      else if length b \<le> Suc n
      then map_option (apfst (\<lambda>s. b @ s)) (read_full env (Suc n - length b))
      else Some (take (Suc n) b, RBytes (drop (Suc n) b) # env))"

text \<open>\<open>wire_header_t\<close>: two 32-bit words in the byte order of the host (little-endian here).\<close>

definition le32 :: "32 word \<Rightarrow> string" where
  "le32 w = (let n = unat w
             in map char_of [n mod 256, n div 256 mod 256, n div 65536 mod 256, n div 16777216 mod 256])"

definition un_le32 :: "string \<Rightarrow> 32 word" where
  "un_le32 s = of_nat (byte (s ! 0) + 256 * byte (s ! 1) + 65536 * byte (s ! 2) + 16777216 * byte (s ! 3))"

text \<open>
  The scripts are those of the two calls of \<open>write_all\<close>. Result: the bytes written and the
  return code.
\<close>

definition sock_send :: "io_res list \<Rightarrow> io_res list \<Rightarrow> 32 word \<Rightarrow> string option \<Rightarrow> 32 word \<Rightarrow> string \<times> int" where
  "sock_send e1 e2 type data len =
     (let (w1, ok1) = write_all e1 (le32 type @ le32 len)
      in if \<not> ok1 then (w1, -1)
         else if len > 0 \<and> data \<noteq> None
         then let (w2, ok2) = write_all e2 (take (unat len) (the data)) in (w1 @ w2, if ok2 then 0 else -1)
         else (w1, 0))"

function discard :: "rd_res list \<Rightarrow> nat \<Rightarrow> rd_res list option" where
  "discard env remaining =
     (if remaining = 0 then Some env
      else let chunk = (if remaining < 256 then remaining else 256)
           in case read_full env chunk of
                None \<Rightarrow> None
              | Some (_, env') \<Rightarrow> discard env' (remaining - chunk))"
  by pat_completeness auto
termination
  by (relation "measure snd") (auto split: if_splits)

declare discard.simps [simp del]

text \<open>Result: the type, the data, the returned length, and what is left to read.\<close>

definition sock_read_cmd :: "rd_res list \<Rightarrow> nat \<Rightarrow> (32 word \<times> string \<times> nat \<times> rd_res list) option" where
  "sock_read_cmd env max_len =
     (case read_full env 8 of
        None \<Rightarrow> None
      | Some (hdr, env1) \<Rightarrow>
          let type = un_le32 (take 4 hdr); len = unat (un_le32 (drop 4 hdr))
          in if len = 0 then Some (type, [], 0, env1)
             else let to_read = (if len < max_len - 1 then len else max_len - 1)
                  in case read_full env1 to_read of
                       None \<Rightarrow> None
                     | Some (data, env2) \<Rightarrow>
                         (case (if len > to_read then discard env2 (len - to_read) else Some env2) of
                            None \<Rightarrow> None
                          | Some env3 \<Rightarrow> Some (type, data, to_read, env3)))"

section \<open>Streams\<close>

text \<open>The bytes that reads deliver before an error or the end.\<close>

fun stream :: "rd_res list \<Rightarrow> string" where
  "stream [] = []"
| "stream (RIntr # env) = stream env"
| "stream (RErr # env) = []"
| "stream (RBytes b # env) = (if b = [] then [] else b @ stream env)"

lemma read_full_stream:
  "n \<le> length (stream env) \<Longrightarrow>
     \<exists>env'. read_full env n = Some (take n (stream env), env') \<and> stream env' = drop n (stream env)"
proof (induction env n rule: read_full.induct)
  case (5 b env n)
  show ?case
  proof (cases "b = [] \<or> Suc n < length b")
    case True
    with 5(2) show ?thesis by auto
  next
    case False
    with 5(2) have "Suc n - length b \<le> length (stream env)" by auto
    with 5(1) False obtain env' where
      "read_full env (Suc n - length b) = Some (take (Suc n - length b) (stream env), env')"
      "stream env' = drop (Suc n - length b) (stream env)" by auto
    with False show ?thesis by simp
  qed
qed auto

lemma read_full_short: "length (stream env) < n \<Longrightarrow> read_full env n = None"
  by (induction env n rule: read_full.induct) (auto split: if_splits)

lemma discard_stream:
  "n \<le> length (stream env) \<Longrightarrow> \<exists>env'. discard env n = Some env' \<and> stream env' = drop n (stream env)"
proof (induction env n rule: discard.induct)
  case (1 env n)
  show ?case
  proof (cases "n = 0")
    case False
    define c where "c = (if n < 256 then n else 256)"
    have c: "c \<le> n" by (simp add: c_def)
    obtain env1 where r: "read_full env c = Some (take c (stream env), env1)"
      and s: "stream env1 = drop c (stream env)"
      using read_full_stream [of c env] 1(2) c by auto
    have "n - c \<le> length (stream env1)" using 1(2) s by simp
    then obtain env2 where "discard env1 (n - c) = Some env2" "stream env2 = drop (n - c) (stream env1)"
      using 1(1) [OF False c_def r refl] by blast
    with False r s show ?thesis by (subst discard.simps) (use c in \<open>auto simp: Let_def c_def [symmetric]\<close>)
  qed (simp add: discard.simps)
qed

lemma discard_short: "length (stream env) < n \<Longrightarrow> discard env n = None"
proof (induction env n rule: discard.induct)
  case (1 env n)
  define c where "c = (if n < 256 then n else 256)"
  have n: "n \<noteq> 0" "c \<le> n" using 1(2) by (auto simp: c_def)
  show ?case
  proof (cases "length (stream env) < c")
    case True
    then show ?thesis using n by (subst discard.simps) (simp add: c_def [symmetric] read_full_short)
  next
    case False
    then obtain env1 where r: "read_full env c = Some (take c (stream env), env1)"
      and "stream env1 = drop c (stream env)"
      using read_full_stream [of c env] by auto
    with 1(2) False have "length (stream env1) < n - c" by simp
    then have "discard env1 (n - c) = None" using 1(1) [OF n(1) c_def r refl] by blast
    with n r show ?thesis by (subst discard.simps) (simp add: c_def [symmetric])
  qed
qed

section \<open>Headers\<close>

lemma length_le32 [simp]: "length (le32 w) = 4"
  by (simp add: le32_def Let_def)

lemma le32_digits:
  assumes "n < 4294967296"
  shows "n mod 256 + 256 * (n div 256 mod 256) + 65536 * (n div 65536 mod 256) + 16777216 * (n div 16777216 mod 256) = (n :: nat)"
proof -
  define a where "a = n div 256"
  define b where "b = a div 256"
  define c where "c = b div 256"
  have e: "n div 65536 = b" "n div 16777216 = c"
    unfolding a_def b_def c_def by (simp_all flip: div_mult2_eq)
  have "c < 256" using assms unfolding e(2) [symmetric] by (simp add: div_less_iff_less_mult)
  moreover have "n = a * 256 + n mod 256" "a = b * 256 + a mod 256" "b = c * 256 + b mod 256"
    by (simp_all add: a_def b_def c_def)
  ultimately show ?thesis unfolding e by (simp flip: a_def)
qed

lemma un_le32_le32 [simp]: "un_le32 (le32 w) = w"
proof -
  have "unat w < 4294967296" using unsigned_less [of w] by simp
  from arg_cong [OF le32_digits [OF this], of "of_nat :: nat \<Rightarrow> 32 word"] show ?thesis
    by (simp add: un_le32_def le32_def Let_def)
qed

lemma sock_send_ok:
  assumes "sock_send e1 e2 type (Some data) len = (w, 0)" "unat len = length data"
  shows "w = le32 type @ le32 len @ data"
proof -
  obtain w1 ok1 w2 ok2 where w: "write_all e1 (le32 type @ le32 len) = (w1, ok1)"
    "write_all e2 (take (unat len) data) = (w2, ok2)" by fastforce
  note p = write_all_prefix [OF w(1)] write_all_prefix [OF w(2)]
  show ?thesis
  proof (cases "len = 0")
    case True
    with assms w p show ?thesis by (auto simp: sock_send_def split: if_splits)
  next
    case False
    then have "len > 0" by (simp add: word_gt_0)
    with assms w p show ?thesis by (auto simp: sock_send_def split: if_splits)
  qed
qed

lemma sock_read_frame:
  assumes "stream env = le32 type @ le32 len @ data @ rest" "unat len = length data" "0 < max_len"
  shows "\<exists>env'. sock_read_cmd env max_len =
      Some (type, take (max_len - 1) data, min (length data) (max_len - 1), env') \<and> stream env' = rest"
proof -
  define k where "k = (if unat len < max_len - 1 then unat len else max_len - 1)"
  have k: "k = min (length data) (max_len - 1)" using assms(2) by (auto simp: k_def)
  obtain env1 where h: "read_full env 8 = Some (le32 type @ le32 len, env1)" "stream env1 = data @ rest"
    using read_full_stream [of 8 env] assms(1) by auto
  show ?thesis
  proof (cases "length data = 0")
    case True
    with h assms show ?thesis by (simp add: sock_read_cmd_def)
  next
    case False
    obtain env2 where d: "read_full env1 k = Some (take k data, env2)" "stream env2 = drop k data @ rest"
      using read_full_stream [of k env1] h(2) k by (auto simp: min_def split: if_splits)
    show ?thesis
    proof (cases "unat len > k")
      case True
      then obtain env3 where "discard env2 (unat len - k) = Some env3" "stream env3 = rest"
        using discard_stream [of "unat len - k" env2] d(2) assms(2) by (auto simp: diff_le_mono)
      with True h d False assms(2) k show ?thesis by (auto simp: sock_read_cmd_def Let_def k_def [symmetric])
    next
      case short: False
      then have "k = length data" using assms(2) k by auto
      with short h d False assms(2) k show ?thesis by (auto simp: sock_read_cmd_def Let_def k_def [symmetric])
    qed
  qed
qed

lemma sock_read_broken:
  assumes "stream env = take k (le32 type @ le32 len @ data)" "unat len = length data" "k < 8 + length data"
  shows "sock_read_cmd env max_len = None"
proof (cases "k < 8")
  case True
  then have "read_full env 8 = None" using assms(1) by (intro read_full_short) simp
  then show ?thesis by (simp add: sock_read_cmd_def)
next
  case False
  define j where "j = (if unat len < max_len - 1 then unat len else max_len - 1)"
  obtain env1 where h: "read_full env 8 = Some (le32 type @ le32 len, env1)" "stream env1 = take (k - 8) data"
    using read_full_stream [of 8 env] assms(1) False by auto
  have short: "length (stream env1) < length data" using h(2) assms(3) False by auto
  show ?thesis
  proof (cases "length (stream env1) < j")
    case True
    then have "read_full env1 j = None" by (rule read_full_short)
    with h short assms(2) show ?thesis by (auto simp: sock_read_cmd_def Let_def j_def split: if_splits)
  next
    case False
    then obtain env2 where d: "read_full env1 j = Some (take j (stream env1), env2)"
      "stream env2 = drop j (stream env1)"
      using read_full_stream [of j env1] by auto
    with False short assms(2) have "discard env2 (unat len - j) = None"
      by (intro discard_short) auto
    with h d short False assms(2) show ?thesis
      by (auto simp: sock_read_cmd_def Let_def j_def split: if_splits)
  qed
qed

section \<open>Properties\<close>

text \<open>
  A frame that \<open>sock_send\<close> reports as sent is the frame that \<open>sock_read_cmd\<close> returns, whatever
  partial writes, partial reads and interruptions cut it: the same type, and the data up to
  the receiver's buffer. Frames longer than the buffer are skipped to their end, so the
  next read starts at the next frame.
\<close>

theorem sock_frame_roundtrip:
  assumes "sock_send e1 e2 type (Some data) len = (w, 0)" "unat len = length data"
    "stream env = w @ rest" "0 < max_len"
  shows "\<exists>env'. sock_read_cmd env max_len =
      Some (type, take (max_len - 1) data, min (length data) (max_len - 1), env') \<and> stream env' = rest"
  using sock_read_frame [of env type len data rest max_len] sock_send_ok [OF assms(1,2)] assms(2-4)
  by simp

theorem sock_frame_roundtrip_witness:
  "\<exists>env'. sock_read_cmd [RBytes (take 5 (fst (sock_send [Wrote 3, EIntr] [] 2 (Some ''hello'') 5))), RIntr,
       RBytes (drop 5 (fst (sock_send [Wrote 3, EIntr] [] 2 (Some ''hello'') 5)) @ ''more'')] 4 =
     Some (2, ''hel'', 3, env') \<and> stream env' = ''more''"
proof -
  let ?w = "fst (sock_send [Wrote 3, EIntr] [] 2 (Some ''hello'') 5)"
  let ?env = "[RBytes (take 5 ?w), RIntr, RBytes (drop 5 ?w @ ''more'')]"
  have s: "sock_send [Wrote 3, EIntr] [] 2 (Some ''hello'') 5 = (le32 2 @ le32 5 @ ''hello'', 0)"
    by (simp add: sock_send_def le32_def)
  then have "stream ?env = (le32 2 @ le32 5 @ ''hello'') @ ''more''"
    by (simp add: le32_def)
  from sock_frame_roundtrip [OF s _ this, of 4] show ?thesis by (simp add: numeral_3_eq_3)
qed

text \<open>
  A connection that breaks inside a frame is reported: with fewer bytes than the header or the
  announced data, \<open>sock_read_cmd\<close> returns \<open>-1\<close> instead of a partial frame.
\<close>

theorem sock_read_cmd_broken:
  assumes "stream env = take k (le32 type @ le32 len @ data)" "unat len = length data"
    "k < 8 + length data"
  shows "sock_read_cmd env max_len = None"
  using sock_read_broken assms by blast

theorem sock_read_cmd_broken_witness:
  "sock_read_cmd [RBytes (le32 1 @ le32 5 @ ''hel''), RErr] 64 = None"
  by (rule sock_read_cmd_broken [where k = 11 and type = 1 and len = 5 and data = "''hello''"])
     (simp_all add: le32_def)

end
