(* ===== verification/Daemon.thy ===== *)
theory Daemon
  imports Config Sock
begin

text \<open>
  The event loop of \<open>src/daemon.c\<close>: starting sessions, the queue of owner messages, dispatch, the
  IRC link and the control socket. The state is the daemon with the file system; an operation
  returns the new state and what it did, in order (\<open>daemon_out\<close>). Sessions run in threads: a
  session that was started ends by a step of its own (\<open>session_end\<close>), between any two
  operations of the main thread.

  The lemmas show that the queue and the client table never overflow, that an agent runs one
  session at a time, that the owner's messages to an agent are handled in the order they came
  and before mail and tasks, and that reconnection attempts are spaced.
\<close>

datatype trigger_type = TRIG_IRC | TRIG_SCHEDULE | TRIG_AGENT_MSG

text \<open>
  What the daemon does: an owner message queued or refused (with a warning), a session started
  or not, bytes for a client, a descriptor closed, IRC output.
\<close>

datatype daemon_out =
    Queued nat string
  | Refused nat string
  | Started nat trigger_type string string
  | NotStarted nat trigger_type string
  | ToClient int string
  | Closed int
  | IrcOut irc_out

type_synonym dstate = "daemon_t \<times> fs"

section \<open>Sessions\<close>

definition set_agent :: "nat \<Rightarrow> (agent_ctx \<Rightarrow> agent_ctx) \<Rightarrow> daemon_t \<Rightarrow> daemon_t" where
  "set_agent i f d = d\<lparr>d_agents := (d_agents d)[i := f (d_agents d ! i)]\<rparr>"

text \<open>
  \<open>session_worker\<close> after \<open>agent_run_session\<close> returned: \<open>completed\<close> is its outcome, \<open>sid\<close> the
  session file or empty.
\<close>

definition session_end :: "cjson_api \<Rightarrow> wenv \<Rightarrow> string \<Rightarrow> int \<Rightarrow> bool \<Rightarrow> nat \<Rightarrow> string \<Rightarrow> dstate \<Rightarrow> dstate" where
  "session_end J e iso_now now completed i sid = (\<lambda>(d, fs).
     (set_agent i (\<lambda>a. a\<lparr>a_last_session := to_int32 (now div 1000), a_busy := False\<rparr>) d,
      if sid \<noteq> [] then fst (session_set_status J e iso_now (d_sessions d) (Some sid) (if completed then SESS_CLOSED else SESS_FAILED) fs) else fs))"

definition agent_idle :: "agent_ctx \<Rightarrow> int \<Rightarrow> bool" where
  "agent_idle a now_s \<longleftrightarrow> \<not> a_busy a \<and> now_s - a_last_session a \<ge> 5"

fun kinds :: "trigger_type \<Rightarrow> string" where
  "kinds TRIG_IRC = ''irc''"
| "kinds TRIG_SCHEDULE = ''schedule''"
| "kinds TRIG_AGENT_MSG = ''agent_message''"

record start_env =
  st_oom :: bool
  st_sid :: string
  st_now :: string
  st_create :: wenv
  st_mid :: string
  st_add :: wenv
  st_thread_fails :: bool
  st_status :: wenv

definition start_session :: "cjson_api \<Rightarrow> start_env \<Rightarrow> nat \<Rightarrow> trigger_type \<Rightarrow> string \<Rightarrow> string \<Rightarrow> dstate \<Rightarrow> dstate \<times> daemon_out list" where
  "start_session J e i type data initiator = (\<lambda>(d, fs).
     (if st_oom e then ((d, fs), [NotStarted i type data])
      else let name = a_name (d_agents d ! i);
               title = buf_set 128 (kinds type @ '' from '' @ initiator @ '' for '' @ name);
               (fs1, created) = session_create J (st_create e) (st_sid e) (st_now e) (d_sessions d) (kinds type) title (Some initiator) fs;
               sid = or_empty created;
               fs2 = (if type = TRIG_IRC
                      then fst (session_add_message J (st_add e) (st_mid e) (st_now e) (d_sessions d) (Some sid) ''owner'' (Some name) data MSG_TEXT fs1)
                      else fs1)
           in if st_thread_fails e
              then ((d, if sid \<noteq> [] then fst (session_set_status J (st_status e) (st_now e) (d_sessions d) (Some sid) SESS_FAILED fs2) else fs2),
                    [NotStarted i type data])
              else ((set_agent i (\<lambda>a. a\<lparr>a_busy := True\<rparr>) d, fs2), [Started i type data sid])))"

section \<open>The queue of owner messages\<close>

definition enqueue_trigger :: "bool \<Rightarrow> nat \<Rightarrow> string option \<Rightarrow> daemon_t \<Rightarrow> daemon_t \<times> daemon_out list" where
  "enqueue_trigger oom i tx d =
     (if oom \<or> length (d_queue d) \<ge> 64 then (d, [Refused i (or_empty tx)])
      else (d\<lparr>d_queue := d_queue d @ [(i, or_empty tx)]\<rparr>, [Queued i (or_empty tx)]))"

definition addressed :: "string \<Rightarrow> daemon_t \<Rightarrow> nat list" where
  "addressed agent d =
     filter (\<lambda>i. strcaseeq agent ''all'' \<or> strcaseeq agent (a_name (d_agents d ! i))) [0..<length (d_agents d)]"

fun enqueue_all :: "(nat \<Rightarrow> bool) \<Rightarrow> string option \<Rightarrow> nat list \<Rightarrow> daemon_t \<Rightarrow> daemon_t \<times> daemon_out list" where
  "enqueue_all oom tx [] d = (d, [])"
| "enqueue_all oom tx (i # is) d =
     (let (d1, o1) = enqueue_trigger (oom i) i tx d; (d2, o2) = enqueue_all oom tx is d1 in (d2, o1 @ o2))"

definition on_irc_trigger :: "(nat \<Rightarrow> bool) \<Rightarrow> string \<Rightarrow> string option \<Rightarrow> daemon_t \<Rightarrow> daemon_t \<times> daemon_out list" where
  "on_irc_trigger oom agent tx d = enqueue_all oom tx (addressed agent d) d"

definition queued_for :: "nat \<Rightarrow> daemon_t \<Rightarrow> bool" where
  "queued_for i d \<longleftrightarrow> list_ex (\<lambda>t. fst t = i) (d_queue d)"

section \<open>Dispatch\<close>

text \<open>The first loop: what stays in the queue is \<open>kept\<close>; each start has its own environment.\<close>

fun dispatch_queue :: "cjson_api \<Rightarrow> (nat \<Rightarrow> start_env) \<Rightarrow> int \<Rightarrow> (nat \<times> string) list \<Rightarrow> (nat \<times> string) list \<Rightarrow> dstate \<Rightarrow> dstate \<times> daemon_out list" where
  "dispatch_queue J env now_s [] kept (d, fs) = ((d\<lparr>d_queue := kept\<rparr>, fs), [])"
| "dispatch_queue J env now_s (t # ts) kept (d, fs) =
     (if \<not> agent_idle (d_agents d ! fst t) now_s then dispatch_queue J env now_s ts (kept @ [t]) (d, fs)
      else let (s1, o1) = start_session J (env (length ts)) (fst t) TRIG_IRC (snd t) ''owner'' (d, fs);
               (s2, o2) = dispatch_queue J env now_s ts kept s1
           in (s2, o1 @ o2))"

record disp_env =
  di_readdir :: "fs \<Rightarrow> string \<Rightarrow> string list option"
  di_start :: start_env
  di_time :: time
  di_mark :: wenv

definition task_id_items :: "cjson_api \<Rightarrow> cjson list \<Rightarrow> cjson list" where
  "task_id_items J tasks = List.map_filter (\<lambda>t. map_option CString (j_str J t ''id'')) tasks"

text \<open>The body of the second loop, for an agent that is idle and has no message waiting.\<close>

definition dispatch_agent :: "cjson_api \<Rightarrow> tzone \<Rightarrow> disp_env \<Rightarrow> bool \<Rightarrow> nat \<Rightarrow> dstate \<Rightarrow> dstate \<times> daemon_out list" where
  "dispatch_agent J tz e check_schedule i = (\<lambda>(d, fs).
     (let a = d_agents d ! i;
          (fs1, msgs) = messenger_receive J (d_messenger d) (a_name a) (di_readdir e fs (buf_set 4200 (ms_dir (d_messenger d) @ ''/'' @ a_name a))) fs
      in if msgs \<noteq> []
         then case cJSON_PrintUnformatted J (CArray msgs) of
                None \<Rightarrow> ((d, fs1), [])
              | Some json \<Rightarrow> start_session J (di_start e) i TRIG_AGENT_MSG json
                               (case j_str J (hd msgs) ''from'' of Some f \<Rightarrow> f | None \<Rightarrow> ''unknown'') (d, fs1)
         else if \<not> check_schedule then ((d, fs1), [])
         else let items = sched_get_due J tz (di_time e) (a_scheduler a) fs1
              in if items = [] then ((d, fs1), [])
                 else let ((d2, fs2), outs) = (case cJSON_PrintUnformatted J (CArray items) of
                                                 None \<Rightarrow> ((d, fs1), [])
                                               | Some json \<Rightarrow> start_session J (di_start e) i TRIG_SCHEDULE json ''scheduler'' (d, fs1))
                      in ((d2, sched_mark_done J tz (di_mark e) (di_time e) (a_scheduler a) (task_id_items J items) fs2), outs)))"

fun dispatch_agents :: "cjson_api \<Rightarrow> tzone \<Rightarrow> (nat \<Rightarrow> disp_env) \<Rightarrow> int \<Rightarrow> bool \<Rightarrow> nat list \<Rightarrow> dstate \<Rightarrow> dstate \<times> daemon_out list" where
  "dispatch_agents J tz env now_s check_schedule [] s = (s, [])"
| "dispatch_agents J tz env now_s check_schedule (i # is) (d, fs) =
     (let (s1, o1) = (if \<not> agent_idle (d_agents d ! i) now_s \<or> queued_for i d then ((d, fs), [])
                      else dispatch_agent J tz (env i) check_schedule i (d, fs));
          (s2, o2) = dispatch_agents J tz env now_s check_schedule is s1
      in (s2, o1 @ o2))"

definition dispatch :: "cjson_api \<Rightarrow> tzone \<Rightarrow> (nat \<Rightarrow> start_env) \<Rightarrow> (nat \<Rightarrow> disp_env) \<Rightarrow> int \<Rightarrow> bool \<Rightarrow> dstate \<Rightarrow> dstate \<times> daemon_out list" where
  "dispatch J tz senv env now check_schedule = (\<lambda>(d, fs).
     (let now_s = to_int32 (now div 1000);
          (s1, o1) = dispatch_queue J senv now_s (d_queue d) [] (d, fs);
          (s2, o2) = dispatch_agents J tz env now_s check_schedule [0..<length (d_agents d)] s1
      in (s2, o1 @ o2)))"

section \<open>The IRC link\<close>

definition irc_lost :: "int \<Rightarrow> daemon_t \<Rightarrow> daemon_t \<times> daemon_out list" where
  "irc_lost now d =
     (let (irc', outs) = irc_disconnect (d_irc d);
          b = (if d_irc_backoff d \<noteq> 0 then d_irc_backoff d * 2 else 5);
          b' = (if b > 300 then 300 else b)
      in (d\<lparr>d_irc := irc', d_irc_backoff := b', d_irc_retry_at := now + b' * 1000\<rparr>, map IrcOut outs))"

record link_env =
  le_conn :: "int option"
  le_tls_ok :: bool
  le_hs_closed :: bool
  le_now :: int

text \<open>\<open>le_now\<close> is the clock during the call: read by \<open>irc_keepalive\<close>, \<open>irc_connect\<close> and after a failed attempt.\<close>

definition irc_maintain :: "link_env \<Rightarrow> int \<Rightarrow> daemon_t \<Rightarrow> daemon_t \<times> daemon_out list" where
  "irc_maintain e now d =
     (if fd (d_irc d) \<ge> 0
      then let d1 = (if registered (d_irc d) then d\<lparr>d_irc_backoff := 0\<rparr> else d);
               (irc', outs, rc) = irc_keepalive (le_now e) (d_irc d1);
               d2 = d1\<lparr>d_irc := irc'\<rparr>
           in if rc < 0 then let (d3, outs') = irc_lost now d2 in (d3, map IrcOut outs @ outs') else (d2, map IrcOut outs)
      else if now < d_irc_retry_at d then (d, [])
      else let (irc', outs, rc) = irc_connect (le_conn e) (le_tls_ok e) (le_hs_closed e) (le_now e) (d_irc_port d) (d_irc d);
               d1 = d\<lparr>d_irc := irc'\<rparr>
           in if rc = 0 then (d1, map IrcOut outs)
              else let b = (if d_irc_backoff d \<noteq> 0 then d_irc_backoff d * 2 else 30);
                       b' = (if b > 300 then 300 else b)
                   in (d1\<lparr>d_irc_backoff := b', d_irc_retry_at := le_now e + b' * 1000\<rparr>, map IrcOut outs))"

text \<open>What \<open>irc_poll\<close> makes the daemon do: each trigger goes to the queue as it comes, other output leaves.\<close>

fun route_triggers :: "(nat \<Rightarrow> bool) \<Rightarrow> irc_out list \<Rightarrow> daemon_t \<Rightarrow> daemon_t \<times> daemon_out list" where
  "route_triggers oom [] d = (d, [])"
| "route_triggers oom (x # xs) d =
     (let (d1, o1) = (case x of Trigger agent who tx \<Rightarrow> on_irc_trigger oom agent (Some tx) d | _ \<Rightarrow> (d, [IrcOut x]));
          (d2, o2) = route_triggers oom xs d1
      in (d2, o1 @ o2))"

definition irc_ready :: "(nat \<Rightarrow> bool) \<Rightarrow> ((int \<times> string) option \<times> bool) list \<Rightarrow> int \<Rightarrow> daemon_t \<Rightarrow> daemon_t \<times> daemon_out list" where
  "irc_ready oom rds now d =
     (let (irc', outs, rc) = irc_poll rds (d_irc d);
          (d1, o1) = route_triggers oom outs (d\<lparr>d_irc := irc'\<rparr>)
      in if rc < 0 then let (d2, o2) = irc_lost now d1 in (d2, o1 @ o2) else (d1, o1))"

section \<open>The control socket\<close>

definition SOCK_CMD_ATTACH :: "32 word" where "SOCK_CMD_ATTACH = 1"
definition SOCK_CMD_DETACH :: "32 word" where "SOCK_CMD_DETACH = 3"
definition SOCK_CMD_STATUS :: "32 word" where "SOCK_CMD_STATUS = 4"
definition SOCK_CMD_MSG :: "32 word" where "SOCK_CMD_MSG = 5"
definition SOCK_CMD_STOP :: "32 word" where "SOCK_CMD_STOP = 6"
definition SOCK_CMD_IRC_INFO :: "32 word" where "SOCK_CMD_IRC_INFO = 7"

lemmas sock_cmds = SOCK_CMD_ATTACH_def SOCK_CMD_DETACH_def SOCK_CMD_STATUS_def SOCK_CMD_MSG_def SOCK_CMD_STOP_def SOCK_CMD_IRC_INFO_def

definition agent_status :: "cjson_api \<Rightarrow> agent_ctx \<Rightarrow> cjson" where
  "agent_status J a =
     (let model = buf_set 128 (provider_name (a_provider a) @ ''/'' @ pr_model (a_provider a))
      in cJSON_AddItemToObject J (add_string J ''model'' model (add_string J ''name'' (a_name a) (CObject []))) ''busy'' (CBool (a_busy a)))"

definition status_json :: "cjson_api \<Rightarrow> daemon_t \<Rightarrow> cjson" where
  "status_json J d =
     (let agents = fold (\<lambda>a arr. cJSON_AddItemToArray J arr (agent_status J a)) (d_agents d) (CArray []);
          st = cJSON_AddItemToObject J (CObject []) ''agents'' agents;
          st = add_string J ''irc'' (if \<not> enabled (d_irc d) then ''disabled'' else if fd (d_irc d) \<ge> 0 then ''connected'' else ''disconnected'') st;
          n = int (length (d_queue d))
      in cJSON_AddItemToObject J st ''queued'' (CNumber n (of_int n)))"

record client_env =
  cl_reads :: "rd_res list"
  cl_hdr :: "io_res list"
  cl_body :: "io_res list"
  cl_oom :: "nat \<Rightarrow> bool"

definition send_status :: "cjson_api \<Rightarrow> client_env \<Rightarrow> daemon_t \<Rightarrow> int \<Rightarrow> daemon_out list" where
  "send_status J e d client =
     (case cJSON_PrintUnformatted J (status_json J d) of
        None \<Rightarrow> []
      | Some json \<Rightarrow> [ToClient client (fst (sock_send (cl_hdr e) (cl_body e) 2 (Some json) (of_nat (length json))))])"

definition route_msg :: "(nat \<Rightarrow> bool) \<Rightarrow> string \<Rightarrow> daemon_t \<Rightarrow> daemon_t \<times> daemon_out list" where
  "route_msg oom data d =
     (case strchr NUL data of
        None \<Rightarrow> (d, [])
      | Some rest \<Rightarrow> on_irc_trigger oom (before NUL data) (Some (cstr (tl rest))) d)"

definition remove_tui_client :: "daemon_t \<Rightarrow> nat \<Rightarrow> daemon_t \<times> daemon_out list" where
  "remove_tui_client d i =
     (d\<lparr>d_tui_clients := butlast ((d_tui_clients d)[i := last (d_tui_clients d)])\<rparr>, [Closed (d_tui_clients d ! i)])"

text \<open>\<open>accepted\<close> is the descriptor of \<open>accept\<close>, \<open>None\<close> when it fails. A frame has at most 4095 bytes.\<close>

definition handle_new_client :: "cjson_api \<Rightarrow> client_env \<Rightarrow> int option \<Rightarrow> daemon_t \<Rightarrow> daemon_t \<times> daemon_out list" where
  "handle_new_client J e accepted d =
     (case accepted of
        None \<Rightarrow> (d, [])
      | Some client \<Rightarrow>
          (case sock_read_cmd (cl_reads e) 4096 of
             None \<Rightarrow> (d, [Closed client])
           | Some (type, data, len, rest) \<Rightarrow>
               if type = SOCK_CMD_STOP then (d\<lparr>d_shutdown := True\<rparr>, [Closed client])
               else if type = SOCK_CMD_STATUS then (d, send_status J e d client @ [Closed client])
               else if type = SOCK_CMD_IRC_INFO
               then (let info = irc_info d (nick (d_irc d))
                     in (d, [ToClient client (fst (sock_send (cl_hdr e) (cl_body e) 3 (Some (buf_set 512 info)) (of_nat (length info)))), Closed client]))
               else if type = SOCK_CMD_ATTACH
               then (if length (d_tui_clients d) < 8 then (d\<lparr>d_tui_clients := d_tui_clients d @ [client]\<rparr>, []) else (d, [Closed client]))
               else if type = SOCK_CMD_MSG then (let (d', outs) = route_msg (cl_oom e) data d in (d', outs @ [Closed client]))
               else (d, [Closed client])))"

fun index_of :: "'a \<Rightarrow> 'a list \<Rightarrow> nat option" where
  "index_of x [] = None"
| "index_of x (y # ys) = (if y = x then Some 0 else map_option Suc (index_of x ys))"

definition handle_tui_client :: "client_env \<Rightarrow> int \<Rightarrow> bool \<Rightarrow> daemon_t \<Rightarrow> daemon_t \<times> daemon_out list" where
  "handle_tui_client e cfd pollin d =
     (case index_of cfd (d_tui_clients d) of
        None \<Rightarrow> (d, [])
      | Some i \<Rightarrow>
          (case (if pollin then sock_read_cmd (cl_reads e) 4096 else None) of
             None \<Rightarrow> remove_tui_client d i
           | Some (type, data, len, rest) \<Rightarrow>
               if type = SOCK_CMD_DETACH then remove_tui_client d i
               else if type = SOCK_CMD_MSG then route_msg (cl_oom e) data d
               else (d, [])))"

text \<open>Per client: the two scripts of \<open>sock_send\<close>. Result: the bytes for each client and whether its connection is shut down.\<close>

definition daemon_tui_broadcast :: "(int \<Rightarrow> io_res list \<times> io_res list) \<Rightarrow> daemon_t \<Rightarrow> string option \<Rightarrow> string option \<Rightarrow> (int \<times> string \<times> bool) list" where
  "daemon_tui_broadcast env d agent tx =
     (if \<not> given tx then []
      else let line = buf_set 4096 ((case agent of Some a \<Rightarrow> a @ '': '' | None \<Rightarrow> []) @ the tx)
           in map (\<lambda>c. let (w, rc) = sock_send (fst (env c)) (snd (env c)) 1 (Some line) (of_nat (length line)) in (c, w, rc \<noteq> 0))
                (d_tui_clients d))"

section \<open>One round of the event loop\<close>

record round_env =
  r_now :: int
  r_irc :: "((int \<times> string) option \<times> bool) list option"
  r_irc_oom :: "nat \<Rightarrow> bool"
  r_new :: "(client_env \<times> int option) option"
  r_tui :: "(client_env \<times> int \<times> bool) list"
  r_link :: link_env
  r_start :: "nat \<Rightarrow> start_env"
  r_disp :: "nat \<Rightarrow> disp_env"
  r_disp_now :: int

fun tui_clients :: "(client_env \<times> int \<times> bool) list \<Rightarrow> daemon_t \<Rightarrow> daemon_t \<times> daemon_out list" where
  "tui_clients [] d = (d, [])"
| "tui_clients ((e, cfd, pollin) # cs) d =
     (let (d1, o1) = handle_tui_client e cfd pollin d; (d2, o2) = tui_clients cs d1 in (d2, o1 @ o2))"

text \<open>
  \<open>r_irc\<close>: the reads when the IRC descriptor is ready; \<open>r_new\<close>: a pending connection; \<open>r_tui\<close>: the ready
  clients. The second result is the new \<open>last_sched\<close>. Loading plugins changes nothing here.
\<close>

definition daemon_round :: "cjson_api \<Rightarrow> tzone \<Rightarrow> round_env \<Rightarrow> int \<Rightarrow> dstate \<Rightarrow> dstate \<times> int \<times> daemon_out list" where
  "daemon_round J tz e last_sched = (\<lambda>(d, fs).
     (let (d1, o1) = (case r_irc e of Some rds \<Rightarrow> if fd (d_irc d) \<ge> 0 then irc_ready (r_irc_oom e) rds (r_now e) d else (d, []) | None \<Rightarrow> (d, []));
          (d2, o2) = (case r_new e of Some (ce, accepted) \<Rightarrow> handle_new_client J ce accepted d1 | None \<Rightarrow> (d1, []));
          (d3, o3) = tui_clients (r_tui e) d2;
          (d4, o4) = (if enabled (d_irc d3) then irc_maintain (r_link e) (r_now e) d3 else (d3, []));
          due = (r_now e - last_sched \<ge> 5000);
          (s5, o5) = dispatch J tz (r_start e) (r_disp e) (r_disp_now e) due (d4, fs)
      in (s5, if due then r_now e else last_sched, o1 @ o2 @ o3 @ o4 @ o5)))"

text \<open>After the loop: the link is closed, clients get a goodbye and are closed, what is queued is dropped.\<close>

definition daemon_stop :: "(int \<Rightarrow> io_res list \<times> io_res list) \<Rightarrow> dstate \<Rightarrow> dstate \<times> daemon_out list" where
  "daemon_stop env = (\<lambda>(d, fs).
     (let (irc', outs) = irc_disconnect (d_irc d)
      in ((d\<lparr>d_irc := irc', d_tui_clients := [], d_queue := []\<rparr>, if d_sock_fd d \<ge> 0 then fs(d_socket_path d := None) else fs),
          map IrcOut outs @
          concat (map (\<lambda>c. [ToClient c (fst (sock_send (fst (env c)) (snd (env c)) 5 (Some ''shutdown'') 8)), Closed c]) (d_tui_clients d)) @
          (if d_sock_fd d \<ge> 0 then [Closed (d_sock_fd d)] else []))))"

section \<open>Starting sessions\<close>

text \<open>The sessions started by a sequence of actions: the agent and the session file.\<close>

definition starts :: "daemon_out list \<Rightarrow> (nat \<times> string) list" where
  "starts outs = List.map_filter (\<lambda>x. case x of Started i t tx sid \<Rightarrow> Some (i, sid) | _ \<Rightarrow> None) outs"

lemma starts_simps [simp]:
  "starts [] = []" "starts (Started i t tx sid # outs) = (i, sid) # starts outs" "starts (NotStarted i t tx # outs) = starts outs"
  "starts (Queued i tx # outs) = starts outs" "starts (Refused i tx # outs) = starts outs" "starts (ToClient c b # outs) = starts outs"
  "starts (Closed c # outs) = starts outs" "starts (IrcOut x # outs) = starts outs" "starts (xs @ outs) = starts xs @ starts outs"
  by (simp_all add: starts_def List.map_filter_def)

text \<open>
  What starting sessions does to the daemon: only idle agents are used, each at most once, and
  they become busy; nothing but the agents and the queue changes.
\<close>

definition started :: "int \<Rightarrow> daemon_t \<Rightarrow> daemon_out list \<Rightarrow> daemon_t \<Rightarrow> bool" where
  "started now_s d outs d' \<longleftrightarrow>
     d' = d\<lparr>d_agents := d_agents d', d_queue := d_queue d'\<rparr> \<and> length (d_agents d') = length (d_agents d) \<and>
     distinct (map fst (starts outs)) \<and>
     (\<forall>j \<in> fst ` set (starts outs). j < length (d_agents d) \<and> agent_idle (d_agents d ! j) now_s) \<and>
     (\<forall>j < length (d_agents d). d_agents d' ! j =
        (if j \<in> fst ` set (starts outs) then (d_agents d ! j)\<lparr>a_busy := True\<rparr> else d_agents d ! j))"

lemma started_none: "starts outs = [] \<Longrightarrow> started now_s d outs d"
  by (simp add: started_def)

lemma started_queue: "starts outs = [] \<Longrightarrow> started now_s d outs (d\<lparr>d_queue := q\<rparr>)"
  by (simp add: started_def)

lemma started_trans:
  assumes "started now_s d o1 d1" "started now_s d1 o2 d2"
  shows "started now_s d (o1 @ o2) d2"
proof -
  let ?n = "length (d_agents d)" and ?s1 = "fst ` set (starts o1)" and ?s2 = "fst ` set (starts o2)"
  have n: "length (d_agents d1) = ?n" "length (d_agents d2) = ?n" using assms by (simp_all add: started_def)
  have a1: "d_agents d1 ! j = (if j \<in> ?s1 then (d_agents d ! j)\<lparr>a_busy := True\<rparr> else d_agents d ! j)" if "j < ?n" for j
    using assms(1) that by (simp add: started_def)
  have a2: "d_agents d2 ! j = (if j \<in> ?s2 then (d_agents d1 ! j)\<lparr>a_busy := True\<rparr> else d_agents d1 ! j)" if "j < ?n" for j
    using assms(2) that n(1) by (simp add: started_def)
  have i2: "j < ?n \<and> agent_idle (d_agents d1 ! j) now_s" if "j \<in> ?s2" for j
    using assms(2) that n(1) by (auto simp: started_def)
  have disj: "?s1 \<inter> ?s2 = {}"
  proof (rule ccontr)
    assume "?s1 \<inter> ?s2 \<noteq> {}"
    then obtain j where j: "j \<in> ?s1" "j \<in> ?s2" by blast
    with i2 [OF j(2)] a1 [of j] show False by (simp add: agent_idle_def)
  qed
  have i2': "agent_idle (d_agents d ! j) now_s" if "j \<in> ?s2" for j
    using i2 [OF that] a1 [of j] disj that by (auto split: if_splits)
  have "d2 = d\<lparr>d_agents := d_agents d2, d_queue := d_queue d2\<rparr>"
  proof -
    have e: "d1 = d\<lparr>d_agents := d_agents d1, d_queue := d_queue d1\<rparr>" "d2 = d1\<lparr>d_agents := d_agents d2, d_queue := d_queue d2\<rparr>"
      using assms by (simp_all add: started_def)
    show ?thesis by (subst e(2), subst e(1)) simp
  qed
  moreover have "distinct (map fst (starts (o1 @ o2)))"
    using assms disj by (auto simp: started_def)
  moreover have "\<forall>j \<in> fst ` set (starts (o1 @ o2)). j < ?n \<and> agent_idle (d_agents d ! j) now_s"
    using assms(1) i2 i2' by (auto simp: started_def)
  moreover have "\<forall>j < ?n. d_agents d2 ! j =
      (if j \<in> fst ` set (starts (o1 @ o2)) then (d_agents d ! j)\<lparr>a_busy := True\<rparr> else d_agents d ! j)"
    using a1 a2 by auto
  ultimately show ?thesis using n(2) by (simp add: started_def)
qed

lemma start_session_started:
  assumes "start_session J e i t data ini (d, fs) = ((d', fs'), outs)" "i < length (d_agents d)" "agent_idle (d_agents d ! i) now_s"
  shows "started now_s d outs d' \<and> d_queue d' = d_queue d \<and>
     (outs = [NotStarted i t data] \<and> d' = d \<or> (\<exists>sid. outs = [Started i t data sid]))"
  using assms
  by (auto simp: start_session_def started_def set_agent_def Let_def split: if_splits prod.splits)

lemma started_not_idle:
  "started now_s d outs d' \<Longrightarrow> j < length (d_agents d) \<Longrightarrow> \<not> agent_idle (d_agents d ! j) now_s \<Longrightarrow> \<not> agent_idle (d_agents d' ! j) now_s"
  by (auto simp: started_def agent_idle_def)

section \<open>Order of the owner's messages\<close>

definition texts_for :: "nat \<Rightarrow> (nat \<times> string) list \<Rightarrow> string list" where
  "texts_for i q = map snd (filter (\<lambda>t. fst t = i) q)"

definition queued_texts :: "nat \<Rightarrow> daemon_out list \<Rightarrow> string list" where
  "queued_texts i outs = concat (map (\<lambda>x. case x of Queued j tx \<Rightarrow> if j = i then [tx] else [] | _ \<Rightarrow> []) outs)"

definition handled_texts :: "nat \<Rightarrow> daemon_out list \<Rightarrow> string list" where
  "handled_texts i outs = concat (map (\<lambda>x. case x of
       Started j t tx sid \<Rightarrow> if j = i \<and> t = TRIG_IRC then [tx] else []
     | NotStarted j t tx \<Rightarrow> if j = i \<and> t = TRIG_IRC then [tx] else [] | _ \<Rightarrow> []) outs)"

lemma texts_append [simp]:
  "texts_for i (a @ b) = texts_for i a @ texts_for i b" "queued_texts i (o1 @ o2) = queued_texts i o1 @ queued_texts i o2"
  "handled_texts i (o1 @ o2) = handled_texts i o1 @ handled_texts i o2"
  by (simp_all add: texts_for_def queued_texts_def handled_texts_def)

text \<open>First in, first out, for every agent: what was queued and what is added is what is handled and what stays.\<close>

definition fifo :: "daemon_t \<Rightarrow> daemon_out list \<Rightarrow> daemon_t \<Rightarrow> bool" where
  "fifo d outs d' \<longleftrightarrow> (\<forall>i. texts_for i (d_queue d) @ queued_texts i outs = handled_texts i outs @ texts_for i (d_queue d'))"

lemma fifo_trans: "fifo d o1 d1 \<Longrightarrow> fifo d1 o2 d2 \<Longrightarrow> fifo d (o1 @ o2) d2"
  by (simp add: fifo_def) (metis append_assoc)

lemma fifo_quiet: "d_queue d' = d_queue d \<Longrightarrow> \<forall>i. queued_texts i outs = [] \<and> handled_texts i outs = [] \<Longrightarrow> fifo d outs d'"
  by (simp add: fifo_def)

lemma dispatch_queue_started:
  assumes "dispatch_queue J env now_s ts kept (d, fs) = ((d', fs'), outs)" "\<forall>t \<in> set ts. fst t < length (d_agents d)"
  shows "started now_s d outs d'"
  using assms
proof (induction J env now_s ts kept "(d, fs)" arbitrary: d fs outs rule: dispatch_queue.induct)
  case (1 J env now_s kept d fs)
  then show ?case by (auto intro: started_queue)
next
  case (2 J env now_s t ts kept d fs)
  show ?case
  proof (cases "agent_idle (d_agents d ! fst t) now_s")
    case False
    with 2 show ?thesis by auto
  next
    case True
    obtain d1 fs1 o1 where s1: "start_session J (env (length ts)) (fst t) TRIG_IRC (snd t) ''owner'' (d, fs) = ((d1, fs1), o1)"
      by (metis prod.exhaust)
    obtain o2 where s2: "dispatch_queue J env now_s ts kept (d1, fs1) = ((d', fs'), o2)" "outs = o1 @ o2"
      using 2(3) True s1 by (auto split: prod.splits)
    from start_session_started [OF s1 _ True] 2(4) have st: "started now_s d o1 d1" by simp
    then have "length (d_agents d1) = length (d_agents d)" by (simp add: started_def)
    with 2(2) [OF _ s1 [symmetric] refl s2(1)] 2(4) True have "started now_s d1 o2 d'" by simp
    with started_trans [OF st] s2(2) show ?thesis by simp
  qed
qed

lemma dispatch_queue_fifo:
  assumes "dispatch_queue J env now_s ts kept (d, fs) = ((d', fs'), outs)" "\<forall>t \<in> set (kept @ ts). fst t < length (d_agents d)"
    "\<forall>t \<in> set kept. \<not> agent_idle (d_agents d ! fst t) now_s"
  shows "texts_for i kept @ texts_for i ts = handled_texts i outs @ texts_for i (d_queue d') \<and> queued_texts i outs = []"
  using assms
proof (induction J env now_s ts kept "(d, fs)" arbitrary: d fs outs rule: dispatch_queue.induct)
  case (1 J env now_s kept d fs)
  then show ?case by (auto simp: texts_for_def handled_texts_def queued_texts_def)
next
  case (2 J env now_s t ts kept d fs)
  show ?case
  proof (cases "agent_idle (d_agents d ! fst t) now_s")
    case False
    with 2(1,3-5) show ?thesis by (auto simp: texts_for_def)
  next
    case True
    obtain d1 fs1 o1 where s1: "start_session J (env (length ts)) (fst t) TRIG_IRC (snd t) ''owner'' (d, fs) = ((d1, fs1), o1)"
      by (metis prod.exhaust)
    obtain o2 where s2: "dispatch_queue J env now_s ts kept (d1, fs1) = ((d', fs'), o2)" "outs = o1 @ o2"
      using 2(3) True s1 by (auto split: prod.splits)
    note s = start_session_started [OF s1 _ True]
    have n: "length (d_agents d1) = length (d_agents d)" using s 2(4) by (simp add: started_def)
    have st: "started now_s d o1 d1" using s 2(4) by simp
    have "\<forall>t \<in> set kept. \<not> agent_idle (d_agents d1 ! fst t) now_s"
      using 2(4,5) started_not_idle [OF st] by fastforce
    with 2(2) [OF _ s1 [symmetric] refl s2(1)] 2(4) n True
    have IH: "texts_for i kept @ texts_for i ts = handled_texts i o2 @ texts_for i (d_queue d') \<and> queued_texts i o2 = []" by simp
    have h: "handled_texts i o1 = (if fst t = i then [snd t] else [])" "queued_texts i o1 = []"
      using s 2(4) by (auto simp: handled_texts_def queued_texts_def)
    have "texts_for i kept = []" if "fst t = i" using 2(5) True that by (auto simp: texts_for_def filter_empty_conv)
    with IH h s2(2) show ?thesis by (cases "fst t = i") (auto simp: texts_for_def)
  qed
qed

section \<open>Mail and tasks\<close>

text \<open>The actions of the second loop: sessions for mail and tasks, of agents without a waiting message.\<close>

definition mail_or_task :: "daemon_t \<Rightarrow> daemon_out \<Rightarrow> bool" where
  "mail_or_task d x = (case x of
       Started i t tx sid \<Rightarrow> t \<noteq> TRIG_IRC \<and> \<not> queued_for i d
     | NotStarted i t tx \<Rightarrow> t \<noteq> TRIG_IRC \<and> \<not> queued_for i d
     | _ \<Rightarrow> False)"

lemma mail_or_task_quiet:
  "list_all (mail_or_task d) outs \<Longrightarrow> queued_texts i outs = [] \<and> handled_texts i outs = []"
  by (induction outs) (auto simp: mail_or_task_def queued_texts_def handled_texts_def split: daemon_out.splits)

lemma dispatch_agent_started:
  assumes "dispatch_agent J tz e chk i (d, fs) = ((d', fs'), outs)" "i < length (d_agents d)" "agent_idle (d_agents d ! i) now_s"
    "\<not> queued_for i d"
  shows "started now_s d outs d' \<and> d_queue d' = d_queue d \<and> list_all (mail_or_task d) outs"
proof -
  have st: "started now_s d o1 d1 \<and> d_queue d1 = d_queue d \<and> list_all (mail_or_task d) o1"
    if "start_session J se i t data ini (d, fs1) = ((d1, fs2), o1)" "t \<noteq> TRIG_IRC" for se t data ini fs1 d1 fs2 o1
    using start_session_started [OF that(1) assms(2,3)] that(2) assms(4) by (auto simp: mail_or_task_def)
  have none: "started now_s d [] d" by (simp add: started_none)
  obtain fs1 msgs where r: "messenger_receive J (d_messenger d) (a_name (d_agents d ! i))
      (di_readdir e fs (buf_set 4200 (ms_dir (d_messenger d) @ ''/'' @ a_name (d_agents d ! i)))) fs = (fs1, msgs)" by fastforce
  let ?due = "sched_get_due J tz (di_time e) (a_scheduler (d_agents d ! i)) fs1"
  consider (mail) "msgs \<noteq> []" | (calm) "msgs = []" "\<not> chk \<or> ?due = []" | (tasks) "msgs = []" "chk" "?due \<noteq> []" by blast
  then show ?thesis
  proof cases
    case mail
    then show ?thesis
      using assms(1) r st none by (cases "cJSON_PrintUnformatted J (CArray msgs)") (auto simp: dispatch_agent_def)
  next
    case calm
    then have "((d, fs1), []) = ((d', fs'), outs)" using assms(1) r by (cases chk) (simp_all add: dispatch_agent_def Let_def)
    then show ?thesis using none by simp
  next
    case tasks
    then have *: "(let ((d2, fs2), outs) = (case cJSON_PrintUnformatted J (CArray ?due) of None \<Rightarrow> ((d, fs1), [])
          | Some json \<Rightarrow> start_session J (di_start e) i TRIG_SCHEDULE json ''scheduler'' (d, fs1))
        in ((d2, sched_mark_done J tz (di_mark e) (di_time e) (a_scheduler (d_agents d ! i)) (task_id_items J ?due) fs2), outs)) = ((d', fs'), outs)"
      using assms(1) r by (simp add: dispatch_agent_def Let_def)
    show ?thesis
    proof (cases "cJSON_PrintUnformatted J (CArray ?due)")
      case None
      with * none show ?thesis by simp
    next
      case (Some json)
      obtain d2 fs2 o2 where s: "start_session J (di_start e) i TRIG_SCHEDULE json ''scheduler'' (d, fs1) = ((d2, fs2), o2)"
        by (metis prod.exhaust)
      with * Some st [OF s] show ?thesis by simp
    qed
  qed
qed

lemma dispatch_agents_started:
  assumes "dispatch_agents J tz env now_s chk is (d, fs) = ((d', fs'), outs)" "set is \<subseteq> {..<length (d_agents d)}"
  shows "started now_s d outs d' \<and> d_queue d' = d_queue d \<and> list_all (mail_or_task d) outs"
  using assms
proof (induction "is" arbitrary: d fs outs)
  case Nil
  then show ?case by (simp add: started_none)
next
  case (Cons i "is")
  let ?skip = "\<not> agent_idle (d_agents d ! i) now_s \<or> queued_for i d"
  define X where "X = (if ?skip then ((d, fs), []) else dispatch_agent J tz (env i) chk i (d, fs))"
  obtain d1 fs1 o1 where "X = ((d1, fs1), o1)" by (metis prod.exhaust)
  then have s1: "(if ?skip then ((d, fs), []) else dispatch_agent J tz (env i) chk i (d, fs)) = ((d1, fs1), o1)"
    by (simp only: X_def)
  have "dispatch_agents J tz env now_s chk (i # is) (d, fs) =
      (let (s2, o2) = dispatch_agents J tz env now_s chk is (d1, fs1) in (s2, o1 @ o2))"
    by (simp only: dispatch_agents.simps s1 Let_def prod.case)
  then obtain o2 where s2: "dispatch_agents J tz env now_s chk is (d1, fs1) = ((d', fs'), o2)" "outs = o1 @ o2"
    using Cons.prems(1) by (cases "dispatch_agents J tz env now_s chk is (d1, fs1)") auto
  have a: "started now_s d o1 d1 \<and> d_queue d1 = d_queue d \<and> list_all (mail_or_task d) o1"
  proof (cases ?skip)
    case True
    then have "((d, fs), []) = ((d1, fs1), o1)" using s1 by (simp only: if_True)
    then show ?thesis by (auto simp: started_none)
  next
    case False
    with s1 have s: "dispatch_agent J tz (env i) chk i (d, fs) = ((d1, fs1), o1)" by (simp only: if_False)
    have "i < length (d_agents d)" "agent_idle (d_agents d ! i) now_s" "\<not> queued_for i d" using False Cons.prems(2) by simp_all
    then show ?thesis by (rule dispatch_agent_started [OF s])
  qed
  then have n: "length (d_agents d1) = length (d_agents d)" by (simp add: started_def)
  have b: "started now_s d1 o2 d' \<and> d_queue d' = d_queue d1 \<and> list_all (mail_or_task d1) o2"
    by (rule Cons.IH [OF s2(1)]) (use Cons.prems(2) n in simp)
  have "mail_or_task d1 x = mail_or_task d x" for x
    using a by (cases x) (simp_all add: mail_or_task_def queued_for_def)
  with a b s2(2) started_trans [of now_s d o1 d1 o2 d'] show ?case by (auto simp: list_all_iff)
qed

text \<open>The whole of \<open>dispatch\<close>.\<close>

lemma dispatch_parts:
  assumes "dispatch J tz senv env now chk (d, fs) = ((d', fs'), outs)"
  obtains d1 fs1 o1 o2 where "dispatch_queue J senv (to_int32 (now div 1000)) (d_queue d) [] (d, fs) = ((d1, fs1), o1)"
    "dispatch_agents J tz env (to_int32 (now div 1000)) chk [0..<length (d_agents d)] (d1, fs1) = ((d', fs'), o2)" "outs = o1 @ o2"
  using assms by (auto simp: dispatch_def Let_def split: prod.splits)

lemma dispatch_started:
  assumes "dispatch J tz senv env now chk (d, fs) = ((d', fs'), outs)" "\<forall>t \<in> set (d_queue d). fst t < length (d_agents d)"
  shows "started (to_int32 (now div 1000)) d outs d' \<and> fifo d outs d'"
proof -
  obtain d1 fs1 o1 o2 where p: "dispatch_queue J senv (to_int32 (now div 1000)) (d_queue d) [] (d, fs) = ((d1, fs1), o1)"
    "dispatch_agents J tz env (to_int32 (now div 1000)) chk [0..<length (d_agents d)] (d1, fs1) = ((d', fs'), o2)" "outs = o1 @ o2"
    using dispatch_parts [OF assms(1)] by metis
  have s1: "started (to_int32 (now div 1000)) d o1 d1" by (rule dispatch_queue_started [OF p(1) assms(2)])
  then have n: "length (d_agents d1) = length (d_agents d)" by (simp add: started_def)
  have s2: "started (to_int32 (now div 1000)) d1 o2 d' \<and> d_queue d' = d_queue d1 \<and> list_all (mail_or_task d1) o2"
    by (rule dispatch_agents_started [OF p(2)]) (auto simp: n)
  have "fifo d o1 d1"
    using dispatch_queue_fifo [OF p(1)] assms(2) by (simp add: fifo_def texts_for_def [of _ "[]"])
  moreover have "fifo d1 o2 d'" using s2 mail_or_task_quiet by (intro fifo_quiet) auto
  ultimately show ?thesis using s1 s2 started_trans fifo_trans p(3) by blast
qed

section \<open>The queue\<close>

lemma enqueue_fifo: "enqueue_trigger oom i tx d = (d', outs) \<Longrightarrow> fifo d outs d'"
  by (auto simp: enqueue_trigger_def fifo_def texts_for_def queued_texts_def handled_texts_def split: if_splits)

text \<open>The queue as a bounded store that grows at its end.\<close>

locale bounded_append_store = append_store +
  fixes cap :: nat
  assumes items_cap: "wf s \<Longrightarrow> length (items s) \<le> cap"
begin

lemma adds_fit: "wf s \<Longrightarrow> adds add es s = (s', added) \<Longrightarrow> length (items s) + length added \<le> cap"
  using adds_items items_cap by fastforce

end

definition enqueue_item :: "bool \<times> nat \<times> string option \<Rightarrow> daemon_t \<Rightarrow> daemon_t \<times> bool" where
  "enqueue_item x d = (case x of (oom, i, tx) \<Rightarrow> (case enqueue_trigger oom i tx d of (d', outs) \<Rightarrow> (d', outs = [Queued i (or_empty tx)])))"

interpretation tq: bounded_append_store enqueue_item "\<lambda>(oom, i, tx). (i, or_empty tx)" d_queue "\<lambda>d. length (d_queue d) \<le> 64" 64
  by unfold_locales (auto simp: enqueue_item_def enqueue_trigger_def split: if_splits)

text \<open>Putting messages into the queue changes nothing else.\<close>

definition only_queue :: "daemon_t \<Rightarrow> daemon_out list \<Rightarrow> daemon_t \<Rightarrow> bool" where
  "only_queue d outs d' \<longleftrightarrow> d' = d\<lparr>d_queue := d_queue d'\<rparr> \<and> starts outs = [] \<and> fifo d outs d' \<and>
     (length (d_queue d) \<le> 64 \<longrightarrow> length (d_queue d') \<le> 64) \<and>
     ((\<forall>t \<in> set (d_queue d). fst t < length (d_agents d)) \<longrightarrow> (\<forall>t \<in> set (d_queue d'). fst t < length (d_agents d)))"

lemma only_queue_refl: "starts outs = [] \<Longrightarrow> \<forall>i. queued_texts i outs = [] \<and> handled_texts i outs = [] \<Longrightarrow> only_queue d outs d"
  by (simp add: only_queue_def fifo_quiet)

lemma only_queue_trans: "only_queue d o1 d1 \<Longrightarrow> only_queue d1 o2 d2 \<Longrightarrow> only_queue d (o1 @ o2) d2"
proof -
  assume a: "only_queue d o1 d1" "only_queue d1 o2 d2"
  then have e: "d1 = d\<lparr>d_queue := d_queue d1\<rparr>" "d2 = d1\<lparr>d_queue := d_queue d2\<rparr>" by (simp_all add: only_queue_def)
  have "d2 = d\<lparr>d_queue := d_queue d2\<rparr>" by (subst e(2), subst e(1)) simp
  moreover have "d_agents d1 = d_agents d" by (subst e(1)) simp
  moreover note fifo_trans [of d o1 d1 o2 d2]
  ultimately show ?thesis using a by (simp add: only_queue_def)
qed

lemma enqueue_all_queue: "enqueue_all oom tx is d = (d', outs) \<Longrightarrow> set is \<subseteq> {..<length (d_agents d)} \<Longrightarrow> only_queue d outs d'"
proof (induction "is" arbitrary: d outs)
  case Nil
  then show ?case by (auto intro!: only_queue_refl simp: queued_texts_def handled_texts_def)
next
  case (Cons i "is")
  obtain d1 o1 where e: "enqueue_trigger (oom i) i tx d = (d1, o1)" by fastforce
  obtain o2 where e2: "enqueue_all oom tx is d1 = (d', o2)" "outs = o1 @ o2"
    using Cons.prems(1) e by (auto split: prod.splits)
  have "only_queue d o1 d1"
    using e enqueue_fifo [OF e] Cons.prems(2) by (auto simp: only_queue_def enqueue_trigger_def split: if_splits)
  moreover have "only_queue d1 o2 d'"
    using Cons.IH [OF e2(1)] Cons.prems(2) e by (auto simp: enqueue_trigger_def split: if_splits)
  ultimately show ?case using only_queue_trans e2(2) by simp
qed

lemma on_irc_trigger_queue: "on_irc_trigger oom agent tx d = (d', outs) \<Longrightarrow> only_queue d outs d'"
  unfolding on_irc_trigger_def by (rule enqueue_all_queue) (auto simp: addressed_def)

lemma route_msg_queue: "route_msg oom data d = (d', outs) \<Longrightarrow> only_queue d outs d'"
  using only_queue_refl [of "[]" d] on_irc_trigger_queue
  by (auto simp: route_msg_def queued_texts_def handled_texts_def split: option.splits)

lemma route_triggers_queue: "route_triggers oom xs d = (d', outs) \<Longrightarrow> only_queue d outs d'"
proof (induction xs arbitrary: d outs)
  case Nil
  then show ?case by (auto intro!: only_queue_refl simp: queued_texts_def handled_texts_def)
next
  case (Cons x xs)
  define X where "X = (case x of Trigger agent who tx \<Rightarrow> on_irc_trigger oom agent (Some tx) d | _ \<Rightarrow> (d, [IrcOut x]))"
  obtain d1 o1 where X: "X = (d1, o1)" by fastforce
  obtain o2 where e2: "route_triggers oom xs d1 = (d', o2)" "outs = o1 @ o2"
    using Cons.prems X by (auto simp: X_def [symmetric] split: prod.splits)
  have "only_queue d o1 d1"
    using X on_irc_trigger_queue only_queue_refl [of "[IrcOut x]" d]
    by (cases x) (auto simp: X_def queued_texts_def handled_texts_def)
  with Cons.IH [OF e2(1)] show ?case using only_queue_trans e2(2) by simp
qed

end
