(* ===== verification/Daemon_Steps.thy ===== *)
theory Daemon_Steps
  imports Daemon
begin

text \<open>
  The daemon of \<open>src/daemon.c\<close> as a transition system: the operations of the main thread in any
  order, interleaved with the ends of the sessions that run in threads and with changes to the
  files by others. The invariant of every reachable state, the order of the owner's messages and
  the properties of the event loop are proved here.
\<close>

section \<open>The steps of the daemon\<close>

text \<open>The state of the system: the daemon, the file system and the sessions that run, with their files.\<close>

type_synonym sys = "daemon_t \<times> fs \<times> (nat \<times> string) list"

text \<open>
  The operations of the main thread, in any order, the end of a running session, and changes to files by
  others (the tools of the sessions, the user). A read on the IRC link delivers at most 2048
  bytes, and \<open>accept\<close> never returns a descriptor that is in use.
\<close>

inductive dstep :: "cjson_api \<Rightarrow> tzone \<Rightarrow> sys \<Rightarrow> daemon_out list \<Rightarrow> sys \<Rightarrow> bool" for J tz where
  step_irc: "irc_ready oom rds now d = (d', outs) \<Longrightarrow> list_all (\<lambda>r. case fst r of Some (t, data) \<Rightarrow> length data \<le> 2048 | None \<Rightarrow> True) rds \<Longrightarrow>
    dstep J tz (d, fs, run) outs (d', fs, run)"
| step_new: "handle_new_client J e accepted d = (d', outs) \<Longrightarrow> (case accepted of Some c \<Rightarrow> c \<notin> set (d_tui_clients d) | None \<Rightarrow> True) \<Longrightarrow>
    dstep J tz (d, fs, run) outs (d', fs, run)"
| step_tui: "handle_tui_client e cfd pollin d = (d', outs) \<Longrightarrow> dstep J tz (d, fs, run) outs (d', fs, run)"
| step_link: "irc_maintain e now d = (d', outs) \<Longrightarrow> dstep J tz (d, fs, run) outs (d', fs, run)"
| step_dispatch: "dispatch J tz senv env now chk (d, fs) = ((d', fs'), outs) \<Longrightarrow> dstep J tz (d, fs, run) outs (d', fs', run @ starts outs)"
| step_end: "(i, sid) \<in> set run \<Longrightarrow> session_end J e iso_now now completed i sid (d, fs) = (d', fs') \<Longrightarrow>
    dstep J tz (d, fs, run) [] (d', fs', remove1 (i, sid) run)"
| step_files: "dstep J tz (d, fs, run) [] (d, fs', run)"

inductive dsteps :: "cjson_api \<Rightarrow> tzone \<Rightarrow> sys \<Rightarrow> daemon_out list \<Rightarrow> sys \<Rightarrow> bool" for J tz where
  none: "dsteps J tz s [] s"
| more_steps: "dsteps J tz s outs s1 \<Longrightarrow> dstep J tz s1 o2 s2 \<Longrightarrow> dsteps J tz s (outs @ o2) s2"

inductive_cases dstepE: "dstep J tz s outs s'"

text \<open>
  The invariant: a well-formed daemon, and the running sessions belong to different agents, exactly the busy
  ones.
\<close>

definition sys_wf :: "sys \<Rightarrow> bool" where
  "sys_wf s = (case s of (d, fs, run) \<Rightarrow> daemon_wf d \<and> distinct (map fst run) \<and> fst ` set run \<subseteq> {..<length (d_agents d)} \<and>
     (\<forall>i < length (d_agents d). a_busy (d_agents d ! i) \<longleftrightarrow> i \<in> fst ` set run))"

section \<open>Every step keeps the invariant\<close>

text \<open>Steps that start no session: the agents stay as they are, messages keep their order.\<close>

definition quiet_step :: "daemon_t \<Rightarrow> daemon_out list \<Rightarrow> daemon_t \<Rightarrow> bool" where
  "quiet_step d outs d' \<longleftrightarrow> d_agents d' = d_agents d \<and> starts outs = [] \<and> fifo d outs d' \<and> (daemon_wf d \<longrightarrow> daemon_wf d')"

lemma quiet_trans: "quiet_step d o1 d1 \<Longrightarrow> quiet_step d1 o2 d2 \<Longrightarrow> quiet_step d (o1 @ o2) d2"
  using fifo_trans [of d o1 d1 o2 d2] by (simp add: quiet_step_def)

definition silent :: "daemon_out list \<Rightarrow> bool" where
  "silent outs \<longleftrightarrow> list_all (\<lambda>x. case x of ToClient c b \<Rightarrow> True | Closed c \<Rightarrow> True | IrcOut y \<Rightarrow> True | _ \<Rightarrow> False) outs"

lemma silent_texts: "silent outs \<Longrightarrow> starts outs = [] \<and> queued_texts i outs = [] \<and> handled_texts i outs = []"
  by (induction outs) (auto simp: silent_def queued_texts_def handled_texts_def split: daemon_out.splits)

lemma silent_IrcOut [simp]: "silent (map IrcOut xs)"
  by (simp add: silent_def list_all_iff)

lemma quiet_silent:
  "silent outs \<Longrightarrow> d_agents d' = d_agents d \<Longrightarrow> d_queue d' = d_queue d \<Longrightarrow> (daemon_wf d \<Longrightarrow> daemon_wf d') \<Longrightarrow> quiet_step d outs d'"
  using silent_texts [of outs] by (simp add: quiet_step_def fifo_quiet)

lemma quiet_queue:
  assumes "only_queue d outs d'"
  shows "quiet_step d outs d'"
proof -
  have e: "d' = d\<lparr>d_queue := d_queue d'\<rparr>" using assms by (simp add: only_queue_def)
  have a: "d_agents d' = d_agents d" by (subst e) simp
  have "daemon_wf d'" if "daemon_wf d"
  proof -
    have q: "length (d_queue d') \<le> 64" "\<forall>t \<in> set (d_queue d'). fst t < length (d_agents d)"
      using assms that by (auto simp: only_queue_def daemon_wf_def)
    show ?thesis using that q by (subst e) (simp add: daemon_wf_def agents_wf_def)
  qed
  with a assms show ?thesis by (simp add: quiet_step_def only_queue_def)
qed

lemma daemon_wf_irc:
  "daemon_wf d \<Longrightarrow> irc_wf irc \<Longrightarrow> b = 0 \<or> 5 \<le> b \<Longrightarrow> b \<le> 300 \<Longrightarrow> daemon_wf (d\<lparr>d_irc := irc, d_irc_backoff := b, d_irc_retry_at := r\<rparr>)"
  by (simp add: daemon_wf_def agents_wf_def)

lemma daemon_wf_only_irc: "daemon_wf d \<Longrightarrow> irc_wf irc \<Longrightarrow> daemon_wf (d\<lparr>d_irc := irc\<rparr>)"
  by (simp add: daemon_wf_def agents_wf_def)

lemma daemon_wf_backoff: "daemon_wf d \<Longrightarrow> daemon_wf (d\<lparr>d_irc_backoff := 0\<rparr>)"
  by (simp add: daemon_wf_def agents_wf_def)

lemma daemon_wf_clients: "daemon_wf d \<Longrightarrow> length cs \<le> 8 \<Longrightarrow> distinct cs \<Longrightarrow> daemon_wf (d\<lparr>d_tui_clients := cs\<rparr>)"
  by (simp add: daemon_wf_def agents_wf_def)

lemma daemon_wf_shutdown: "daemon_wf d \<Longrightarrow> daemon_wf (d\<lparr>d_shutdown := True\<rparr>)"
  by (simp add: daemon_wf_def agents_wf_def)

lemmas daemon_wf_upd = daemon_wf_irc daemon_wf_only_irc daemon_wf_backoff daemon_wf_clients daemon_wf_shutdown

lemma daemon_wf_parts:
  "daemon_wf d \<Longrightarrow> irc_wf (d_irc d)" "daemon_wf d \<Longrightarrow> d_irc_backoff d = 0 \<or> 5 \<le> d_irc_backoff d"
  "daemon_wf d \<Longrightarrow> distinct (d_tui_clients d)" "daemon_wf d \<Longrightarrow> length (d_tui_clients d) \<le> 8"
  by (simp_all add: daemon_wf_def)

lemma irc_lost_quiet:
  assumes "irc_lost now d = (d', outs)"
  shows "quiet_step d outs d'"
proof (rule quiet_silent)
  show "silent outs" "d_agents d' = d_agents d" "d_queue d' = d_queue d"
    using assms by (auto simp: irc_lost_def Let_def split: prod.splits)
  assume wf: "daemon_wf d"
  obtain irc' xs where x: "irc_disconnect (d_irc d) = (irc', xs)" by fastforce
  have "irc_wf irc'" using irc_disconnect_wf [OF daemon_wf_parts(1) [OF wf]] x by simp
  moreover have d': "d' = d\<lparr>d_irc := irc', d_irc_backoff := d_irc_backoff d', d_irc_retry_at := d_irc_retry_at d'\<rparr>"
    "d_irc_backoff d' = (let b = (if d_irc_backoff d \<noteq> 0 then d_irc_backoff d * 2 else 5) in if b > 300 then 300 else b)"
    using assms x by (auto simp: irc_lost_def Let_def)
  moreover have "d_irc_backoff d' = 0 \<or> 5 \<le> d_irc_backoff d'" "d_irc_backoff d' \<le> 300"
    using daemon_wf_parts(2) [OF wf] by (auto simp: d'(2) Let_def)
  ultimately show "daemon_wf d'" using wf by (metis daemon_wf_irc)
qed

lemma irc_ready_quiet:
  assumes "irc_ready oom rds now d = (d', outs)" "list_all (\<lambda>r. case fst r of Some (t, data) \<Rightarrow> length data \<le> 2048 | None \<Rightarrow> True) rds"
  shows "quiet_step d outs d'"
proof -
  obtain irc' xs rc where p: "irc_poll rds (d_irc d) = (irc', xs, rc)" by (metis prod.exhaust)
  obtain d1 o1 where r: "route_triggers oom xs (d\<lparr>d_irc := irc'\<rparr>) = (d1, o1)" by fastforce
  have "daemon_wf d \<Longrightarrow> irc_wf irc'"
    using irc_poll_wf [of "d_irc d" rds] p assms(2) by (fastforce simp: daemon_wf_def list_all_iff)
  then have "quiet_step d [] (d\<lparr>d_irc := irc'\<rparr>)"
    by (intro quiet_silent) (auto simp: silent_def intro: daemon_wf_only_irc)
  with quiet_queue [OF route_triggers_queue [OF r]] have q: "quiet_step d o1 d1" using quiet_trans by fastforce
  show ?thesis
  proof (cases "rc < 0")
    case True
    obtain d2 o2 where l: "irc_lost now d1 = (d2, o2)" by fastforce
    with True assms(1) p r q show ?thesis using quiet_trans [OF q irc_lost_quiet [OF l]] by (simp add: irc_ready_def)
  next
    case False
    with assms(1) p r q show ?thesis by (simp add: irc_ready_def)
  qed
qed

lemma irc_maintain_quiet:
  assumes "irc_maintain e now d = (d', outs)"
  shows "quiet_step d outs d'"
proof (cases "fd (d_irc d) \<ge> 0")
  case True
  define d1 where "d1 = (if registered (d_irc d) then d\<lparr>d_irc_backoff := 0\<rparr> else d)"
  obtain irc' xs rc where k: "irc_keepalive (le_now e) (d_irc d1) = (irc', xs, rc)" by (metis prod.exhaust)
  have "daemon_wf d1 \<and> irc_wf irc'" if "daemon_wf d"
  proof -
    have "daemon_wf d1" using that daemon_wf_backoff by (simp add: d1_def)
    then show ?thesis using irc_keepalive_wf [of "d_irc d1" "le_now e"] k by (simp add: daemon_wf_def)
  qed
  then have q: "quiet_step d (map IrcOut xs) (d1\<lparr>d_irc := irc'\<rparr>)"
    by (intro quiet_silent) (auto simp: d1_def intro: daemon_wf_only_irc daemon_wf_backoff)
  obtain d3 o3 where l: "irc_lost now (d1\<lparr>d_irc := irc'\<rparr>) = (d3, o3)" by fastforce
  show ?thesis
    using assms True k l q quiet_trans [OF q irc_lost_quiet [OF l]]
    by (auto simp: irc_maintain_def Let_def d1_def [symmetric] split: if_splits)
next
  case False
  obtain irc' xs rc where k: "irc_connect (le_conn e) (le_tls_ok e) (le_hs_closed e) (le_now e) (d_irc_port d) (d_irc d) = (irc', xs, rc)"
    by (metis prod.exhaust)
  have w: "daemon_wf d \<Longrightarrow> irc_wf irc'"
    using irc_connect_wf [of "d_irc d" "le_conn e" "le_tls_ok e" "le_hs_closed e" "le_now e" "d_irc_port d"] k by (simp add: daemon_wf_def)
  show ?thesis
  proof (rule quiet_silent)
    show "silent outs" "d_agents d' = d_agents d" "d_queue d' = d_queue d"
      using assms False k by (auto simp: irc_maintain_def Let_def silent_def [of "[]"] split: if_splits)
    show "daemon_wf d'" if "daemon_wf d"
      using assms False k w [OF that] that daemon_wf_parts(2) [OF that]
      by (auto simp: irc_maintain_def Let_def split: if_splits intro!: daemon_wf_irc intro: daemon_wf_only_irc)
  qed
qed

lemma remove_swap:
  assumes "distinct cs" "i < length cs"
  shows "distinct (butlast (cs[i := last cs]))" "set (butlast (cs[i := last cs])) = set cs - {cs ! i}"
    "length (butlast (cs[i := last cs])) = length cs - 1"
proof -
  obtain ys z where cs: "cs = ys @ [z]" using assms(2) by (metis append_butlast_last_id length_0_conv not_less0)
  have "distinct (butlast (cs[i := last cs])) \<and> set (butlast (cs[i := last cs])) = set cs - {cs ! i}"
  proof (cases "i < length ys")
    case True
    then show ?thesis using assms(1) cs
      by (auto simp: list_update_append nth_append butlast_append set_update_distinct distinct_list_update)
  next
    case False
    then have "i = length ys" using assms(2) cs by simp
    then show ?thesis using assms(1) cs by (simp add: list_update_append)
  qed
  then show "distinct (butlast (cs[i := last cs]))" "set (butlast (cs[i := last cs])) = set cs - {cs ! i}" by simp_all
qed simp

lemma remove_tui_client_quiet:
  assumes "remove_tui_client d i = (d', outs)" "i < length (d_tui_clients d)"
  shows "quiet_step d outs d'"
proof (rule quiet_silent)
  show "silent outs" "d_agents d' = d_agents d" "d_queue d' = d_queue d"
    using assms by (auto simp: remove_tui_client_def silent_def)
  assume wf: "daemon_wf d"
  let ?cs = "butlast ((d_tui_clients d)[i := last (d_tui_clients d)])"
  have "distinct ?cs" "length ?cs \<le> 8"
    using remove_swap(1) [OF daemon_wf_parts(3) [OF wf] assms(2)] daemon_wf_parts(4) [OF wf] by simp_all
  then have "daemon_wf (d\<lparr>d_tui_clients := ?cs\<rparr>)" using wf by (intro daemon_wf_clients)
  then show "daemon_wf d'" using assms(1) by (simp add: remove_tui_client_def)
qed

lemma index_of_less: "index_of x xs = Some i \<Longrightarrow> i < length xs \<and> xs ! i = x"
  by (induction xs arbitrary: i) (auto split: if_splits)

lemma handle_tui_client_quiet: "handle_tui_client e cfd pollin d = (d', outs) \<Longrightarrow> quiet_step d outs d'"
proof (cases "index_of cfd (d_tui_clients d)")
  case None
  assume "handle_tui_client e cfd pollin d = (d', outs)"
  with None show ?thesis by (intro quiet_silent) (auto simp: handle_tui_client_def silent_def)
next
  case (Some i)
  note rm = remove_tui_client_quiet [of d i d' outs] and q = quiet_queue [OF route_msg_queue, of "cl_oom e" _ d d' outs]
  have n: "quiet_step d [] d" by (intro quiet_silent) (auto simp: silent_def)
  assume "handle_tui_client e cfd pollin d = (d', outs)"
  with Some rm q n index_of_less [OF Some] show ?thesis
    by (auto simp: handle_tui_client_def split: option.splits if_splits)
qed

lemma send_status_silent: "silent (send_status J e d c @ [Closed c])"
  by (simp add: send_status_def silent_def split: option.split)

lemma handle_new_client_quiet:
  assumes "handle_new_client J e accepted d = (d', outs)" "case accepted of Some c \<Rightarrow> c \<notin> set (d_tui_clients d) | None \<Rightarrow> True"
  shows "quiet_step d outs d'"
proof (cases "accepted = None \<or> sock_read_cmd (cl_reads e) 4096 = None")
  case True
  with assms(1) show ?thesis by (intro quiet_silent) (auto simp: handle_new_client_def silent_def split: option.splits)
next
  case False
  then obtain c type data len rest where a: "accepted = Some c" "sock_read_cmd (cl_reads e) 4096 = Some (type, data, len, rest)"
    by (metis not_None_eq prod.exhaust)
  show ?thesis
  proof (cases "type = SOCK_CMD_MSG")
    case True
    obtain d1 o1 where r: "route_msg (cl_oom e) data d = (d1, o1)" by fastforce
    then have "d' = d1" "outs = o1 @ [Closed c]" using assms(1) a True by (auto simp: handle_new_client_def sock_cmds)
    moreover have "quiet_step d1 [Closed c] d1" by (intro quiet_silent) (auto simp: silent_def)
    ultimately show ?thesis using quiet_trans [OF quiet_queue [OF route_msg_queue [OF r]]] by simp
  next
    case False
    show ?thesis
    proof (rule quiet_silent)
      show "silent outs" "d_agents d' = d_agents d" "d_queue d' = d_queue d"
        using assms(1) a False send_status_silent [of J e d c]
        by (auto simp: handle_new_client_def Let_def silent_def split: if_splits)
      show "daemon_wf d'" if "daemon_wf d"
        using assms a False that daemon_wf_parts(3,4) [OF that]
        by (auto simp: handle_new_client_def Let_def split: if_splits intro!: daemon_wf_clients daemon_wf_shutdown)
    qed
  qed
qed

lemma dispatch_queue_cons:
  assumes "dispatch_queue J env now_s (t # ts) kept (d, fs) = ((d', fs'), outs)" "agent_idle (d_agents d ! fst t) now_s"
  obtains d1 fs1 o1 o2 where "start_session J (env (length ts)) (fst t) TRIG_IRC (snd t) ''owner'' (d, fs) = ((d1, fs1), o1)"
    "dispatch_queue J env now_s ts kept (d1, fs1) = ((d', fs'), o2)" "outs = o1 @ o2"
proof -
  obtain d1 fs1 o1 where s1: "start_session J (env (length ts)) (fst t) TRIG_IRC (snd t) ''owner'' (d, fs) = ((d1, fs1), o1)"
    by (metis prod.exhaust)
  then show ?thesis using assms that by (auto split: prod.splits)
qed

lemma dispatch_queue_sub:
  "dispatch_queue J env now_s ts kept (d, fs) = ((d', fs'), outs) \<Longrightarrow>
     length (d_queue d') \<le> length kept + length ts \<and> set (d_queue d') \<subseteq> set kept \<union> set ts"
proof (induction ts arbitrary: kept d fs outs)
  case (Cons t ts)
  show ?case
  proof (cases "agent_idle (d_agents d ! fst t) now_s")
    case True
    obtain d1 fs1 o2 where "dispatch_queue J env now_s ts kept (d1, fs1) = ((d', fs'), o2)"
      by (rule dispatch_queue_cons [OF Cons.prems True])
    from Cons.IH [OF this] show ?thesis by auto
  next
    case False
    with Cons.prems have "dispatch_queue J env now_s ts (kept @ [t]) (d, fs) = ((d', fs'), outs)" by simp
    from Cons.IH [OF this] show ?thesis by auto
  qed
qed auto

lemma started_names: "started now_s d outs d' \<Longrightarrow> map a_name (d_agents d') = map a_name (d_agents d)"
  by (rule nth_equalityI) (auto simp: started_def)

lemma agents_wf_names: "agents_wf d = (length (d_agents d) \<le> 16 \<and>
    list_all (\<lambda>n. tool_name_valid n \<and> length n < 32 \<and> \<not> strcaseeq n ''all'' \<and> \<not> strcaseeq n ''owner'') (map a_name (d_agents d)) \<and>
    distinct (map (map tolower) (map a_name (d_agents d))) \<and> ms_agents (d_messenger d) = ''owner'' # map a_name (d_agents d))"
  by (simp add: agents_wf_def list_all_iff)

lemma started_wf:
  assumes "started now_s d outs d'" "daemon_wf d" "length (d_queue d') \<le> length (d_queue d)" "set (d_queue d') \<subseteq> set (d_queue d)"
  shows "daemon_wf d'"
proof -
  have e: "d' = d\<lparr>d_agents := d_agents d', d_queue := d_queue d'\<rparr>" and n: "length (d_agents d') = length (d_agents d)"
    using assms(1) by (simp_all add: started_def)
  have f: "d_messenger d' = d_messenger d" "d_irc d' = d_irc d" "d_tui_clients d' = d_tui_clients d" "d_irc_backoff d' = d_irc_backoff d"
    "d_irc_host d' = d_irc_host d" "d_irc_port d' = d_irc_port d"
    by (subst e, simp)+
  show ?thesis
    using assms(2-4) n f started_names [OF assms(1)] unfolding daemon_wf_def agents_wf_names by auto
qed

lemma dispatch_wf:
  assumes "dispatch J tz senv env now chk (d, fs) = ((d', fs'), outs)" "daemon_wf d"
  shows "daemon_wf d' \<and> started (to_int32 (now div 1000)) d outs d' \<and> fifo d outs d'"
proof -
  have q: "\<forall>t \<in> set (d_queue d). fst t < length (d_agents d)" using assms(2) by (simp add: daemon_wf_def)
  note s = dispatch_started [OF assms(1) q]
  obtain d1 fs1 o1 o2 where p: "dispatch_queue J senv (to_int32 (now div 1000)) (d_queue d) [] (d, fs) = ((d1, fs1), o1)"
    "dispatch_agents J tz env (to_int32 (now div 1000)) chk [0..<length (d_agents d)] (d1, fs1) = ((d', fs'), o2)"
    using dispatch_parts [OF assms(1)] by metis
  have n: "length (d_agents d1) = length (d_agents d)" using dispatch_queue_started [OF p(1) q] by (simp add: started_def)
  have "set [0..<length (d_agents d)] \<subseteq> {..<length (d_agents d1)}" using n by auto
  with dispatch_agents_started [OF p(2)] have "d_queue d' = d_queue d1" by simp
  with dispatch_queue_sub [OF p(1)] started_wf [of _ d outs d'] s assms(2) show ?thesis by auto
qed

lemma set_agent_wf:
  assumes "daemon_wf d" "i < length (d_agents d)" "\<And>a. a_name (f a) = a_name a"
  shows "daemon_wf (set_agent i f d)"
proof -
  have "map a_name ((d_agents d)[i := f (d_agents d ! i)]) = map a_name (d_agents d)"
    using assms(2,3) by (intro nth_equalityI) (auto simp: nth_list_update)
  with assms(1) show ?thesis unfolding daemon_wf_def agents_wf_names set_agent_def by simp
qed

lemma quiet_sys_wf: "quiet_step d outs d' \<Longrightarrow> sys_wf (d, fs, run) \<Longrightarrow> sys_wf (d', fs', run) \<and> fifo d outs d'"
  by (simp add: quiet_step_def sys_wf_def)

lemma dispatch_sys_wf:
  assumes d: "dispatch J tz senv env now chk (d, fs) = ((d', fs'), outs)" and s: "sys_wf (d, fs, run)"
  shows "sys_wf (d', fs', run @ starts outs) \<and> fifo d outs d'"
proof -
  let ?S = "fst ` set (starts outs)" and ?n = "length (d_agents d)"
  have w: "daemon_wf d" "distinct (map fst run)" "fst ` set run \<subseteq> {..<?n}"
    "\<And>j. j < ?n \<Longrightarrow> a_busy (d_agents d ! j) \<longleftrightarrow> j \<in> fst ` set run" using s by (simp_all add: sys_wf_def)
  have p: "daemon_wf d'" "started (to_int32 (now div 1000)) d outs d'" "fifo d outs d'" using dispatch_wf [OF d w(1)] by simp_all
  have n: "length (d_agents d') = ?n" "distinct (map fst (starts outs))" using p(2) by (simp_all add: started_def)
  have idle: "j < ?n \<and> \<not> a_busy (d_agents d ! j)" if "j \<in> ?S" for j
    using p(2) that unfolding started_def agent_idle_def by blast
  have b: "a_busy (d_agents d' ! j) \<longleftrightarrow> a_busy (d_agents d ! j) \<or> j \<in> ?S" if "j < ?n" for j
    using p(2) that by (simp add: started_def)
  have dis: "fst ` set run \<inter> ?S = {}" using idle w(4) by blast
  have sub: "?S \<subseteq> {..<?n}" using idle by blast
  have "distinct (map fst (run @ starts outs))" using w(2) n(2) dis by simp
  moreover have "fst ` set (run @ starts outs) = fst ` set run \<union> ?S" by (simp add: image_Un)
  moreover have "\<forall>j < ?n. a_busy (d_agents d' ! j) \<longleftrightarrow> j \<in> fst ` set run \<union> ?S" using b w(4) by blast
  ultimately show ?thesis using p n w(3) sub unfolding sys_wf_def by simp
qed

lemma session_end_sys_wf:
  assumes i: "(i, sid) \<in> set run" and e: "session_end J e iso_now now completed i sid (d, fs) = (d', fs')" and s: "sys_wf (d, fs, run)"
  shows "sys_wf (d', fs', remove1 (i, sid) run) \<and> fifo d [] d'"
proof -
  let ?n = "length (d_agents d)" and ?run = "remove1 (i, sid) run"
  define f :: "agent_ctx \<Rightarrow> agent_ctx" where "f = (\<lambda>a. a\<lparr>a_last_session := to_int32 (now div 1000), a_busy := False\<rparr>)"
  have d': "d' = set_agent i f d" using e by (simp add: session_end_def f_def)
  have w: "daemon_wf d" "distinct (map fst run)" "fst ` set run \<subseteq> {..<?n}"
    "\<And>j. j < ?n \<Longrightarrow> a_busy (d_agents d ! j) \<longleftrightarrow> j \<in> fst ` set run" using s by (simp_all add: sys_wf_def)
  have n: "i < ?n" using i w(3) by force
  have wf: "daemon_wf d'" unfolding d' by (rule set_agent_wf [OF w(1) n]) (simp add: f_def)
  have a: "d_agents d' = (d_agents d)[i := f (d_agents d ! i)]" "d_queue d' = d_queue d" by (simp_all add: d' set_agent_def)
  have dr: "distinct run" "inj_on fst (set run)" using w(2) by (simp_all add: distinct_map)
  have fr: "set ?run = set run - {(i, sid)}" using dr(1) by simp
  have im: "fst ` set ?run = fst ` set run - {i}"
    unfolding fr using inj_on_image_set_diff [OF dr(2), of "set run" "{(i, sid)}"] i by simp
  have "distinct (map fst ?run)" unfolding distinct_map using dr fr by (auto intro: inj_on_diff)
  moreover have "a_busy (d_agents d' ! j) \<longleftrightarrow> j \<in> fst ` set run - {i}" if "j < ?n" for j
    using that w(4) [OF that] by (cases "j = i") (simp_all add: a(1) f_def)
  ultimately show ?thesis using wf w(3) a im
    by (auto simp: sys_wf_def fifo_def queued_texts_def handled_texts_def)
qed

lemma dstep_wf:
  assumes "dstep J tz (d, fs, run) outs (d', fs', run')" "sys_wf (d, fs, run)"
  shows "sys_wf (d', fs', run') \<and> fifo d outs d'"
  using assms(1)
proof (cases rule: dstep.cases)
  case (step_irc oom rds now)
  then show ?thesis using quiet_sys_wf [OF irc_ready_quiet [OF step_irc(3,4)] assms(2)] by simp
next
  case (step_new e accepted)
  then show ?thesis using quiet_sys_wf [OF handle_new_client_quiet [OF step_new(3,4)] assms(2)] by simp
next
  case (step_tui e cfd pollin)
  then show ?thesis using quiet_sys_wf [OF handle_tui_client_quiet [OF step_tui(3)] assms(2)] by simp
next
  case (step_link e now)
  then show ?thesis using quiet_sys_wf [OF irc_maintain_quiet [OF step_link(3)] assms(2)] by simp
next
  case (step_dispatch senv env now chk)
  then show ?thesis using dispatch_sys_wf [OF step_dispatch(2) assms(2)] by simp
next
  case (step_end i sid e iso_now now completed)
  then show ?thesis using session_end_sys_wf [OF step_end(3,4) assms(2)] by simp
next
  case step_files
  then show ?thesis using assms(2) by (auto simp: sys_wf_def fifo_def queued_texts_def handled_texts_def)
qed

lemma dsteps_wf:
  assumes "dsteps J tz s outs s'" "sys_wf s"
  shows "sys_wf s' \<and> fifo (fst s) outs (fst s')"
  using assms
proof induction
  case (none s)
  then show ?case by (simp add: fifo_def queued_texts_def handled_texts_def)
next
  case (more_steps s outs s1 o2 s2)
  obtain d1 fs1 run1 d2 fs2 run2 where s: "s1 = (d1, fs1, run1)" "s2 = (d2, fs2, run2)" by (metis prod.exhaust)
  with more_steps dstep_wf [of J tz d1 fs1 run1 o2 d2 fs2 run2] fifo_trans show ?case by auto
qed

end
