(* ===== verification/Event_Loop.thy ===== *)
theory Event_Loop
  imports Daemon_Steps
begin

text \<open>
  The properties of the event loop of \<open>src/daemon.c\<close> (\<open>daemon_run\<close>, \<open>dispatch\<close>, \<open>irc_maintain\<close> and
  the control socket), over the transition system of the daemon: the invariant of every state
  that can be reached from a start, the order in which the owner's messages are handled, which
  sessions \<open>dispatch\<close> starts, the spacing of reconnections, and what a client is sent. A round
  of the loop is shown to be a sequence of steps, so all of this holds of the loop.
\<close>

section \<open>A round is a sequence of steps\<close>

lemma dsteps_one: "dstep J tz s outs s' \<Longrightarrow> dsteps J tz s outs s'"
  using more_steps [OF none] by fastforce

lemma dsteps_trans: "dsteps J tz s1 o2 s2 \<Longrightarrow> dsteps J tz s o1 s1 \<Longrightarrow> dsteps J tz s (o1 @ o2) s2"
  by (induction rule: dsteps.induct) (auto simp flip: append_assoc intro: more_steps)

text \<open>A sequence of steps whose running sessions grow by the sessions it started.\<close>

definition grows :: "cjson_api \<Rightarrow> tzone \<Rightarrow> dstate \<Rightarrow> daemon_out list \<Rightarrow> dstate \<Rightarrow> bool" where
  "grows J tz s outs s' \<longleftrightarrow> (\<forall>run. dsteps J tz (fst s, snd s, run) outs (fst s', snd s', run @ starts outs))"

lemma grows_nil [simp]: "grows J tz s [] s"
  by (simp add: grows_def none)

lemma grows_trans: "grows J tz s o1 s1 \<Longrightarrow> grows J tz s1 o2 s2 \<Longrightarrow> grows J tz s (o1 @ o2) s2"
  unfolding grows_def
proof
  fix run
  assume "\<forall>run. dsteps J tz (fst s, snd s, run) o1 (fst s1, snd s1, run @ starts o1)"
    "\<forall>run. dsteps J tz (fst s1, snd s1, run) o2 (fst s2, snd s2, run @ starts o2)"
  from dsteps_trans [OF spec [OF this(2), of "run @ starts o1"] spec [OF this(1)]]
  show "dsteps J tz (fst s, snd s, run) (o1 @ o2) (fst s2, snd s2, run @ starts (o1 @ o2))" by simp
qed

lemma grows_quiet:
  assumes "\<And>run. dstep J tz (d, fs, run) outs (d', fs, run)" "quiet_step d outs d'"
  shows "grows J tz (d, fs) outs (d', fs)"
  using assms dsteps_one by (simp add: grows_def quiet_step_def)

lemma tui_clients_grows: "tui_clients cs d = (d', outs) \<Longrightarrow> grows J tz (d, fs) outs (d', fs)"
proof (induction cs arbitrary: d outs)
  case (Cons c cs)
  obtain e cfd pollin where c: "c = (e, cfd, pollin)" by (metis prod.exhaust)
  obtain d1 o1 where h: "handle_tui_client e cfd pollin d = (d1, o1)" by fastforce
  obtain o2 where r: "tui_clients cs d1 = (d', o2)" "outs = o1 @ o2" using Cons.prems c h by (auto split: prod.splits)
  have "grows J tz (d, fs) o1 (d1, fs)" by (rule grows_quiet [OF step_tui [OF h] handle_tui_client_quiet [OF h]])
  with Cons.IH [OF r(1)] r(2) grows_trans show ?case by blast
qed simp

lemma irc_ready_clients:
  assumes "irc_ready oom rds now d = (d', outs)"
  shows "d_tui_clients d' = d_tui_clients d"
proof -
  obtain irc' xs rc where p: "irc_poll rds (d_irc d) = (irc', xs, rc)" by (metis prod.exhaust)
  obtain d1 o1 where r: "route_triggers oom xs (d\<lparr>d_irc := irc'\<rparr>) = (d1, o1)" by fastforce
  have e: "d1 = d\<lparr>d_irc := irc', d_queue := d_queue d1\<rparr>" using route_triggers_queue [OF r] by (simp add: only_queue_def)
  have "d_tui_clients d1 = d_tui_clients d" by (subst e) simp
  with assms p r show ?thesis by (auto simp: irc_ready_def irc_lost_def Let_def split: if_splits prod.splits)
qed

text \<open>What the kernel guarantees of a round: reads of at most 2048 bytes, a new descriptor from \<open>accept\<close>.\<close>

definition round_ok :: "round_env \<Rightarrow> daemon_t \<Rightarrow> bool" where
  "round_ok e d \<longleftrightarrow>
     (case r_irc e of Some rds \<Rightarrow> list_all (\<lambda>r. case fst r of Some (t, data) \<Rightarrow> length data \<le> 2048 | None \<Rightarrow> True) rds | None \<Rightarrow> True) \<and>
     (case r_new e of Some (ce, Some c) \<Rightarrow> c \<notin> set (d_tui_clients d) | _ \<Rightarrow> True)"

lemma round_irc_grows:
  assumes "(case r_irc e of Some rds \<Rightarrow> if fd (d_irc d) \<ge> 0 then irc_ready (r_irc_oom e) rds (r_now e) d else (d, []) | None \<Rightarrow> (d, [])) = (d1, o1)"
    "round_ok e d"
  shows "grows J tz (d, fs) o1 (d1, fs) \<and> d_tui_clients d1 = d_tui_clients d"
proof (cases "\<exists>rds. r_irc e = Some rds \<and> fd (d_irc d) \<ge> 0")
  case True
  then obtain rds where r: "r_irc e = Some rds" "irc_ready (r_irc_oom e) rds (r_now e) d = (d1, o1)" using assms(1) by auto
  have ok: "list_all (\<lambda>r. case fst r of Some (t, data) \<Rightarrow> length data \<le> 2048 | None \<Rightarrow> True) rds"
    using assms(2) r(1) by (simp add: round_ok_def)
  show ?thesis
    using grows_quiet [OF step_irc [OF r(2) ok] irc_ready_quiet [OF r(2) ok]] irc_ready_clients [OF r(2)] by blast
next
  case False
  then have "(d, []) = (d1, o1)" using assms(1) by (auto split: option.splits if_splits)
  then show ?thesis by auto
qed

lemma round_new_grows:
  assumes "(case r_new e of Some (ce, accepted) \<Rightarrow> handle_new_client J ce accepted d1 | None \<Rightarrow> (d1, [])) = (d2, o2)"
    "round_ok e d" "d_tui_clients d1 = d_tui_clients d"
  shows "grows J tz (d1, fs) o2 (d2, fs)"
proof (cases "r_new e")
  case (Some x)
  then obtain ce accepted where x: "r_new e = Some (ce, accepted)" "handle_new_client J ce accepted d1 = (d2, o2)"
    using assms(1) by (cases x) auto
  have ok: "case accepted of Some c \<Rightarrow> c \<notin> set (d_tui_clients d1) | None \<Rightarrow> True"
    using assms(2,3) x(1) by (cases accepted) (simp_all add: round_ok_def)
  show ?thesis by (rule grows_quiet [OF step_new [OF x(2) ok] handle_new_client_quiet [OF x(2) ok]])
qed (use assms(1) in auto)

lemma round_link_grows:
  assumes "(if enabled (d_irc d3) then irc_maintain le now d3 else (d3, [])) = (d4, o4)"
  shows "grows J tz (d3, fs) o4 (d4, fs)"
proof (cases "enabled (d_irc d3)")
  case True
  then have l: "irc_maintain le now d3 = (d4, o4)" using assms by simp
  show ?thesis by (rule grows_quiet [OF step_link [OF l] irc_maintain_quiet [OF l]])
qed (use assms in auto)

lemma dispatch_grows: "dispatch J tz senv env now chk (d, fs) = ((d', fs'), outs) \<Longrightarrow> grows J tz (d, fs) outs (d', fs')"
  by (simp add: grows_def dsteps_one step_dispatch)

lemma daemon_round_grows:
  assumes "daemon_round J tz e ls (d, fs) = ((d', fs'), ls', outs)" "round_ok e d"
  shows "grows J tz (d, fs) outs (d', fs')"
proof -
  define X1 where "X1 = (case r_irc e of Some rds \<Rightarrow> if fd (d_irc d) \<ge> 0 then irc_ready (r_irc_oom e) rds (r_now e) d else (d, []) | None \<Rightarrow> (d, []))"
  obtain d1 o1 where 1: "X1 = (d1, o1)" by fastforce
  define X2 where "X2 = (case r_new e of Some (ce, accepted) \<Rightarrow> handle_new_client J ce accepted d1 | None \<Rightarrow> (d1, []))"
  obtain d2 o2 where 2: "X2 = (d2, o2)" by fastforce
  obtain d3 o3 where 3: "tui_clients (r_tui e) d2 = (d3, o3)" by fastforce
  define X4 where "X4 = (if enabled (d_irc d3) then irc_maintain (r_link e) (r_now e) d3 else (d3, []))"
  obtain d4 o4 where 4: "X4 = (d4, o4)" by fastforce
  obtain o5 where 5: "dispatch J tz (r_start e) (r_disp e) (r_disp_now e) (r_now e - ls \<ge> 5000) (d4, fs) = ((d', fs'), o5)"
    "outs = o1 @ o2 @ o3 @ o4 @ o5"
    using assms(1) unfolding daemon_round_def prod.case X1_def [symmetric] 1 X2_def [symmetric] 2 3 X4_def [symmetric] 4 Let_def
    by (auto split: prod.splits)
  note g1 = round_irc_grows [OF 1 [unfolded X1_def] assms(2), of J tz fs]
  have "grows J tz (d1, fs) o2 (d2, fs)" using round_new_grows [OF 2 [unfolded X2_def] assms(2)] g1 by blast
  moreover have "grows J tz (d2, fs) o3 (d3, fs)" by (rule tui_clients_grows [OF 3])
  moreover have "grows J tz (d3, fs) o4 (d4, fs)" by (rule round_link_grows [OF 4 [unfolded X4_def]])
  moreover have "grows J tz (d4, fs) o5 (d', fs')" by (rule dispatch_grows [OF 5(1)])
  ultimately show ?thesis using g1 5(2) by (blast intro: grows_trans)
qed

section \<open>Reachable states\<close>

lemma start_sys_wf: "daemon_start e cfg fs = Some (d, fs') \<Longrightarrow> sys_wf (d, fs', []) \<and> d_queue d = []"
  using daemon_start_props by (fastforce simp: sys_wf_def in_set_conv_nth)

lemma reachable_wf:
  assumes "daemon_start e cfg fs0 = Some (d0, fs1)" "dsteps J tz (d0, fs1, []) outs (d, fs, run)"
  shows "sys_wf (d, fs, run) \<and> fifo d0 outs d \<and> d_queue d0 = []"
  using dsteps_wf [OF assms(2)] start_sys_wf [OF assms(1)] by simp

section \<open>What dispatch handles\<close>

lemma start_session_handled:
  assumes "start_session J e j TRIG_IRC data ini (d, fs) = ((d', fs'), outs)" "j < length (d_agents d)" "agent_idle (d_agents d ! j) now_s"
  shows "handled_texts i outs = (if j = i then [data] else [])"
  using start_session_started [OF assms] by (auto simp: handled_texts_def)

lemma started_other: "started now_s d outs d' \<Longrightarrow> i \<notin> fst ` set (starts outs) \<Longrightarrow> i < length (d_agents d) \<Longrightarrow> d_agents d' ! i = d_agents d ! i"
  by (simp add: started_def)

lemma dispatch_queue_handles:
  assumes "dispatch_queue J env now_s ts kept (d, fs) = ((d', fs'), outs)" "\<forall>t \<in> set ts. fst t < length (d_agents d)" "i < length (d_agents d)"
  shows "if agent_idle (d_agents d ! i) now_s then texts_for i ts \<noteq> [] \<longrightarrow> handled_texts i outs \<noteq> [] else handled_texts i outs = []"
  using assms
proof (induction ts arbitrary: kept d fs outs)
  case Nil
  then show ?case by (auto simp: texts_for_def handled_texts_def)
next
  case (Cons t ts)
  show ?case
  proof (cases "agent_idle (d_agents d ! fst t) now_s")
    case False
    with Cons.prems(1) have s: "dispatch_queue J env now_s ts (kept @ [t]) (d, fs) = ((d', fs'), outs)" by simp
    have "texts_for i (t # ts) = texts_for i ts" if "agent_idle (d_agents d ! i) now_s" using False that by (auto simp: texts_for_def)
    with Cons.IH [OF s _ Cons.prems(3)] Cons.prems(2) show ?thesis by simp
  next
    case True
    obtain d1 fs1 o1 o2 where s: "start_session J (env (length ts)) (fst t) TRIG_IRC (snd t) ''owner'' (d, fs) = ((d1, fs1), o1)"
      "dispatch_queue J env now_s ts kept (d1, fs1) = ((d', fs'), o2)" "outs = o1 @ o2"
      by (rule dispatch_queue_cons [OF Cons.prems(1) True])
    have n: "fst t < length (d_agents d)" using Cons.prems(2) by simp
    note st = start_session_started [OF s(1) n True] and h = start_session_handled [OF s(1) n True, of i]
    have len: "length (d_agents d1) = length (d_agents d)" using st by (simp add: started_def)
    show ?thesis
    proof (cases "fst t = i")
      case True
      with h s(3) \<open>agent_idle (d_agents d ! fst t) now_s\<close> show ?thesis by simp
    next
      case False
      then have "i \<notin> fst ` set (starts o1)" using st by auto
      then have same: "d_agents d1 ! i = d_agents d ! i" using st started_other Cons.prems(3) by blast
      from Cons.IH [OF s(2)] Cons.prems(2,3) len same h s(3) False show ?thesis by (simp add: texts_for_def)
    qed
  qed
qed

lemma mail_or_task_queue: "d_queue d' = d_queue d1 \<Longrightarrow> mail_or_task d1 x = mail_or_task d' x"
  by (cases x) (simp_all add: mail_or_task_def queued_for_def)

text \<open>The sessions of the first loop are all for the owner.\<close>

lemma dispatch_queue_irc:
  assumes "dispatch_queue J env now_s ts kept (d, fs) = ((d', fs'), outs)" "\<forall>t \<in> set ts. fst t < length (d_agents d)"
  shows "Started i t tx sid \<in> set outs \<Longrightarrow> t = TRIG_IRC"
  using assms
proof (induction ts arbitrary: kept d fs outs)
  case (Cons u ts)
  show ?case
  proof (cases "agent_idle (d_agents d ! fst u) now_s")
    case False
    with Cons.prems(2) have s: "dispatch_queue J env now_s ts (kept @ [u]) (d, fs) = ((d', fs'), outs)" by simp
    from Cons.IH [OF Cons.prems(1) s] Cons.prems(3) show ?thesis by simp
  next
    case True
    obtain d1 fs1 o1 o2 where s: "start_session J (env (length ts)) (fst u) TRIG_IRC (snd u) ''owner'' (d, fs) = ((d1, fs1), o1)"
      "dispatch_queue J env now_s ts kept (d1, fs1) = ((d', fs'), o2)" "outs = o1 @ o2"
      by (rule dispatch_queue_cons [OF Cons.prems(2) True])
    have n: "fst u < length (d_agents d)" using Cons.prems(3) by simp
    note st = start_session_started [OF s(1) n True]
    have len: "length (d_agents d1) = length (d_agents d)" using st by (simp add: started_def)
    show ?thesis
    proof (cases "Started i t tx sid \<in> set o1")
      case True
      with st show ?thesis by auto
    next
      case False
      with Cons.prems(1) s(3) have "Started i t tx sid \<in> set o2" by simp
      from Cons.IH [OF this s(2)] Cons.prems(3) len show ?thesis by simp
    qed
  qed
qed auto

text \<open>The two loops of \<open>dispatch\<close>: the second leaves the queue as it is.\<close>

lemma dispatch_loops:
  assumes "dispatch J tz senv env now chk (d, fs) = ((d', fs'), outs)" "\<forall>t \<in> set (d_queue d). fst t < length (d_agents d)"
  obtains d1 fs1 o1 o2 where "dispatch_queue J senv (to_int32 (now div 1000)) (d_queue d) [] (d, fs) = ((d1, fs1), o1)" "outs = o1 @ o2"
    "d_queue d' = d_queue d1" "list_all (mail_or_task d1) o2"
proof -
  obtain d1 fs1 o1 o2 where p: "dispatch_queue J senv (to_int32 (now div 1000)) (d_queue d) [] (d, fs) = ((d1, fs1), o1)"
    "dispatch_agents J tz env (to_int32 (now div 1000)) chk [0..<length (d_agents d)] (d1, fs1) = ((d', fs'), o2)" "outs = o1 @ o2"
    using dispatch_parts [OF assms(1)] by metis
  have "length (d_agents d1) = length (d_agents d)" using dispatch_queue_started [OF p(1) assms(2)] by (simp add: started_def)
  then have "set [0..<length (d_agents d)] \<subseteq> {..<length (d_agents d1)}" by auto
  then show ?thesis using dispatch_agents_started [OF p(2)] that [OF p(1,3)] by blast
qed

lemma dispatch_handles:
  assumes "dispatch J tz senv env now chk (d, fs) = ((d', fs'), outs)" "\<forall>t \<in> set (d_queue d). fst t < length (d_agents d)"
  shows "i < length (d_agents d) \<Longrightarrow> (if agent_idle (d_agents d ! i) (to_int32 (now div 1000))
      then texts_for i (d_queue d) \<noteq> [] \<longrightarrow> handled_texts i outs \<noteq> [] else handled_texts i outs = [])"
    and "Started i t tx sid \<in> set outs \<Longrightarrow> t \<noteq> TRIG_IRC \<Longrightarrow> \<not> queued_for i d'"
    and "queued_texts i outs = []"
proof -
  obtain d1 fs1 o1 o2 where p: "dispatch_queue J senv (to_int32 (now div 1000)) (d_queue d) [] (d, fs) = ((d1, fs1), o1)" "outs = o1 @ o2"
    and s: "d_queue d' = d_queue d1" "list_all (mail_or_task d1) o2"
    by (rule dispatch_loops [OF assms])
  show "if agent_idle (d_agents d ! i) (to_int32 (now div 1000))
      then texts_for i (d_queue d) \<noteq> [] \<longrightarrow> handled_texts i outs \<noteq> [] else handled_texts i outs = []" if "i < length (d_agents d)"
    using dispatch_queue_handles [OF p(1) assms(2) that] mail_or_task_quiet [OF s(2), of i] p(2) by simp
  show "queued_texts i outs = []"
    using mail_or_task_quiet [OF s(2)] dispatch_queue_fifo [OF p(1), of i] assms(2) p(2) by simp
  assume t: "Started i t tx sid \<in> set outs" "t \<noteq> TRIG_IRC"
  with dispatch_queue_irc [OF p(1) assms(2)] p(2) have "Started i t tx sid \<in> set o2" by auto
  then have "mail_or_task d1 (Started i t tx sid)" using s(2) by (simp add: list_all_iff)
  with s(1) show "\<not> queued_for i d'" by (simp add: mail_or_task_def queued_for_def)
qed

section \<open>Clients\<close>

lemma filter_eq_one: "i < n \<Longrightarrow> filter (\<lambda>j. j = i) [0..<n] = [i]"
  by (induction n) (auto simp: less_Suc_eq filter_empty_conv)

lemma addressed_one:
  assumes "agents_wf d" "i < length (d_agents d)" "a_name (d_agents d ! i) = name"
  shows "addressed name d = [i]"
proof -
  have all: "\<not> strcaseeq name ''all''" using assms by (auto simp: agents_wf_def list_all_iff)
  have dis: "distinct (map (map tolower) (map a_name (d_agents d)))" using assms(1) by (simp add: agents_wf_def)
  have "strcaseeq name (a_name (d_agents d ! j)) \<longleftrightarrow> j = i" if "j < length (d_agents d)" for j
    using that assms(2,3) nth_eq_iff_index_eq [OF dis, of j i] by (auto simp: strcaseeq_def)
  then have "addressed name d = filter (\<lambda>j. j = i) [0..<length (d_agents d)]"
    using all unfolding addressed_def by (intro filter_cong) auto
  also have "\<dots> = [i]" using filter_eq_one [OF assms(2)] .
  finally show ?thesis .
qed

lemma route_msg_frame: "NUL \<notin> set name \<Longrightarrow> NUL \<notin> set tx \<Longrightarrow> route_msg oom (name @ NUL # tx) d = on_irc_trigger oom name (Some tx) d"
  by (simp add: route_msg_def ctext)

lemma unat_small: "n \<le> 4095 \<Longrightarrow> unat (of_nat n :: 32 word) = n"
  by (simp add: unsigned_of_nat take_bit_nat_eq_self_iff)

lemma write_all_all: "write_all [] s = (s, True)"
  by (cases s) simp_all

lemma sock_send_all: "\<exists>w. sock_send [] [] type (Some data) len = (w, 0)"
  by (cases "0 < len") (simp_all add: sock_send_def write_all_all Let_def)

lemma sock_send_prefix:
  assumes "sock_send e1 e2 type (Some data) len = (w, rc)" "unat len = length data"
  shows "prefix w (le32 type @ le32 len @ data)"
proof -
  obtain w1 ok1 w2 ok2 where w: "write_all e1 (le32 type @ le32 len) = (w1, ok1)" "write_all e2 (take (unat len) data) = (w2, ok2)"
    by fastforce
  note p = write_all_prefix [OF w(1)] write_all_prefix [OF w(2)]
  have "w = w1 \<or> ok1 \<and> w = w1 @ w2" using assms(1) w by (auto simp: sock_send_def split: if_splits)
  then show ?thesis
  proof
    assume "w = w1"
    with p(1) have "prefix w (le32 type @ le32 len)" by simp
    from prefix_order.trans [OF this, of "(le32 type @ le32 len) @ data"] show ?thesis by simp
  next
    assume "ok1 \<and> w = w1 @ w2"
    with p assms(2) show ?thesis by simp
  qed
qed

lemma tool_name_no_NUL: "tool_name_valid s \<Longrightarrow> NUL \<notin> set s"
  by (auto simp: tool_name_valid_def list_all_iff is_lower_def is_upper_def is_digit_def byte_def)

lemma length_dec_int: "- (2 ^ 31) \<le> i \<Longrightarrow> i < 2 ^ 31 \<Longrightarrow> length (dec_int i) \<le> 11"
proof -
  assume "- (2 ^ 31) \<le> i" "i < 2 ^ 31"
  then have "nat i < 10 ^ 10" "nat (- i) < 10 ^ 10" by auto
  from this [THEN length_dec_nat] show ?thesis by (simp add: dec_int_def)
qed

lemma irc_info_length: "daemon_wf d \<Longrightarrow> length (irc_info d (nick (d_irc d))) < 512"
  using length_dec_int [of "d_irc_port d"] by (simp add: daemon_wf_def irc_wf_def irc_info_def)

section \<open>Properties\<close>

text \<open>A client that sends \<open>hi\<close> to everyone, and a round in which it connects.\<close>

definition msg_client :: client_env where
  "msg_client = \<lparr>cl_reads = [RBytes (le32 SOCK_CMD_MSG @ le32 6 @ ''all'' @ NUL # ''hi'')], cl_hdr = [], cl_body = [], cl_oom = (\<lambda>_. False)\<rparr>"

definition sample_start :: start_env where
  "sample_start = \<lparr>st_oom = False, st_sid = ''s1'', st_now = ''t'', st_create = sample_wenv, st_mid = ''m1'', st_add = sample_wenv,
     st_thread_fails = False, st_status = sample_wenv\<rparr>"

definition sample_disp :: disp_env where
  "sample_disp = \<lparr>di_readdir = (\<lambda>_ _. None), di_start = sample_start, di_time = 0, di_mark = sample_wenv\<rparr>"

definition sample_round :: round_env where
  "sample_round = \<lparr>r_now = 9000, r_irc = None, r_irc_oom = (\<lambda>_. False), r_new = Some (msg_client, Some 9), r_tui = [],
     r_link = \<lparr>le_conn = None, le_tls_ok = False, le_hs_closed = False, le_now = 9000\<rparr>, r_start = (\<lambda>_. sample_start),
     r_disp = (\<lambda>_. sample_disp), r_disp_now = 9000\<rparr>"

lemma msg_client_read: "\<exists>len rest. sock_read_cmd (cl_reads msg_client) 4096 = Some (SOCK_CMD_MSG, ''all'' @ NUL # ''hi'', len, rest)"
proof -
  let ?data = "''all'' @ NUL # ''hi''"
  have s: "stream (cl_reads msg_client) = le32 SOCK_CMD_MSG @ le32 6 @ ?data @ []" by (simp add: msg_client_def)
  have n: "unat (6 :: 32 word) = length ?data" by simp
  have tk: "take (4096 - 1) ?data = ?data" by (rule take_all) simp
  from sock_read_frame [OF s n, of 4096, unfolded tk] show ?thesis by auto
qed

lemma msg_client_queues:
  assumes "d_queue d = []" "d_agents d \<noteq> []" "handle_new_client J msg_client (Some 9) d = (d', outs)"
  shows "hd outs = Queued 0 ''hi''" "outs \<noteq> []"
proof -
  have a: "addressed ''all'' d = 0 # [1..<length (d_agents d)]"
    using assms(2) by (simp add: addressed_def strcaseeq_def upt_conv_Cons)
  have q: "enqueue_trigger (cl_oom msg_client 0) 0 (Some ''hi'') d = (d\<lparr>d_queue := [(0, ''hi'')]\<rparr>, [Queued 0 ''hi''])"
    using assms(1) by (simp add: enqueue_trigger_def or_empty_def msg_client_def)
  have m: "route_msg (cl_oom msg_client) (''all'' @ NUL # ''hi'') d = on_irc_trigger (cl_oom msg_client) ''all'' (Some ''hi'') d"
    by (rule route_msg_frame) simp_all
  obtain d2 o2 where e: "enqueue_all (cl_oom msg_client) (Some ''hi'') [1..<length (d_agents d)] (d\<lparr>d_queue := [(0, ''hi'')]\<rparr>) = (d2, o2)" by fastforce
  have o: "on_irc_trigger (cl_oom msg_client) ''all'' (Some ''hi'') d = (d2, Queued 0 ''hi'' # o2)"
    using e by (simp add: on_irc_trigger_def a q)
  obtain len rest where r: "sock_read_cmd (cl_reads msg_client) 4096 = Some (SOCK_CMD_MSG, ''all'' @ NUL # ''hi'', len, rest)"
    using msg_client_read by blast
  have "outs = (Queued 0 ''hi'' # o2) @ [Closed 9]"
    using assms(3) m o unfolding handle_new_client_def option.case r prod.case by (simp add: sock_cmds)
  then show "hd outs = Queued 0 ''hi''" "outs \<noteq> []" by simp_all
qed

text \<open>A daemon in the state of its first round, and what that round does.\<close>

lemma sample_daemon:
  obtains d fs d' fs' ls outs where "daemon_start boot_sample boot_cfg boot_fs = Some (d, fs)"
    "daemon_round (table_cjson []) utc sample_round 0 (d, fs) = ((d', fs'), ls, outs)" "round_ok sample_round d"
    "queued_texts 0 outs \<noteq> []" "dsteps (table_cjson []) utc (d, fs, []) outs (d', fs', starts outs)"
proof -
  obtain d fs where s: "daemon_start boot_sample boot_cfg boot_fs = Some (d, fs)" using boot_sample_starts by blast
  note p = daemon_start_props [OF s]
  obtain d' fs' ls outs where r: "daemon_round (table_cjson []) utc sample_round 0 (d, fs) = ((d', fs'), ls, outs)" by (metis prod.exhaust)
  have ok: "round_ok sample_round d" using p by (simp add: round_ok_def sample_round_def)
  obtain d2 o2 where h: "handle_new_client (table_cjson []) msg_client (Some 9) d = (d2, o2)" by fastforce
  have "hd o2 = Queued 0 ''hi''" "o2 \<noteq> []" by (rule msg_client_queues [OF _ _ h]; use p in blast)+
  moreover have "\<exists>o3. outs = o2 @ o3" using r h unfolding daemon_round_def
    by (auto simp: sample_round_def Let_def split: prod.splits)
  ultimately have "queued_texts 0 outs \<noteq> []" by (cases o2) (auto simp: queued_texts_def)
  moreover have "dsteps (table_cjson []) utc (d, fs, []) outs (d', fs', starts outs)"
    using daemon_round_grows [OF r ok] unfolding grows_def by (metis append_Nil fst_conv snd_conv)
  ultimately show ?thesis using that s r ok by blast
qed

text \<open>
  A round of the event loop is a sequence of the steps of the transition system, in the order IRC,
  new client, attached clients, link, dispatch; the sessions it starts are added to the running ones. What
  holds of all sequences of steps holds of the loop.
\<close>

theorem daemon_round_refines:
  assumes "daemon_round J tz e ls (d, fs) = ((d', fs'), ls', outs)" "round_ok e d"
  shows "dsteps J tz (d, fs, run) outs (d', fs', run @ starts outs)"
  using daemon_round_grows [OF assms] by (simp add: grows_def)

theorem daemon_round_refines_witness:
  "\<exists>d fs outs s. daemon_start boot_sample boot_cfg boot_fs = Some (d, fs) \<and> queued_texts 0 outs \<noteq> [] \<and>
     dsteps (table_cjson []) utc (d, fs, []) outs s"
proof -
  obtain d fs d' fs' ls outs where s: "daemon_start boot_sample boot_cfg boot_fs = Some (d, fs)"
    "daemon_round (table_cjson []) utc sample_round 0 (d, fs) = ((d', fs'), ls, outs)" "round_ok sample_round d" "queued_texts 0 outs \<noteq> []"
    by (rule sample_daemon)
  from daemon_round_refines [OF s(2,3)] s(1,4) show ?thesis by blast
qed

text \<open>
  (C4) In every state the daemon can reach from a start, by any sequence of operations of the main thread,
  ends of sessions and changes to files by others: at most 64 messages are queued, each for an
  existing agent; at most 8 clients are attached, on different descriptors; an agent is busy
  exactly when a session of it runs, and no agent has two; the registry of names and the IRC state stay within
  their arrays.
\<close>

theorem daemon_invariant:
  assumes "daemon_start e cfg fs0 = Some (d0, fs1)" "dsteps J tz (d0, fs1, []) outs (d, fs, run)"
  shows "daemon_wf d \<and> length (d_queue d) \<le> 64 \<and> (\<forall>t \<in> set (d_queue d). fst t < length (d_agents d)) \<and>
     length (d_tui_clients d) \<le> 8 \<and> distinct (d_tui_clients d) \<and>
     distinct (map fst run) \<and> (\<forall>i < length (d_agents d). a_busy (d_agents d ! i) \<longleftrightarrow> i \<in> fst ` set run)"
  using reachable_wf [OF assms] by (auto simp: sys_wf_def daemon_wf_def)

theorem daemon_invariant_witness:
  "\<exists>d0 fs1 d fs run outs. daemon_start boot_sample boot_cfg boot_fs = Some (d0, fs1) \<and> dsteps (table_cjson []) utc (d0, fs1, []) outs (d, fs, run) \<and>
     queued_texts 0 outs \<noteq> [] \<and> daemon_wf d \<and> distinct (map fst run)"
proof -
  obtain d fs d' fs' ls outs where s: "daemon_start boot_sample boot_cfg boot_fs = Some (d, fs)"
    "queued_texts 0 outs \<noteq> []" and g: "dsteps (table_cjson []) utc (d, fs, []) outs (d', fs', starts outs)"
    by (rule sample_daemon)
  from daemon_invariant [OF s(1) g] have "daemon_wf d'" "distinct (map fst (starts outs))" by simp_all
  with s g show ?thesis by blast
qed

text \<open>
  (C5) The owner's messages to an agent are handled in the order they were accepted, none skipped and none
  twice: in every reachable state, the messages queued for the agent so far are those for which a session was
  started (or could not be started, with an error logged), followed by those still waiting.
\<close>

theorem owner_messages_fifo:
  assumes "daemon_start e cfg fs0 = Some (d0, fs1)" "dsteps J tz (d0, fs1, []) outs (d, fs, run)"
  shows "queued_texts i outs = handled_texts i outs @ texts_for i (d_queue d)"
  using reachable_wf [OF assms] unfolding fifo_def by (metis append_Nil filter.simps(1) list.map(1) texts_for_def)

theorem owner_messages_fifo_witness:
  "\<exists>d0 fs1 d fs run outs. daemon_start boot_sample boot_cfg boot_fs = Some (d0, fs1) \<and> dsteps (table_cjson []) utc (d0, fs1, []) outs (d, fs, run) \<and>
     queued_texts 0 outs \<noteq> [] \<and> queued_texts 0 outs = handled_texts 0 outs @ texts_for 0 (d_queue d)"
proof -
  obtain d fs d' fs' ls outs where s: "daemon_start boot_sample boot_cfg boot_fs = Some (d, fs)"
    "queued_texts 0 outs \<noteq> []" and g: "dsteps (table_cjson []) utc (d, fs, []) outs (d', fs', starts outs)"
    by (rule sample_daemon)
  from owner_messages_fifo [OF s(1) g, of 0] s g show ?thesis by blast
qed

text \<open>
  (C6) What one \<open>dispatch\<close> does with the owner's messages: an idle agent that has messages waiting gets its first
  one handled, an agent that is busy or ended a session less than five seconds ago gets none; sessions
  are only started for idle agents, one for each; a session for mail or tasks is only started for an
  agent that has no message left waiting.
\<close>

theorem dispatch_owner_first:
  assumes "daemon_wf d" "dispatch J tz senv env now chk (d, fs) = ((d', fs'), outs)"
  shows "(\<forall>i < length (d_agents d). if agent_idle (d_agents d ! i) (to_int32 (now div 1000))
        then texts_for i (d_queue d) \<noteq> [] \<longrightarrow> (\<exists>rest. handled_texts i outs = hd (texts_for i (d_queue d)) # rest)
        else handled_texts i outs = [] \<and> texts_for i (d_queue d') = texts_for i (d_queue d)) \<and>
     distinct (map fst (starts outs)) \<and> (\<forall>i \<in> fst ` set (starts outs). agent_idle (d_agents d ! i) (to_int32 (now div 1000))) \<and>
     (\<forall>i t tx sid. Started i t tx sid \<in> set outs \<and> t \<noteq> TRIG_IRC \<longrightarrow> \<not> queued_for i d')"
proof -
  have q: "\<forall>t \<in> set (d_queue d). fst t < length (d_agents d)" using assms(1) by (simp add: daemon_wf_def)
  note w = dispatch_wf [OF assms(2,1)]
  have f: "texts_for i (d_queue d) @ queued_texts i outs = handled_texts i outs @ texts_for i (d_queue d')" for i
    using w by (simp add: fifo_def)
  have n: "queued_texts i outs = []" for i using dispatch_handles(3) [OF assms(2) q] .
  have "if agent_idle (d_agents d ! i) (to_int32 (now div 1000))
        then texts_for i (d_queue d) \<noteq> [] \<longrightarrow> (\<exists>rest. handled_texts i outs = hd (texts_for i (d_queue d)) # rest)
        else handled_texts i outs = [] \<and> texts_for i (d_queue d') = texts_for i (d_queue d)" if "i < length (d_agents d)" for i
    using dispatch_handles(1) [OF assms(2) q that] f [of i] n [of i] by (cases "handled_texts i outs") (auto split: if_splits)
  moreover have "distinct (map fst (starts outs))" "\<forall>i \<in> fst ` set (starts outs). agent_idle (d_agents d ! i) (to_int32 (now div 1000))"
    using w by (auto simp: started_def)
  ultimately show ?thesis using dispatch_handles(2) [OF assms(2) q] by blast
qed

theorem dispatch_owner_first_witness:
  "\<exists>d s' outs rest. dispatch (table_cjson []) utc (\<lambda>_. sample_start) (\<lambda>_. sample_disp) 9000 True (d, Map.empty) = (s', outs) \<and>
     agent_idle (d_agents d ! 0) 9 \<and> handled_texts 0 outs = ''hi'' # rest"
proof -
  obtain d0 fs where s: "daemon_start boot_sample boot_cfg boot_fs = Some (d0, fs)" using boot_sample_starts by blast
  note p = daemon_start_props [OF s]
  obtain a as where as: "d_agents d0 = a # as" using p by (cases "d_agents d0") auto
  define d where "d = d0\<lparr>d_queue := [(0, ''hi'')], d_agents := a\<lparr>a_last_session := 0\<rparr> # as\<rparr>"
  have w: "daemon_wf d" using p as by (simp add: d_def daemon_wf_def agents_wf_def)
  have b: "\<not> a_busy a" using p as by simp
  obtain d' fs' outs where r: "dispatch (table_cjson []) utc (\<lambda>_. sample_start) (\<lambda>_. sample_disp) 9000 True (d, Map.empty) = ((d', fs'), outs)"
    by (metis prod.exhaust)
  have i: "agent_idle (d_agents d ! 0) 9" "to_int32 (9000 div 1000) = 9" "0 < length (d_agents d)" "texts_for 0 (d_queue d) = [''hi'']"
    using b by (simp_all add: d_def agent_idle_def texts_for_def to_int32_def)
  from conjunct1 [OF dispatch_owner_first [OF w r], rule_format, OF i(3)] i have "\<exists>rest. handled_texts 0 outs = ''hi'' # rest" by simp
  with r i(1) show ?thesis by blast
qed

text \<open>
  The IRC link. While it is down, nothing is tried before \<open>irc_retry_at\<close>; a failed attempt doubles the backoff
  (30 seconds at first, 300 at most) and sets the next attempt that long after its own end. A
  link that is lost to silence is retried after 5 seconds if it was registered, and after twice the
  previous backoff otherwise. A link that stays up keeps its retry time.
\<close>

theorem irc_maintain_backoff:
  assumes "daemon_wf d" "irc_maintain e now d = (d', outs)" "case le_conn e of Some c \<Rightarrow> 0 \<le> c | None \<Rightarrow> True"
  shows "(fd (d_irc d) < 0 \<and> now < d_irc_retry_at d \<longrightarrow> d' = d \<and> outs = []) \<and>
     (fd (d_irc d) < 0 \<and> d_irc_retry_at d \<le> now \<and> fd (d_irc d') < 0 \<longrightarrow>
        d_irc_backoff d' = (if d_irc_backoff d = 0 then 30 else min 300 (2 * d_irc_backoff d)) \<and>
        d_irc_retry_at d' = le_now e + 1000 * d_irc_backoff d') \<and>
     (0 \<le> fd (d_irc d) \<and> fd (d_irc d') < 0 \<longrightarrow>
        d_irc_backoff d' = (if registered (d_irc d) \<or> d_irc_backoff d = 0 then 5 else min 300 (2 * d_irc_backoff d)) \<and>
        d_irc_retry_at d' = now + 1000 * d_irc_backoff d' \<and> le_now e - last_rx (d_irc d) > 420000) \<and>
     (0 \<le> fd (d_irc d) \<and> 0 \<le> fd (d_irc d') \<longrightarrow> d_irc_retry_at d' = d_irc_retry_at d)"
proof (cases "0 \<le> fd (d_irc d)")
  case True
  then show ?thesis using assms(2)
    by (auto simp: irc_maintain_def irc_keepalive_def irc_lost_def irc_disconnect_def Let_def min_def split: if_splits)
next
  case False
  then show ?thesis using assms(2,3)
    by (auto simp: irc_maintain_def irc_connect_def irc_disconnect_def Let_def min_def split: if_splits option.splits)
qed

theorem irc_maintain_backoff_witness:
  "\<exists>d d' outs. irc_maintain \<lparr>le_conn = None, le_tls_ok = False, le_hs_closed = False, le_now = 8500\<rparr> 8000 d = (d', outs) \<and>
     d_irc_backoff d = 160 \<and> d_irc_backoff d' = 300 \<and> d_irc_retry_at d' = 308500"
proof -
  obtain d0 fs where s: "daemon_start boot_sample boot_cfg boot_fs = Some (d0, fs)" using boot_sample_starts by blast
  let ?e = "\<lparr>le_conn = None, le_tls_ok = False, le_hs_closed = False, le_now = 8500\<rparr>"
  define d where "d = d0\<lparr>d_irc := blank_irc boot_cfg, d_irc_backoff := 160, d_irc_retry_at := 7000\<rparr>"
  have w: "daemon_wf d" unfolding d_def using daemon_start_props [OF s] blank_irc_wf by (intro daemon_wf_irc) simp_all
  have f: "fd (d_irc d) < 0" "d_irc_retry_at d \<le> 8000" "d_irc_backoff d = 160" by (simp_all add: d_def blank_irc_def Let_def)
  obtain d' outs where r: "irc_maintain ?e 8000 d = (d', outs)" by fastforce
  have "fd (d_irc d') < 0" using r f by (auto simp: irc_maintain_def irc_connect_def Let_def split: if_splits)
  with irc_maintain_backoff [OF w r] f have "d_irc_backoff d' = 300 \<and> d_irc_retry_at d' = 308500" by simp
  with r f(3) show ?thesis by blast
qed

text \<open>The frame of a message, as the daemon reads and routes it.\<close>

lemma msg_frame_routed:
  assumes "daemon_wf d" "i < length (d_agents d)" "a_name (d_agents d ! i) = name" "length (d_queue d) < 64" "\<not> oom i"
    "NUL \<notin> set tx" "length (name @ NUL # tx) \<le> 4095"
    "sock_send e1 e2 SOCK_CMD_MSG (Some (name @ NUL # tx)) (of_nat (length (name @ NUL # tx))) = (w, 0)" "stream reads = w"
  shows "\<exists>n rest. sock_read_cmd reads 4096 = Some (SOCK_CMD_MSG, name @ NUL # tx, n, rest) \<and>
     route_msg oom (name @ NUL # tx) d = (d\<lparr>d_queue := d_queue d @ [(i, tx)]\<rparr>, [Queued i tx])"
proof -
  let ?data = "name @ NUL # tx" and ?len = "of_nat (length (name @ NUL # tx)) :: 32 word"
  have u: "unat ?len = length ?data" by (rule unat_small [OF assms(7)])
  have w: "stream reads = le32 SOCK_CMD_MSG @ le32 ?len @ ?data @ []" using sock_send_ok [OF assms(8) u] assms(9) by simp
  have tk: "take (4096 - 1) ?data = ?data" using assms(7) by (intro take_all) simp
  have "\<exists>n rest. sock_read_cmd reads 4096 = Some (SOCK_CMD_MSG, ?data, n, rest)"
    using sock_read_frame [OF w u, of 4096, unfolded tk] by auto
  moreover have z: "NUL \<notin> set name" using assms(1-3) tool_name_no_NUL by (auto simp: daemon_wf_def agents_wf_def list_all_iff)
  moreover have "addressed name d = [i]" using addressed_one assms(1-3) by (simp add: daemon_wf_def)
  ultimately show ?thesis
    using assms(4,5) by (simp add: route_msg_frame [OF z assms(6)] on_irc_trigger_def enqueue_trigger_def or_empty_def)
qed

text \<open>
  A message that a client sends over the control socket, in a frame of at most 4095 bytes with the agent's
  name, a zero byte and the text, is queued for that agent and no other, with its text whole, however
  the bytes were split over reads; the connection is closed and nothing else changes.
\<close>

theorem client_message_queued:
  assumes "daemon_wf d" "i < length (d_agents d)" "a_name (d_agents d ! i) = name" "length (d_queue d) < 64" "\<not> cl_oom e i"
    "NUL \<notin> set tx" "length (name @ NUL # tx) \<le> 4095"
    "sock_send e1 e2 SOCK_CMD_MSG (Some (name @ NUL # tx)) (of_nat (length (name @ NUL # tx))) = (w, 0)" "stream (cl_reads e) = w"
  shows "handle_new_client J e (Some c) d = (d\<lparr>d_queue := d_queue d @ [(i, tx)]\<rparr>, [Queued i tx, Closed c])"
proof -
  obtain n rest where "sock_read_cmd (cl_reads e) 4096 = Some (SOCK_CMD_MSG, name @ NUL # tx, n, rest)"
    "route_msg (cl_oom e) (name @ NUL # tx) d = (d\<lparr>d_queue := d_queue d @ [(i, tx)]\<rparr>, [Queued i tx])"
    using msg_frame_routed [where oom = "cl_oom e", OF assms] by blast
  then show ?thesis by (simp add: handle_new_client_def sock_cmds)
qed

theorem client_message_queued_witness:
  "\<exists>d e. handle_new_client (table_cjson []) e (Some 9) d = (d\<lparr>d_queue := d_queue d @ [(0, ''hi'')]\<rparr>, [Queued 0 ''hi'', Closed 9])"
proof -
  obtain d fs where s: "daemon_start boot_sample boot_cfg boot_fs = Some (d, fs)" using boot_sample_starts by blast
  note p = daemon_start_props [OF s]
  let ?name = "a_name (d_agents d ! 0)"
  have v: "length ?name < 32" using p by (auto simp: daemon_wf_def agents_wf_def list_all_iff)
  define data where "data = ?name @ NUL # ''hi''"
  obtain w where w: "sock_send [] [] SOCK_CMD_MSG (Some data) (of_nat (length data)) = (w, 0)" using sock_send_all by blast
  define e where "e = msg_client\<lparr>cl_reads := [RBytes w]\<rparr>"
  have "w \<noteq> []" using w by (auto simp: sock_send_def write_all_all le32_def Let_def split: if_splits)
  then have r: "stream (cl_reads e) = w" by (simp add: e_def)
  have len: "length (d_queue d) < 64" "\<not> cl_oom e 0" "length data \<le> 4095" "0 < length (d_agents d)" using p v by (simp_all add: e_def msg_client_def data_def)
  have wf: "daemon_wf d" and nz: "NUL \<notin> set ''hi''" using p by simp_all
  from client_message_queued [OF wf len(4) refl len(1,2) nz len(3) [unfolded data_def] w [unfolded data_def] r]
  show ?thesis by blast
qed

text \<open>
  The answer to \<open>SOCK_CMD_IRC_INFO\<close> is never cut: in every reachable state the text that names the
  channel, its key, the server and the nick has less than the 512 bytes of its buffer, so the length sent with
  it is the length of what is in the buffer and the client gets the whole text.
\<close>

theorem irc_info_complete:
  assumes "daemon_start e cfg fs0 = Some (d0, fs1)" "dsteps J tz (d0, fs1, []) outs (d, fs, run)"
    "sock_read_cmd (cl_reads ce) 4096 = Some (SOCK_CMD_IRC_INFO, data, n, rest)" "cl_hdr ce = []" "cl_body ce = []"
  shows "length (irc_info d (nick (d_irc d))) < 512 \<and>
     handle_new_client J ce (Some c) d =
       (d, [ToClient c (le32 3 @ le32 (of_nat (length (irc_info d (nick (d_irc d))))) @ irc_info d (nick (d_irc d))), Closed c])"
proof -
  let ?info = "irc_info d (nick (d_irc d))"
  have l: "length ?info < 512" using reachable_wf [OF assms(1,2)] irc_info_length by (simp add: sys_wf_def)
  then have b: "buf_set 512 ?info = ?info" by (simp add: buf_set_def)
  have u: "unat (of_nat (length ?info) :: 32 word) = length ?info" using l by (intro unat_small) simp
  obtain w where w: "sock_send (cl_hdr ce) (cl_body ce) 3 (Some ?info) (of_nat (length ?info)) = (w, 0)"
    unfolding assms(4,5) using sock_send_all by blast
  show ?thesis using l assms(3) b w sock_send_ok [OF w u] unfolding handle_new_client_def option.case assms(3) prod.case
    by (simp add: sock_cmds Let_def)
qed

theorem irc_info_complete_witness:
  "\<exists>d info. length info < 512 \<and> handle_new_client (table_cjson []) (msg_client\<lparr>cl_reads := [RBytes (le32 7 @ le32 0)]\<rparr>) (Some 9) d =
     (d, [ToClient 9 (le32 3 @ le32 (of_nat (length info)) @ info), Closed 9])"
proof -
  obtain d fs d' fs' ls outs where s: "daemon_start boot_sample boot_cfg boot_fs = Some (d, fs)"
    "queued_texts 0 outs \<noteq> []" and g: "dsteps (table_cjson []) utc (d, fs, []) outs (d', fs', starts outs)"
    by (rule sample_daemon)
  let ?c = "msg_client\<lparr>cl_reads := [RBytes (le32 7 @ le32 0)]\<rparr>"
  obtain n rest where r: "sock_read_cmd (cl_reads ?c) 4096 = Some (SOCK_CMD_IRC_INFO, [], n, rest)"
    using sock_read_frame [of "cl_reads ?c" SOCK_CMD_IRC_INFO 0 "[]" "[]" 4096] by (auto simp: sock_cmds le32_def)
  from irc_info_complete [OF s(1) g r] show ?thesis by (auto simp: msg_client_def)
qed

text \<open>
  A broadcast to the attached clients: each client gets the line \<open>agent: text\<close>, cut at 4095 bytes, as
  one whole frame, or a prefix of it and its connection is shut down; no client is skipped and none is left with a broken stream.
\<close>

theorem tui_broadcast_frames:
  assumes "tx \<noteq> []" "line = buf_set 4096 ((case agent of Some a \<Rightarrow> a @ '': '' | None \<Rightarrow> []) @ tx)"
  shows "map fst (daemon_tui_broadcast env d agent (Some tx)) = d_tui_clients d \<and>
     (\<forall>(c, w, shut) \<in> set (daemon_tui_broadcast env d agent (Some tx)).
        prefix w (le32 1 @ le32 (of_nat (length line)) @ line) \<and> (\<not> shut \<longrightarrow> w = le32 1 @ le32 (of_nat (length line)) @ line))"
proof -
  have b: "daemon_tui_broadcast env d agent (Some tx) =
      map (\<lambda>c. (c, fst (sock_send (fst (env c)) (snd (env c)) 1 (Some line) (of_nat (length line))),
        snd (sock_send (fst (env c)) (snd (env c)) 1 (Some line) (of_nat (length line))) \<noteq> 0)) (d_tui_clients d)"
    using assms by (simp add: daemon_tui_broadcast_def given_def case_prod_unfold Let_def)
  have "length line \<le> 4095" using length_buf_set [of 4096] by (simp add: assms(2))
  then have u: "unat (of_nat (length line) :: 32 word) = length line" by (rule unat_small)
  have "prefix w (le32 1 @ le32 (of_nat (length line)) @ line) \<and> (rc = 0 \<longrightarrow> w = le32 1 @ le32 (of_nat (length line)) @ line)"
    if "sock_send e1 e2 1 (Some line) (of_nat (length line)) = (w, rc)" for e1 e2 w rc
    using sock_send_ok [OF _ u] sock_send_prefix [OF _ u] that by blast
  then have "prefix (fst p) (le32 1 @ le32 (of_nat (length line)) @ line) \<and> (snd p = 0 \<longrightarrow> fst p = le32 1 @ le32 (of_nat (length line)) @ line)"
    if "p = sock_send e1 e2 1 (Some line) (of_nat (length line))" for p e1 e2
    using that by (metis prod.collapse)
  then show ?thesis by (simp add: b comp_def)
qed

theorem tui_broadcast_frames_witness:
  "\<exists>d. d_tui_clients d = [7] \<and> daemon_tui_broadcast (\<lambda>_. ([Wrote 3], [])) d (Some ''bob'') (Some ''hi'') =
     [(7, le32 1 @ le32 7 @ ''bob: hi'', False)]"
proof -
  obtain d0 fs where "daemon_start boot_sample boot_cfg boot_fs = Some (d0, fs)" using boot_sample_starts by blast
  define d where "d = d0\<lparr>d_tui_clients := [7]\<rparr>"
  let ?b = "daemon_tui_broadcast (\<lambda>_. ([Wrote 3], [])) d (Some ''bob'') (Some ''hi'')"
  have line: "''bob: hi'' = buf_set 4096 ((case Some ''bob'' of Some a \<Rightarrow> a @ '': '' | None \<Rightarrow> []) @ ''hi'')"
    by (simp add: buf_set_def)
  note t = tui_broadcast_frames [of "''hi''", OF _ line, of "\<lambda>_. ([Wrote 3], [])" d]
  obtain w shut where b: "?b = [(7, w, shut)]" using t by (auto simp: d_def)
  have "\<not> shut" using b by (auto simp: daemon_tui_broadcast_def given_def d_def sock_send_def le32_def buf_set_def split: if_splits)
  with t b have "?b = [(7, le32 1 @ le32 7 @ ''bob: hi'', False)]" by simp
  moreover have "d_tui_clients d = [7]" by (simp add: d_def)
  ultimately show ?thesis by blast
qed

text \<open>
  Mail is lost when its session cannot be started: \<open>dispatch\<close> takes the messages of an idle agent out of
  its inbox first, and when the session then fails to start (no memory) they are neither handled
  nor kept; every file of the inbox is gone and no session runs.
\<close>

theorem dispatch_failed_start_loses_mail:
  assumes "lists fs (inbox (d_messenger d) (a_name (d_agents d ! i))) ns" "length (inbox (d_messenger d) (a_name (d_agents d ! i))) \<le> 3900"
    "di_readdir e fs (inbox (d_messenger d) (a_name (d_agents d ! i))) = Some ns" "n \<in> set ns" "is_mail_name n"
    "mail_in J fs (inbox (d_messenger d) (a_name (d_agents d ! i))) n \<noteq> []" "st_oom (di_start e)"
  shows "\<exists>fs' outs. dispatch_agent J tz e chk i (d, fs) = ((d, fs'), outs) \<and> starts outs = [] \<and>
     (\<forall>n \<in> set ns. is_mail_name n \<longrightarrow> fs' (inbox (d_messenger d) (a_name (d_agents d ! i)) @ ''/'' @ n) = None)"
proof -
  let ?box = "inbox (d_messenger d) (a_name (d_agents d ! i))"
  let ?fs = "\<lambda>p. if p \<in> (\<lambda>n. ?box @ ''/'' @ n) ` set (filter is_mail_name ns) then None else fs p"
  let ?msgs = "concat (map (mail_in J fs ?box) (filter is_mail_name ns))"
  have b: "buf_set 4200 (ms_dir (d_messenger d) @ ''/'' @ a_name (d_agents d ! i)) = ?box" using assms(2) by (simp add: inbox_def buf_set_def)
  have m: "?msgs \<noteq> []" using assms(4-6) by auto
  have "dispatch_agent J tz e chk i (d, fs) = ((d, ?fs), case cJSON_PrintUnformatted J (CArray ?msgs) of None \<Rightarrow> []
      | Some json \<Rightarrow> [NotStarted i TRIG_AGENT_MSG json])"
    unfolding dispatch_agent_def prod.case b assms(3) messenger_receive_lists [OF assms(1,2)] Let_def
    using m assms(7) by (simp add: start_session_def split: option.split)
  then show ?thesis by (auto split: option.split)
qed

theorem dispatch_failed_start_loses_mail_witness:
  "\<exists>d fs' outs. dispatch_agent mail_cjson utc (sample_disp\<lparr>di_readdir := (\<lambda>_ _. Some [''.'', ''a.json'']), di_start := sample_start\<lparr>st_oom := True\<rparr>\<rparr>) True 0
     (d, [''in/bob/a.json'' \<mapsto> File ''mail'']) = ((d, fs'), outs) \<and> starts outs = [] \<and> fs' ''in/bob/a.json'' = None"
proof -
  obtain d0 fs0 where "daemon_start boot_sample boot_cfg boot_fs = Some (d0, fs0)" using boot_sample_starts by blast
  define d where "d = d0\<lparr>d_messenger := mail_box, d_agents := [(d_agents d0 ! 0)\<lparr>a_name := ''bob''\<rparr>]\<rparr>"
  let ?fs = "[''in/bob/a.json'' \<mapsto> File ''mail'']"
  let ?e = "sample_disp\<lparr>di_readdir := (\<lambda>_ _. Some [''.'', ''a.json'']), di_start := sample_start\<lparr>st_oom := True\<rparr>\<rparr>"
  have i: "inbox (d_messenger d) (a_name (d_agents d ! 0)) = ''in/bob''" by (simp add: inbox_def mail_box_def d_def)
  have l: "lists ?fs (inbox (d_messenger d) (a_name (d_agents d ! 0))) [''.'', ''a.json'']" by (auto simp: lists_def i split: if_splits)
  have n: "is_mail_name ''a.json''" by code_simp
  have m: "mail_in mail_cjson ?fs (inbox (d_messenger d) (a_name (d_agents d ! 0))) ''a.json'' \<noteq> []"
    by (simp add: i mail_in_def file_slurp_def mail_cjson_def table_cjson_def)
  from dispatch_failed_start_loses_mail [OF l _ _ _ n m, of ?e utc True] i n show ?thesis by fastforce
qed

end
