(* ===== verification/Tui.thy ===== *)
theory Tui
  imports Sock "HOL-Library.Monad_Syntax"
begin

text \<open>
  The terminal client, \<open>src/tui.c\<close>: the scrollback, wrapping and cleaning of text, drawing, the edited
  line, keys and commands, and the connection to the daemon. The scrollback and the line are
  lists (their \<open>count\<close> and \<open>input_len\<close> are the lengths). What an operation writes to the terminal and the
  socket is its second result. A loop of \<open>add_text\<close> that would never end is \<open>None\<close>.

  The lemmas show that every key and every event is handled (nothing loops) and keeps the state within its
  arrays, that no byte of foreign text reaches the terminal as a control byte, that the whole of a
  text is shown, and that editing never splits a UTF-8 character.
\<close>

section \<open>Scrollback\<close>

record scrollback_t =
  sb_lines :: "string list"
  scroll_offset :: int

definition sb_push :: "scrollback_t \<Rightarrow> string \<Rightarrow> scrollback_t" where
  "sb_push sb line =
     (let ls = (if length (sb_lines sb) \<ge> 1024 then take 1023 (drop 1 (sb_lines sb)) else sb_lines sb)
      in \<lparr>sb_lines = ls @ [buf_set 512 line], scroll_offset = 0\<rparr>)"

record tui_state_t =
  t_sb :: scrollback_t
  t_input :: string
  t_pos :: nat
  t_rows :: int
  t_cols :: int
  t_target :: string
  t_event_fd :: int
  t_quit :: bool
  t_dirty :: bool

datatype tui_out = Term string | ToSock int string | CloseSock int

definition CSI :: string where "CSI = [CHR 0x1B, CHR ''['']"
definition DIM :: string where "DIM = CSI @ ''2m''"
definition RESET :: string where "RESET = CSI @ ''0m''"
definition CYAN :: string where "CYAN = CSI @ ''36m''"
definition GREEN :: string where "GREEN = CSI @ ''32m''"
definition CLEAR_LINE :: string where "CLEAR_LINE = CSI @ ''2K''"

lemmas ansi = DIM_def RESET_def CYAN_def GREEN_def CLEAR_LINE_def CSI_def

section \<open>Text\<close>

text \<open>The inner loops of \<open>add_text\<close>: how many bytes of the rest of the text go into the next row.\<close>

function row_take :: "int \<Rightarrow> nat \<Rightarrow> int \<Rightarrow> string \<Rightarrow> nat" where
  "row_take width n cols [] = n"
| "row_take width n cols (c # cs) =
     (if c = LF \<or> cols \<ge> width \<or> n \<ge> 512 - 64 then n
      else let k = length (takeWhile is_cont (take (512 - 1 - Suc n) cs))
           in row_take width (Suc n + k) (cols + 1) (drop k cs))"
  by pat_completeness auto
termination
  by (relation "measure (\<lambda>(w, n, c, s). length s)") auto

definition clean_char :: "char \<Rightarrow> char" where
  "clean_char c = (if byte c < 32 \<or> byte c = 127 then SP else c)"

definition text_row :: "string option \<Rightarrow> nat \<Rightarrow> string \<Rightarrow> string" where
  "text_row style h clean =
     buf_set 512 (if h \<noteq> 0 \<and> style \<noteq> None then the style @ take h clean @ RESET @ drop h clean else clean)"

text \<open>
  The outer loop, on the rest of the text and its position; a pass that takes nothing would repeat
  forever.
\<close>

function add_rows :: "int \<Rightarrow> string option \<Rightarrow> nat \<Rightarrow> nat \<Rightarrow> string \<Rightarrow> scrollback_t \<Rightarrow> scrollback_t option" where
  "add_rows width style hl pos s sb =
     (let n = row_take width 0 0 s;
          h = (if pos < hl then min (hl - pos) n else 0);
          sb' = sb_push sb (text_row style h (map clean_char (take n s)));
          rest = drop n s;
          k = (if rest \<noteq> [] \<and> hd rest = LF then 1 else 0)
      in if drop k rest = [] then Some sb'
         else if n + k = 0 then None
         else add_rows width style hl (pos + n + k) (drop k rest) sb')"
  by pat_completeness auto
termination
  by (relation "measure (\<lambda>(w, st, hl, p, s, sb). length s)") (auto split: if_splits)

declare add_rows.simps [simp del]

definition tui_add_text :: "tui_state_t \<Rightarrow> string option \<Rightarrow> nat \<Rightarrow> string \<Rightarrow> tui_state_t option" where
  "tui_add_text st style hl tx =
     do { sb \<leftarrow> add_rows (t_cols st - 1) style hl 0 tx (t_sb st); Some (st\<lparr>t_sb := sb, t_dirty := True\<rparr>) }"

definition add_system_msg :: "tui_state_t \<Rightarrow> string \<Rightarrow> tui_state_t option" where
  "add_system_msg st tx = (let line = buf_set 512 (''--- '' @ tx @ '' ---'') in tui_add_text st (Some DIM) (length line) line)"

definition add_agent_line :: "tui_state_t \<Rightarrow> string \<Rightarrow> tui_state_t option" where
  "add_agent_line st line =
     (if line \<noteq> [] \<and> hd line = CHR ''*'' then tui_add_text st (Some DIM) (length line) line
      else tui_add_text st (Some CYAN) (case strchr CHR '':'' line of Some r \<Rightarrow> length line - length r | None \<Rightarrow> 0) line)"

section \<open>Drawing\<close>

definition cursor_to :: "int \<Rightarrow> int \<Rightarrow> string" where
  "cursor_to row col = CSI @ dec_int row @ '';'' @ dec_int col @ ''H''"

text \<open>The separator of the status bar is U+2502.\<close>

definition BAR :: string where "BAR = [CHR 0xE2, CHR 0x94, CHR 0x82]"

definition draw_status_bar :: "tui_state_t \<Rightarrow> string" where
  "draw_status_bar st = cursor_to 1 1 @ CLEAR_LINE @
     buf_set 512 (CSI @ ''7m shclaw '' @ BAR @ '' @'' @ t_target st @ '' '' @ BAR @ '' '' @ dec_nat (length (sb_lines (t_sb st))) @
       '' lines '' @ BAR @ '' /help '' @ RESET)"

definition first_row :: "tui_state_t \<Rightarrow> int" where
  "first_row st =
     (let start = int (length (sb_lines (t_sb st))) - (t_rows st - 2) - scroll_offset (t_sb st) in if start < 0 then 0 else start)"

definition draw_messages :: "tui_state_t \<Rightarrow> string" where
  "draw_messages st =
     concat (map (\<lambda>row. let i = nat (first_row st) + row
                        in cursor_to (int row + 2) 1 @ CLEAR_LINE @ (if i < length (sb_lines (t_sb st)) then sb_lines (t_sb st) ! i else []))
              [0..<nat (t_rows st - 2)])"

definition draw_input :: "tui_state_t \<Rightarrow> string" where
  "draw_input st = cursor_to (t_rows st) 1 @ CLEAR_LINE @ buf_set 128 (GREEN @ ''@'' @ t_target st @ ''> '' @ RESET) @ t_input st @
     (let col = 1 + int (length (t_target st)) + 2 + int (length (filter (\<lambda>c. \<not> is_cont c) (take (t_pos st) (t_input st))))
      in cursor_to (t_rows st) (col + 1))"

definition redraw :: "tui_state_t \<Rightarrow> tui_state_t \<times> tui_out list" where
  "redraw st = (st\<lparr>t_dirty := False\<rparr>,
     [Term (CSI @ ''?25l'' @ draw_status_bar st @ draw_messages st @ draw_input st @ CSI @ ''?25h'')])"

section \<open>The connection\<close>

text \<open>
  What the system answers while a line is submitted: connecting for \<open>/status\<close>, writing the request and
  reading the answer, and the two writes of a message.
\<close>

record submit_env =
  sv_conn :: "int option"
  sv_hdr :: "io_res list"
  sv_reads :: "rd_res list"
  sv_send :: "io_res list \<times> io_res list"

definition send_to_agent :: "submit_env \<Rightarrow> tui_state_t \<Rightarrow> string \<Rightarrow> tui_out list \<times> int" where
  "send_to_agent e st tx =
     (let total = length (t_target st) + 1 + length tx
      in if t_event_fd st < 0 \<or> total \<ge> 4096 then ([], -1)
         else let (w, rc) = sock_send (fst (sv_send e)) (snd (sv_send e)) 5 (Some (t_target st @ NUL # tx)) (of_nat total)
              in ([ToSock (t_event_fd st) w], rc))"

text \<open>One event per frame that is ready: whether \<open>POLLIN\<close> is set, and the reads.\<close>

fun poll_events :: "(bool \<times> rd_res list) list \<Rightarrow> tui_state_t \<Rightarrow> (tui_state_t \<times> tui_out list) option" where
  "poll_events [] st = Some (st, [])"
| "poll_events ((pollin, reads) # es) st =
     (if t_event_fd st < 0 then Some (st, [])
      else case (if pollin then sock_read_cmd reads 4096 else None) of
             None \<Rightarrow> do { st' \<leftarrow> add_system_msg (st\<lparr>t_event_fd := -1\<rparr>) ''Lost connection to daemon''; Some (st', [CloseSock (t_event_fd st)]) }
           | Some (type, data, len, rest) \<Rightarrow>
               if type = 1 then do { st' \<leftarrow> add_agent_line st (cstr data); poll_events es st' }
               else if type = 5
               then do { st' \<leftarrow> add_system_msg st ''Daemon shutting down''; Some (st'\<lparr>t_event_fd := -1\<rparr>, [CloseSock (t_event_fd st)]) }
               else poll_events es st)"

definition fetch_status :: "submit_env \<Rightarrow> tui_state_t \<Rightarrow> (tui_state_t \<times> tui_out list) option" where
  "fetch_status e st =
     (case sv_conn e of
        None \<Rightarrow> do { st' \<leftarrow> add_system_msg st ''Cannot connect to daemon''; Some (st', []) }
      | Some c \<Rightarrow>
          let (w, rc) = sock_send (sv_hdr e) [] 4 None 0
          in case (if rc \<noteq> 0 then None else sock_read_cmd (sv_reads e) 4096) of
               None \<Rightarrow> do { st' \<leftarrow> add_system_msg st ''No response''; Some (st', [ToSock c w, CloseSock c]) }
             | Some (type, data, len, rest) \<Rightarrow> do { st' \<leftarrow> add_system_msg st (cstr data); Some (st', [ToSock c w, CloseSock c]) })"

section \<open>Keys\<close>

definition help_lines :: "string list" where
  "help_lines = [''Commands:'', ''  /agent <name>    Switch target agent'', ''  /status          Show daemon status'',
     ''  /quit or /q      Exit'', ''  Up/Down PgUp/PgDn  Scroll messages'', ''  Ctrl-C/D         Exit'']"

fun add_system_msgs :: "tui_state_t \<Rightarrow> string list \<Rightarrow> tui_state_t option" where
  "add_system_msgs st [] = Some st"
| "add_system_msgs st (m # ms) = do { st' \<leftarrow> add_system_msg st m; add_system_msgs st' ms }"

definition slash_command :: "submit_env \<Rightarrow> tui_state_t \<Rightarrow> (tui_state_t \<times> tui_out list) option" where
  "slash_command e st =
     (if t_input st = ''/quit'' \<or> t_input st = ''/q'' then Some (st\<lparr>t_quit := True\<rparr>, [])
      else if starts_with ''/agent '' (t_input st)
      then (let st1 = st\<lparr>t_target := buf_set 64 (drop 7 (t_input st))\<rparr>
            in do { st' \<leftarrow> add_system_msg st1 (buf_set 128 (''Target changed to @'' @ t_target st1)); Some (st', []) })
      else if t_input st = ''/status'' then fetch_status e st
      else if t_input st = ''/help'' then do { st' \<leftarrow> add_system_msgs st help_lines; Some (st', []) }
      else do { st' \<leftarrow> add_system_msg st ''Unknown command. Type /help''; Some (st', []) })"

definition handle_submit :: "submit_env \<Rightarrow> tui_state_t \<Rightarrow> (tui_state_t \<times> tui_out list) option" where
  "handle_submit e st =
     (if t_input st = [] then Some (st, [])
      else do { (st', outs) \<leftarrow>
             (if hd (t_input st) = CHR ''/'' then slash_command e st
              else do { st1 \<leftarrow> tui_add_text st (Some GREEN) 3 (buf_set 512 (''you: '' @ t_input st));
                        let (outs, rc) = send_to_agent e st1 (t_input st);
                        if rc < 0 then do { st2 \<leftarrow> add_system_msg st1 ''Send failed (daemon not running?)''; Some (st2, outs) }
                        else Some (st1, outs) });
           Some (st'\<lparr>t_input := [], t_pos := 0\<rparr>, outs) })"

definition delete_range :: "tui_state_t \<Rightarrow> nat \<Rightarrow> nat \<Rightarrow> tui_state_t" where
  "delete_range st i j =
     st\<lparr>t_input := take i (t_input st) @ drop j (t_input st), t_pos := (if t_pos st > i then i else t_pos st)\<rparr>"

text \<open>Called with \<open>pos > 0\<close> and \<open>pos < input_len\<close>.\<close>

fun prev_char :: "string \<Rightarrow> nat \<Rightarrow> nat" where
  "prev_char s 0 = 0"
| "prev_char s (Suc p) = (if p > 0 \<and> is_cont (s ! p) then prev_char s p else p)"

definition next_char :: "string \<Rightarrow> nat \<Rightarrow> nat" where
  "next_char s pos = Suc pos + length (takeWhile is_cont (drop (Suc pos) s))"

definition scroll_by :: "tui_state_t \<Rightarrow> int \<Rightarrow> tui_state_t" where
  "scroll_by st k = st\<lparr>t_sb := (t_sb st)\<lparr>scroll_offset := scroll_offset (t_sb st) + k\<rparr>\<rparr>"

definition csi_key :: "tui_state_t \<Rightarrow> char \<Rightarrow> bool \<Rightarrow> tui_state_t" where
  "csi_key st key tilde =
     (if key = CHR ''A'' then scroll_by st 1
      else if key = CHR ''B'' then scroll_by st (-1)
      else if key = CHR ''C'' then (if t_pos st < length (t_input st) then st\<lparr>t_pos := next_char (t_input st) (t_pos st)\<rparr> else st)
      else if key = CHR ''D'' then (if t_pos st > 0 then st\<lparr>t_pos := prev_char (t_input st) (t_pos st)\<rparr> else st)
      else if key = CHR ''H'' then st\<lparr>t_pos := 0\<rparr>
      else if key = CHR ''F'' then st\<lparr>t_pos := length (t_input st)\<rparr>
      else if key = CHR ''5'' then (if tilde then scroll_by st (t_rows st - 3) else st)
      else if key = CHR ''6'' then (if tilde then scroll_by st (- (t_rows st - 3)) else st)
      else if key = CHR ''3'' then (if tilde \<and> t_pos st < length (t_input st) then delete_range st (t_pos st) (next_char (t_input st) (t_pos st)) else st)
      else st)"

definition handle_csi :: "tui_state_t \<Rightarrow> char \<Rightarrow> bool \<Rightarrow> tui_state_t" where
  "handle_csi st key tilde =
     (let m0 = int (length (sb_lines (t_sb st))) - (t_rows st - 2);
          mx = (if m0 < 0 then 0 else m0);
          st1 = csi_key st key tilde;
          o1 = (if scroll_offset (t_sb st1) > mx then mx else scroll_offset (t_sb st1));
          o2 = (if o1 < 0 then 0 else o1)
      in st1\<lparr>t_sb := (t_sb st1)\<lparr>scroll_offset := o2\<rparr>\<rparr>)"

text \<open>The \<open>switch\<close> of \<open>handle_input\<close>.\<close>

definition handle_key :: "submit_env \<Rightarrow> char \<Rightarrow> tui_state_t \<Rightarrow> (tui_state_t \<times> tui_out list) option" where
  "handle_key e c st =
     (if byte c = 3 \<or> byte c = 4 then Some (st\<lparr>t_quit := True\<rparr>, [])
      else if byte c = 13 \<or> byte c = 10 then handle_submit e st
      else if byte c = 127 \<or> byte c = 8
      then Some (if t_pos st > 0 then delete_range st (prev_char (t_input st) (t_pos st)) (t_pos st) else st, [])
      else if byte c = 1 then Some (st\<lparr>t_pos := 0\<rparr>, [])
      else if byte c = 5 then Some (st\<lparr>t_pos := length (t_input st)\<rparr>, [])
      else if byte c = 21 then Some (st\<lparr>t_input := [], t_pos := 0\<rparr>, [])
      else if byte c = 11 then Some (st\<lparr>t_input := take (t_pos st) (t_input st)\<rparr>, [])
      else if byte c = 12 then Some (st, [Term (CSI @ ''2J'')])
      else Some (if byte c \<ge> 32 \<and> length (t_input st) < 512 - 1
                 then st\<lparr>t_input := take (t_pos st) (t_input st) @ c # drop (t_pos st) (t_input st), t_pos := Suc (t_pos st)\<rparr>
                 else st, []))"

text \<open>The loop over the bytes of a read.\<close>

fun handle_keys :: "(nat \<Rightarrow> submit_env) \<Rightarrow> string \<Rightarrow> tui_state_t \<Rightarrow> (tui_state_t \<times> tui_out list) option" where
  "handle_keys E [] st = Some (st, [])"
| "handle_keys E (c # cs) st =
     (if t_quit st then Some (st, [])
      else if byte c = 27
      then (if length cs \<ge> 2 \<and> hd cs = CHR ''[''
            then let tilde = (length cs \<ge> 3 \<and> cs ! 2 = CHR ''~'')
                 in handle_keys E (drop (if tilde then 3 else 2) cs) (handle_csi st (cs ! 1) tilde)
            else handle_keys E cs st)
      else do { (st1, o1) \<leftarrow> handle_key (E (length cs)) c st; (st2, o2) \<leftarrow> handle_keys E cs st1; Some (st2, o1 @ o2) })"

definition handle_input :: "(nat \<Rightarrow> submit_env) \<Rightarrow> string \<Rightarrow> tui_state_t \<Rightarrow> (tui_state_t \<times> tui_out list) option" where
  "handle_input E buf st = do { (st', outs) \<leftarrow> handle_keys E buf st; Some (st'\<lparr>t_dirty := True\<rparr>, outs) }"

section \<open>Running\<close>

text \<open>\<open>get_terminal_size\<close>: the answer of \<open>ioctl\<close>, if any.\<close>

definition get_terminal_size :: "(int \<times> int) option \<Rightarrow> int \<times> int" where
  "get_terminal_size ws = (case ws of Some (r, c) \<Rightarrow> if r > 2 \<and> c > 10 then (r, c) else (24, 80) | None \<Rightarrow> (24, 80))"

text \<open>\<open>tui_run\<close> before its loop; \<open>None\<close> in the inner result when it returns 1.\<close>

definition tui_start :: "string option \<Rightarrow> int option \<Rightarrow> io_res list \<Rightarrow> (int \<times> int) option \<Rightarrow> (tui_state_t option \<times> tui_out list) option" where
  "tui_start target conn hdr ws =
     (case conn of
        None \<Rightarrow> Some (None, [])
      | Some c \<Rightarrow>
          let (w, rc) = sock_send hdr [] 1 None 0
          in if rc \<noteq> 0 then Some (None, [ToSock c w])
             else let (r, k) = get_terminal_size ws;
                      st = \<lparr>t_sb = \<lparr>sb_lines = [], scroll_offset = 0\<rparr>, t_input = [], t_pos = 0, t_rows = r, t_cols = k,
                            t_target = buf_set 64 (case target of Some n \<Rightarrow> n | None \<Rightarrow> ''jarvis''), t_event_fd = c, t_quit = False, t_dirty = False\<rparr>
                  in do { st1 \<leftarrow> add_system_msg st ''Connected to shclaw'';
                          st2 \<leftarrow> add_system_msg st1 (buf_set 128 (''Target: @'' @ t_target st @ '' '' @ [CHR 0xE2, CHR 0x80, CHR 0x94] @ '' Type /help for commands''));
                          Some (Some st2, [ToSock c w, Term (CSI @ ''2J'')]) })"

record tui_env =
  te_events :: "(bool \<times> rd_res list) list"
  te_keys :: string
  te_submit :: "nat \<Rightarrow> submit_env"
  te_size :: "(int \<times> int) option"

text \<open>One pass of the loop of \<open>tui_run\<close>.\<close>

definition tui_round :: "tui_env \<Rightarrow> tui_state_t \<Rightarrow> (tui_state_t \<times> tui_out list) option" where
  "tui_round e st =
     (let (st0, o0) = (if t_dirty st then redraw st else (st, []))
      in do { (st1, o1) \<leftarrow> poll_events (te_events e) st0;
              (st2, o2) \<leftarrow> (if te_keys e \<noteq> [] then handle_input (te_submit e) (te_keys e) st1 else Some (st1, []));
              let (r, k) = get_terminal_size (te_size e);
              Some (if r \<noteq> t_rows st2 \<or> k \<noteq> t_cols st2 then st2\<lparr>t_rows := r, t_cols := k, t_dirty := True\<rparr> else st2, o0 @ o1 @ o2) })"

text \<open>The loop, for as many passes as there are entries in the list.\<close>

fun tui_rounds :: "tui_env list \<Rightarrow> tui_state_t \<Rightarrow> (tui_state_t \<times> tui_out list) option" where
  "tui_rounds [] st = Some (st, [])"
| "tui_rounds (e # es) st =
     (if t_quit st then Some (st, [])
      else do { (st1, o1) \<leftarrow> tui_round e st; (st2, o2) \<leftarrow> tui_rounds es st1; Some (st2, o1 @ o2) })"

definition tui_stop :: "io_res list \<Rightarrow> tui_state_t \<Rightarrow> tui_out list" where
  "tui_stop hdr st =
     (if t_event_fd st \<ge> 0 then [ToSock (t_event_fd st) (fst (sock_send hdr [] 3 None 0)), CloseSock (t_event_fd st)] else []) @
     [Term (CSI @ ''?25h''), Term (CSI @ ''2J'' @ CSI @ ''H''), Term (''Bye.'' @ [LF])]"

section \<open>Rows of a text\<close>

lemma row_take_bounds: "n \<le> row_take w n c s \<and> row_take w n c s \<le> n + length s"
proof (induction w n c s rule: row_take.induct)
  case (2 w n c x s)
  let ?k = "length (takeWhile is_cont (take (512 - 1 - Suc n) s))"
  have k: "?k \<le> length s" by (rule order_trans [OF length_takeWhile_le]) simp
  show ?case
  proof (cases "x = LF \<or> c \<ge> w \<or> n \<ge> 512 - 64")
    case False
    with 2 [OF False refl] k show ?thesis by (simp add: Let_def)
  qed simp
qed simp

lemma row_take_pos: "1 \<le> w \<Longrightarrow> s \<noteq> [] \<Longrightarrow> hd s \<noteq> LF \<Longrightarrow> 0 < row_take w 0 0 s"
proof (cases s)
  case (Cons c cs)
  assume "1 \<le> w" "s \<noteq> []" "hd s \<noteq> LF"
  with Cons show ?thesis
    using row_take_bounds [of "Suc 0 + length (takeWhile is_cont (take 510 cs))" w 1 "drop (length (takeWhile is_cont (take 510 cs))) cs"]
    by (simp add: Let_def)
qed simp

lemma takeWhile_take_length: "take (length (takeWhile P (take m s))) s = takeWhile P (take m s)"
proof -
  have "length (takeWhile P (take m s)) \<le> m" by (rule order_trans [OF length_takeWhile_le]) simp
  then show ?thesis using takeWhile_eq_take [of P "take m s"] by (simp add: min_def)
qed

text \<open>No newline is taken.\<close>

lemma row_take_no_LF: "LF \<notin> set (take (row_take w n c s - n) s)"
proof (induction w n c s rule: row_take.induct)
  case (2 w n c x s)
  define k where "k = length (takeWhile is_cont (take (512 - 1 - Suc n) s))"
  show ?case
  proof (cases "x = LF \<or> c \<ge> w \<or> n \<ge> 512 - 64")
    case False
    let ?r = "row_take w (Suc n + k) (c + 1) (drop k s)"
    have r: "row_take w n c (x # s) = ?r" using False by (simp add: Let_def k_def)
    have le: "Suc n + k \<le> ?r" using row_take_bounds by blast
    have "take (?r - n) (x # s) = x # take (?r - Suc n) s" using le by (cases "?r - n") (auto simp: diff_Suc)
    also have "take (?r - Suc n) s = take k s @ take (?r - (Suc n + k)) (drop k s)"
      using le take_add [of k "?r - (Suc n + k)" s] by simp
    finally have split: "take (?r - n) (x # s) = x # take k s @ take (?r - (Suc n + k)) (drop k s)" .
    have "take k s = takeWhile is_cont (take (512 - 1 - Suc n) s)" unfolding k_def by (rule takeWhile_take_length)
    then have "LF \<notin> set (take k s)" by (auto dest: set_takeWhileD simp: is_cont_def byte_def)
    moreover have "LF \<notin> set (take (?r - (Suc n + k)) (drop k s))" using 2 [OF False k_def] .
    ultimately show ?thesis unfolding r split using False by auto
  qed simp
qed simp

text \<open>The rows as a function of the text alone.\<close>

function rows_of :: "int \<Rightarrow> string \<Rightarrow> string list" where
  "rows_of w s =
     (let n = row_take w 0 0 s; rest = drop n s; k = (if rest \<noteq> [] \<and> hd rest = LF then 1 else 0)
      in take n s # (if drop k rest = [] \<or> n + k = 0 then [] else rows_of w (drop k rest)))"
  by pat_completeness auto
termination
  by (relation "measure (\<lambda>(w, s). length s)") (auto split: if_splits)

declare rows_of.simps [simp del]

lemma row_progress:
  assumes "1 \<le> w" "s \<noteq> []"
  shows "row_take w 0 0 s + (if drop (row_take w 0 0 s) s \<noteq> [] \<and> hd (drop (row_take w 0 0 s) s) = LF then 1 else 0) \<noteq> 0"
  using row_take_pos [OF assms] assms(2) by (cases "row_take w 0 0 s") auto

lemma rows_of_concat: "1 \<le> w \<Longrightarrow> concat (rows_of w s) = filter (\<lambda>c. c \<noteq> LF) s"
proof (induction w s rule: rows_of.induct)
  case (1 w s)
  define n where "n = row_take w 0 0 s"
  define k where "k = (if drop n s \<noteq> [] \<and> hd (drop n s) = LF then 1 else 0 :: nat)"
  have nl: "filter (\<lambda>c. c \<noteq> LF) (take n s) = take n s"
    using row_take_no_LF [of w 0 0 s] by (auto simp: n_def filter_id_conv)
  have kl: "filter (\<lambda>c. c \<noteq> LF) (drop n s) = filter (\<lambda>c. c \<noteq> LF) (drop k (drop n s))"
    by (cases "drop n s") (auto simp: k_def)
  have f: "filter (\<lambda>c. c \<noteq> LF) s = take n s @ filter (\<lambda>c. c \<noteq> LF) (drop k (drop n s))"
    using filter_append [of "\<lambda>c. c \<noteq> LF" "take n s" "drop n s"] unfolding append_take_drop_id nl kl .
  have r: "rows_of w s = take n s # (if drop k (drop n s) = [] \<or> n + k = 0 then [] else rows_of w (drop k (drop n s)))"
    unfolding n_def k_def by (subst rows_of.simps) (simp only: Let_def)
  show ?case
  proof (cases "drop k (drop n s) = []")
    case True
    then show ?thesis unfolding r f by simp
  next
    case False
    then have "s \<noteq> []" by auto
    then have p: "n + k \<noteq> 0" using row_progress [OF 1(2)] by (simp add: n_def k_def)
    have "concat (rows_of w (drop k (drop n s))) = filter (\<lambda>c. c \<noteq> LF) (drop k (drop n s))"
      by (rule 1(1) [OF n_def refl k_def _ 1(2)]) (use False p in blast)
    then show ?thesis unfolding r using f False p by (simp only: if_False concat.simps de_Morgan_disj simp_thms)
  qed
qed

section \<open>The scrollback as a bounded log\<close>

definition sb_wf :: "scrollback_t \<Rightarrow> bool" where
  "sb_wf sb \<longleftrightarrow> length (sb_lines sb) \<le> 1024 \<and> 0 \<le> scroll_offset sb"

interpretation sbl: bounded_log sb_wf "\<lambda>l sb. sb_push sb l" "buf_set 512" sb_lines 1024
proof
  fix s :: scrollback_t and x
  assume wf: "sb_wf s"
  show "sb_wf (sb_push s x)" using wf by (simp add: sb_wf_def sb_push_def Let_def)
  show "sb_lines (sb_push s x) = last_n 1024 (sb_lines s @ [buf_set 512 x])"
    using wf by (auto simp: sb_wf_def sb_push_def Let_def last_n_def)
  show "length (sb_lines s) \<le> 1024" using wf by (simp add: sb_wf_def)
qed

lemma add_rows_rows:
  "1 \<le> w \<Longrightarrow> \<exists>hs. length hs = length (rows_of w s) \<and>
     add_rows w style hl pos s sb = Some (fold (\<lambda>l sb. sb_push sb l) (map2 (\<lambda>h r. text_row style h (map clean_char r)) hs (rows_of w s)) sb)"
proof (induction w style hl pos s sb rule: add_rows.induct)
  case (1 w style hl pos s sb)
  define n where "n = row_take w 0 0 s"
  define k where "k = (if drop n s \<noteq> [] \<and> hd (drop n s) = LF then 1 else 0 :: nat)"
  define h where "h = (if pos < hl then min (hl - pos) n else 0)"
  define sb' where "sb' = sb_push sb (text_row style h (map clean_char (take n s)))"
  have r: "rows_of w s = take n s # (if drop k (drop n s) = [] \<or> n + k = 0 then [] else rows_of w (drop k (drop n s)))"
    unfolding n_def k_def by (subst rows_of.simps) (simp only: Let_def)
  have a: "add_rows w style hl pos s sb = (if drop k (drop n s) = [] then Some sb' else if n + k = 0 then None
      else add_rows w style hl (pos + n + k) (drop k (drop n s)) sb')"
    unfolding n_def k_def h_def sb'_def by (subst add_rows.simps) (simp only: Let_def)
  show ?case
  proof (cases "drop k (drop n s) = []")
    case True
    then show ?thesis unfolding a r by (intro exI [of _ "[h]"]) (simp add: sb'_def)
  next
    case False
    then have "s \<noteq> []" by auto
    then have p: "n + k \<noteq> 0" using row_progress [OF 1(2)] by (simp add: n_def k_def)
    obtain hs where hs: "length hs = length (rows_of w (drop k (drop n s)))"
      "add_rows w style hl (pos + n + k) (drop k (drop n s)) sb' =
        Some (fold (\<lambda>l sb. sb_push sb l) (map2 (\<lambda>h r. text_row style h (map clean_char r)) hs (rows_of w (drop k (drop n s)))) sb')"
      using 1(1) [OF n_def h_def sb'_def refl k_def False p 1(2)] by blast
    have c: "(drop k (drop n s) = [] \<or> n + k = 0) = False" using False p by blast
    show ?thesis unfolding a r c if_False using False p hs by (intro exI [of _ "h # hs"]) (simp add: sb'_def)
  qed
qed

text \<open>Adding a text pushes its rows, whatever the state.\<close>

lemma tui_add_text_rows:
  assumes "2 \<le> t_cols st"
  obtains hs where "length hs = length (rows_of (t_cols st - 1) tx)"
    "tui_add_text st style hl tx = Some (st\<lparr>t_sb := fold (\<lambda>l sb. sb_push sb l)
       (map2 (\<lambda>h r. text_row style h (map clean_char r)) hs (rows_of (t_cols st - 1) tx)) (t_sb st), t_dirty := True\<rparr>)"
  using add_rows_rows [of "t_cols st - 1" tx style hl 0 "t_sb st"] assms by (auto simp: tui_add_text_def)

section \<open>Rows on the terminal\<close>

text \<open>A byte that does nothing but show itself, and a row of such bytes around the program's own colours.\<close>

definition plain_char :: "char \<Rightarrow> bool" where
  "plain_char c \<longleftrightarrow> 32 \<le> byte c \<and> byte c \<noteq> 127"

definition safe_row :: "string \<Rightarrow> bool" where
  "safe_row l \<longleftrightarrow> length l < 512 \<and> (list_all plain_char l \<or>
     (\<exists>style p q. style \<in> {DIM, CYAN, GREEN} \<and> list_all plain_char p \<and> list_all plain_char q \<and> prefix l (style @ p @ RESET @ q)))"

lemma clean_plain: "plain_char (clean_char c)"
  by (simp add: plain_char_def clean_char_def byte_def)

lemma text_row_safe: "style \<in> Some ` {DIM, CYAN, GREEN} \<Longrightarrow> safe_row (text_row style h (map clean_char r))"
proof -
  assume "style \<in> Some ` {DIM, CYAN, GREEN}"
  then obtain z where z: "style = Some z" "z \<in> {DIM, CYAN, GREEN}" by blast
  let ?c = "map clean_char r"
  have c: "list_all plain_char ?c" by (simp add: list_all_iff clean_plain)
  have l: "length (text_row style h ?c) < 512" by (simp add: text_row_def length_buf_set_less)
  show ?thesis
  proof (cases "h = 0")
    case True
    have "list_all plain_char (text_row style h ?c)"
      using c set_buf_set [of 512 ?c] True by (auto simp: text_row_def list_all_iff)
    with l show ?thesis by (simp add: safe_row_def)
  next
    case False
    have "prefix (text_row style h ?c) (z @ take h ?c @ RESET @ drop h ?c)"
      using False z(1) take_is_prefix [of "512 - 1" "z @ take h ?c @ RESET @ drop h ?c"] by (simp add: text_row_def buf_set_def del: take_append)
    moreover have "list_all plain_char (take h ?c)" "list_all plain_char (drop h ?c)"
      by (simp_all add: take_map drop_map list_all_iff clean_plain)
    ultimately show ?thesis using l z(2) unfolding safe_row_def by blast
  qed
qed

text \<open>The state of the client: its arrays are large enough, its rows safe, its cursor in the line.\<close>

definition tui_wf :: "tui_state_t \<Rightarrow> bool" where
  "tui_wf st \<longleftrightarrow> sb_wf (t_sb st) \<and> list_all safe_row (sb_lines (t_sb st)) \<and> length (t_input st) < 512 \<and> list_all plain_char (t_input st) \<and>
     t_pos st \<le> length (t_input st) \<and> length (t_target st) < 64 \<and> 2 < t_rows st \<and> 10 < t_cols st"

lemma tui_add_text_wf:
  assumes "tui_wf st" "style \<in> Some ` {DIM, CYAN, GREEN}"
  shows "\<exists>sb. tui_add_text st style hl tx = Some (st\<lparr>t_sb := sb, t_dirty := True\<rparr>) \<and> tui_wf (st\<lparr>t_sb := sb, t_dirty := True\<rparr>)"
proof -
  have w: "2 \<le> t_cols st" "sb_wf (t_sb st)" "list_all safe_row (sb_lines (t_sb st))" using assms(1) by (simp_all add: tui_wf_def)
  obtain hs where hs: "length hs = length (rows_of (t_cols st - 1) tx)"
    "tui_add_text st style hl tx = Some (st\<lparr>t_sb := fold (\<lambda>l sb. sb_push sb l)
       (map2 (\<lambda>h r. text_row style h (map clean_char r)) hs (rows_of (t_cols st - 1) tx)) (t_sb st), t_dirty := True\<rparr>)"
    by (rule tui_add_text_rows [OF w(1)])
  define ls where "ls = map2 (\<lambda>h r. text_row style h (map clean_char r)) hs (rows_of (t_cols st - 1) tx)"
  define sb where "sb = fold (\<lambda>l sb. sb_push sb l) ls (t_sb st)"
  have "list_all safe_row ls" using text_row_safe [OF assms(2)] by (auto simp: ls_def list_all_iff)
  then have "list_all safe_row (map (buf_set 512) ls)" by (auto simp: list_all_iff safe_row_def)
  then have "list_all safe_row (sb_lines sb)"
    using sbl.items_puts [OF w(2), of ls] w(3) set_last_n [of 1024 "sb_lines (t_sb st) @ map (buf_set 512) ls"]
    by (auto simp: sb_def list_all_iff)
  moreover have "sb_wf sb" unfolding sb_def by (rule sbl.puts_wf [OF w(2)])
  ultimately have "tui_wf (st\<lparr>t_sb := sb, t_dirty := True\<rparr>)" using assms(1) by (simp add: tui_wf_def)
  then show ?thesis using hs(2) by (auto simp: sb_def ls_def)
qed

section \<open>Every operation keeps the state well-formed\<close>

text \<open>An operation ends and keeps the state well-formed, the size of the terminal and the input line.\<close>

definition steps_wf :: "tui_state_t \<Rightarrow> (tui_state_t \<times> tui_out list) option \<Rightarrow> bool" where
  "steps_wf st r \<longleftrightarrow> (\<exists>st' outs. r = Some (st', outs) \<and> tui_wf st')"

lemma add_system_msg_wf:
  "tui_wf st \<Longrightarrow> \<exists>sb. add_system_msg st tx = Some (st\<lparr>t_sb := sb, t_dirty := True\<rparr>) \<and> tui_wf (st\<lparr>t_sb := sb, t_dirty := True\<rparr>)"
  by (simp add: add_system_msg_def Let_def tui_add_text_wf)

lemma add_agent_line_wf:
  "tui_wf st \<Longrightarrow> \<exists>sb. add_agent_line st tx = Some (st\<lparr>t_sb := sb, t_dirty := True\<rparr>) \<and> tui_wf (st\<lparr>t_sb := sb, t_dirty := True\<rparr>)"
  by (simp add: add_agent_line_def tui_add_text_wf)

lemma tui_wf_fd [simp]: "tui_wf (st\<lparr>t_event_fd := f\<rparr>) = tui_wf st" "tui_wf (st\<lparr>t_quit := b\<rparr>) = tui_wf st" "tui_wf (st\<lparr>t_dirty := b\<rparr>) = tui_wf st"
  by (simp_all add: tui_wf_def)

lemma poll_events_wf: "tui_wf st \<Longrightarrow> steps_wf st (poll_events es st)"
proof (induction es arbitrary: st)
  case (Cons pr es)
  obtain pollin reads where pr: "pr = (pollin, reads)" by fastforce
  define R where "R = (if pollin then sock_read_cmd reads 4096 else None)"
  have IH: "tui_wf st' \<Longrightarrow> steps_wf st (poll_events es st')" for st' using Cons.IH by (simp add: steps_wf_def)
  show ?case
  proof (cases "t_event_fd st < 0")
    case False
    show ?thesis
    proof (cases R)
      case None
      then show ?thesis using False add_system_msg_wf [of "st\<lparr>t_event_fd := -1\<rparr>" "''Lost connection to daemon''"] Cons.prems
        by (auto simp: steps_wf_def pr R_def)
    next
      case (Some x)
      obtain type data len rest where x: "x = (type, data, len, rest)" by (metis prod.exhaust)
      have p: "poll_events (pr # es) st =
          (if type = 1 then do { st' \<leftarrow> add_agent_line st (cstr data); poll_events es st' }
           else if type = 5
           then do { st' \<leftarrow> add_system_msg st ''Daemon shutting down''; Some (st'\<lparr>t_event_fd := -1\<rparr>, [CloseSock (t_event_fd st)]) }
           else poll_events es st)"
        using False Some by (simp add: pr x R_def)
      show ?thesis
        using add_agent_line_wf [OF Cons.prems, of "cstr data"] add_system_msg_wf [OF Cons.prems, of "''Daemon shutting down''"]
          IH Cons.prems unfolding p by (auto simp: steps_wf_def)
    qed
  qed (use Cons.prems in \<open>simp add: steps_wf_def pr\<close>)
qed (simp add: steps_wf_def)

lemma fetch_status_wf: "tui_wf st \<Longrightarrow> steps_wf st (fetch_status e st)"
proof (cases "sv_conn e")
  case None
  assume "tui_wf st"
  then show ?thesis using None add_system_msg_wf [of st "''Cannot connect to daemon''"] by (auto simp: fetch_status_def steps_wf_def)
next
  case (Some c)
  assume wf: "tui_wf st"
  obtain w rc where s: "sock_send (sv_hdr e) [] 4 None 0 = (w, rc)" by fastforce
  show ?thesis
  proof (cases "if rc \<noteq> 0 then None else sock_read_cmd (sv_reads e) 4096")
    case None
    then show ?thesis using Some s add_system_msg_wf [OF wf, of "''No response''"] by (auto simp: fetch_status_def steps_wf_def)
  next
    case (Some x)
    obtain type data len rest where x: "x = (type, data, len, rest)" by (metis prod.exhaust)
    show ?thesis using \<open>sv_conn e = Some c\<close> s Some x add_system_msg_wf [OF wf, of "cstr data"]
      by (auto simp: fetch_status_def steps_wf_def)
  qed
qed

lemma add_system_msgs_wf: "tui_wf st \<Longrightarrow> \<exists>st'. add_system_msgs st ms = Some st' \<and> tui_wf st'"
proof (induction ms arbitrary: st)
  case (Cons m ms)
  obtain sb where "add_system_msg st m = Some (st\<lparr>t_sb := sb, t_dirty := True\<rparr>)" "tui_wf (st\<lparr>t_sb := sb, t_dirty := True\<rparr>)"
    using add_system_msg_wf [OF Cons.prems] by blast
  with Cons.IH show ?case by simp
qed simp

lemma slash_command_wf: "tui_wf st \<Longrightarrow> steps_wf st (slash_command e st)"
proof -
  assume wf: "tui_wf st"
  let ?st1 = "st\<lparr>t_target := buf_set 64 (drop 7 (t_input st))\<rparr>"
  have "tui_wf ?st1" using wf by (simp add: tui_wf_def length_buf_set_less)
  then have t: "steps_wf st (do { st' \<leftarrow> add_system_msg ?st1 m; Some (st', []) })" for m
    using add_system_msg_wf [of ?st1 m] by (auto simp: steps_wf_def)
  have u: "steps_wf st (do { st' \<leftarrow> add_system_msg st m; Some (st', []) })" for m
    using add_system_msg_wf [OF wf, of m] by (auto simp: steps_wf_def)
  have h: "steps_wf st (do { st' \<leftarrow> add_system_msgs st ms; Some (st', []) })" for ms
    using add_system_msgs_wf [OF wf, of ms] by (auto simp: steps_wf_def)
  have q: "steps_wf st (Some (st\<lparr>t_quit := True\<rparr>, []))" using wf by (simp add: steps_wf_def)
  show ?thesis unfolding slash_command_def Let_def using t u h q fetch_status_wf [OF wf] by simp
qed

lemma handle_submit_wf: "tui_wf st \<Longrightarrow> steps_wf st (handle_submit e st)"
proof (cases "t_input st = []")
  case False
  assume wf: "tui_wf st"
  define X where "X = (if hd (t_input st) = CHR ''/'' then slash_command e st
      else do { st1 \<leftarrow> tui_add_text st (Some GREEN) 3 (buf_set 512 (''you: '' @ t_input st));
                let (outs, rc) = send_to_agent e st1 (t_input st);
                if rc < 0 then do { st2 \<leftarrow> add_system_msg st1 ''Send failed (daemon not running?)''; Some (st2, outs) }
                else Some (st1, outs) })"
  have "steps_wf st X"
  proof (cases "hd (t_input st) = CHR ''/''")
    case True
    then show ?thesis using slash_command_wf [OF wf] by (simp add: X_def)
  next
    case False
    obtain sb where sb: "tui_add_text st (Some GREEN) 3 (buf_set 512 (''you: '' @ t_input st)) = Some (st\<lparr>t_sb := sb, t_dirty := True\<rparr>)"
      "tui_wf (st\<lparr>t_sb := sb, t_dirty := True\<rparr>)"
      using tui_add_text_wf [OF wf, of "Some GREEN"] by blast
    with False add_system_msg_wf [OF sb(2), of "''Send failed (daemon not running?)''"] show ?thesis
      by (auto simp: X_def steps_wf_def split: prod.splits)
  qed
  then obtain st' outs where x: "X = Some (st', outs)" "tui_wf st'" by (auto simp: steps_wf_def)
  have "handle_submit e st = do { (st', outs) \<leftarrow> X; Some (st'\<lparr>t_input := [], t_pos := 0\<rparr>, outs) }"
    unfolding X_def using False by (simp add: handle_submit_def)
  moreover have "tui_wf (st'\<lparr>t_input := [], t_pos := 0\<rparr>)" using x(2) by (simp add: tui_wf_def)
  ultimately show ?thesis using x(1) by (simp add: steps_wf_def)
qed (simp add: handle_submit_def steps_wf_def)

lemma if_cases: "(b \<Longrightarrow> P x) \<Longrightarrow> (\<not> b \<Longrightarrow> P y) \<Longrightarrow> P (if b then x else y)"
  by simp

lemma prev_char_less: "0 < p \<Longrightarrow> prev_char s p < p"
  by (induction s p rule: prev_char.induct) (auto simp: less_Suc_eq)

lemma next_char_bound: "p < length s \<Longrightarrow> p < next_char s p \<and> next_char s p \<le> length s"
  using length_takeWhile_le [of is_cont "drop (Suc p) s"] by (simp add: next_char_def)

lemma delete_range_wf: "tui_wf st \<Longrightarrow> i \<le> j \<Longrightarrow> j \<le> length (t_input st) \<Longrightarrow> i \<le> t_pos st \<Longrightarrow> t_pos st \<le> j \<Longrightarrow> tui_wf (delete_range st i j)"
  by (auto simp: tui_wf_def delete_range_def list_all_iff dest: in_set_takeD in_set_dropD)

lemma tui_wf_pos: "tui_wf st \<Longrightarrow> p \<le> length (t_input st) \<Longrightarrow> tui_wf (st\<lparr>t_pos := p\<rparr>)"
  by (simp add: tui_wf_def)

text \<open>Scrolling is clamped afterwards; everything else of \<open>handle_csi\<close> keeps the state well-formed.\<close>

definition scrolled :: "tui_state_t \<Rightarrow> tui_state_t \<Rightarrow> bool" where
  "scrolled st x \<longleftrightarrow> (\<exists>st1 k. x = scroll_by st1 k \<and> tui_wf st1 \<and> t_rows st1 = t_rows st \<and> sb_lines (t_sb st1) = sb_lines (t_sb st))"

lemma scrolledI: "tui_wf x \<Longrightarrow> t_rows x = t_rows st \<Longrightarrow> sb_lines (t_sb x) = sb_lines (t_sb st) \<Longrightarrow> scrolled st x"
  unfolding scrolled_def by (intro exI [of _ x] exI [of _ 0]) (simp add: scroll_by_def)

lemma csi_key_scrolled: "tui_wf st \<Longrightarrow> scrolled st (csi_key st key tilde)"
proof -
  assume wf: "tui_wf st"
  have pos: "t_pos st \<le> length (t_input st)" using wf by (simp add: tui_wf_def)
  have same: "scrolled st st" and scr: "scrolled st (scroll_by st k)" for k using wf by (auto simp: scrolledI) (auto simp: scrolled_def)
  have del: "t_pos st < length (t_input st) \<Longrightarrow> scrolled st (delete_range st (t_pos st) (next_char (t_input st) (t_pos st)))"
    using next_char_bound [of "t_pos st" "t_input st"] wf by (intro scrolledI delete_range_wf) (simp_all add: delete_range_def)
  have r: "t_pos st < length (t_input st) \<Longrightarrow> scrolled st (st\<lparr>t_pos := next_char (t_input st) (t_pos st)\<rparr>)"
    using next_char_bound [of "t_pos st" "t_input st"] wf by (intro scrolledI tui_wf_pos) simp_all
  have l: "0 < t_pos st \<Longrightarrow> scrolled st (st\<lparr>t_pos := prev_char (t_input st) (t_pos st)\<rparr>)"
    using prev_char_less [of "t_pos st" "t_input st"] pos wf by (intro scrolledI tui_wf_pos) simp_all
  have ends: "scrolled st (st\<lparr>t_pos := 0\<rparr>)" "scrolled st (st\<lparr>t_pos := length (t_input st)\<rparr>)"
    using wf by (simp_all add: scrolledI tui_wf_pos)
  show ?thesis unfolding csi_key_def
    by (intro if_cases [where P = "scrolled st"] same scr del r l ends) simp_all
qed

definition sb_clamped :: "tui_state_t \<Rightarrow> bool" where
  "sb_clamped st \<longleftrightarrow> scroll_offset (t_sb st) \<le> max 0 (int (length (sb_lines (t_sb st))) - (t_rows st - 2))"

lemma handle_csi_wf: "tui_wf st \<Longrightarrow> tui_wf (handle_csi st key tilde) \<and> sb_clamped (handle_csi st key tilde)"
proof -
  assume "tui_wf st"
  then obtain st1 k where s: "csi_key st key tilde = scroll_by st1 k" "tui_wf st1" "t_rows st1 = t_rows st" "sb_lines (t_sb st1) = sb_lines (t_sb st)"
    using csi_key_scrolled [of st key tilde] unfolding scrolled_def by blast
  then show ?thesis unfolding handle_csi_def s(1) by (auto simp: Let_def scroll_by_def tui_wf_def sb_wf_def sb_clamped_def)
qed

lemma handle_key_wf: "tui_wf st \<Longrightarrow> steps_wf st (handle_key e c st)"
proof -
  assume wf: "tui_wf st"
  have pos: "t_pos st \<le> length (t_input st)" using wf by (simp add: tui_wf_def)
  have ins: "tui_wf (st\<lparr>t_input := take (t_pos st) (t_input st) @ c # drop (t_pos st) (t_input st), t_pos := Suc (t_pos st)\<rparr>)"
    if "32 \<le> byte c" "byte c \<noteq> 127" "length (t_input st) < 511"
    using wf that by (auto simp: tui_wf_def list_all_iff plain_char_def dest: in_set_takeD in_set_dropD)
  have kill: "tui_wf (st\<lparr>t_input := take (t_pos st) (t_input st)\<rparr>)" "tui_wf (st\<lparr>t_input := [], t_pos := 0\<rparr>)"
    using wf by (auto simp: tui_wf_def list_all_iff dest: in_set_takeD)
  have del: "0 < t_pos st \<Longrightarrow> tui_wf (delete_range st (prev_char (t_input st) (t_pos st)) (t_pos st))"
    using prev_char_less [of "t_pos st" "t_input st"] pos wf by (intro delete_range_wf) simp_all
  have one: "steps_wf st (Some (x, outs))" if "tui_wf x" for x outs using that by (simp add: steps_wf_def)
  have quit: "tui_wf (st\<lparr>t_quit := True\<rparr>)" using wf by simp
  show ?thesis unfolding handle_key_def
    by (intro if_cases [where P = "steps_wf st"] handle_submit_wf wf one if_cases [where P = tui_wf] ins kill del quit tui_wf_pos le0 le_refl)
      simp_all
qed

lemma handle_keys_wf: "tui_wf st \<Longrightarrow> steps_wf st (handle_keys E cs st)"
proof (induction E cs st rule: handle_keys.induct)
  case (2 E c cs st)
  consider "t_quit st" | "\<not> t_quit st" "byte c = 27" "length cs \<ge> 2 \<and> hd cs = CHR ''[''"
    | "\<not> t_quit st" "byte c = 27" "\<not> (length cs \<ge> 2 \<and> hd cs = CHR ''['')" | "\<not> t_quit st" "byte c \<noteq> 27" by blast
  then show ?case
  proof cases
    case 1
    then show ?thesis using 2(4) by (simp add: steps_wf_def)
  next
    case a: 2
    from 2(1) [OF a refl] handle_csi_wf [OF 2(4)] a show ?thesis by (simp add: steps_wf_def Let_def)
  next
    case 3
    have "handle_keys E (c # cs) st = handle_keys E cs st"
      by (simp only: handle_keys.simps(2) [of E c cs st] if_P [OF 3(2)] if_not_P [OF 3(1)] if_not_P [OF 3(3)])
    with 2(2) [OF 3] 2(4) show ?thesis by simp
  next
    case 4
    obtain st1 o1 where h: "handle_key (E (length cs)) c st = Some (st1, o1)" "tui_wf st1"
      using handle_key_wf [OF 2(4), of "E (length cs)" c] by (auto simp: steps_wf_def)
    obtain st2 o2 where "handle_keys E cs st1 = Some (st2, o2)" "tui_wf st2"
      using 2(3) [OF 4 h(1) refl h(2)] by (auto simp: steps_wf_def)
    with h 4 show ?thesis by (simp add: steps_wf_def)
  qed
qed (simp add: steps_wf_def)

lemma handle_input_wf: "tui_wf st \<Longrightarrow> steps_wf st (handle_input E cs st)"
  using handle_keys_wf [of st E cs] by (auto simp: handle_input_def steps_wf_def)

lemma get_terminal_size_ok: "get_terminal_size ws = (r, k) \<Longrightarrow> 2 < r \<and> 10 < k"
  by (auto simp: get_terminal_size_def split: option.splits prod.splits if_splits)

lemma tui_round_wf: "tui_wf st \<Longrightarrow> steps_wf st (tui_round e st)"
proof -
  assume wf: "tui_wf st"
  obtain st0 o0 where r: "(if t_dirty st then redraw st else (st, [])) = (st0, o0)" by fastforce
  then have w0: "tui_wf st0" using wf by (auto simp: redraw_def split: if_splits)
  obtain st1 o1 where p: "poll_events (te_events e) st0 = Some (st1, o1)" "tui_wf st1"
    using poll_events_wf [OF w0, of "te_events e"] by (auto simp: steps_wf_def)
  obtain st2 o2 where h: "(if te_keys e \<noteq> [] then handle_input (te_submit e) (te_keys e) st1 else Some (st1, [])) = Some (st2, o2)" "tui_wf st2"
    using handle_input_wf [OF p(2), of "te_submit e" "te_keys e"] p(2) by (cases "te_keys e = []") (auto simp: steps_wf_def)
  obtain rr kk where g: "get_terminal_size (te_size e) = (rr, kk)" by fastforce
  have "tui_wf (st2\<lparr>t_rows := rr, t_cols := kk, t_dirty := True\<rparr>)"
    using h(2) get_terminal_size_ok [OF g] by (simp add: tui_wf_def)
  then show ?thesis unfolding tui_round_def r Let_def prod.case p(1) bind.bind_lunit h(1) g using h(2)
    by (simp add: steps_wf_def)
qed

lemma tui_rounds_wf: "tui_wf st \<Longrightarrow> steps_wf st (tui_rounds es st)"
proof (induction es arbitrary: st)
  case (Cons e es)
  obtain st1 o1 where r: "tui_round e st = Some (st1, o1)" "tui_wf st1"
    using tui_round_wf [OF Cons.prems, of e] by (auto simp: steps_wf_def)
  obtain st2 o2 where "tui_rounds es st1 = Some (st2, o2)" "tui_wf st2"
    using Cons.IH [OF r(2)] by (auto simp: steps_wf_def)
  with r Cons.prems show ?case by (simp add: steps_wf_def)
qed (simp add: steps_wf_def)

lemma tui_start_wf: "\<exists>r outs. tui_start target conn hdr ws = Some (r, outs) \<and> (case r of None \<Rightarrow> True | Some st \<Rightarrow> tui_wf st)"
proof (cases conn)
  case (Some c)
  obtain w rc where s: "sock_send hdr [] 1 None 0 = (w, rc)" by fastforce
  obtain r k where g: "get_terminal_size ws = (r, k)" by fastforce
  show ?thesis
  proof (cases "rc = 0")
    case True
    define tgt where "tgt = buf_set 64 (case target of Some n \<Rightarrow> n | None \<Rightarrow> ''jarvis'')"
    define st where "st = \<lparr>t_sb = \<lparr>sb_lines = [], scroll_offset = 0\<rparr>, t_input = [], t_pos = 0, t_rows = r, t_cols = k,
      t_target = tgt, t_event_fd = c, t_quit = False, t_dirty = False\<rparr>"
    have wf: "tui_wf st" using get_terminal_size_ok [OF g] by (simp add: st_def tui_wf_def sb_wf_def tgt_def length_buf_set_less)
    obtain sb where a: "add_system_msg st ''Connected to shclaw'' = Some (st\<lparr>t_sb := sb, t_dirty := True\<rparr>)" "tui_wf (st\<lparr>t_sb := sb, t_dirty := True\<rparr>)"
      using add_system_msg_wf [OF wf] by blast
    show ?thesis using add_system_msg_wf [OF a(2), of "buf_set 128 (''Target: @'' @ t_target st @ '' '' @ [CHR 0xE2, CHR 0x80, CHR 0x94] @ '' Type /help for commands'')"]
      unfolding tui_start_def Some option.case s prod.case Let_def g tgt_def [symmetric] st_def [symmetric] a(1) by (auto simp: True)
  qed (simp add: tui_start_def Some s)
qed (simp add: tui_start_def)

section \<open>Rows of UTF-8 text\<close>

lemma takeWhile_conts:
  assumes "list_all is_cont cs" "utf8_text t" "length cs \<le> m"
  shows "takeWhile is_cont (take m (cs @ t)) = cs"
proof -
  have "takeWhile is_cont (take (m - length cs) t) = []"
    using assms(2) utf8_text_head by (cases t rule: list.exhaust; cases "m - length cs") auto
  then show ?thesis using assms(1,3) takeWhile_append2 [of cs is_cont "take (m - length cs) t"] by (simp add: list_all_iff)
qed

text \<open>The characters of a text, as its bytes that continue none.\<close>

definition chars :: "string \<Rightarrow> nat" where
  "chars s = length (filter (\<lambda>c. \<not> is_cont c) s)"

lemma chars_encode: "scalar n \<Longrightarrow> chars (utf8_encode n) = 1"
proof -
  assume n: "scalar n"
  obtain c cs where c: "utf8_encode n = c # cs" by (cases "utf8_encode n") auto
  have "\<not> is_cont c" using utf8_text_head [of c cs] utf8_char [OF n utf8_nil] c by simp
  moreover have "filter (\<lambda>c. \<not> is_cont c) cs = []" using utf8_encode_conts [of n] c by (simp add: filter_empty_conv list_all_iff)
  ultimately show ?thesis by (simp add: chars_def c)
qed

lemma row_take_utf8:
  "utf8_text s \<Longrightarrow> \<exists>p q. s = p @ q \<and> row_take w n c s = n + length p \<and> utf8_text p \<and> utf8_text q \<and>
     n + length p \<le> max n 451 \<and> c + int (chars p) \<le> max c w"
proof (induction arbitrary: n c rule: utf8_text.induct)
  case utf8_nil
  show ?case by (intro exI [of _ "[]"]) (simp add: utf8_text.utf8_nil chars_def)
next
  case (utf8_char m s)
  obtain x cs where e: "utf8_encode m = x # cs" by (cases "utf8_encode m") auto
  show ?case
  proof (cases "x = LF \<or> c \<ge> w \<or> n \<ge> 512 - 64")
    case True
    then have "row_take w n c (utf8_encode m @ s) = n" by (simp only: e append_Cons row_take.simps if_True)
    then show ?thesis using utf8_char(1,2)
      by - (rule exI [of _ "[]"], rule exI [of _ "utf8_encode m @ s"], simp add: utf8_text.intros chars_def)
  next
    case False
    have l: "length cs \<le> 3" using length_utf8_encode [of m] e by simp
    have t: "takeWhile is_cont (take (512 - 1 - Suc n) (cs @ s)) = cs"
      using utf8_encode_conts [of m] l False by (intro takeWhile_conts utf8_char(2)) (auto simp: e)
    have r: "row_take w n c (utf8_encode m @ s) = row_take w (Suc n + length cs) (c + 1) s"
      unfolding e append_Cons row_take.simps(2) using False by (simp only: t Let_def if_False) simp
    obtain p q where "s = p @ q" "row_take w (Suc n + length cs) (c + 1) s = Suc n + length cs + length p" "utf8_text p" "utf8_text q"
      "Suc n + length cs + length p \<le> max (Suc n + length cs) 451" "c + 1 + int (chars p) \<le> max (c + 1) w"
      using utf8_char(3) [of "Suc n + length cs" "c + 1"] by blast
    moreover have "chars (utf8_encode m @ p) = 1 + chars p" using chars_encode [OF utf8_char(1)] by (simp add: chars_def)
    moreover have "utf8_text (utf8_encode m @ p)" by (rule utf8_text.utf8_char) (use utf8_char calculation in auto)
    moreover have "length (utf8_encode m) = Suc (length cs)" by (simp add: e)
    ultimately show ?thesis using False l unfolding r
      by - (rule exI [where x = "utf8_encode m @ p"], rule exI [where x = q], auto)
  qed
qed

definition screen_row :: "int \<Rightarrow> string \<Rightarrow> bool" where
  "screen_row w r \<longleftrightarrow> utf8_text r \<and> length r \<le> 451 \<and> int (chars r) \<le> w"

lemma rows_of_utf8: "1 \<le> w \<Longrightarrow> utf8_text s \<Longrightarrow> list_all (screen_row w) (rows_of w s)"
proof (induction w s rule: rows_of.induct)
  case (1 w s)
  obtain p q where s: "s = p @ q" "row_take w 0 0 s = length p" "utf8_text p" "utf8_text q" "length p \<le> 451" "int (chars p) \<le> w"
    using row_take_utf8 [OF 1(3), of w 0 0] 1(2) by auto
  define k where "k = (if q \<noteq> [] \<and> hd q = LF then 1 else 0 :: nat)"
  have q: "utf8_text (drop k q)"
    using s(4) utf8_text_tl [of LF "tl q"] by (cases q rule: list.exhaust) (auto simp: k_def byte_def)
  have d: "drop (length p) s = q" and tk: "take (length p) s = p" using s(1) by simp_all
  have r: "rows_of w s = p # (if drop k q = [] \<or> length p + k = 0 then [] else rows_of w (drop k q))"
    unfolding k_def by (subst rows_of.simps) (simp only: s(2) d tk Let_def)
  have "list_all (screen_row w) (rows_of w (drop k q))" if "\<not> (drop k q = [] \<or> length p + k = 0)"
    using 1(1) [OF s(2) [symmetric] d [symmetric] k_def that 1(2) q] .
  moreover have "screen_row w p" using s(3,5,6) by (simp add: screen_row_def)
  ultimately show ?case unfolding r by (simp split: if_split)
qed

text \<open>A row of the text with its first \<open>h\<close> bytes in the style.\<close>

definition styled :: "string option \<Rightarrow> nat \<Rightarrow> string \<Rightarrow> string" where
  "styled style h r = (if h \<noteq> 0 \<and> style \<noteq> None then the style @ take h r @ RESET @ drop h r else r)"

lemma text_row_whole: "length r \<le> 451 \<Longrightarrow> style \<in> Some ` {DIM, CYAN, GREEN} \<Longrightarrow> text_row style h r = styled style h r"
  by (auto simp: text_row_def styled_def ansi min_def)

section \<open>Properties\<close>

text \<open>
  (C29) The client always answers: starting it, and then any number of passes of its loop with whatever frames the daemon
  sends, keys the user types and sizes the terminal takes, comes to an end (no text makes wrapping loop), and
  leaves the scrollback within 1024 rows of 511 bytes, the line within its buffer with the cursor inside it, the
  scroll offset not negative, and in every row no control byte but those of the client's own colours.
\<close>

theorem tui_never_stuck:
  "\<exists>r outs. tui_start target conn hdr ws = Some (r, outs) \<and>
     (case r of None \<Rightarrow> True
      | Some st \<Rightarrow> \<exists>st' outs'. tui_rounds es st = Some (st', outs') \<and> tui_wf st')"
proof -
  obtain r outs where s: "tui_start target conn hdr ws = Some (r, outs)" "case r of None \<Rightarrow> True | Some st \<Rightarrow> tui_wf st"
    using tui_start_wf by blast
  then show ?thesis using tui_rounds_wf [of _ es] by (cases r) (auto simp: steps_wf_def)
qed

text \<open>
  A text that is valid UTF-8 is shown whole: the rows added hold all of its bytes but the newlines, in order,
  with control bytes as blanks; each row is itself valid UTF-8, so no character is split between rows, and has at
  most as many characters as fit the terminal; the scrollback keeps the last 1024 rows.
\<close>

theorem tui_text_shown:
  assumes "tui_wf st" "utf8_text tx" "style \<in> Some ` {DIM, CYAN, GREEN}" "tui_add_text st style hl tx = Some st'"
  shows "\<exists>rows hs. concat rows = filter (\<lambda>c. c \<noteq> LF) tx \<and> list_all (screen_row (t_cols st - 1)) rows \<and> length hs = length rows \<and>
     sb_lines (t_sb st') = last_n 1024 (sb_lines (t_sb st) @ map2 (\<lambda>h r. styled style h (map clean_char r)) hs rows)"
proof -
  let ?w = "t_cols st - 1"
  have w: "2 \<le> t_cols st" "1 \<le> ?w" "sb_wf (t_sb st)" using assms(1) by (simp_all add: tui_wf_def)
  obtain hs where hs: "length hs = length (rows_of ?w tx)"
    "tui_add_text st style hl tx = Some (st\<lparr>t_sb := fold (\<lambda>l sb. sb_push sb l)
       (map2 (\<lambda>h r. text_row style h (map clean_char r)) hs (rows_of ?w tx)) (t_sb st), t_dirty := True\<rparr>)"
    by (rule tui_add_text_rows [OF w(1)])
  have u: "list_all (screen_row ?w) (rows_of ?w tx)" by (rule rows_of_utf8 [OF w(2) assms(2)])
  define ls where "ls = map2 (\<lambda>h r. text_row style h (map clean_char r)) hs (rows_of ?w tx)"
  have "map (buf_set 512) ls = map2 (\<lambda>h r. styled style h (map clean_char r)) hs (rows_of ?w tx)"
    using u text_row_whole [OF _ assms(3), symmetric] unfolding ls_def
    by (auto simp: screen_row_def list_all_iff dest!: set_zip_rightD) (simp add: text_row_def)
  moreover have "t_sb st' = fold (\<lambda>l sb. sb_push sb l) ls (t_sb st)" using assms(4) hs(2) unfolding ls_def by auto
  ultimately have "sb_lines (t_sb st') = last_n 1024 (sb_lines (t_sb st) @ map2 (\<lambda>h r. styled style h (map clean_char r)) hs (rows_of ?w tx))"
    using sbl.items_puts [OF w(3), of ls] by simp
  then show ?thesis using rows_of_concat [OF w(2), of tx] u hs(1) by blast
qed


text \<open>Typing, and moving over or deleting one character.\<close>

lemma handle_keys_typed:
  "list_all plain_char t \<Longrightarrow> \<not> t_quit st \<Longrightarrow> t_pos st \<le> length (t_input st) \<Longrightarrow> length (t_input st) + length t \<le> 511 \<Longrightarrow>
   handle_keys E (t @ ks) st =
     handle_keys E ks (st\<lparr>t_input := take (t_pos st) (t_input st) @ t @ drop (t_pos st) (t_input st), t_pos := t_pos st + length t\<rparr>)"
proof (induction t arbitrary: st)
  case (Cons c t)
  let ?st = "st\<lparr>t_input := take (t_pos st) (t_input st) @ c # drop (t_pos st) (t_input st), t_pos := Suc (t_pos st)\<rparr>"
  have c: "32 \<le> byte c" "byte c \<noteq> 127" using Cons.prems(1) by (simp_all add: plain_char_def)
  have k: "handle_key e c st = Some (?st, [])" for e using c Cons.prems(4) by (simp add: handle_key_def)
  have "handle_keys E (t @ ks) ?st = handle_keys E ks (?st\<lparr>t_input := take (t_pos ?st) (t_input ?st) @ t @ drop (t_pos ?st) (t_input ?st), t_pos := t_pos ?st + length t\<rparr>)"
    by (rule Cons.IH) (use Cons.prems in auto)
  moreover have "handle_keys E ((c # t) @ ks) st = handle_keys E (t @ ks) ?st"
    using c k Cons.prems(2) by (auto split: Option.bind_splits)
  ultimately show ?case using Cons.prems(3) by simp
qed simp

lemma prev_char_over:
  assumes "scalar n"
  shows "prev_char (a @ utf8_encode n @ b) (length a + length (utf8_encode n)) = length a"
proof -
  obtain c cs where e: "utf8_encode n = c # cs" by (cases "utf8_encode n") auto
  have lead: "\<not> is_cont c" using utf8_text_head [of c cs] utf8_char [OF assms utf8_nil] e by simp
  have conts: "list_all is_cont cs" using utf8_encode_conts [of n] e by simp
  have "k \<le> length cs \<Longrightarrow> prev_char (a @ c # cs @ b) (length a + Suc k) = length a" for k
  proof (induction k)
    case (Suc k)
    have "is_cont ((a @ c # cs @ b) ! (length a + Suc k))" using Suc.prems conts by (simp add: nth_append list_all_length)
    with Suc show ?case by simp
  qed (use lead in \<open>simp add: nth_append\<close>)
  from this [of "length cs"] show ?thesis by (simp add: e)
qed

lemma next_char_over:
  assumes "scalar n" "utf8_text b"
  shows "next_char (a @ utf8_encode n @ b) (length a) = length a + length (utf8_encode n)"
proof -
  obtain c cs where e: "utf8_encode n = c # cs" by (cases "utf8_encode n") auto
  have "takeWhile is_cont (cs @ b) = cs"
    using takeWhile_conts [of cs b "length (cs @ b)"] utf8_encode_conts [of n] assms(2) e by simp
  then show ?thesis by (simp add: next_char_def e)
qed

text \<open>
  (C30) The line is edited by characters, not bytes: typing or pasting a text that fits puts its bytes at the cursor;
  with the cursor behind a character, Backspace deletes all of its bytes and Left moves before it; with the cursor before it,
  Delete deletes all of its bytes and Right moves behind it. The rest of the line stays as it is.
\<close>

theorem tui_edits_characters:
  assumes "scalar n" "utf8_text b" "t_input st = a @ utf8_encode n @ b"
  shows "(t_pos st = length a + length (utf8_encode n) \<longrightarrow>
      handle_key e (CHR 0x7F) st = Some (st\<lparr>t_input := a @ b, t_pos := length a\<rparr>, []) \<and>
      t_pos (handle_csi st CHR ''D'' tilde) = length a \<and> t_input (handle_csi st CHR ''D'' tilde) = t_input st) \<and>
    (t_pos st = length a \<longrightarrow>
      t_pos (handle_csi st CHR ''C'' tilde) = length a + length (utf8_encode n) \<and> t_input (handle_csi st CHR ''C'' tilde) = t_input st \<and>
      t_input (handle_csi st CHR ''3'' True) = a @ b \<and> t_pos (handle_csi st CHR ''3'' True) = length a) \<and>
    (list_all plain_char t \<and> \<not> t_quit st \<and> t_pos st \<le> length (t_input st) \<and> length (t_input st) + length t \<le> 511 \<longrightarrow>
      handle_input E t st = Some (st\<lparr>t_input := take (t_pos st) (t_input st) @ t @ drop (t_pos st) (t_input st),
        t_pos := t_pos st + length t, t_dirty := True\<rparr>, []))"
proof (intro conjI impI)
  assume p: "t_pos st = length a + length (utf8_encode n)"
  have k: "prev_char (t_input st) (t_pos st) = length a" unfolding assms(3) p by (rule prev_char_over [OF assms(1)])
  have z: "0 < t_pos st" by (simp add: p)
  have d: "delete_range st (length a) (t_pos st) = st\<lparr>t_input := a @ b, t_pos := length a\<rparr>" unfolding delete_range_def p assms(3) by simp
  show "handle_key e (CHR 0x7F) st = Some (st\<lparr>t_input := a @ b, t_pos := length a\<rparr>, [])"
    using k z d by (simp add: handle_key_def byte_def)
  show "t_pos (handle_csi st CHR ''D'' tilde) = length a" "t_input (handle_csi st CHR ''D'' tilde) = t_input st"
    using k z by (simp_all add: handle_csi_def csi_key_def Let_def)
next
  assume p: "t_pos st = length a"
  have k: "next_char (t_input st) (t_pos st) = length a + length (utf8_encode n)" unfolding assms(3) p by (rule next_char_over [OF assms(1,2)])
  have z: "t_pos st < length (t_input st)" by (simp add: p assms(3))
  show "t_pos (handle_csi st CHR ''C'' tilde) = length a + length (utf8_encode n)" "t_input (handle_csi st CHR ''C'' tilde) = t_input st"
    using k z by (simp_all add: handle_csi_def csi_key_def Let_def)
  show "t_input (handle_csi st CHR ''3'' True) = a @ b" "t_pos (handle_csi st CHR ''3'' True) = length a"
    using k z p assms(3) by (simp_all add: handle_csi_def csi_key_def delete_range_def Let_def)
next
  assume "list_all plain_char t \<and> \<not> t_quit st \<and> t_pos st \<le> length (t_input st) \<and> length (t_input st) + length t \<le> 511"
  then show "handle_input E t st = Some (st\<lparr>t_input := take (t_pos st) (t_input st) @ t @ drop (t_pos st) (t_input st),
        t_pos := t_pos st + length t, t_dirty := True\<rparr>, [])"
    using handle_keys_typed [of t st E "[]"] by (simp add: handle_input_def)
qed

text \<open>A client with a line \<open>a e-acute b\<close>, the cursor behind the second character.\<close>

definition tui_sample :: tui_state_t where
  "tui_sample = \<lparr>t_sb = \<lparr>sb_lines = [''hi''], scroll_offset = 0\<rparr>, t_input = ''a'' @ utf8_encode 233 @ ''b'', t_pos = 3, t_rows = 24, t_cols = 12,
     t_target = ''jarvis'', t_event_fd = 3, t_quit = False, t_dirty = False\<rparr>"

lemma tui_sample_wf: "tui_wf tui_sample"
  by (simp add: tui_sample_def tui_wf_def sb_wf_def utf8_encode_def safe_row_def plain_char_def byte_def)

theorem tui_edits_characters_witness:
  "\<forall>e E. handle_key e (CHR 0x7F) tui_sample = Some (tui_sample\<lparr>t_input := ''ab'', t_pos := 1\<rparr>, []) \<and>
   handle_input E ''xyz'' tui_sample = Some (tui_sample\<lparr>t_input := ''a'' @ utf8_encode 233 @ ''xyzb'', t_pos := 6, t_dirty := True\<rparr>, [])"
proof (intro allI)
  fix e E
  have l: "length (utf8_encode 233) = 2" by (simp add: utf8_encode_def)
  have "utf8_text ''b''" by (rule utf8_text_ascii) (simp add: byte_def)
  from tui_edits_characters [of 233 "''b''" tui_sample "''a''" e False "''xyz''" E, OF _ this]
  show "handle_key e (CHR 0x7F) tui_sample = Some (tui_sample\<lparr>t_input := ''ab'', t_pos := 1\<rparr>, []) \<and>
    handle_input E ''xyz'' tui_sample = Some (tui_sample\<lparr>t_input := ''a'' @ utf8_encode 233 @ ''xyzb'', t_pos := 6, t_dirty := True\<rparr>, [])"
    by (simp add: tui_sample_def scalar_def plain_char_def byte_def l)
qed

theorem tui_text_shown_witness:
  "\<exists>(st' :: tui_state_t) rows hs. concat rows = ''helloworldagain'' \<and> list_all (screen_row 11) rows \<and> length hs = length rows \<and>
     sb_lines (t_sb st') = last_n 1024 (''hi'' # map2 (\<lambda>h r. styled (Some CYAN) h (map clean_char r)) hs rows)"
proof -
  let ?tx = "''hello'' @ [LF] @ ''worldagain''"
  obtain sb where sb: "tui_add_text tui_sample (Some CYAN) 3 ?tx = Some (tui_sample\<lparr>t_sb := sb, t_dirty := True\<rparr>)"
    using tui_add_text_wf [OF tui_sample_wf, of "Some CYAN" 3 ?tx] by auto
  have "utf8_text ?tx" by (rule utf8_text_ascii) (simp add: byte_def)
  from tui_text_shown [OF tui_sample_wf this _ sb] show ?thesis by - (rule exI [of _ "tui_sample\<lparr>t_sb := sb, t_dirty := True\<rparr>"], simp add: tui_sample_def)
qed

end
