(* ===== verification/Ca.thy ===== *)
theory Ca
  imports Util
begin

unbundle bit_operations_syntax

text \<open>
  The certificate store, \<open>src/ca.c\<close>: Base64 and PEM decoding, the trust anchors, and where they are looked for. Decoding
  X.509 is BearSSL's: a function from the bytes of a certificate to what the decoder reports. Which
  allocations fail is an argument. The array of anchors is a list with the capacity it was allocated for; its
  cursor is the length.

  The lemmas show that decoding inverts Base64, that a bundle written in PEM is read back certificate by
  certificate, and that only CA certificates with a usable key are ever trusted.
\<close>

section \<open>Trust anchors\<close>

datatype pkey = RSA string string | EC int string | OtherKey

record x509 =
  x_err :: int
  x_dn :: "string list"
  x_isCA :: bool
  x_pkey :: "pkey option"

text \<open>Which allocations fail for one certificate: growing the name per part, growing the array, copying the key.\<close>

record ta_env =
  te_dn :: "nat \<Rightarrow> bool"
  te_grow :: bool
  te_key :: bool

record trust_anchor =
  ta_dn :: string
  ta_key :: pkey

record ca_state =
  anchors :: "trust_anchor list"
  anchor_cap :: nat

text \<open>The name and its capacity.\<close>

definition dn_append :: "bool \<Rightarrow> string \<times> nat \<Rightarrow> string \<Rightarrow> string \<times> nat" where
  "dn_append fails = (\<lambda>(buf, cap) data.
     (if length buf + length data > cap
      then (let new_cap = (length buf + length data) * 2; new_cap = (if new_cap < 256 then 256 else new_cap)
            in if fails then (buf, cap) else (buf @ data, new_cap))
      else (buf @ data, cap)))"

fun dn_collect :: "(nat \<Rightarrow> bool) \<Rightarrow> nat \<Rightarrow> string list \<Rightarrow> string \<times> nat \<Rightarrow> string \<times> nat" where
  "dn_collect fails i [] dn = dn"
| "dn_collect fails i (p # ps) dn = dn_collect fails (Suc i) ps (dn_append (fails i) dn p)"

definition add_trust_anchor :: "(string \<Rightarrow> x509) \<Rightarrow> ta_env \<Rightarrow> string \<Rightarrow> ca_state \<Rightarrow> ca_state" where
  "add_trust_anchor X e der st =
     (let dc = X der; dn = fst (dn_collect (te_dn e) 0 (x_dn dc) ([], 0))
      in if x_err dc \<noteq> 0 then st
         else if \<not> x_isCA dc then st
         else case x_pkey dc of
                None \<Rightarrow> st
              | Some pk \<Rightarrow>
                  if length (anchors st) \<ge> anchor_cap st \<and> te_grow e then st
                  else let st1 = (if length (anchors st) \<ge> anchor_cap st then st\<lparr>anchor_cap := (if anchor_cap st \<noteq> 0 then anchor_cap st * 2 else 64)\<rparr> else st)
                       in case pk of
                            OtherKey \<Rightarrow> st1
                          | _ \<Rightarrow> if te_key e then st1 else st1\<lparr>anchors := anchors st1 @ [\<lparr>ta_dn = dn, ta_key = pk\<rparr>]\<rparr>)"

section \<open>PEM\<close>

definition B64 :: "char \<Rightarrow> nat" where
  "B64 c =
     (if is_upper c then byte c - 65
      else if is_lower c then byte c - 97 + 26
      else if is_digit c then byte c - 48 + 52
      else if c = CHR ''+'' then 62 else if c = CHR ''/'' then 63 else 0)"

text \<open>A store to an \<open>unsigned char\<close>.\<close>

definition to_byte :: "nat \<Rightarrow> char" where
  "to_byte n = char_of (n mod 256)"

text \<open>
  The decoding loop over one line: the bytes, their capacity (0 before the first certificate), and whether growing
  the buffer failed.
\<close>

definition b64_quad :: "char \<Rightarrow> char \<Rightarrow> char \<Rightarrow> char \<Rightarrow> string" where
  "b64_quad c0 c1 c2 c3 =
     (let a = B64 c0; b = B64 c1; c = B64 c2; d2 = B64 c3
      in to_byte (push_bit 2 a OR drop_bit 4 b) #
         (if c2 \<noteq> CHR ''='' then [to_byte (push_bit 4 b OR drop_bit 2 c)] else []) @
         (if c3 \<noteq> CHR ''='' then [to_byte (push_bit 6 c OR d2)] else []))"

fun b64_line :: "(nat \<Rightarrow> bool) \<Rightarrow> string \<Rightarrow> string \<times> nat \<Rightarrow> (string \<times> nat) option" where
  "b64_line fails (c0 # c1 # c2 # c3 # cs) (der, cap) =
     (if length der + 3 > cap \<and> fails cap then None
      else b64_line fails cs (der @ b64_quad c0 c1 c2 c3, if length der + 3 > cap then cap * 2 else cap))"
| "b64_line fails _ dc = Some dc"

record pem_state =
  in_cert :: bool
  der_buf :: string
  der_cap :: nat
  pem_ca :: ca_state

text \<open>Allocation failures while a file is read: the first buffer, growing it, and per certificate (by how many bytes of the file are left).\<close>

record pem_env =
  pe_first :: bool
  pe_grow :: "nat \<Rightarrow> bool"
  pe_ta :: "nat \<Rightarrow> ta_env"

definition BEGIN_CERT :: string where "BEGIN_CERT = ''-----BEGIN CERTIFICATE-----''"
definition END_CERT :: string where "END_CERT = ''-----END CERTIFICATE-----''"

text \<open>One line of the file, without its newline and carriage return; \<open>None\<close> is the early return.\<close>

definition pem_line :: "(string \<Rightarrow> x509) \<Rightarrow> pem_env \<Rightarrow> nat \<Rightarrow> string \<Rightarrow> pem_state \<Rightarrow> pem_state + ca_state" where
  "pem_line X e left line ps =
     (if starts_with BEGIN_CERT line
      then if der_cap ps = 0
           then if pe_first e then Inr (pem_ca ps) else Inl (ps\<lparr>in_cert := True, der_buf := [], der_cap := 4096\<rparr>)
           else Inl (ps\<lparr>in_cert := True, der_buf := []\<rparr>)
      else if in_cert ps \<and> starts_with END_CERT line
      then Inl (ps\<lparr>in_cert := False, der_buf := [],
                   pem_ca := (if der_buf ps \<noteq> [] then add_trust_anchor X (pe_ta e left) (der_buf ps) (pem_ca ps) else pem_ca ps)\<rparr>)
      else if in_cert ps
      then (case b64_line (pe_grow e) line (der_buf ps, der_cap ps) of
              None \<Rightarrow> Inr (pem_ca ps) | Some (der, cap) \<Rightarrow> Inl (ps\<lparr>der_buf := der, der_cap := cap\<rparr>))
      else Inl ps)"

definition strip_cr :: "string \<Rightarrow> string" where
  "strip_cr l = (if l \<noteq> [] \<and> List.last l = CR then butlast l else l)"

text \<open>The loop over the lines; \<open>Inr\<close> is an early return.\<close>

function pem_loop :: "(string \<Rightarrow> x509) \<Rightarrow> pem_env \<Rightarrow> string \<Rightarrow> pem_state \<Rightarrow> pem_state + ca_state" where
  "pem_loop X e s ps =
     (if s = [] then Inl ps
      else let line = before LF s; rest = drop (Suc (length line)) s
           in case pem_line X e (length rest) (strip_cr line) ps of
                Inr ca \<Rightarrow> Inr ca | Inl ps' \<Rightarrow> pem_loop X e rest ps')"
  by pat_completeness auto
termination by (relation "measure (\<lambda>(X, e, s, ps). length s)") auto

declare pem_loop.simps [simp del]

definition load_pem_file :: "(string \<Rightarrow> x509) \<Rightarrow> pem_env \<Rightarrow> fs \<Rightarrow> string \<Rightarrow> ca_state \<Rightarrow> ca_state \<times> int" where
  "load_pem_file X e fs path st =
     (case file_slurp fs path of
        Slurped d \<Rightarrow>
          (case pem_loop X e (cstr d) \<lparr>in_cert = False, der_buf = [], der_cap = 0, pem_ca = st\<rparr> of
             Inr ca \<Rightarrow> (ca, -1)
           | Inl ps \<Rightarrow> (pem_ca ps, if length (anchors (pem_ca ps)) > length (anchors st) then 0 else -1))
      | _ \<Rightarrow> (st, -1))"

section \<open>Where certificates are looked for\<close>

definition CA_PATHS :: "string list" where
  "CA_PATHS = [''/etc/ssl/certs/ca-certificates.crt'', ''/etc/pki/tls/certs/ca-bundle.crt'', ''/etc/ssl/cert.pem'',
     ''/etc/openssl/certs/ca-certificates.crt'', ''/usr/local/share/certs/ca-root-nss.crt'']"

definition CA_DIRS :: "string list" where
  "CA_DIRS = [''/etc/openssl/certs'', ''/etc/ssl/certs'']"

text \<open>\<open>strrchr\<close>.\<close>

definition strrchr :: "char \<Rightarrow> string \<Rightarrow> string option" where
  "strrchr c s = (if c \<in> set s then Some (c # rev (takeWhile (\<lambda>x. x \<noteq> c) (rev s))) else None)"

definition cert_name :: "string \<Rightarrow> bool" where
  "cert_name n = (case strrchr CHR ''.'' n of None \<Rightarrow> False | Some ext \<Rightarrow> ext = ''.pem'' \<or> ext = ''.crt'' \<or> ext = ''.0'')"

fun load_names :: "(string \<Rightarrow> x509) \<Rightarrow> (string \<Rightarrow> pem_env) \<Rightarrow> fs \<Rightarrow> string \<Rightarrow> string list \<Rightarrow> ca_state \<Rightarrow> ca_state" where
  "load_names X E fs path [] st = st"
| "load_names X E fs path (n # ns) st =
     (if cert_name n
      then let p = buf_set 4200 (path @ ''/'' @ n) in load_names X E fs path ns (fst (load_pem_file X (E p) fs p st))
      else load_names X E fs path ns st)"

definition load_pem_dir :: "(string \<Rightarrow> x509) \<Rightarrow> (string \<Rightarrow> pem_env) \<Rightarrow> fs \<Rightarrow> (string \<Rightarrow> string list option) \<Rightarrow> string \<Rightarrow> ca_state \<Rightarrow> ca_state \<times> int" where
  "load_pem_dir X E fs rd path st =
     (case rd path of
        None \<Rightarrow> (st, -1)
      | Some ns \<Rightarrow> (let st' = load_names X E fs path ns st in (st', if length (anchors st') > length (anchors st) then 0 else -1)))"

text \<open>The three loops of \<open>ca_init\<close> are one: sources are tried in turn until one succeeds.\<close>

fun try_sources :: "('p \<Rightarrow> ca_state \<Rightarrow> ca_state \<times> int) \<Rightarrow> 'p list \<Rightarrow> ca_state \<Rightarrow> ca_state \<times> 'p option" where
  "try_sources load [] st = (st, None)"
| "try_sources load (p # ps) st = (let (st', rc) = load p st in if rc = 0 then (st', Some p) else try_sources load ps st')"

definition ca_init :: "(string \<Rightarrow> x509) \<Rightarrow> (string \<Rightarrow> pem_env) \<Rightarrow> fs \<Rightarrow> (string \<Rightarrow> string list option) \<Rightarrow> string \<Rightarrow> ca_state \<Rightarrow> ca_state \<times> int \<times> string option" where
  "ca_init X E fs rd data_dir st =
     (let own = buf_set 4200 (data_dir @ ''/cacert.pem'');
          (st1, f1) = try_sources (\<lambda>p. load_pem_file X (E p) fs p) CA_PATHS st;
          (st2, f2) = (if f1 = None then try_sources (\<lambda>p. load_pem_file X (E p) fs p) [own] st1 else (st1, f1));
          (st3, f3) = (if f2 = None then try_sources (load_pem_dir X E fs rd) CA_DIRS st2 else (st2, f2))
      in (st3, if f3 \<noteq> None then 0 else -1, f3))"

section \<open>Base64\<close>

text \<open>The encoding, as a specification.\<close>

definition b64_char :: "nat \<Rightarrow> char" where
  "b64_char n = (if n < 26 then char_of (65 + n) else if n < 52 then char_of (71 + n) else if n < 62 then char_of (n - 4)
     else if n = 62 then CHR ''+'' else CHR ''/'')"

fun b64_encode :: "string \<Rightarrow> string" where
  "b64_encode [] = []"
| "b64_encode [x] = [b64_char (byte x div 4), b64_char (byte x mod 4 * 16), CHR ''='', CHR ''='']"
| "b64_encode [x, y] = [b64_char (byte x div 4), b64_char (byte x mod 4 * 16 + byte y div 16), b64_char (byte y mod 16 * 4), CHR ''='']"
| "b64_encode (x # y # z # s) = b64_char (byte x div 4) # b64_char (byte x mod 4 * 16 + byte y div 16) #
     b64_char (byte y mod 16 * 4 + byte z div 64) # b64_char (byte z mod 64) # b64_encode s"

lemma B64_char: "n < 64 \<Longrightarrow> B64 (b64_char n) = n"
  by (auto simp: B64_def b64_char_def is_upper_def is_lower_def is_digit_def byte_def)

lemma b64_char_neq [simp]: "b64_char n \<noteq> CHR ''=''" "b64_char n \<noteq> LF" "b64_char n \<noteq> CR" "b64_char n \<noteq> NUL" "b64_char n \<noteq> CHR ''-''"
  by (auto simp: b64_char_def char_of_eq_byte byte_def)

lemma push_or: "b < 2 ^ n \<Longrightarrow> push_bit n a OR b = a * 2 ^ n + (b :: nat)"
proof -
  assume b: "b < 2 ^ n"
  have "push_bit n a AND take_bit n b = 0"
    by (rule bit_eqI) (simp add: bit_simps)
  then have "push_bit n a AND b = 0" using b by (simp add: take_bit_nat_eq_self)
  then show ?thesis by (simp add: disjunctive_add_eq_or [symmetric] push_bit_eq_mult)
qed

text \<open>The bit fields of bytes.\<close>

lemma byte_fields:
  "byte x div 4 < 64" "byte x mod 4 * 16 < 64" "byte x mod 16 * 4 < 64"
  "byte x mod 4 * 16 + byte y div 16 < 64" "byte x mod 16 * 4 + byte y div 64 < 64" "byte x mod 64 < 64"
proof -
  have "byte x div 4 < 64" "byte y div 16 < 16" "byte y div 64 < 4" by (simp_all add: less_mult_imp_div_less)
  moreover have "byte x mod 4 < 4" "byte x mod 16 < 16" by simp_all
  ultimately show "byte x div 4 < 64" "byte x mod 4 * 16 < 64" "byte x mod 16 * 4 < 64"
    "byte x mod 4 * 16 + byte y div 16 < 64" "byte x mod 16 * 4 + byte y div 64 < 64" "byte x mod 64 < 64" by linarith+
qed

lemma byte_joins:
  "to_byte (push_bit 2 (byte x div 4) OR drop_bit 4 (byte x mod 4 * 16 + byte y div 16)) = x"
  "to_byte (push_bit 2 (byte x div 4) OR drop_bit 4 (byte x mod 4 * 16)) = x"
  "to_byte (push_bit 4 (p * 16 + byte y div 16) OR drop_bit 2 (byte y mod 16 * 4 + byte z div 64)) = y"
  "to_byte (push_bit 4 (p * 16 + byte y div 16) OR drop_bit 2 (byte y mod 16 * 4)) = y"
  "to_byte (push_bit 6 (p * 4 + byte z div 64) OR byte z mod 64) = z"
proof -
  have d: "(byte x mod 4 * 16 + byte y div 16) div 16 = byte x mod 4" "(byte y mod 16 * 4 + byte z div 64) div 4 = byte y mod 16"
    by (simp_all add: less_mult_imp_div_less)
  have "byte x div 4 * 4 + byte x mod 4 = byte x" by simp
  then show "to_byte (push_bit 2 (byte x div 4) OR drop_bit 4 (byte x mod 4 * 16 + byte y div 16)) = x"
    "to_byte (push_bit 2 (byte x div 4) OR drop_bit 4 (byte x mod 4 * 16)) = x"
    using push_or [of "byte x mod 4" 2 "byte x div 4"] d(1) by (simp_all add: to_byte_def drop_bit_eq_div)
  have "(p * 16 + byte y div 16) * 16 + byte y mod 16 = p * 256 + byte y" by (simp add: algebra_simps)
  then have "((p * 16 + byte y div 16) * 16 + byte y mod 16) mod 256 = byte y" by simp
  then show "to_byte (push_bit 4 (p * 16 + byte y div 16) OR drop_bit 2 (byte y mod 16 * 4 + byte z div 64)) = y"
    "to_byte (push_bit 4 (p * 16 + byte y div 16) OR drop_bit 2 (byte y mod 16 * 4)) = y"
    using push_or [of "byte y mod 16" 4 "p * 16 + byte y div 16"] d(2) by (simp_all add: to_byte_def drop_bit_eq_div)
  have "(p * 4 + byte z div 64) * 64 + byte z mod 64 = p * 256 + byte z" by (simp add: algebra_simps)
  then have "((p * 4 + byte z div 64) * 64 + byte z mod 64) mod 256 = byte z" by simp
  then show "to_byte (push_bit 6 (p * 4 + byte z div 64) OR byte z mod 64) = z"
    using push_or [of "byte z mod 64" 6 "p * 4 + byte z div 64"] by (simp add: to_byte_def)
qed

lemma b64_quads:
  "b64_quad (b64_char (byte x div 4)) (b64_char (byte x mod 4 * 16 + byte y div 16)) (b64_char (byte y mod 16 * 4 + byte z div 64)) (b64_char (byte z mod 64)) = [x, y, z]"
  "b64_quad (b64_char (byte x div 4)) (b64_char (byte x mod 4 * 16 + byte y div 16)) (b64_char (byte y mod 16 * 4)) CHR ''='' = [x, y]"
  "b64_quad (b64_char (byte x div 4)) (b64_char (byte x mod 4 * 16)) CHR ''='' CHR ''='' = [x]"
  unfolding b64_quad_def Let_def B64_char [OF byte_fields(1)] B64_char [OF byte_fields(2)] B64_char [OF byte_fields(3)]
    B64_char [OF byte_fields(4)] B64_char [OF byte_fields(5)] B64_char [OF byte_fields(6)] byte_joins by simp_all

text \<open>Decoding a line inverts the encoding, when memory suffices.\<close>

lemma b64_line_encode:
  "0 < cap \<Longrightarrow> \<exists>cap' > 0. b64_line (\<lambda>_. False) (b64_encode d) (der, cap) = Some (der @ d, cap')"
proof (induction d arbitrary: der cap rule: b64_encode.induct)
  case (4 x y z s)
  let ?cap = "if length der + 3 > cap then cap * 2 else cap"
  have "0 < ?cap" using 4(2) by simp
  then obtain cap' where c: "cap' > 0" "b64_line (\<lambda>_. False) (b64_encode s) (der @ [x, y, z], ?cap) = Some ((der @ [x, y, z]) @ s, cap')"
    using 4(1) by blast
  show ?case using c by (auto simp: b64_quads)
qed (auto simp: b64_quads)

lemma b64_encode_chars: "set (b64_encode d) \<subseteq> range b64_char \<union> {CHR ''=''}"
  by (induction d rule: b64_encode.induct) auto

lemma b64_encode_plain: "c \<in> {LF, CR, NUL, CHR ''-''} \<Longrightarrow> c \<notin> set (b64_encode d)"
proof
  assume c: "c \<in> {LF, CR, NUL, CHR ''-''}" "c \<in> set (b64_encode d)"
  then have "c = CHR ''='' \<or> (\<exists>n. c = b64_char n)" using b64_encode_chars [of d] by blast
  with c(1) show False by (elim insertE disjE exE) (use b64_char_neq(2-5) [symmetric] in auto)
qed

section \<open>Reading a bundle\<close>

definition ample :: pem_env where
  "ample = \<lparr>pe_first = False, pe_grow = (\<lambda>_. False), pe_ta = (\<lambda>_. \<lparr>te_dn = (\<lambda>_. False), te_grow = False, te_key = False\<rparr>)\<rparr>"

text \<open>A certificate in PEM: its bytes, cut into pieces, one per line. A bundle has comments before each certificate.\<close>

definition newline :: "string \<Rightarrow> bool" where
  "newline nl \<longleftrightarrow> nl = [LF] \<or> nl = [CR, LF]"

definition pem_cert :: "string \<Rightarrow> string list \<Rightarrow> string" where
  "pem_cert nl pieces = BEGIN_CERT @ nl @ concat (map (\<lambda>p. b64_encode p @ nl) pieces) @ END_CERT @ nl"

definition comment_line :: "string \<Rightarrow> bool" where
  "comment_line c \<longleftrightarrow> LF \<notin> set c \<and> CR \<notin> set c \<and> NUL \<notin> set c \<and> \<not> starts_with BEGIN_CERT c"

definition pem_bundle :: "string \<Rightarrow> (string list \<times> string list) list \<Rightarrow> string" where
  "pem_bundle nl certs = concat (map (\<lambda>(cs, pieces). concat (map (\<lambda>c. c @ nl) cs) @ pem_cert nl pieces) certs)"

lemma pem_loop_line:
  assumes "newline nl" "LF \<notin> set l" "CR \<notin> set l"
  shows "pem_loop X e (l @ nl @ s) ps = (case pem_line X e (length s) l ps of Inr ca \<Rightarrow> Inr ca | Inl ps' \<Rightarrow> pem_loop X e s ps')"
proof -
  obtain r where r: "nl = r @ [LF]" "r = [] \<or> r = [CR]" using assms(1) by (auto simp: newline_def)
  have t: "before LF (l @ nl @ s) = l @ r" using before_append [of LF "l @ r" s] assms(2) r by auto
  have "l \<noteq> [] \<Longrightarrow> List.last l \<noteq> CR" using assms(3) last_in_set by metis
  then have l: "strip_cr (l @ r) = l" using r(2) by (auto simp: strip_cr_def)
  have d: "drop (Suc (length (l @ r))) (l @ nl @ s) = s" by (simp add: r(1))
  have n: "l @ nl @ s \<noteq> []" by (simp add: r(1))
  show ?thesis by (subst pem_loop.simps) (simp only: n if_False Let_def t l d)
qed

lemma END_not_BEGIN: "\<not> starts_with BEGIN_CERT END_CERT" "starts_with END_CERT END_CERT" "starts_with BEGIN_CERT BEGIN_CERT"
  by (simp_all add: starts_with_def BEGIN_CERT_def END_CERT_def)

lemma starts_with_set: "starts_with p s \<Longrightarrow> set p \<subseteq> set s"
  by (metis starts_with_def set_take_subset)

lemma b64_not_mark: "\<not> starts_with BEGIN_CERT (b64_encode d)" "\<not> starts_with END_CERT (b64_encode d)"
  using b64_encode_plain [of "CHR ''-''" d] starts_with_set [of BEGIN_CERT "b64_encode d"] starts_with_set [of END_CERT "b64_encode d"]
  by (auto simp: BEGIN_CERT_def END_CERT_def)

lemma pem_line_piece:
  assumes "in_cert ps" "0 < der_cap ps"
  shows "\<exists>cap > 0. pem_line X ample n (b64_encode p) ps = Inl (ps\<lparr>der_buf := der_buf ps @ p, der_cap := cap\<rparr>)"
  using b64_line_encode [OF assms(2), of p "der_buf ps"] assms(1) by (auto simp: pem_line_def b64_not_mark ample_def)

lemma pem_loop_pieces:
  assumes "newline nl"
  shows "in_cert ps \<Longrightarrow> 0 < der_cap ps \<Longrightarrow> \<exists>cap > 0. pem_loop X ample (concat (map (\<lambda>p. b64_encode p @ nl) pieces) @ s) ps =
     pem_loop X ample s (ps\<lparr>der_buf := der_buf ps @ concat pieces, der_cap := cap\<rparr>)"
proof (induction pieces arbitrary: ps)
  case (Cons p pieces)
  let ?r = "concat (map (\<lambda>p. b64_encode p @ nl) pieces) @ s"
  obtain c1 where c1: "c1 > 0" "pem_line X ample (length ?r) (b64_encode p) ps = Inl (ps\<lparr>der_buf := der_buf ps @ p, der_cap := c1\<rparr>)"
    using pem_line_piece [OF Cons.prems] by blast
  let ?ps = "ps\<lparr>der_buf := der_buf ps @ p, der_cap := c1\<rparr>"
  obtain c2 where "c2 > 0" "pem_loop X ample ?r ?ps = pem_loop X ample s (?ps\<lparr>der_buf := der_buf ?ps @ concat pieces, der_cap := c2\<rparr>)"
    using Cons.IH [of ?ps] Cons.prems c1(1) by auto
  moreover have "pem_loop X ample (b64_encode p @ nl @ ?r) ps = pem_loop X ample ?r ?ps"
    using pem_loop_line [OF assms, of "b64_encode p" X ample ?r ps] b64_encode_plain [of _ p] c1(2) by simp
  ultimately show ?case by auto
qed auto

definition no_fail :: ta_env where
  "no_fail = \<lparr>te_dn = (\<lambda>_. False), te_grow = False, te_key = False\<rparr>"

lemma ample_ta [simp]: "pe_ta ample n = no_fail" "pe_first ample = False"
  by (simp_all add: ample_def no_fail_def)

lemma marks_plain: "LF \<notin> set BEGIN_CERT" "CR \<notin> set BEGIN_CERT" "LF \<notin> set END_CERT" "CR \<notin> set END_CERT"
  by (simp_all add: BEGIN_CERT_def END_CERT_def)

lemma pem_loop_cert:
  assumes "newline nl" "concat pieces \<noteq> []" "\<not> in_cert ps"
  shows "\<exists>cap. pem_loop X ample (pem_cert nl pieces @ s) ps =
     pem_loop X ample s (ps\<lparr>der_buf := [], der_cap := cap, pem_ca := add_trust_anchor X no_fail (concat pieces) (pem_ca ps)\<rparr>)"
proof -
  let ?b = "concat (map (\<lambda>p. b64_encode p @ nl) pieces)" and ?e = "END_CERT @ nl @ s"
  define c0 where "c0 = (if der_cap ps = 0 then 4096 else der_cap ps)"
  let ?ps = "ps\<lparr>in_cert := True, der_buf := [], der_cap := c0\<rparr>"
  have "pem_line X ample n BEGIN_CERT ps = Inl ?ps" for n by (simp add: pem_line_def END_not_BEGIN c0_def)
  then have 1: "pem_loop X ample (BEGIN_CERT @ nl @ ?b @ ?e) ps = pem_loop X ample (?b @ ?e) ?ps"
    using pem_loop_line [OF assms(1) marks_plain(1,2)] by simp
  have "0 < der_cap ?ps" by (simp add: c0_def)
  then obtain c1 where 2: "pem_loop X ample (?b @ ?e) ?ps = pem_loop X ample ?e (?ps\<lparr>der_buf := der_buf ?ps @ concat pieces, der_cap := c1\<rparr>)"
    using pem_loop_pieces [OF assms(1), of ?ps X pieces ?e] by auto
  let ?p2 = "?ps\<lparr>der_buf := der_buf ?ps @ concat pieces, der_cap := c1\<rparr>"
  have "pem_line X ample n END_CERT ?p2 = Inl (ps\<lparr>der_buf := [], der_cap := c1, pem_ca := add_trust_anchor X no_fail (concat pieces) (pem_ca ps)\<rparr>)" for n
    using assms(2,3) by (simp add: pem_line_def END_not_BEGIN)
  then have "pem_loop X ample ?e ?p2 = pem_loop X ample s (ps\<lparr>der_buf := [], der_cap := c1, pem_ca := add_trust_anchor X no_fail (concat pieces) (pem_ca ps)\<rparr>)"
    using pem_loop_line [OF assms(1) marks_plain(3,4)] by simp
  then show ?thesis using 1 2 by (auto simp: pem_cert_def)
qed

lemma pem_loop_comments:
  assumes "newline nl" "\<not> in_cert ps"
  shows "list_all comment_line cs \<Longrightarrow> pem_loop X e (concat (map (\<lambda>c. c @ nl) cs) @ s) ps = pem_loop X e s ps"
  using assms(2) by (induction cs) (simp_all add: pem_loop_line [OF assms(1)] comment_line_def pem_line_def)

lemma pem_loop_bundle:
  assumes "newline nl"
  shows "\<not> in_cert ps \<Longrightarrow> list_all (\<lambda>(cs, pieces). list_all comment_line cs \<and> concat pieces \<noteq> []) certs \<Longrightarrow>
    \<exists>cap der. pem_loop X ample (pem_bundle nl certs) ps =
      Inl (ps\<lparr>der_buf := der, der_cap := cap, pem_ca := fold (add_trust_anchor X no_fail) (map (concat \<circ> snd) certs) (pem_ca ps)\<rparr>)"
proof (induction certs arbitrary: ps)
  case Nil
  then show ?case by (intro exI [of _ "der_cap ps"] exI [of _ "der_buf ps"]) (simp add: pem_bundle_def pem_loop.simps)
next
  case (Cons cert certs)
  obtain cs pieces where c: "cert = (cs, pieces)" by fastforce
  have "pem_loop X ample (pem_bundle nl (cert # certs)) ps = pem_loop X ample (pem_cert nl pieces @ pem_bundle nl certs) ps"
    using pem_loop_comments [OF assms Cons.prems(1), of cs X ample "pem_cert nl pieces @ pem_bundle nl certs"] Cons.prems(2)
    by (simp add: pem_bundle_def c)
  moreover obtain cap where "pem_loop X ample (pem_cert nl pieces @ pem_bundle nl certs) ps =
      pem_loop X ample (pem_bundle nl certs) (ps\<lparr>der_buf := [], der_cap := cap, pem_ca := add_trust_anchor X no_fail (concat pieces) (pem_ca ps)\<rparr>)"
    using pem_loop_cert [OF assms, of pieces ps] Cons.prems by (auto simp: c)
  moreover have "\<not> in_cert (ps\<lparr>der_buf := [], der_cap := cap, pem_ca := add_trust_anchor X no_fail (concat pieces) (pem_ca ps)\<rparr>)" for cap
    using Cons.prems(1) by simp
  ultimately show ?case using Cons.IH [of "ps\<lparr>der_buf := [], der_cap := cap, pem_ca := add_trust_anchor X no_fail (concat pieces) (pem_ca ps)\<rparr>"] Cons.prems
    by (auto simp: c)
qed

section \<open>What is trusted\<close>

definition trusted :: "(string \<Rightarrow> x509) \<Rightarrow> string \<Rightarrow> bool" where
  "trusted X der \<longleftrightarrow> x_err (X der) = 0 \<and> x_isCA (X der) \<and> x_pkey (X der) \<notin> {None, Some OtherKey}"

definition anchor_of :: "(string \<Rightarrow> x509) \<Rightarrow> string \<Rightarrow> trust_anchor" where
  "anchor_of X der = \<lparr>ta_dn = concat (x_dn (X der)), ta_key = the (x_pkey (X der))\<rparr>"

lemma dn_collect_all: "fst (dn_collect (\<lambda>_. False) i ps dn) = fst dn @ concat ps"
  by (induction ps arbitrary: i dn) (simp_all add: dn_append_def Let_def split: prod.splits)

lemma add_anchors: "anchors (add_trust_anchor X no_fail der st) = anchors st @ (if trusted X der then [anchor_of X der] else [])"
  by (auto simp: add_trust_anchor_def no_fail_def trusted_def anchor_of_def dn_collect_all Let_def split: option.splits pkey.splits)

lemma fold_anchors: "anchors (fold (add_trust_anchor X no_fail) ders st) = anchors st @ map (anchor_of X) (filter (trusted X) ders)"
  by (induction ders arbitrary: st) (simp_all add: add_anchors)

text \<open>Whatever fails, an operation on the store only appends anchors of trusted certificates.\<close>

definition ca_grows :: "(string \<Rightarrow> x509) \<Rightarrow> ca_state \<Rightarrow> ca_state \<Rightarrow> bool" where
  "ca_grows X st st' \<longleftrightarrow> (\<exists>as. anchors st' = anchors st @ as \<and> (\<forall>a \<in> set as. \<exists>der. trusted X der \<and> ta_key a = the (x_pkey (X der))))"

lemma ca_grows_refl [simp]: "ca_grows X st st"
  by (simp add: ca_grows_def)

lemma ca_grows_trans: "ca_grows X a b \<Longrightarrow> ca_grows X b c \<Longrightarrow> ca_grows X a c"
  by (auto simp: ca_grows_def)

lemma ca_grows_length: "ca_grows X a b \<Longrightarrow> length (anchors a) \<le> length (anchors b)"
  by (auto simp: ca_grows_def)

lemma add_trust_anchor_grows: "ca_grows X st (add_trust_anchor X e der st)"
  by (auto simp: ca_grows_def add_trust_anchor_def trusted_def Let_def intro!: exI [of _ der] split: option.splits pkey.splits)

lemma pem_line_grows: "case pem_line X e n l ps of Inl ps' \<Rightarrow> ca_grows X (pem_ca ps) (pem_ca ps') | Inr ca \<Rightarrow> ca_grows X (pem_ca ps) ca"
  by (simp add: pem_line_def add_trust_anchor_grows split: option.split)

lemma pem_loop_grows: "case pem_loop X e s ps of Inl ps' \<Rightarrow> ca_grows X (pem_ca ps) (pem_ca ps') | Inr ca \<Rightarrow> ca_grows X (pem_ca ps) ca"
proof (induction X e s ps rule: pem_loop.induct)
  case (1 X e s ps)
  show ?case
  proof (cases "s = []")
    case False
    define l where "l = before LF s"
    define r where "r = drop (Suc (length l)) s"
    have p: "pem_loop X e s ps = (case pem_line X e (length r) (strip_cr l) ps of Inr ca \<Rightarrow> Inr ca | Inl ps' \<Rightarrow> pem_loop X e r ps')"
      unfolding l_def r_def using False by (subst pem_loop.simps) (simp only: if_False Let_def)
    show ?thesis
    proof (cases "pem_line X e (length r) (strip_cr l) ps")
      case (Inl ps')
      with 1 [OF False l_def r_def Inl] pem_line_grows [where X = X and e = e and n = "length r" and l = "strip_cr l" and ps = ps] p show ?thesis
        by (auto split: sum.splits intro: ca_grows_trans)
    next
      case (Inr ca)
      with pem_line_grows [where X = X and e = e and n = "length r" and l = "strip_cr l" and ps = ps] p show ?thesis by simp
    qed
  qed (simp add: pem_loop.simps)
qed

lemma load_pem_file_grows:
  assumes "load_pem_file X e fs path st = (st', rc)"
  shows "ca_grows X st st' \<and> (rc = 0 \<longrightarrow> anchors st' \<noteq> [])"
proof (cases "file_slurp fs path")
  case (Slurped d)
  let ?ps = "\<lparr>in_cert = False, der_buf = [], der_cap = 0, pem_ca = st\<rparr>"
  show ?thesis using assms Slurped pem_loop_grows [where X = X and e = e and s = "cstr d" and ps = ?ps]
    by (auto simp: load_pem_file_def split: sum.splits if_splits)
qed (use assms in \<open>auto simp: load_pem_file_def\<close>)

lemma load_names_grows: "ca_grows X st (load_names X E fs path ns st)"
proof (induction ns arbitrary: st)
  case (Cons n ns)
  show ?case using Cons load_pem_file_grows [of X "E (buf_set 4200 (path @ ''/'' @ n))" fs "buf_set 4200 (path @ ''/'' @ n)" st] ca_grows_trans
    by (auto simp: Let_def split: prod.splits) (metis prod.collapse)
qed simp

lemma load_pem_dir_grows:
  assumes "load_pem_dir X E fs rd path st = (st', rc)"
  shows "ca_grows X st st' \<and> (rc = 0 \<longrightarrow> anchors st' \<noteq> [])"
  using assms load_names_grows [of X st E fs path] by (auto simp: load_pem_dir_def Let_def split: option.splits if_splits)

lemma try_sources_grows:
  assumes "\<And>p st st' rc. load p st = (st', rc) \<Longrightarrow> ca_grows X st st' \<and> (rc = 0 \<longrightarrow> anchors st' \<noteq> [])"
  shows "try_sources load ps st = (st', f) \<Longrightarrow> ca_grows X st st' \<and> (f \<noteq> None \<longrightarrow> anchors st' \<noteq> [])"
proof (induction ps arbitrary: st)
  case (Cons p ps)
  obtain st1 rc where "load p st = (st1, rc)" by fastforce
  with Cons assms [OF this] show ?case by (auto split: if_splits intro: ca_grows_trans)
qed simp

lemma pem_bundle_load:
  assumes "newline nl" "list_all (\<lambda>(cs, pieces). list_all comment_line cs \<and> concat pieces \<noteq> []) certs"
    "fs path = Some (File (pem_bundle nl certs))"
  shows "\<exists>st' rc. load_pem_file X ample fs path st = (st', rc) \<and>
     anchors st' = anchors st @ map (anchor_of X) (filter (trusted X) (map (concat \<circ> snd) certs)) \<and>
     (rc = 0 \<longleftrightarrow> (\<exists>der \<in> set (map (concat \<circ> snd) certs). trusted X der))"
proof -
  let ?ps = "\<lparr>in_cert = False, der_buf = [], der_cap = 0, pem_ca = st\<rparr>"
  have "NUL \<notin> set nl" "NUL \<notin> set BEGIN_CERT" "NUL \<notin> set END_CERT" using assms(1) by (auto simp: newline_def BEGIN_CERT_def END_CERT_def)
  then have n: "cstr (pem_bundle nl certs) = pem_bundle nl certs"
    using assms(2) b64_encode_plain [of NUL] by (intro cstr_id) (auto simp: pem_bundle_def pem_cert_def list_all_iff comment_line_def)
  obtain cap der where l: "pem_loop X ample (pem_bundle nl certs) ?ps =
      Inl (?ps\<lparr>der_buf := der, der_cap := cap, pem_ca := fold (add_trust_anchor X no_fail) (map (concat \<circ> snd) certs) (pem_ca ?ps)\<rparr>)"
    using pem_loop_bundle [OF assms(1), of ?ps certs X] assms(2) by auto
  have s: "file_slurp fs path = Slurped (pem_bundle nl certs)" by (simp add: file_slurp_def assms(3))
  show ?thesis unfolding load_pem_file_def s slurp.case n l sum.case
    by (auto simp: fold_anchors filter_empty_conv)
qed

text \<open>
  (C40) Only certification authorities are trusted: whatever the files contain and whichever allocations fail, every anchor in
  the store belongs to a certificate that the decoder accepts, that is marked as a CA and has an RSA or EC key, with that
  key; and when looking for certificates succeeds, the store is not empty.
\<close>

theorem ca_init_trusts_only_cas:
  assumes "ca_init X E fs rd data_dir \<lparr>anchors = [], anchor_cap = 0\<rparr> = (st, rc, found)"
  shows "(\<forall>a \<in> set (anchors st). \<exists>der. trusted X der \<and> ta_key a = the (x_pkey (X der))) \<and> (rc = 0 \<longrightarrow> anchors st \<noteq> [])"
proof -
  let ?s0 = "\<lparr>anchors = [], anchor_cap = 0\<rparr>" and ?f = "\<lambda>p. load_pem_file X (E p) fs p" and ?own = "buf_set 4200 (data_dir @ ''/cacert.pem'')"
  have f: "try_sources ?f ps st = (st', r) \<Longrightarrow> ca_grows X st st' \<and> (r \<noteq> None \<longrightarrow> anchors st' \<noteq> [])" for ps st st' r
    by (rule try_sources_grows [where load = ?f and ps = ps and st = st]) (rule load_pem_file_grows)
  have d: "try_sources (load_pem_dir X E fs rd) ps st = (st', r) \<Longrightarrow> ca_grows X st st' \<and> (r \<noteq> None \<longrightarrow> anchors st' \<noteq> [])" for ps st st' r
    by (rule try_sources_grows [where load = "load_pem_dir X E fs rd" and ps = ps and st = st]) (rule load_pem_dir_grows)
  obtain s1 f1 where 1: "try_sources ?f CA_PATHS ?s0 = (s1, f1)" by fastforce
  obtain s2 f2 where 2: "(if f1 = None then try_sources ?f [?own] s1 else (s1, f1)) = (s2, f2)" by fastforce
  obtain s3 f3 where 3: "(if f2 = None then try_sources (load_pem_dir X E fs rd) CA_DIRS s2 else (s2, f2)) = (s3, f3)" by fastforce
  have r: "ca_init X E fs rd data_dir ?s0 = (s3, if f3 \<noteq> None then 0 else -1, f3)"
    unfolding ca_init_def Let_def 1 prod.case 2 3 ..
  have g1: "ca_grows X ?s0 s1 \<and> (f1 \<noteq> None \<longrightarrow> anchors s1 \<noteq> [])" by (rule f [OF 1])
  have g2: "ca_grows X s1 s2 \<and> (f2 \<noteq> None \<longrightarrow> anchors s2 \<noteq> [])" using g1 2 f [of "[?own]" s1 s2 f2] by (auto split: if_splits)
  have g3: "ca_grows X s2 s3 \<and> (f3 \<noteq> None \<longrightarrow> anchors s3 \<noteq> [])" using g2 3 d [of CA_DIRS s2 s3 f3] by (auto split: if_splits)
  have "ca_grows X ?s0 s3" using g1 g2 g3 ca_grows_trans by blast
  then show ?thesis using r g3 assms by (auto simp: ca_grows_def split: if_splits)
qed

text \<open>
  A bundle of certificates in PEM is read back whole: for a file of certificates in Base64, one piece of the certificate per line,
  with comments between them and either kind of line end, and enough memory, the store gains exactly the anchors
  of the certificates that may be trusted, in the order of the file, each with the name and the key of its certificate.
\<close>

theorem pem_bundle_roundtrip:
  assumes "newline nl" "list_all (\<lambda>(cs, pieces). list_all comment_line cs \<and> concat pieces \<noteq> []) certs"
    "fs path = Some (File (pem_bundle nl certs))"
  shows "\<exists>st' rc. load_pem_file X ample fs path st = (st', rc) \<and>
     anchors st' = anchors st @ map (anchor_of X) (filter (trusted X) (map (concat \<circ> snd) certs)) \<and>
     (rc = 0 \<longleftrightarrow> (\<exists>der \<in> set (map (concat \<circ> snd) certs). trusted X der))"
  by (rule pem_bundle_load [where fs = fs, OF assms])

text \<open>A bundle of one certificate in two lines, behind a comment, and a decoder that accepts it.\<close>

definition x509_sample :: "string \<Rightarrow> x509" where
  "x509_sample der = \<lparr>x_err = (if der = ''abcde'' then 0 else 34), x_dn = [''CN='', ''A''], x_isCA = True, x_pkey = Some (EC 23 ''q'')\<rparr>"

theorem pem_bundle_roundtrip_witness:
  "\<exists>st'. load_pem_file x509_sample ample ((\<lambda>_. None)(''p'' := Some (File (pem_bundle [CR, LF] [([''my ca''], [''abc'', ''de''])])))) ''p''
     \<lparr>anchors = [], anchor_cap = 0\<rparr> = (st', 0) \<and> anchors st' = [\<lparr>ta_dn = ''CN=A'', ta_key = EC 23 ''q''\<rparr>]"
  using pem_bundle_roundtrip [of "[CR, LF]" "[([''my ca''], [''abc'', ''de''])]" "(\<lambda>_. None)(''p'' := Some (File (pem_bundle [CR, LF] [([''my ca''], [''abc'', ''de''])])))" "''p''"
    x509_sample "\<lparr>anchors = [], anchor_cap = 0\<rparr>"]
  by (auto simp: newline_def comment_line_def starts_with_def BEGIN_CERT_def trusted_def anchor_of_def x509_sample_def)

theorem ca_init_trusts_only_cas_witness:
  "\<exists>st. ca_init x509_sample (\<lambda>_. ample) ((\<lambda>_. None)(''/d/cacert.pem'' := Some (File (pem_bundle [LF] [([], [''abcde''])])))) (\<lambda>_. None) ''/d''
       \<lparr>anchors = [], anchor_cap = 0\<rparr> = (st, 0, Some ''/d/cacert.pem'') \<and> anchors st \<noteq> []"
proof -
  let ?fs = "(\<lambda>_. None)(''/d/cacert.pem'' := Some (File (pem_bundle [LF] [([], [''abcde''])])))" and ?s0 = "\<lparr>anchors = [], anchor_cap = 0\<rparr>"
  let ?f = "\<lambda>p. load_pem_file x509_sample ample ?fs p"
  have ps: "try_sources ?f CA_PATHS ?s0 = (?s0, None)" by (simp add: CA_PATHS_def load_pem_file_def file_slurp_def)
  have "?fs ''/d/cacert.pem'' = Some (File (pem_bundle [LF] [([], [''abcde''])]))" by simp
  from pem_bundle_load [of "[LF]" "[([], [''abcde''])]" ?fs, OF _ _ this, of x509_sample ?s0]
  obtain st where st: "load_pem_file x509_sample ample ?fs ''/d/cacert.pem'' ?s0 = (st, 0)"
    by (auto simp: newline_def trusted_def x509_sample_def)
  have own: "buf_set 4200 (''/d'' @ ''/cacert.pem'') = ''/d/cacert.pem''" by simp
  have i: "ca_init x509_sample (\<lambda>_. ample) ?fs (\<lambda>_. None) ''/d'' ?s0 = (st, 0, Some ''/d/cacert.pem'')"
    unfolding ca_init_def Let_def ps prod.case own by (simp add: st)
  from ca_init_trusts_only_cas [OF i] i show ?thesis by blast
qed

end
