(* ===== verification/Tool_Table.thy ===== *)
theory Tool_Table
  imports Config
begin

text \<open>
  The built-in tools, first part of \<open>src/tools.c\<close>: the table of tools with their parameters, look-up by name, the JSON
  description that the model gets, and the check of the arguments of a call.

  The lemmas show which tools an agent is offered, and that arguments which pass the check have every value that the tool
  reads, with its type.
\<close>

section \<open>The table\<close>

datatype tool_id =
    TOOL_EXEC | TOOL_READ_FILE | TOOL_WRITE_FILE | TOOL_SCHEDULE_TASK | TOOL_SCHEDULE_RECURRING | TOOL_LIST_TASKS
  | TOOL_UPDATE_TASK | TOOL_CANCEL_TASK | TOOL_REMEMBER | TOOL_RECALL | TOOL_SET_FACT | TOOL_GET_FACT | TOOL_SEND_MESSAGE
  | TOOL_LIST_AGENTS | TOOL_CREATE_PLUGIN | TOOL_CLEAR_MEMORY

definition tool_ids :: "tool_id list" where
  "tool_ids = [TOOL_EXEC, TOOL_READ_FILE, TOOL_WRITE_FILE, TOOL_SCHEDULE_TASK, TOOL_SCHEDULE_RECURRING, TOOL_LIST_TASKS,
     TOOL_UPDATE_TASK, TOOL_CANCEL_TASK, TOOL_REMEMBER, TOOL_RECALL, TOOL_SET_FACT, TOOL_GET_FACT, TOOL_SEND_MESSAGE,
     TOOL_LIST_AGENTS, TOOL_CREATE_PLUGIN, TOOL_CLEAR_MEMORY]"

datatype tc_type = TC_STRING | TC_INT | TC_BOOL | TC_FLOAT

record tc_param =
  p_name :: string
  p_type :: tc_type
  p_desc :: string
  p_required :: bool
  p_choices :: "string option"

record tool_def =
  t_name :: string
  t_desc :: string
  t_params :: "tc_param list"

abbreviation param :: "string \<Rightarrow> tc_type \<Rightarrow> string \<Rightarrow> bool \<Rightarrow> string option \<Rightarrow> tc_param" where
  "param n t d r c \<equiv> \<lparr>p_name = n, p_type = t, p_desc = d, p_required = r, p_choices = c\<rparr>"

abbreviation tool :: "string \<Rightarrow> string \<Rightarrow> tc_param list \<Rightarrow> tool_def" where
  "tool n d ps \<equiv> \<lparr>t_name = n, t_desc = d, t_params = ps\<rparr>"

definition INTERVAL_NAMES :: string where
  "INTERVAL_NAMES = ''every_30min,hourly,every_6h,every_12h,daily,weekly''"

definition RUN_AT_DESC :: string where
  "RUN_AT_DESC = ''Or a local time, YYYY-MM-DDTHH:MM:SS (e.g. 2026-01-31T18:30:00). '' @ ''Append Z or +HH:MM only for another time zone.''"

definition IN_MINUTES_DESC :: string where
  "IN_MINUTES_DESC = ''Minutes from now: use this for 'in 5 minutes', 'in 2 hours' (120)''"

text \<open>A double quote.\<close>

abbreviation DQ :: string where "DQ \<equiv> [CHR 0x22]"

fun TOOLS :: "tool_id \<Rightarrow> tool_def" where
  "TOOLS TOOL_EXEC = tool ''exec'' ''Run a shell command (/bin/sh -c). Returns stdout+stderr (max 10KB). Timeout 30s.''
     [param ''command'' TC_STRING ''Shell command to execute'' True None,
      param ''timeout'' TC_INT ''Timeout in seconds (default 30)'' False None]"
| "TOOLS TOOL_READ_FILE = tool ''read_file'' ''Read a file's contents. Returns up to 32KB; use offset to read more.''
     [param ''path'' TC_STRING ''File path'' True None,
      param ''offset'' TC_INT ''Start at byte offset (default 0)'' False None,
      param ''limit'' TC_INT ''Max bytes to read (default 32768)'' False None]"
| "TOOLS TOOL_WRITE_FILE = tool ''write_file'' ''Write or append to a file. Creates parent dirs if needed.''
     [param ''path'' TC_STRING ''File path'' True None,
      param ''content'' TC_STRING ''Content to write'' True None,
      param ''append'' TC_BOOL ''Append instead of overwrite (default false)'' False None]"
| "TOOLS TOOL_SCHEDULE_TASK = tool ''schedule_task'' ''Schedule a one-shot task, in N minutes or at a given time.''
     [param ''in_minutes'' TC_INT IN_MINUTES_DESC False None,
      param ''run_at'' TC_STRING RUN_AT_DESC False None,
      param ''description'' TC_STRING ''What to do when it fires'' True None,
      param ''prompt'' TC_STRING ''Detailed prompt for the session'' False None]"
| "TOOLS TOOL_SCHEDULE_RECURRING = tool ''schedule_recurring'' ''Schedule a recurring task.''
     [param ''in_minutes'' TC_INT (''First run. '' @ IN_MINUTES_DESC) False None,
      param ''run_at'' TC_STRING (''First run. '' @ RUN_AT_DESC) False None,
      param ''interval'' TC_STRING ''Recurrence interval'' True (Some INTERVAL_NAMES),
      param ''description'' TC_STRING ''What to do each time'' True None,
      param ''prompt'' TC_STRING ''Detailed prompt for each session'' False None]"
| "TOOLS TOOL_LIST_TASKS = tool ''list_tasks'' ''List all scheduled tasks (upcoming first).'' []"
| "TOOLS TOOL_UPDATE_TASK = tool ''update_task'' ''Update an existing scheduled task.''
     [param ''task_id'' TC_STRING ''Task ID to update'' True None,
      param ''run_at'' TC_STRING (''New run time. '' @ RUN_AT_DESC) False None,
      param ''description'' TC_STRING ''New description'' False None,
      param ''prompt'' TC_STRING ''New prompt'' False None,
      param ''interval'' TC_STRING (''New interval ('' @ DQ @ DQ @ '' = one-shot)'') False None]"
| "TOOLS TOOL_CANCEL_TASK = tool ''cancel_task'' ''Cancel a scheduled task by ID.''
     [param ''task_id'' TC_STRING ''Task ID to cancel'' True None]"
| "TOOLS TOOL_REMEMBER = tool ''remember'' ''Save a memory. Auto-tagged for later retrieval.''
     [param ''content'' TC_STRING ''What to remember'' True None,
      param ''category'' TC_STRING ''Category'' False (Some ''general,project,person,event,error''),
      param ''importance'' TC_INT ''1-10, default 5. 8+ = critical.'' False None,
      param ''tags'' TC_STRING ''Comma-separated extra tags'' False None]"
| "TOOLS TOOL_RECALL = tool ''recall'' ''Search memories by keywords. Empty query = most recent.''
     [param ''query'' TC_STRING ''Keywords'' False None,
      param ''n'' TC_INT ''Max results (default 20)'' False None]"
| "TOOLS TOOL_SET_FACT = tool ''set_fact'' ''Store a permanent key-value fact, always shown in your prompt.''
     [param ''key'' TC_STRING ''Fact key'' True None,
      param ''value'' TC_STRING ''Fact value'' True None]"
| "TOOLS TOOL_GET_FACT = tool ''get_fact'' ''Retrieve a stored fact by key. Empty key = list all.''
     [param ''key'' TC_STRING ''Fact key (empty = list all)'' False None]"
| "TOOLS TOOL_SEND_MESSAGE = tool ''send_message'' ''Send a message to another agent, 'owner' (IRC), or 'all' (broadcast).''
     [param ''to'' TC_STRING (''Recipient: agent name, 'owner', or 'all'' @ [CHR 0x27]) True None,
      param ''content'' TC_STRING ''Message content'' True None]"
| "TOOLS TOOL_LIST_AGENTS = tool ''list_agents'' ''List all agents with their status and specialty.'' []"
| "TOOLS TOOL_CREATE_PLUGIN = tool ''create_plugin''
     (''Create a single-file C plugin. Source must include only '' @ DQ @ ''tc_plugin.h'' @ DQ @ '' and export TC_PLUGIN_NAME, TC_PLUGIN_DESC, '' @
      ''TC_PLUGIN_SCHEMA, and tc_execute(const char *input_json). '' @ ''Compilation errors are returned for retry.'')
     [param ''name'' TC_STRING ''Plugin name, letters/digits/_ (e.g. 'weather')'' True None,
      param ''code'' TC_STRING ''Complete C source code'' True None,
      param ''test_input'' TC_STRING (''Optional JSON object to run the plugin with '' @
        ''once compiled, e.g. {'' @ DQ @ ''city'' @ DQ @ '':'' @ DQ @ ''Paris'' @ DQ @ ''}'') False None]"
| "TOOLS TOOL_CLEAR_MEMORY = tool ''clear_memory'' ''Clear an agent's memories and/or facts. Use agent='all' to clear every agent.''
     [param ''agent'' TC_STRING ''Agent name, or 'all' for every agent'' True None,
      param ''what'' TC_STRING (''What to clear (default 'both'' @ [CHR 0x27] @ '')'') False (Some ''memory,facts,both'')]"

fun type_to_json_str :: "tc_type \<Rightarrow> string" where
  "type_to_json_str TC_INT = ''integer''"
| "type_to_json_str TC_BOOL = ''boolean''"
| "type_to_json_str TC_FLOAT = ''number''"
| "type_to_json_str TC_STRING = ''string''"

definition tool_find :: "string option \<Rightarrow> tool_id option" where
  "tool_find name = (case name of None \<Rightarrow> None | Some n \<Rightarrow> find (\<lambda>i. t_name (TOOLS i) = n) tool_ids)"

section \<open>The description for the model\<close>

text \<open>One parameter of a tool, as a JSON schema.\<close>

definition param_json :: "cjson_api \<Rightarrow> tc_param \<Rightarrow> cjson" where
  "param_json J p =
     (let prop = add_string J ''description'' (p_desc p) (add_string J ''type'' (type_to_json_str (p_type p)) (CObject []))
      in case p_choices p of
           None \<Rightarrow> prop
         | Some cs \<Rightarrow> cJSON_AddItemToObject J prop ''enum''
             (fold (\<lambda>c a. cJSON_AddItemToArray J a (CString c)) (strtok CHR '','' (buf_set 256 cs)) (CArray [])))"

definition tool_json :: "cjson_api \<Rightarrow> tool_def \<Rightarrow> cjson" where
  "tool_json J t =
     (let tl = add_string J ''description'' (t_desc t) (add_string J ''name'' (t_name t) (CObject []));
          schema = add_string J ''type'' ''object'' (CObject []);
          props = fold (\<lambda>p ps. cJSON_AddItemToObject J ps (p_name p) (param_json J p)) (t_params t) (CObject []);
          required = fold (\<lambda>p a. if p_required p then cJSON_AddItemToArray J a (CString (p_name p)) else a) (t_params t) (CArray []);
          schema = cJSON_AddItemToObject J schema ''properties'' props;
          schema = cJSON_AddItemToObject J schema ''required'' required
      in cJSON_AddItemToObject J tl ''input_schema'' schema)"

definition tool_listed :: "bool \<Rightarrow> tool_id \<Rightarrow> bool" where
  "tool_listed is_builder i \<longleftrightarrow>
     \<not> (i = TOOL_CREATE_PLUGIN \<and> \<not> is_builder) \<and>
     \<not> (is_builder \<and> i \<noteq> TOOL_READ_FILE \<and> i \<noteq> TOOL_EXEC \<and> i \<noteq> TOOL_CREATE_PLUGIN \<and> i \<noteq> TOOL_SEND_MESSAGE)"

text \<open>The build with plugins.\<close>

definition tools_to_json :: "cjson_api \<Rightarrow> bool \<Rightarrow> cjson" where
  "tools_to_json J is_builder =
     fold (\<lambda>i arr. if tool_listed is_builder i then cJSON_AddItemToArray J arr (tool_json J (TOOLS i)) else arr) tool_ids (CArray [])"

section \<open>Checking arguments\<close>

text \<open>A text parameter: a JSON value given for it is replaced by its text, then it must be a string, one of the choices if there are any.\<close>

definition quote_json :: "cjson_api \<Rightarrow> tc_param \<Rightarrow> cjson \<Rightarrow> cjson \<Rightarrow> cjson" where
  "quote_json J p w input =
     (if (case w of CObject _ \<Rightarrow> True | CArray _ \<Rightarrow> True | _ \<Rightarrow> False) \<and> p_choices p = None
      then (case cJSON_PrintUnformatted J w of
              Some tx \<Rightarrow> cJSON_ReplaceItemInObject J input (p_name p) (CString tx) | None \<Rightarrow> input)
      else input)"

definition check_text :: "cjson_api \<Rightarrow> tc_param \<Rightarrow> cjson \<Rightarrow> cjson \<times> bool \<times> bool" where
  "check_text J p input =
     (case cJSON_GetObjectItem J input (p_name p) of
        Some (CString s) \<Rightarrow>
          (input,
           (case p_choices p of
              Some cs \<Rightarrow> s = [] \<or> strstr (buf_set 256 ('','' @ s @ '','')) (buf_set 258 ('','' @ cs @ '','')) \<noteq> None
            | None \<Rightarrow> True), True)
      | v \<Rightarrow> (input, False, v \<noteq> None))"

text \<open>
  One parameter: the arguments afterwards, whether it is good, and whether there is a value.
  \<open>j_bool(..., -1) != -1\<close>: the default is not taken.
\<close>

definition check_param :: "cjson_api \<Rightarrow> tc_param \<Rightarrow> cjson \<Rightarrow> cjson \<times> bool \<times> bool" where
  "check_param J p input =
     (case cJSON_GetObjectItem J input (p_name p) of
        None \<Rightarrow> (input, \<not> p_required p, False)
      | Some CNull \<Rightarrow> (input, \<not> p_required p, True)
      | Some w \<Rightarrow>
          (case p_type p of
             TC_STRING \<Rightarrow> check_text J p (quote_json J p w input)
           | TC_INT \<Rightarrow> (input, j_int J input (p_name p) INT_MIN \<noteq> INT_MIN, True)
           | _ \<Rightarrow> (input, j_bool J input (p_name p) True = j_bool J input (p_name p) False, True)))"

fun check_params :: "cjson_api \<Rightarrow> tc_param list \<Rightarrow> cjson \<Rightarrow> cjson \<times> string" where
  "check_params J [] input = (input, [])"
| "check_params J (p # ps) input =
     (let (input', ok, present) = check_param J p input
      in if ok then check_params J ps input'
         else (input', buf_set 256 ((if present then ''invalid value for'' else ''missing required parameter'') @ '' '' @ [CHR 0x27] @ p_name p @ [CHR 0x27])))"

definition usage_param :: "nat \<Rightarrow> tc_param \<Rightarrow> string" where
  "usage_param j p =
     (if j \<noteq> 0 then '', '' else []) @ p_name p @ '': '' @ type_to_json_str (p_type p) @
     (case p_choices p of Some cs \<Rightarrow> '' one of '' @ cs | None \<Rightarrow> []) @ (if p_required p then '', required'' else [])"

text \<open>The second result is \<open>None\<close> (a null pointer) when the arguments are good.\<close>

definition tool_check_args :: "cjson_api \<Rightarrow> tool_id \<Rightarrow> cjson \<Rightarrow> nat \<Rightarrow> cjson \<times> string option" where
  "tool_check_args J i input sz =
     (let t = TOOLS i; (input', problem) = check_params J (t_params t) input
      in (input',
          if problem = [] then None
          else let o1 = buf_appendf sz [] (''Error: '' @ problem @ ''. Usage: '' @ t_name t @ ''('');
                   o2 = fold (\<lambda>(j, p) b. buf_appendf sz b (usage_param j p)) (enumerate 0 (t_params t)) o1
               in Some (buf_appendf sz o2 '')'')))"

section \<open>Properties\<close>

lemma tool_ids_all: "set tool_ids = UNIV"
proof -
  have "i \<in> set tool_ids" for i by (cases i) (simp_all add: tool_ids_def)
  then show ?thesis by blast
qed

lemma TOOLS_inject: "t_name (TOOLS i) = t_name (TOOLS j) \<Longrightarrow> i = j"
  by (cases i; cases j) simp_all

lemma tool_find_iff: "tool_find (Some n) = Some i \<longleftrightarrow> t_name (TOOLS i) = n"
proof
  assume "tool_find (Some n) = Some i"
  then show "t_name (TOOLS i) = n" by (auto simp: tool_find_def find_Some_iff)
next
  assume n: "t_name (TOOLS i) = n"
  have "find (\<lambda>i. t_name (TOOLS i) = n) tool_ids \<noteq> None"
    using n tool_ids_all by (auto simp: find_None_iff)
  then obtain j where j: "find (\<lambda>i. t_name (TOOLS i) = n) tool_ids = Some j" by blast
  then have "t_name (TOOLS j) = n" by (auto simp: find_Some_iff)
  with n j show "tool_find (Some n) = Some i" using TOOLS_inject by (auto simp: tool_find_def)
qed

lemma TOOLS_names_valid: "tool_name_valid (t_name (TOOLS i))"
  by (cases i) (simp_all add: tool_name_valid_def is_lower_def is_upper_def is_digit_def byte_def)

lemma fold_AddItemToArray:
  "cjson_laws J \<Longrightarrow> fold (\<lambda>x a. if P x then cJSON_AddItemToArray J a (f x) else a) xs (CArray ys) = CArray (ys @ map f (filter P xs))"
  by (induction xs arbitrary: ys) (simp_all add: cjson_obj)

lemma tools_to_json_list: "cjson_laws J \<Longrightarrow> tools_to_json J b = CArray (map (tool_json J \<circ> TOOLS) (filter (tool_listed b) tool_ids))"
  using fold_AddItemToArray [of J "tool_listed b" "\<lambda>i. tool_json J (TOOLS i)" tool_ids "[]"] by (simp add: tools_to_json_def comp_def)

lemma tool_json_name: "cjson_laws J \<Longrightarrow> j_str J (tool_json J t) ''name'' = Some (t_name t)"
  by (simp add: tool_json_def add_string_def cjson_obj j_str_object strcaseeq_def Let_def)


text \<open>A good argument, as the tool reads it afterwards.\<close>

definition arg_ok :: "cjson_api \<Rightarrow> cjson \<Rightarrow> tc_param \<Rightarrow> bool" where
  "arg_ok J input p =
     (case cJSON_GetObjectItem J input (p_name p) of
        None \<Rightarrow> \<not> p_required p
      | Some CNull \<Rightarrow> \<not> p_required p
      | Some w \<Rightarrow>
          (case p_type p of
             TC_STRING \<Rightarrow> (\<exists>s. w = CString s)
           | TC_INT \<Rightarrow> j_int J input (p_name p) INT_MIN \<noteq> INT_MIN
           | _ \<Rightarrow> j_bool J input (p_name p) True = j_bool J input (p_name p) False))"

definition same_but :: "string \<Rightarrow> (string \<times> cjson) list \<Rightarrow> (string \<times> cjson) list \<Rightarrow> bool" where
  "same_but k kvs kvs' \<longleftrightarrow> (\<forall>k'. \<not> strcaseeq k k' \<longrightarrow> lookup_ci k' kvs' = lookup_ci k' kvs)"

lemma check_param_ok:
  assumes J: "cjson_laws J" and ok: "check_param J p (CObject kvs) = (input', True, present)"
  shows "\<exists>kvs'. input' = CObject kvs' \<and> arg_ok J input' p \<and> same_but (p_name p) kvs kvs'"
proof (cases "lookup_ci (p_name p) kvs")
  case None
  with ok show ?thesis by (auto simp: check_param_def arg_ok_def same_but_def cjson_law(3) [OF J])
next
  case (Some w)
  show ?thesis
  proof (cases "w = CNull")
    case True
    with ok Some show ?thesis by (auto simp: check_param_def arg_ok_def same_but_def cjson_law(3) [OF J])
  next
    case False
    show ?thesis
    proof (cases "p_type p = TC_STRING")
      case str: True
      define i1 where "i1 = quote_json J p w (CObject kvs)"
      have "\<exists>kvs1. i1 = CObject kvs1 \<and> same_but (p_name p) kvs kvs1"
        by (auto simp: i1_def quote_json_def cjson_obj [OF J] same_but_def lookup_ci_replace split: option.split)
      then obtain kvs1 where k: "i1 = CObject kvs1" "same_but (p_name p) kvs kvs1" by blast
      have "check_param J p (CObject kvs) = check_text J p i1"
        using Some False str by (cases w) (simp_all add: check_param_def cjson_law(3) [OF J] i1_def)
      then have "\<exists>s. cJSON_GetObjectItem J i1 (p_name p) = Some (CString s) \<and> input' = i1"
        using ok by (auto simp: check_text_def split: option.splits cjson.splits)
      with k str show ?thesis by (auto simp: arg_ok_def)
    next
      case False
      with ok Some \<open>w \<noteq> CNull\<close> show ?thesis
        by (cases w; cases "p_type p") (auto simp: check_param_def arg_ok_def same_but_def cjson_law(3) [OF J])
    qed
  qed
qed

lemma arg_ok_lookup:
  assumes "cjson_laws J" "lookup_ci (p_name p) kvs' = lookup_ci (p_name p) kvs"
  shows "arg_ok J (CObject kvs') p = arg_ok J (CObject kvs) p"
  unfolding arg_ok_def j_int_def j_bool_def cjson_law(3) [OF assms(1)] assms(2) ..

definition names_apart :: "tc_param list \<Rightarrow> bool" where
  "names_apart ps \<longleftrightarrow> distinct (map (map tolower \<circ> p_name) ps)"

lemma names_apart_Cons: "names_apart (p # ps) \<longleftrightarrow> (\<forall>q \<in> set ps. \<not> strcaseeq (p_name q) (p_name p)) \<and> names_apart ps"
  by (simp add: names_apart_def strcaseeq_def image_iff) metis

lemma TOOLS_names_apart: "names_apart (t_params (TOOLS i))"
  by (cases i) (simp_all add: names_apart_def tolower_def is_upper_def byte_def)

lemma check_params_ok:
  assumes J: "cjson_laws J"
  shows "names_apart ps \<Longrightarrow> check_params J ps (CObject kvs) = (input', []) \<Longrightarrow>
     \<exists>kvs'. input' = CObject kvs' \<and> list_all (arg_ok J input') ps \<and> (\<forall>k. (\<forall>p \<in> set ps. \<not> strcaseeq (p_name p) k) \<longrightarrow> lookup_ci k kvs' = lookup_ci k kvs)"
proof (induction ps arbitrary: kvs)
  case (Cons p ps)
  obtain i1 ok pr where c: "check_param J p (CObject kvs) = (i1, ok, pr)" by (cases "check_param J p (CObject kvs)")
  have "ok" using Cons.prems(2) c by (cases ok; cases pr) (simp_all add: buf_set_def)
  then have c': "check_param J p (CObject kvs) = (i1, True, pr)" using c by simp
  obtain kvs1 where k: "i1 = CObject kvs1" "arg_ok J i1 p" "same_but (p_name p) kvs kvs1" using check_param_ok [OF J c'] by (elim exE conjE) (rule that)
  have apart: "\<forall>q \<in> set ps. \<not> strcaseeq (p_name q) (p_name p)" "names_apart ps"
    using Cons.prems(1) by (simp_all add: names_apart_Cons)
  have rest: "check_params J ps (CObject kvs1) = (input', [])" using Cons.prems(2) c' k(1) by simp
  obtain kvs' where r: "input' = CObject kvs'" "list_all (arg_ok J input') ps"
    "\<forall>k. (\<forall>p \<in> set ps. \<not> strcaseeq (p_name p) k) \<longrightarrow> lookup_ci k kvs' = lookup_ci k kvs1"
    using Cons.IH [OF apart(2) rest] by (elim exE conjE) (rule that)
  have "lookup_ci (p_name p) kvs' = lookup_ci (p_name p) kvs1" using r(3) [THEN spec, of "p_name p"] apart(1) by simp
  then have "arg_ok J input' p" using k(2) arg_ok_lookup [OF J, of p kvs' kvs1] unfolding k(1) r(1) by blast
  moreover have "\<forall>k. (\<forall>q \<in> set (p # ps). \<not> strcaseeq (p_name q) k) \<longrightarrow> lookup_ci k kvs' = lookup_ci k kvs"
  proof (intro allI impI)
    fix k assume "\<forall>q \<in> set (p # ps). \<not> strcaseeq (p_name q) k"
    then show "lookup_ci k kvs' = lookup_ci k kvs" using r(3) [THEN spec, of k] k(3) by (simp add: same_but_def)
  qed
  ultimately show ?case using r(1,2) by (intro exI [of _ kvs']) simp
qed auto

lemma starts_with_more: "starts_with p b \<Longrightarrow> starts_with p (b @ t)"
  using starts_with_split [of p b] by (metis append_assoc starts_with_append)

lemma starts_with_appendf: "starts_with p b \<Longrightarrow> starts_with p (buf_appendf sz b t)"
  by (simp add: buf_appendf_def starts_with_more)

lemma starts_with_take: "length p \<le> n \<Longrightarrow> starts_with p (take n (p @ x))"
  by (simp add: starts_with_def)

lemma fold_buf_appendf_prefix: "\<exists>t. fold (\<lambda>x b. buf_appendf sz b (f x)) xs buf = buf @ t"
proof (induction xs arbitrary: buf)
  case (Cons x xs)
  obtain t where "fold (\<lambda>x b. buf_appendf sz b (f x)) xs (buf_appendf sz buf (f x)) = buf_appendf sz buf (f x) @ t" using Cons by blast
  then show ?case by (auto simp: buf_appendf_def)
qed simp

text \<open>
  (C28) Arguments that pass the check are what the tool expects: the check either names a problem, in a text that begins with
  \<open>Error\<close>, or afterwards every required parameter of the tool has a value, every text parameter that is given is a
  string, and every number or flag has a value that can be read as one; so no tool meets a missing or mistyped argument.
\<close>

theorem tool_check_args_sound:
  assumes "cjson_laws J" "7 \<le> sz" "tool_check_args J i (CObject kvs) sz = (input', r)"
  shows "case r of Some msg \<Rightarrow> starts_with ''Error:'' msg
     | None \<Rightarrow> \<forall>p \<in> set (t_params (TOOLS i)). arg_ok J input' p"
proof -
  obtain problem where c: "check_params J (t_params (TOOLS i)) (CObject kvs) = (input', problem)"
    using assms(3) by (auto simp: tool_check_args_def Let_def split: prod.splits)
  show ?thesis
  proof (cases "problem = []")
    case True
    then have "r = None" using assms(3) c by (simp add: tool_check_args_def)
    then show ?thesis using check_params_ok [OF assms(1) TOOLS_names_apart, of i kvs input'] c True by (auto simp: list_all_iff)
  next
    case False
    let ?o1 = "buf_appendf sz [] (''Error: '' @ problem @ ''. Usage: '' @ t_name (TOOLS i) @ ''('')"
    obtain t where t: "fold (\<lambda>(j, p) b. buf_appendf sz b (usage_param j p)) (enumerate 0 (t_params (TOOLS i))) ?o1 = ?o1 @ t"
      using fold_buf_appendf_prefix [of sz "\<lambda>(j, p). usage_param j p"] by (auto simp: case_prod_unfold)
    have "r = Some (buf_appendf sz (?o1 @ t) '')'')" using assms(3) c False t by (simp add: tool_check_args_def)
    moreover have "starts_with ''Error:'' ?o1" unfolding buf_appendf_def using assms(2) starts_with_take [of "''Error:''" "sz - 1"] by simp
    ultimately show ?thesis by (simp add: starts_with_appendf starts_with_more)
  qed
qed


text \<open>Cancelling a task by an id that the model sent as a number, and with its id.\<close>

theorem tool_check_args_sound_witness:
  "\<exists>msg. tool_check_args (table_cjson []) TOOL_CANCEL_TASK (CObject [(''task_id'', CNumber 7 7)]) 256 = (CObject [(''task_id'', CNumber 7 7)], Some msg) \<and>
     starts_with ''Error:'' msg \<and>
     arg_ok (table_cjson []) (CObject [(''task_id'', CString ''7'')]) (param ''task_id'' TC_STRING ''Task ID to cancel'' True None)"
proof -
  let ?J = "table_cjson []" and ?i = "CObject [(''task_id'', CNumber 7 7)]" and ?g = "CObject [(''task_id'', CString ''7'')]"
  have J: "cjson_laws ?J" by (rule table_cjson_laws) simp_all
  obtain r where r: "tool_check_args ?J TOOL_CANCEL_TASK ?i 256 = (?i, r)" "r \<noteq> None"
    by (simp add: tool_check_args_def check_param_def check_text_def quote_json_def table_cjson_def buf_set_def Let_def)
  have g: "tool_check_args ?J TOOL_CANCEL_TASK ?g 256 = (?g, None)"
    by (simp add: tool_check_args_def check_param_def check_text_def quote_json_def table_cjson_def)
  show ?thesis using tool_check_args_sound [OF J _ r(1)] tool_check_args_sound [OF J _ g] r by auto
qed

text \<open>
  What an agent is offered: a builder gets exactly the tools to look around, to run commands, to make plugins and to answer;
  every other agent gets all tools but the one that makes plugins.
\<close>

lemma tools_offered_by_role:
  assumes "cjson_laws J"
  shows "tools_to_json J b = CArray ts \<Longrightarrow> map (\<lambda>t. j_str J t ''name'') ts =
     map (\<lambda>i. Some (t_name (TOOLS i)))
       (if b then [TOOL_EXEC, TOOL_READ_FILE, TOOL_SEND_MESSAGE, TOOL_CREATE_PLUGIN] else filter (\<lambda>i. i \<noteq> TOOL_CREATE_PLUGIN) tool_ids)"
proof -
  assume "tools_to_json J b = CArray ts"
  then have "ts = map (tool_json J \<circ> TOOLS) (filter (tool_listed b) tool_ids)" using tools_to_json_list [OF assms] by simp
  then show ?thesis by (simp add: tool_json_name [OF assms] tool_listed_def tool_ids_def)
qed

text \<open>The check of a choice looks for a part of the list: two neighbouring choices with the comma between them pass.\<close>

lemma joined_choices_pass:
  assumes "cjson_laws J"
  shows "snd (tool_check_args J TOOL_CLEAR_MEMORY (CObject [(''agent'', CString ''all''), (''what'', CString ''memory,facts'')]) 256) = None"
  using assms by (simp add: tool_check_args_def check_param_def check_text_def quote_json_def cjson_obj strcaseeq_def tolower_def is_upper_def byte_def Let_def starts_with_def)

end
