(* ===== verification/Tool_Exec.thy ===== *)
theory Tool_Exec
  imports Util
begin

text \<open>
  \<open>src/tool_exec.c\<close>: collecting the output of a child process up to a limit and a deadline, and
  running a shell command. The kernel is an environment: the clock read at the start of every
  round of the two loops, what \<open>poll\<close> and \<open>read\<close> do in that round, what \<open>waitpid\<close> reports, the
  bytes the child writes, and whether the blocking \<open>waitpid\<close> that follows \<open>SIGKILL\<close> returns. Fork,
  exec and the child's side are kernel interaction.

  The loops are partial functions: \<open>None\<close> is a loop that never ends. The lemmas show in which round
  each of them ends, at the latest when the clock reaches the deadline, that what is kept is the
  first \<open>cap\<close> of the bytes read and the rest is counted, which status is reported, and that the notes
  appended to the output are never cut.
\<close>

section \<open>Collecting output\<close>

datatype read_event = PollError | PollNothing | ReadIntr | ReadEnd | ReadUpTo nat

datatype child_status = TimedOut | Exited nat | Signaled nat

datatype wait_event = Reaped child_status | WaitError | StillRunning

record child_env =
  ce_clock :: "nat \<Rightarrow> int"
  ce_read :: "nat \<Rightarrow> read_event"
  ce_wait :: "nat \<Rightarrow> wait_event"
  ce_reaped :: bool

text \<open>
  One round per index: the clock is read first. \<open>stream\<close> is what the child has still to say;
  \<open>read\<close> returns at least one byte of it, and 0 at its end. Result: text kept, bytes dropped,
  bytes not read, whether the deadline passed, and the next index.
\<close>

partial_function (option) read_loop ::
  "child_env \<Rightarrow> int \<Rightarrow> nat \<Rightarrow> nat \<Rightarrow> string \<Rightarrow> string \<Rightarrow> nat \<Rightarrow> (string \<times> nat \<times> string \<times> bool \<times> nat) option" where
  "read_loop e deadline cap i stream out dropped =
     (if deadline - ce_clock e i \<le> 0 then Some (out, dropped, stream, True, Suc i)
      else case ce_read e i of
             PollError \<Rightarrow> Some (out, dropped, stream, False, Suc i)
           | PollNothing \<Rightarrow> read_loop e deadline cap (Suc i) stream out dropped
           | ReadIntr \<Rightarrow> read_loop e deadline cap (Suc i) stream out dropped
           | ReadEnd \<Rightarrow> Some (out, dropped, stream, False, Suc i)
           | ReadUpTo k \<Rightarrow>
               let room = (if length out < cap then cap - length out else 4096);
                   n = min (min room (Suc k)) (length stream)
               in if n = 0 then Some (out, dropped, stream, False, Suc i)
                  else if length out < cap
                  then read_loop e deadline cap (Suc i) (drop n stream) (out @ take n stream) dropped
                  else read_loop e deadline cap (Suc i) (drop n stream) out (dropped + n))"

partial_function (option) wait_loop :: "child_env \<Rightarrow> int \<Rightarrow> nat \<Rightarrow> child_status option" where
  "wait_loop e deadline i =
     (case ce_wait e i of
        Reaped status \<Rightarrow> Some status
      | WaitError \<Rightarrow> Some (Exited 0)
      | StillRunning \<Rightarrow> if ce_clock e i \<ge> deadline then Some TimedOut else wait_loop e deadline (Suc i))"

text \<open>
  After a timeout the group and the child are killed and the child is waited for; what it reports
  then is not used. \<open>ce_reaped\<close>: that wait returns.
\<close>

definition child_collect :: "child_env \<Rightarrow> int \<Rightarrow> nat \<Rightarrow> string \<Rightarrow> (string \<times> nat \<times> child_status) option" where
  "child_collect e timeout_s cap stream =
     (let deadline = ce_clock e 0 + timeout_s * 1000
      in case read_loop e deadline cap 1 stream [] 0 of
           None \<Rightarrow> None
         | Some (out, dropped, rest, timed_out, i) \<Rightarrow>
             (case (if timed_out then Some TimedOut else wait_loop e deadline i) of
                None \<Rightarrow> None
              | Some status \<Rightarrow> if status = TimedOut \<and> \<not> ce_reaped e then None else Some (out, dropped, status)))"

section \<open>Running a command\<close>

datatype spawn_env = PipeFails | ForkFails | Spawned child_env string

definition status_notes :: "int \<Rightarrow> nat \<Rightarrow> child_status \<Rightarrow> string" where
  "status_notes timeout dropped status =
     (if dropped > 0 then LF # ''[output truncated: '' @ dec_nat dropped @ '' more bytes]'' else []) @
     (case status of
        TimedOut \<Rightarrow> LF # ''[TIMEOUT after '' @ dec_int timeout @ ''s]''
      | Exited code \<Rightarrow> if code \<noteq> 0 then LF # ''[exit '' @ dec_nat code @ '']'' else []
      | Signaled sig \<Rightarrow> LF # ''[killed by signal '' @ dec_nat sig @ '']'')"

definition exec_timeout :: "int \<Rightarrow> int" where
  "exec_timeout timeout = (let t = (if timeout \<le> 0 then 30 else timeout) in if t > 3600 then 3600 else t)"

definition exec_cap :: "nat \<Rightarrow> nat" where
  "exec_cap out_sz = (if out_sz - 128 > 10240 then 10240 else out_sz - 128)"

text \<open>The bytes of \<open>out\<close> after the child has been collected, with the notes of \<open>tool_exec_cmd\<close>.\<close>

definition exec_result :: "nat \<Rightarrow> int \<Rightarrow> string \<times> nat \<times> child_status \<Rightarrow> string" where
  "exec_result out_sz timeout = (\<lambda>(out, dropped, status).
     (let o1 = (if dropped > 0 then buf_appendf out_sz out (LF # ''[output truncated: '' @ dec_nat dropped @ '' more bytes]'') else out);
          o2 = (case status of
                  TimedOut \<Rightarrow> buf_appendf out_sz o1 (LF # ''[TIMEOUT after '' @ dec_int timeout @ ''s]'')
                | Exited code \<Rightarrow> if code \<noteq> 0 then buf_appendf out_sz o1 (LF # ''[exit '' @ dec_nat code @ '']'') else o1
                | Signaled sig \<Rightarrow> buf_appendf out_sz o1 (LF # ''[killed by signal '' @ dec_nat sig @ '']''))
      in if o2 = [] then buf_appendf out_sz [] ''[empty output]'' else o2))"

definition tool_exec_cmd :: "spawn_env \<Rightarrow> string option \<Rightarrow> int \<Rightarrow> nat \<Rightarrow> string option" where
  "tool_exec_cmd env cmd timeout out_sz =
     (if out_sz < 256 then Some []
      else if \<not> given cmd then Some (buf_set out_sz ''Error: empty command'')
      else case env of
             PipeFails \<Rightarrow> Some (buf_set out_sz ''Error: pipe() failed'')
           | ForkFails \<Rightarrow> Some (buf_set out_sz ''Error: fork() failed'')
           | Spawned e stream \<Rightarrow>
               map_option (exec_result out_sz (exec_timeout timeout)) (child_collect e (exec_timeout timeout) (exec_cap out_sz) stream))"

section \<open>Where the loops end\<close>

text \<open>
  How many bytes the rounds before round \<open>i\<close> have read of a stream of \<open>l\<close> bytes: every read that
  succeeds takes at least one byte, and no more than the room it is given.
\<close>

fun taken :: "child_env \<Rightarrow> nat \<Rightarrow> nat \<Rightarrow> nat \<Rightarrow> nat" where
  "taken e cap l 0 = 0"
| "taken e cap l (Suc i) =
     (if i = 0 then 0
      else let r = taken e cap l i
           in case ce_read e i of
                ReadUpTo k \<Rightarrow> r + min (min (if r < cap then cap - r else 4096) (Suc k)) (l - r)
              | _ \<Rightarrow> r)"

text \<open>Reading is over in a round: the deadline has passed, \<open>poll\<close> or \<open>read\<close> failed, or there is nothing left to read.\<close>

definition reading_over :: "child_env \<Rightarrow> int \<Rightarrow> nat \<Rightarrow> nat \<Rightarrow> nat \<Rightarrow> bool" where
  "reading_over e deadline cap l i \<longleftrightarrow> deadline \<le> ce_clock e i \<or>
     (case ce_read e i of PollError \<Rightarrow> True | ReadEnd \<Rightarrow> True | ReadUpTo k \<Rightarrow> taken e cap l i = l | _ \<Rightarrow> False)"

definition waiting_over :: "child_env \<Rightarrow> int \<Rightarrow> nat \<Rightarrow> bool" where
  "waiting_over e deadline j \<longleftrightarrow> deadline \<le> ce_clock e j \<or> ce_wait e j \<noteq> StillRunning"

text \<open>The first round from \<open>i\<close> on in which something holds.\<close>

definition first_from :: "nat \<Rightarrow> (nat \<Rightarrow> bool) \<Rightarrow> nat \<Rightarrow> bool" where
  "first_from i P n \<longleftrightarrow> i \<le> n \<and> P n \<and> (\<forall>k. i \<le> k \<and> k < n \<longrightarrow> \<not> P k)"

lemma first_from_exists: "i \<le> m \<Longrightarrow> P m \<Longrightarrow> \<exists>n. first_from i P n"
  unfolding first_from_def
  by (rule exI [of _ "LEAST n. i \<le> n \<and> P n"]) (use LeastI [of "\<lambda>n. i \<le> n \<and> P n" m] not_less_Least in blast)

lemma first_from_step: "first_from i P n \<Longrightarrow> (P i \<and> n = i) \<or> (\<not> P i \<and> first_from (Suc i) P n)"
  unfolding first_from_def by (metis Suc_leI le_neq_implies_less not_less order_refl Suc_leD)

lemma taken_le: "taken e cap l i \<le> l"
  by (induction e cap l i rule: taken.induct) (auto simp: Let_def split: read_event.split)

lemma read_loop_take:
  assumes "ce_clock e i < deadline" "ce_read e i = ReadUpTo k" "0 < n"
    "n = min (min (if length out < cap then cap - length out else 4096) (Suc k)) (length stream)"
  shows "read_loop e deadline cap i stream out dropped =
    (if length out < cap then read_loop e deadline cap (Suc i) (drop n stream) (out @ take n stream) dropped
     else read_loop e deadline cap (Suc i) (drop n stream) out (dropped + n))"
  using assms(1,3) unfolding read_loop.simps [of e deadline cap i stream] assms(2) read_event.case Let_def assms(4) [symmetric] by simp

text \<open>Of the bytes read, the first \<open>cap\<close> are kept and the others counted.\<close>

lemma read_loop_first:
  assumes "first_from i (reading_over e deadline cap (length s)) n" "1 \<le> i"
  shows "read_loop e deadline cap i (drop (taken e cap (length s) i) s) (take cap (take (taken e cap (length s) i) s))
      (taken e cap (length s) i - cap) =
    Some (take cap (take (taken e cap (length s) n) s), taken e cap (length s) n - cap, drop (taken e cap (length s) n) s,
      deadline \<le> ce_clock e n, Suc n)"
  using assms
proof (induction "n - i" arbitrary: i)
  case 0
  then have "n = i" "reading_over e deadline cap (length s) i" by (auto simp: first_from_def)
  then show ?case by (subst read_loop.simps) (auto simp: reading_over_def Let_def split: read_event.splits)
next
  case (Suc d)
  then have n: "\<not> reading_over e deadline cap (length s) i" "first_from (Suc i) (reading_over e deadline cap (length s)) n" "d = n - Suc i"
    using first_from_step [OF Suc.prems(1)] by auto
  let ?r = "taken e cap (length s) i"
  have i: "i \<noteq> 0" and r: "?r \<le> length s" using Suc.prems(2) taken_le by auto
  note IH = Suc.hyps(1) [OF n(3,2)]
  show ?case
  proof (cases "ce_read e i")
    case (ReadUpTo k)
    define m where "m = min (min (if ?r < cap then cap - ?r else 4096) (Suc k)) (length s - ?r)"
    have m: "taken e cap (length s) (Suc i) = ?r + m" "0 < m" "m \<le> length s - ?r" "?r < cap \<longrightarrow> m \<le> cap - ?r"
      using n(1) r i by (auto simp: m_def ReadUpTo reading_over_def Let_def)
    have l: "length (take cap (take ?r s)) = min cap ?r" "length (drop ?r s) = length s - ?r" using r by simp_all
    have d: "ce_clock e i < deadline" using n(1) by (simp add: reading_over_def)
    have "m = min (min (if length (take cap (take ?r s)) < cap then cap - length (take cap (take ?r s)) else 4096) (Suc k)) (length (drop ?r s))"
      unfolding l m_def by (simp add: min_def)
    note step = read_loop_take [OF d ReadUpTo m(2) this, of "?r - cap"]
    have "read_loop e deadline cap i (drop ?r s) (take cap (take ?r s)) (?r - cap) =
        read_loop e deadline cap (Suc i) (drop (?r + m) s) (take cap (take (?r + m) s)) (?r + m - cap)"
    proof (cases "?r < cap")
      case True
      then have c: "?r + m \<le> cap" using m(4) by linarith
      then have "take cap (take (?r + m) s) = take (?r + m) s" "take cap (take ?r s) = take ?r s" using True by simp_all
      moreover have "drop m (drop ?r s) = drop (?r + m) s" by (simp add: add.commute)
      ultimately show ?thesis using True c unfolding step l by (simp add: take_add)
    next
      case False
      then have "take cap (take (?r + m) s) = take cap (take ?r s)" by simp
      with False show ?thesis unfolding step l by (simp add: add.commute)
    qed
    then show ?thesis using IH m(1) by simp
  qed (use n(1) i IH in \<open>subst read_loop.simps, simp add: reading_over_def Let_def\<close>)+
qed

definition wait_result :: "child_env \<Rightarrow> nat \<Rightarrow> child_status" where
  "wait_result e j = (case ce_wait e j of Reaped status \<Rightarrow> status | WaitError \<Rightarrow> Exited 0 | StillRunning \<Rightarrow> TimedOut)"

lemma wait_loop_first: "first_from i (waiting_over e deadline) j \<Longrightarrow> wait_loop e deadline i = Some (wait_result e j)"
proof (induction "j - i" arbitrary: i)
  case 0
  then have "j = i" "waiting_over e deadline i" by (auto simp: first_from_def)
  then show ?case by (subst wait_loop.simps) (auto simp: waiting_over_def wait_result_def split: wait_event.splits)
next
  case (Suc d)
  then have n: "\<not> waiting_over e deadline i" "first_from (Suc i) (waiting_over e deadline) j" "d = j - Suc i"
    using first_from_step [OF Suc.prems] by auto
  then show ?case using Suc.hyps(1) by (subst wait_loop.simps) (auto simp: waiting_over_def)
qed

section \<open>The answer\<close>

definition status_ok :: "child_status \<Rightarrow> bool" where
  "status_ok st = (case st of TimedOut \<Rightarrow> True | Exited c \<Rightarrow> c < 256 | Signaled s \<Rightarrow> s < 128)"

lemma length_dec_small: "n < 1000 \<Longrightarrow> length (dec_nat n) \<le> 3"
  using length_dec_nat [of n 3] by simp

lemma length_status_notes:
  assumes "dropped < 2 ^ 64" "status_ok status" "0 \<le> timeout" "timeout \<le> 3600"
  shows "length (status_notes timeout dropped status) < 128"
proof -
  have "dropped < 10 ^ 20" using assms(1) by (rule less_trans) simp
  then have d: "length (dec_nat dropped) \<le> 20" by (rule length_dec_nat) simp
  have "nat timeout < 10 ^ 4" using assms(4) by simp
  then have t: "length (dec_int timeout) \<le> 4"
    using length_dec_nat [of "nat timeout" 4] assms(3) by (simp add: dec_int_def)
  have "length (case status of TimedOut \<Rightarrow> LF # ''[TIMEOUT after '' @ dec_int timeout @ ''s]''
      | Exited code \<Rightarrow> if code \<noteq> 0 then LF # ''[exit '' @ dec_nat code @ '']'' else []
      | Signaled sig \<Rightarrow> LF # ''[killed by signal '' @ dec_nat sig @ '']'') \<le> 23"
    using t length_dec_small assms(2) by (cases status) (auto simp: status_ok_def intro: order_trans [OF length_dec_small])
  then show ?thesis using d by (simp add: status_notes_def)
qed

lemma buf_appendf_fits: "length out + length s < sz \<Longrightarrow> buf_appendf sz out s = out @ s"
  by (simp add: buf_appendf_take)

lemma exec_result_text:
  assumes "length out + length (status_notes timeout dropped status) < sz" "15 \<le> sz"
  shows "exec_result sz timeout (out, dropped, status) =
     (let s = out @ status_notes timeout dropped status in if s = [] then ''[empty output]'' else s)"
  using assms by (cases status) (auto simp: exec_result_def status_notes_def buf_appendf_fits Let_def)

lemma exec_timeout_range: "1 \<le> exec_timeout t \<and> exec_timeout t \<le> 3600"
  by (auto simp: exec_timeout_def Let_def)

lemma wait_result_ok: "\<forall>i s. ce_wait e i = Reaped s \<longrightarrow> status_ok s \<Longrightarrow> status_ok (wait_result e j)"
  by (auto simp: wait_result_def status_ok_def split: wait_event.split)

text \<open>
  What collecting gives: reading ends in round \<open>i\<close> and, when the deadline had not passed, waiting
  for the child in round \<open>j\<close>.
\<close>

definition collected :: "child_env \<Rightarrow> int \<Rightarrow> nat \<Rightarrow> string \<Rightarrow> nat \<Rightarrow> child_status \<Rightarrow> bool" where
  "collected e timeout cap stream rd status \<longleftrightarrow>
     (let deadline = ce_clock e 0 + timeout * 1000
      in \<exists>i. first_from 1 (reading_over e deadline cap (length stream)) i \<and> rd = taken e cap (length stream) i \<and>
           (if deadline \<le> ce_clock e i then status = TimedOut
            else \<exists>j. first_from (Suc i) (waiting_over e deadline) j \<and> status = wait_result e j))"

lemma child_collect_first:
  assumes "mono (ce_clock e)" "ce_clock e 0 + timeout * 1000 \<le> ce_clock e n" "\<forall>i s. ce_wait e i = Reaped s \<longrightarrow> status_ok s" "ce_reaped e"
  obtains rd status where "collected e timeout cap stream rd status" "rd \<le> length stream" "status_ok status"
    "child_collect e timeout cap stream = Some (take cap (take rd stream), rd - cap, status)"
proof -
  define D where "D = ce_clock e 0 + timeout * 1000"
  have late: "D \<le> ce_clock e (max i n)" for i
    using assms(1,2) unfolding D_def by (meson max.cobounded2 monoD order_trans)
  obtain i where i: "first_from 1 (reading_over e D cap (length stream)) i"
    using first_from_exists [of 1 "max 1 n" "reading_over e D cap (length stream)"] late [of 1] by (auto simp: reading_over_def)
  obtain j where j: "first_from (Suc i) (waiting_over e D) j"
    using first_from_exists [of "Suc i" "max (Suc i) n" "waiting_over e D"] late [of "Suc i"] by (auto simp: waiting_over_def)
  define rd where "rd = taken e cap (length stream) i"
  define st where "st = (if D \<le> ce_clock e i then TimedOut else wait_result e j)"
  have r: "read_loop e D cap 1 stream [] 0 = Some (take cap (take rd stream), rd - cap, drop rd stream, D \<le> ce_clock e i, Suc i)"
    using read_loop_first [OF i] by (simp add: rd_def)
  show ?thesis
  proof (rule that)
    show "collected e timeout cap stream rd st"
      unfolding collected_def Let_def D_def [symmetric] using i j by (auto simp: rd_def st_def)
    show "rd \<le> length stream" by (simp add: rd_def taken_le)
    show "status_ok st" using wait_result_ok [OF assms(3)] by (simp add: st_def status_ok_def)
    show "child_collect e timeout cap stream = Some (take cap (take rd stream), rd - cap, st)"
      unfolding child_collect_def Let_def D_def [symmetric] r using wait_loop_first [OF j] assms(4) by (simp add: st_def)
  qed
qed

lemma child_collect_result:
  assumes "mono (ce_clock e)" "ce_clock e 0 + timeout * 1000 \<le> ce_clock e n" "\<forall>i s. ce_wait e i = Reaped s \<longrightarrow> status_ok s" "ce_reaped e"
  obtains rd rest status where "stream = rd @ rest" "status_ok status"
    "child_collect e timeout cap stream = Some (take cap rd, length rd - cap, status)"
proof (rule child_collect_first [OF assms, of cap stream])
  fix rd status
  assume "rd \<le> length stream" "status_ok status" "child_collect e timeout cap stream = Some (take cap (take rd stream), rd - cap, status)"
  then show thesis by (intro that [of "take rd stream" "drop rd stream" status]) simp_all
qed

section \<open>Properties\<close>

text \<open>A child that says something and exits with status 3.\<close>

definition quick_env :: child_env where
  "quick_env = \<lparr>ce_clock = (\<lambda>i. 1000 * int i), ce_read = (\<lambda>i. ReadUpTo 9), ce_wait = (\<lambda>i. Reaped (Exited 3)), ce_reaped = True\<rparr>"

lemma tool_exec_cmd_text:
  assumes "mono (ce_clock e)" "ce_clock e 0 + exec_timeout timeout * 1000 \<le> ce_clock e n"
    "\<forall>i s. ce_wait e i = Reaped s \<longrightarrow> status_ok s" "ce_reaped e" "256 \<le> sz" "given cmd" "length stream < 2 ^ 64"
  shows "\<exists>rd status text. collected e (exec_timeout timeout) (exec_cap sz) stream rd status \<and>
     text = take (exec_cap sz) (take rd stream) @ status_notes (exec_timeout timeout) (rd - exec_cap sz) status \<and>
     tool_exec_cmd (Spawned e stream) cmd timeout sz = Some (if text = [] then ''[empty output]'' else text) \<and> length text < sz"
proof -
  obtain rd status where r: "collected e (exec_timeout timeout) (exec_cap sz) stream rd status" "rd \<le> length stream" "status_ok status"
    "child_collect e (exec_timeout timeout) (exec_cap sz) stream = Some (take (exec_cap sz) (take rd stream), rd - exec_cap sz, status)"
    using child_collect_first [OF assms(1-4), of "exec_cap sz" stream] by metis
  let ?notes = "status_notes (exec_timeout timeout) (rd - exec_cap sz) status" and ?out = "take (exec_cap sz) (take rd stream)"
  have "rd - exec_cap sz < 2 ^ 64" using assms(7) r(2) by (simp add: less_imp_diff_less)
  then have "length ?notes < 128" using r(3) exec_timeout_range [of timeout] by (intro length_status_notes) auto
  moreover have "length ?out \<le> sz - 128" by (auto simp: exec_cap_def min_def)
  ultimately have len: "length ?out + length ?notes < sz" using assms(5) by linarith
  have "tool_exec_cmd (Spawned e stream) cmd timeout sz = Some (exec_result sz (exec_timeout timeout) (?out, rd - exec_cap sz, status))"
    using r(4) assms(5,6) by (simp add: tool_exec_cmd_def)
  also have "\<dots> = Some (let s = ?out @ ?notes in if s = [] then ''[empty output]'' else s)"
    using exec_result_text [OF len] assms(5) by simp
  finally show ?thesis
    using r(1) len by (intro exI [of _ rd] exI [of _ status] exI [of _ "?out @ ?notes"] conjI refl) (auto simp: Let_def)
qed

text \<open>
  (C35) Running a command always returns, whatever the child does, and says what happened. Reading
  ends in the first round \<open>i\<close> in which the deadline has passed, reading failed or there is nothing
  left to read; waiting for the child ends in the first round \<open>j\<close> after it in which the deadline has
  passed or \<open>waitpid\<close> reports. The answer is what was read in the rounds before \<open>i\<close>, up to the
  limit, followed by whole notes, all within the buffer: on the bytes beyond the limit, and on the
  timeout exactly when the deadline ended one of the loops, otherwise on the exit status or the
  signal that \<open>waitpid\<close> reported. A killed child is assumed to be reaped.
\<close>

theorem tool_exec_cmd_returns:
  assumes "mono (ce_clock e)" "ce_clock e 0 + exec_timeout timeout * 1000 \<le> ce_clock e n"
    "\<forall>i s. ce_wait e i = Reaped s \<longrightarrow> status_ok s" "ce_reaped e" "256 \<le> sz" "given cmd" "length stream < 2 ^ 64"
  shows "\<exists>i j. let deadline = ce_clock e 0 + exec_timeout timeout * 1000; cap = exec_cap sz; rd = taken e cap (length stream) i;
       status = (if deadline \<le> ce_clock e i then TimedOut
                 else case ce_wait e j of Reaped s \<Rightarrow> s | WaitError \<Rightarrow> Exited 0 | StillRunning \<Rightarrow> TimedOut);
       ans = take cap (take rd stream) @ status_notes (exec_timeout timeout) (rd - cap) status
     in first_from 1 (reading_over e deadline cap (length stream)) i \<and>
        (ce_clock e i < deadline \<longrightarrow> first_from (Suc i) (waiting_over e deadline) j) \<and>
        tool_exec_cmd (Spawned e stream) cmd timeout sz = Some (if ans = [] then ''[empty output]'' else ans) \<and> length ans < sz"
proof -
  define D where "D = ce_clock e 0 + exec_timeout timeout * 1000"
  obtain rd status ans where t: "collected e (exec_timeout timeout) (exec_cap sz) stream rd status"
    "ans = take (exec_cap sz) (take rd stream) @ status_notes (exec_timeout timeout) (rd - exec_cap sz) status"
    "tool_exec_cmd (Spawned e stream) cmd timeout sz = Some (if ans = [] then ''[empty output]'' else ans)" "length ans < sz"
    using tool_exec_cmd_text [OF assms] by metis
  then obtain i where i: "first_from 1 (reading_over e D (exec_cap sz) (length stream)) i" "rd = taken e (exec_cap sz) (length stream) i"
    "if D \<le> ce_clock e i then status = TimedOut else \<exists>j. first_from (Suc i) (waiting_over e D) j \<and> status = wait_result e j"
    unfolding collected_def Let_def D_def by blast
  then obtain j where j: "ce_clock e i < D \<longrightarrow> first_from (Suc i) (waiting_over e D) j" and
    s: "status = (if D \<le> ce_clock e i then TimedOut else case ce_wait e j of Reaped s \<Rightarrow> s | WaitError \<Rightarrow> Exited 0 | StillRunning \<Rightarrow> TimedOut)"
    unfolding wait_result_def by (cases "D \<le> ce_clock e i") auto
  note eq = t(2) [unfolded s i(2)]
  show ?thesis
    unfolding Let_def D_def [symmetric]
    by (intro exI [of _ i] exI [of _ j] conjI; (rule i(1) | rule j | rule t(3) [unfolded eq] | rule t(4) [unfolded eq]))
qed

theorem tool_exec_cmd_returns_witness:
  "tool_exec_cmd (Spawned quick_env ''hello'') (Some ''echo'') 30 256 = Some (''hello'' @ LF # ''[exit 3]'')"
proof -
  have h: "mono (ce_clock quick_env)" "ce_clock quick_env 0 + exec_timeout 30 * 1000 \<le> ce_clock quick_env 31"
    "\<forall>i s. ce_wait quick_env i = Reaped s \<longrightarrow> status_ok s" "ce_reaped quick_env"
    by (simp_all add: quick_env_def mono_def exec_timeout_def status_ok_def)
  have c: "exec_timeout 30 = 30" "ce_clock quick_env 0 + 30 * 1000 = 30000" "exec_cap 256 = 128" "length ''hello'' = 5"
    by (simp_all add: quick_env_def exec_timeout_def exec_cap_def)
  have w: "ce_wait quick_env j = Reaped (Exited 3)" for j by (simp add: quick_env_def)
  have "given (Some ''echo'')" "length ''hello'' < 2 ^ 64" by (simp_all add: given_def)
  from tool_exec_cmd_returns [OF h, of 256 "Some ''echo''" "''hello''", OF order_refl this, unfolded Let_def c w wait_event.case]
  obtain i where i: "first_from 1 (reading_over quick_env 30000 128 5) i" and
    t: "tool_exec_cmd (Spawned quick_env ''hello'') (Some ''echo'') 30 256 =
      Some (if take 128 (take (taken quick_env 128 5 i) ''hello'') @
              status_notes 30 (taken quick_env 128 5 i - 128) (if 30000 \<le> ce_clock quick_env i then TimedOut else Exited 3) = []
            then ''[empty output]''
            else take 128 (take (taken quick_env 128 5 i) ''hello'') @
              status_notes 30 (taken quick_env 128 5 i - 128) (if 30000 \<le> ce_clock quick_env i then TimedOut else Exited 3))"
    by (elim exE conjE)
  have tk: "taken quick_env 128 5 1 = 0" "taken quick_env 128 5 2 = 5" by (simp_all add: quick_env_def numeral_2_eq_2)
  have "\<not> reading_over quick_env 30000 128 5 1" "reading_over quick_env 30000 128 5 2"
    using tk by (simp_all add: reading_over_def quick_env_def)
  with i have "i = 2" unfolding first_from_def by (metis Suc_1 Suc_leI le_neq_implies_less not_less one_le_numeral)
  moreover have "dec_nat 3 = ''3''" by code_simp
  ultimately show ?thesis using t tk by (simp add: quick_env_def status_notes_def)
qed

end
