(* ===== verification/Plugin.thy ===== *)
theory Plugin
  imports Tool_Table Tool_Exec "HOL-Library.Monad_Syntax"
begin

text \<open>
  The plugins, \<open>src/plugin.c\<close> in its build with plugins: the registry, compiling and loading a plugin, scanning the
  directory, the schemas given to the model, and running a plugin in a child. TinyCC is a parameter: what compiling reports,
  and which symbols the result has. A plugin's function is an address. The compiler's and the plugin's child processes are
  environment, as in \<open>Tool_Exec\<close>; \<open>None\<close> in an outer option is a wait that never ends.

  The lemmas show the invariant of the registry, that a failed compilation leaves the loaded plugins alone, that
  scanning forgets exactly the plugins whose file is gone, and that the schemas come in the order of their names.
\<close>

section \<open>The registry\<close>

record plugin_entry =
  pl_name :: string
  pl_schema :: cjson
  pl_fn :: nat
  pl_mtime :: int
  pl_src :: string

record plugin_registry =
  pr_dir :: string
  pr_plugins :: "plugin_entry list"
  pr_failed :: "(string \<times> int) list"

definition is_known_failure :: "plugin_registry \<Rightarrow> string \<Rightarrow> int \<Rightarrow> bool" where
  "is_known_failure r src mtime \<longleftrightarrow> (\<exists>f \<in> set (pr_failed r). snd f = mtime \<and> fst f = src)"

text \<open>A full list starts again from its beginning; the entries behind are no longer looked at.\<close>

definition record_failure :: "plugin_registry \<Rightarrow> string \<Rightarrow> int \<Rightarrow> plugin_registry" where
  "record_failure r src mtime =
     r\<lparr>pr_failed := (if length (pr_failed r) \<ge> 32 then [] else pr_failed r) @ [(buf_set 4096 src, mtime)]\<rparr>"

section \<open>Compiling\<close>

text \<open>What the compiler reports: its messages, whether compiling and relocating worked, and the symbols.\<close>

record tcc_result =
  tr_msgs :: "string list"
  tr_ok :: bool
  tr_name :: "string option option"
  tr_exec :: "nat option"
  tr_desc :: "string option"
  tr_schema :: "string option"

text \<open>The messages given to \<open>diag\<close>, and the name, function, description and schema of the plugin.\<close>

definition build :: "tcc_result \<Rightarrow> string list \<times> (string \<times> nat \<times> string option \<times> string option) option" where
  "build t =
     (if \<not> tr_ok t then (tr_msgs t, None)
      else case (tr_name t, tr_exec t) of
             (Some pname, Some fn) \<Rightarrow>
               (case pname of
                  None \<Rightarrow> (tr_msgs t @ [''TC_PLUGIN_NAME must match [A-Za-z0-9_-]{1,64}''], None)
                | Some name \<Rightarrow>
                    if \<not> tool_name_valid name then (tr_msgs t @ [''TC_PLUGIN_NAME must match [A-Za-z0-9_-]{1,64}''], None)
                    else if tool_find (Some name) \<noteq> None then (tr_msgs t @ [''TC_PLUGIN_NAME is already a built-in tool name''], None)
                    else if (case tr_desc t of Some s \<Rightarrow> length s > 1024 | None \<Rightarrow> False) \<or> (case tr_schema t of Some s \<Rightarrow> length s > 16384 | None \<Rightarrow> False)
                    then (tr_msgs t @ [''TC_PLUGIN_DESC or TC_PLUGIN_SCHEMA is too long''], None)
                    else (tr_msgs t, Some (name, fn, tr_desc t, tr_schema t)))
           | _ \<Rightarrow> (tr_msgs t @ [''missing TC_PLUGIN_NAME or tc_execute''], None))"

text \<open>A message to the buffer, and what the checking child writes to its pipe and exits with.\<close>

definition diag :: "nat \<Rightarrow> string \<Rightarrow> string \<Rightarrow> string" where
  "diag sz msg buf = (if length buf + 1 < sz then buf_appendf sz buf ((if buf \<noteq> [] then [LF] else []) @ msg) else buf)"

definition check_child :: "tcc_result option \<Rightarrow> string \<times> nat" where
  "check_child t =
     (case t of
        None \<Rightarrow> ([], 1)
      | Some t' \<Rightarrow> (concat (map (\<lambda>m. m @ [LF]) (fst (build t'))), if snd (build t') \<noteq> None then 0 else 1))"

definition strip_newlines :: "string \<Rightarrow> string" where
  "strip_newlines s = rev (dropWhile (\<lambda>c. c = LF) (rev s))"

definition compile_check :: "spawn_env \<Rightarrow> nat \<Rightarrow> (string \<times> int) option" where
  "compile_check env sz =
     (case env of
        PipeFails \<Rightarrow> Some (buf_set sz ''pipe() failed'', -1)
      | ForkFails \<Rightarrow> Some (buf_set sz ''fork() failed'', -1)
      | Spawned e stream \<Rightarrow>
          do { (out, dropped, st) \<leftarrow> child_collect e 30 (sz - 1) stream;
               let err = strip_newlines out;
               Some (case st of
                       TimedOut \<Rightarrow> (buf_set sz ''compiler timed out'', -1)
                     | Signaled n \<Rightarrow> (buf_appendf sz err ((if err \<noteq> [] then [LF] else []) @ ''compiler crashed (signal '' @ dec_nat n @ '')''), -1)
                     | Exited code \<Rightarrow> if code \<noteq> 0 then (if err = [] then buf_set sz ''compilation failed'' else err, -1) else (err, 0)) })"

text \<open>The description of a plugin for the model: an object schema with properties, whatever the plugin says.\<close>

definition plugin_schema :: "cjson_api \<Rightarrow> string \<Rightarrow> string option \<Rightarrow> string option \<Rightarrow> cjson" where
  "plugin_schema J name desc schema =
     (let o1 = add_string J ''description'' (if given desc then the desc else ''Plugin tool'') (add_string J ''name'' name (CObject []));
          parsed = (if given schema then cJSON_Parse J (the schema) else None);
          s0 = (case parsed of Some (CObject kvs) \<Rightarrow> CObject kvs | _ \<Rightarrow> CObject []);
          s1 = (if cJSON_GetObjectItem J s0 ''type'' = None then add_string J ''type'' ''object'' s0 else s0);
          s2 = (if cJSON_GetObjectItem J s1 ''properties'' = None then cJSON_AddItemToObject J s1 ''properties'' (CObject []) else s1)
      in cJSON_AddItemToObject J o1 ''input_schema'' s2)"

text \<open>The place of the same file, and of the same name from another file; the last of each.\<close>

definition slot_clash :: "string \<Rightarrow> string \<Rightarrow> plugin_entry list \<Rightarrow> nat option \<times> nat option" where
  "slot_clash src name ps =
     fold (\<lambda>(i, p) (slot, clash). if pl_src p = src then (Some i, clash) else if pl_name p = name then (slot, Some i) else (slot, clash))
       (enumerate 0 ps) (None, None)"

record compile_env =
  co_check :: spawn_env
  co_tcc :: "tcc_result option"

text \<open>
  The registry, the text in \<open>err\<close> and the return value. Both builds, in the child and in the daemon, are environment.
\<close>

definition plugin_compile :: "cjson_api \<Rightarrow> compile_env \<Rightarrow> plugin_registry \<Rightarrow> string \<Rightarrow> int \<Rightarrow> nat \<Rightarrow> (plugin_registry \<times> string \<times> int) option" where
  "plugin_compile J e r src mtime sz =
     do { (err0, rc0) \<leftarrow> compile_check (co_check e) sz;
          let (err1, built) =
            (if rc0 \<noteq> 0 then (err0, None)
             else case co_tcc e of
                    None \<Rightarrow> (buf_set sz ''tcc_new() failed'', None)
                  | Some t \<Rightarrow> (fold (diag sz) (fst (build t)) err0, snd (build t)));
          Some (case built of
            None \<Rightarrow> (record_failure r src mtime, err1, -1)
          | Some (name, fn, desc, schema) \<Rightarrow>
              (case slot_clash src name (pr_plugins r) of
                 (slot, Some clash) \<Rightarrow>
                   (record_failure r src mtime,
                    buf_set sz (''plugin name '' @ [CHR 0x27] @ name @ [CHR 0x27] @ '' is already used by '' @ pl_src (pr_plugins r ! clash)), -1)
               | (slot, None) \<Rightarrow>
                   if slot = None \<and> length (pr_plugins r) \<ge> 32
                   then (record_failure r src mtime, buf_set sz ''too many plugins (max 32)'', -1)
                   else let p = \<lparr>pl_name = buf_set 64 name, pl_schema = plugin_schema J name desc schema, pl_fn = fn, pl_mtime = mtime, pl_src = buf_set 4096 src\<rparr>
                        in (r\<lparr>pr_plugins := (case slot of Some i \<Rightarrow> (pr_plugins r)[i := p] | None \<Rightarrow> pr_plugins r @ [p])\<rparr>,
                            buf_set sz (buf_set 64 name), 0))) }"

section \<open>Scanning\<close>

text \<open>The first loop of \<open>plugin_scan\<close>: a plugin whose file is gone gives its place to the last one.\<close>

function drop_gone :: "(string \<Rightarrow> bool) \<Rightarrow> nat \<Rightarrow> plugin_entry list \<Rightarrow> plugin_entry list" where
  "drop_gone ex i ps =
     (if i \<ge> length ps then ps
      else if ex (pl_src (ps ! i)) then drop_gone ex (Suc i) ps
      else drop_gone ex i (butlast (ps[i := last ps])))"
  by pat_completeness auto
termination by (relation "measure (\<lambda>(ex, i, ps). length ps - i)") auto

declare drop_gone.simps [simp del]

definition is_plugin_name :: "string \<Rightarrow> bool" where
  "is_plugin_name n \<longleftrightarrow> length n \<ge> 3 \<and> ends_with ''.c'' n \<and> hd n \<noteq> CHR ''_''"

definition loaded_as :: "plugin_registry \<Rightarrow> string \<Rightarrow> int \<Rightarrow> bool" where
  "loaded_as r src mtime \<longleftrightarrow> (\<exists>p \<in> set (pr_plugins r). pl_src p = src \<and> pl_mtime p = mtime)"

text \<open>The second loop; \<open>mt\<close> is what \<open>stat\<close> reports.\<close>

fun scan_names :: "cjson_api \<Rightarrow> (string \<Rightarrow> int option) \<Rightarrow> (string \<Rightarrow> compile_env) \<Rightarrow> string list \<Rightarrow> plugin_registry \<Rightarrow> plugin_registry option" where
  "scan_names J mt E [] r = Some r"
| "scan_names J mt E (n # ns) r =
     (if \<not> is_plugin_name n then scan_names J mt E ns r
      else let src = buf_set 4200 (pr_dir r @ ''/'' @ n)
           in case mt src of
                None \<Rightarrow> scan_names J mt E ns r
              | Some m \<Rightarrow>
                  if \<not> loaded_as r src m \<and> \<not> is_known_failure r src m
                  then do { (r', err, rc) \<leftarrow> plugin_compile J (E src) r src m 4096; scan_names J mt E ns r' }
                  else scan_names J mt E ns r)"

definition plugin_scan :: "cjson_api \<Rightarrow> fs \<Rightarrow> (string \<Rightarrow> string list option) \<Rightarrow> (string \<Rightarrow> int option) \<Rightarrow> (string \<Rightarrow> compile_env) \<Rightarrow> plugin_registry \<Rightarrow> plugin_registry option" where
  "plugin_scan J fs rd mt E r =
     (let r1 = r\<lparr>pr_plugins := drop_gone (file_exists fs) 0 (pr_plugins r)\<rparr>
      in case rd (pr_dir r1) of None \<Rightarrow> Some r1 | Some ns \<Rightarrow> scan_names J mt E ns r1)"

definition plugin_init :: "cjson_api \<Rightarrow> fs \<Rightarrow> (string \<Rightarrow> string list option) \<Rightarrow> (string \<Rightarrow> int option) \<Rightarrow> (string \<Rightarrow> compile_env) \<Rightarrow> string \<Rightarrow> plugin_registry option" where
  "plugin_init J fs rd mt E dir = plugin_scan J fs rd mt E \<lparr>pr_dir = buf_set 4096 dir, pr_plugins = [], pr_failed = []\<rparr>"

section \<open>Schemas\<close>

definition schema_name :: "cjson_api \<Rightarrow> cjson \<Rightarrow> string" where
  "schema_name J s = (case j_str J s ''name'' of Some n \<Rightarrow> n | None \<Rightarrow> [])"

text \<open>Before the first schema of a greater name; \<open>strcmp\<close> is the order of bytes.\<close>

definition insert_schema :: "cjson_api \<Rightarrow> cjson \<Rightarrow> cjson list \<Rightarrow> cjson list" where
  "insert_schema J s arr =
     (let pos = length (takeWhile (\<lambda>it. \<not> schema_name J s < schema_name J it) arr) in take pos arr @ s # drop pos arr)"

definition plugin_get_schemas :: "cjson_api \<Rightarrow> plugin_registry \<Rightarrow> cjson" where
  "plugin_get_schemas J r = CArray (fold (insert_schema J) (map pl_schema (pr_plugins r)) [])"

section \<open>The functions a plugin can call\<close>

definition plugin_api :: "string list" where
  "plugin_api = [''tc_malloc'', ''tc_free'', ''tc_strlen'', ''tc_memcpy'', ''tc_memset'', ''tc_strcmp'', ''tc_strncmp'', ''tc_strcpy'',
     ''tc_strncpy'', ''tc_snprintf'', ''tc_strstr'', ''tc_strchr'', ''tc_strrchr'', ''tc_strcat'', ''tc_strncat'', ''tc_strdup'', ''tc_memcmp'',
     ''tc_isdigit'', ''tc_isalpha'', ''tc_isspace'', ''tc_tolower'', ''tc_toupper'', ''tc_atoi'', ''tc_read_file'', ''tc_write_file'',
     ''tc_gethostname'', ''tc_http_get'', ''tc_http_post'', ''tc_http_post_json'', ''tc_http_header'', ''tc_log'', ''tc_json_parse'',
     ''tc_json_free'', ''tc_json_print'', ''tc_json_get'', ''tc_json_index'', ''tc_json_array_size'', ''tc_json_string'', ''tc_json_int'',
     ''tc_json_double'']"

definition plugin_api_names :: string where
  "plugin_api_names = fold (\<lambda>(i, n) b. buf_appendf 1024 b ((if i \<noteq> 0 then '', '' else []) @ n)) (enumerate 0 plugin_api) []"

definition tc_plugin_isdigit :: "int \<Rightarrow> bool" where "tc_plugin_isdigit c \<longleftrightarrow> 48 \<le> c \<and> c \<le> 57"
definition tc_plugin_isspace :: "int \<Rightarrow> bool" where "tc_plugin_isspace c \<longleftrightarrow> c = 32 \<or> (9 \<le> c \<and> c \<le> 13)"
definition tc_plugin_tolower :: "int \<Rightarrow> int" where "tc_plugin_tolower c = (if 65 \<le> c \<and> c \<le> 90 then c + 32 else c)"
definition tc_plugin_toupper :: "int \<Rightarrow> int" where "tc_plugin_toupper c = (if 97 \<le> c \<and> c \<le> 122 then c - 32 else c)"

text \<open>\<open>tc_read_file\<close>: one \<open>read\<close> of at most \<open>k\<close> bytes; \<open>None\<close> is \<open>-1\<close>.\<close>

definition tc_plugin_read_file :: "fs \<Rightarrow> string \<Rightarrow> nat \<Rightarrow> nat \<Rightarrow> string option" where
  "tc_plugin_read_file fs path k sz =
     (if sz = 0 then None
      else case fs path of Some (File d) \<Rightarrow> Some (take (min k (sz - 1)) d) | _ \<Rightarrow> None)"

section \<open>Running a plugin\<close>

record run_env =
  rn_pipe_fails :: bool
  rn_fork_fails :: bool
  rn_child :: child_env
  rn_says :: string

text \<open>What the child says when its function returns.\<close>

definition plugin_child :: "string \<Rightarrow> string option \<Rightarrow> nat \<Rightarrow> string" where
  "plugin_child trace result sz = trace @ (case result of Some t \<Rightarrow> take (sz - 1) (cstr t) | None \<Rightarrow> [])"

definition signal_name :: "nat \<Rightarrow> string" where
  "signal_name n = (if n = 11 then ''segfault'' else if n = 6 then ''abort'' else if n = 8 then ''floating point exception'' else if n = 7 then ''bus error'' else ''unknown'')"

text \<open>The inner \<open>None\<close> is a null pointer: there is no such plugin.\<close>

definition plugin_execute :: "cjson_api \<Rightarrow> run_env \<Rightarrow> plugin_registry \<Rightarrow> string \<Rightarrow> cjson option \<Rightarrow> nat \<Rightarrow> string option option" where
  "plugin_execute J e r name input sz =
     (let failed = Some (Some (buf_set sz (''Error: cannot start plugin '' @ [CHR 0x27] @ name @ [CHR 0x27])))
      in case (case input of Some v \<Rightarrow> cJSON_PrintUnformatted J v | None \<Rightarrow> Some ''{}'') of
           None \<Rightarrow> failed
         | Some input_json \<Rightarrow>
             if rn_pipe_fails e then failed
             else case find (\<lambda>p. pl_name p = name) (pr_plugins r) of
                    None \<Rightarrow> Some None
                  | Some p \<Rightarrow>
                      if rn_fork_fails e then failed
                      else do { (out, dropped, st) \<leftarrow> child_collect (rn_child e) 180 (sz - 1) (rn_says e);
                                Some (Some (case st of
                                  TimedOut \<Rightarrow> buf_set sz (''Error: plugin '' @ [CHR 0x27] @ name @ [CHR 0x27] @ '' timed out after 180s (endless loop?)'')
                                | Signaled n \<Rightarrow> buf_set sz (''Error: plugin '' @ [CHR 0x27] @ name @ [CHR 0x27] @ '' crashed (signal '' @ dec_nat n @ '': '' @ signal_name n @ ''). '' @
                                    ''Check the plugin code for bugs (bad pointers, buffer overflows, '' @ ''uninitialized static variables).'')
                                | Exited code \<Rightarrow> if cstr out = [] then buf_set sz ''[empty output]'' else cstr out)) })"

section \<open>Places in the registry\<close>

lemma slot_clash_snoc:
  "slot_clash src name (ps @ [p]) =
     (let (slot, clash) = slot_clash src name ps
      in if pl_src p = src then (Some (length ps), clash) else if pl_name p = name then (slot, Some (length ps)) else (slot, clash))"
  by (simp add: slot_clash_def enumerate_append_eq Let_def case_prod_unfold)

lemma slot_clash_props:
  "slot_clash src name ps = (slot, clash) \<Longrightarrow>
     (case slot of None \<Rightarrow> src \<notin> pl_src ` set ps | Some i \<Rightarrow> i < length ps \<and> pl_src (ps ! i) = src) \<and>
     (case clash of None \<Rightarrow> (\<forall>p \<in> set ps. pl_src p = src \<or> pl_name p \<noteq> name) | Some i \<Rightarrow> i < length ps)"
proof (induction ps arbitrary: slot clash rule: rev_induct)
  case Nil
  then show ?case by (auto simp: slot_clash_def)
next
  case (snoc p ps)
  obtain s c where sc: "slot_clash src name ps = (s, c)" by fastforce
  note IH = snoc.IH [OF sc]
  show ?case using snoc.prems IH unfolding slot_clash_snoc sc Let_def prod.case
    by (auto simp: nth_append less_Suc_eq split: option.splits if_splits)
qed

text \<open>What loading puts into the registry.\<close>

definition new_entry :: "cjson_api \<Rightarrow> string \<Rightarrow> int \<Rightarrow> string \<times> nat \<times> string option \<times> string option \<Rightarrow> plugin_entry" where
  "new_entry J src mtime = (\<lambda>(name, fn, desc, schema).
     \<lparr>pl_name = buf_set 64 name, pl_schema = plugin_schema J name desc schema, pl_fn = fn, pl_mtime = mtime, pl_src = buf_set 4096 src\<rparr>)"

definition put_entry :: "nat option \<Rightarrow> plugin_entry \<Rightarrow> plugin_entry list \<Rightarrow> plugin_entry list" where
  "put_entry slot p ps = (case slot of Some i \<Rightarrow> ps[i := p] | None \<Rightarrow> ps @ [p])"

lemma build_name: "snd (build t) = Some (name, fn, desc, schema) \<Longrightarrow> tr_name t = Some (Some name) \<and> tool_name_valid name \<and> tool_find (Some name) = None"
  by (auto simp: build_def split: if_splits option.splits)

text \<open>The outcomes: a failure recorded, or the entry put in its place.\<close>

lemma plugin_compile_cases:
  assumes "plugin_compile J e r src mtime sz = Some (r', err, rc)"
  obtains (failed) "r' = record_failure r src mtime" "rc = -1"
  | (loaded) t name fn desc schema slot where "co_tcc e = Some t" "snd (build t) = Some (name, fn, desc, schema)"
      "slot_clash src name (pr_plugins r) = (slot, None)" "slot = None \<longrightarrow> length (pr_plugins r) < 32"
      "r' = r\<lparr>pr_plugins := put_entry slot (new_entry J src mtime (name, fn, desc, schema)) (pr_plugins r)\<rparr>"
      "err = buf_set sz (buf_set 64 name)" "rc = 0"
proof -
  obtain err0 rc0 where c: "compile_check (co_check e) sz = Some (err0, rc0)"
    using assms by (auto simp: plugin_compile_def bind_eq_Some_conv)
  define bt where "bt = (if rc0 \<noteq> 0 then (err0, None)
             else case co_tcc e of
                    None \<Rightarrow> (buf_set sz ''tcc_new() failed'', None)
                  | Some t \<Rightarrow> (fold (diag sz) (fst (build t)) err0, snd (build t)))"
  obtain err1 built where b: "bt = (err1, built)" by fastforce
  note u = assms [unfolded plugin_compile_def c bind.bind_lunit prod.case bt_def [symmetric] Let_def b]
  show thesis
  proof (cases built)
    case None
    then show thesis using u failed by simp
  next
    case (Some x)
    obtain name fn desc schema where x: "x = (name, fn, desc, schema)" by (metis prod.exhaust)
    obtain t where t: "co_tcc e = Some t" "snd (build t) = Some x" using Some b by (auto simp: bt_def split: if_splits option.splits)
    obtain slot clash where sc: "slot_clash src name (pr_plugins r) = (slot, clash)" by fastforce
    show thesis
    proof (cases "clash = None \<and> \<not> (slot = None \<and> length (pr_plugins r) \<ge> 32)")
      case True
      then show thesis using u Some x sc t
        by (intro loaded [of t name fn desc schema slot]) (auto simp: new_entry_def put_entry_def split: if_splits)
    next
      case False
      then show thesis using u Some x sc by (intro failed) (auto split: option.splits)
    qed
  qed
qed

section \<open>The invariant\<close>

definition entry_ok :: "plugin_entry \<Rightarrow> bool" where
  "entry_ok p \<longleftrightarrow> tool_name_valid (pl_name p) \<and> length (pl_name p) < 64 \<and> tool_find (Some (pl_name p)) = None \<and> length (pl_src p) < 4096"

definition registry_wf :: "plugin_registry \<Rightarrow> bool" where
  "registry_wf r \<longleftrightarrow> length (pr_plugins r) \<le> 32 \<and> length (pr_failed r) \<le> 32 \<and> list_all entry_ok (pr_plugins r) \<and>
     distinct (map pl_src (pr_plugins r)) \<and> distinct (map pl_name (pr_plugins r))"

text \<open>The part of it that needs no condition on names and paths.\<close>

definition registry_bounds :: "plugin_registry \<Rightarrow> bool" where
  "registry_bounds r \<longleftrightarrow> length (pr_plugins r) \<le> 32 \<and> length (pr_failed r) \<le> 32 \<and> list_all entry_ok (pr_plugins r)"

text \<open>The name that the compiled code declares, and names of at most 63 bytes, the size of the field.\<close>

definition declared_name :: "compile_env \<Rightarrow> string option" where
  "declared_name e = (case co_tcc e of Some t \<Rightarrow> (case tr_name t of Some n \<Rightarrow> n | None \<Rightarrow> None) | None \<Rightarrow> None)"

definition short_name :: "compile_env \<Rightarrow> bool" where
  "short_name e \<longleftrightarrow> (\<forall>n. declared_name e = Some n \<longrightarrow> length n < 64)"

lemma tool_names_short: "tool_find (Some n) \<noteq> None \<Longrightarrow> length n < 63"
proof -
  have "length (t_name (TOOLS i)) < 63" for i by (cases i) simp_all
  then show "tool_find (Some n) \<noteq> None \<Longrightarrow> length n < 63" by (auto simp: tool_find_def find_Some_iff)
qed

text \<open>What is stored of a valid name is valid and not a built-in name, even when it is cut.\<close>

lemma new_entry_ok: "snd (build t) = Some (name, fn, desc, schema) \<Longrightarrow> entry_ok (new_entry J src mtime (name, fn, desc, schema))"
proof -
  assume b: "snd (build t) = Some (name, fn, desc, schema)"
  note n = build_name [OF b]
  have "tool_name_valid (take 63 name)" using n by (auto simp: tool_name_valid_def list_all_iff dest: in_set_takeD)
  moreover have "tool_find (Some (take 63 name)) = None"
  proof (cases "length name < 63")
    case False
    then have "length (take 63 name) = 63" by simp
    then show ?thesis using tool_names_short [of "take 63 name"] by (metis less_irrefl)
  qed (use n in simp)
  ultimately show ?thesis by (auto simp: entry_ok_def new_entry_def buf_set_def)
qed

lemma record_failure_wf: "registry_wf r \<Longrightarrow> registry_wf (record_failure r src mtime)"
  by (auto simp: registry_wf_def record_failure_def)

lemma distinct_map_update: "distinct (map f xs) \<Longrightarrow> i < length xs \<Longrightarrow> (\<And>y. y \<in> set xs \<Longrightarrow> f y = f x \<Longrightarrow> y = xs ! i) \<Longrightarrow> distinct (map f (xs[i := x]))"
  by (auto simp: distinct_conv_nth nth_list_update map_update [symmetric]) (metis nth_mem)+

lemma plugin_compile_wf:
  assumes "registry_wf r" "length src < 4096" "short_name e" "plugin_compile J e r src mtime sz = Some (r', err, rc)"
  shows "registry_wf r'"
  using assms(4)
proof (cases rule: plugin_compile_cases)
  case failed
  then show ?thesis using record_failure_wf [OF assms(1)] by simp
next
  case (loaded t name fn desc schema slot)
  let ?p = "new_entry J src mtime (name, fn, desc, schema)" and ?ps = "pr_plugins r"
  have n: "tool_name_valid name" "tool_find (Some name) = None" "length name < 64"
    using build_name [OF loaded(2)] assms(3) loaded(1) by (simp_all add: short_name_def declared_name_def)
  then have p: "pl_name ?p = name" "pl_src ?p = src" "entry_ok ?p" using assms(2) by (simp_all add: new_entry_def entry_ok_def)
  note w = assms(1) [unfolded registry_wf_def] and s = slot_clash_props [OF loaded(3)]
  show ?thesis
  proof (cases slot)
    case None
    then show ?thesis using s w p loaded(4,5) by (auto simp: registry_wf_def put_entry_def image_iff)
  next
    case (Some i)
    have i: "i < length ?ps" "pl_src (?ps ! i) = src" using s Some by simp_all
    have same: "y = ?ps ! i" if "y \<in> set ?ps" "pl_src y = src" for y
      using that i w by (metis distinct_map in_set_conv_nth inj_onD nth_mem)
    have names: "y = ?ps ! i" if "y \<in> set ?ps" "pl_name y = name" for y using that s same by auto
    have "distinct (map pl_src (?ps[i := ?p]))" "distinct (map pl_name (?ps[i := ?p]))"
      using same names p(1,2) w i(1) by (auto intro!: distinct_map_update)
    moreover have "list_all entry_ok (?ps[i := ?p])" using w p(3) by (auto simp: list_all_iff dest!: set_update_memI subsetD [OF set_update_subset_insert])
    ultimately show ?thesis using w Some loaded(5) by (simp add: registry_wf_def put_entry_def)
  qed
qed

lemma plugin_compile_bounds:
  assumes "registry_bounds r" "plugin_compile J e r src mtime sz = Some (r', err, rc)"
  shows "registry_bounds r'"
  using assms(2)
proof (cases rule: plugin_compile_cases)
  case failed
  then show ?thesis using assms(1) by (auto simp: registry_bounds_def record_failure_def)
next
  case (loaded t name fn desc schema slot)
  then show ?thesis using assms(1) new_entry_ok [OF loaded(2), of J src mtime]
    by (auto simp: registry_bounds_def put_entry_def list_all_iff split: option.splits dest!: subsetD [OF set_update_subset_insert])
qed

text \<open>Scanning.\<close>

lemma mset_swap_out: "i < length ps \<Longrightarrow> mset (butlast (ps[i := last ps])) = mset ps - {#ps ! i#}"
proof -
  assume i: "i < length ps"
  then have ne: "ps \<noteq> []" by auto
  have "ps[i := last ps] \<noteq> []" using ne by simp
  moreover have "last (ps[i := last ps]) = last ps" using i ne by (simp add: last_list_update)
  ultimately have "mset (ps[i := last ps]) = add_mset (last ps) (mset (butlast (ps[i := last ps])))"
    by (metis append_butlast_last_id mset.simps(2) rotate1.simps(2) mset_append union_mset_add_mset_right mset.simps(1) add.right_neutral)
  moreover have "mset (ps[i := last ps]) = add_mset (last ps) (mset ps - {#ps ! i#})" by (rule mset_update [OF i])
  ultimately show ?thesis by simp
qed

lemma drop_gone_mset:
  "i \<le> length ps \<Longrightarrow> list_all (\<lambda>p. ex (pl_src p)) (take i ps) \<Longrightarrow> mset (drop_gone ex i ps) = filter_mset (\<lambda>p. ex (pl_src p)) (mset ps)"
proof (induction ex i ps rule: drop_gone.induct)
  case (1 ex i ps)
  show ?case
  proof (cases "i \<ge> length ps")
    case True
    then have "filter (\<lambda>p. ex (pl_src p)) ps = ps" using 1(4) by (simp add: list_all_iff)
    then have "filter_mset (\<lambda>p. ex (pl_src p)) (mset ps) = mset ps" unfolding mset_filter [symmetric] by simp
    then show ?thesis using True by (simp add: drop_gone.simps)
  next
    case False
    show ?thesis
    proof (cases "ex (pl_src (ps ! i))")
      case True
      have "mset (drop_gone ex (Suc i) ps) = filter_mset (\<lambda>p. ex (pl_src p)) (mset ps)"
        using 1(1) [OF False True] False True 1(4) by (simp add: take_Suc_conv_app_nth)
      then show ?thesis using False True by (subst drop_gone.simps) simp
    next
      case gone: False
      let ?qs = "butlast (ps[i := last ps])"
      have "take i ?qs = take i ps" using False by (simp add: take_butlast)
      then have "mset (drop_gone ex i ?qs) = filter_mset (\<lambda>p. ex (pl_src p)) (mset ?qs)"
        using 1(2) [OF False gone] False 1(4) by simp
      also have "\<dots> = filter_mset (\<lambda>p. ex (pl_src p)) (mset ps)"
        using mset_swap_out [of i ps] False gone by (simp add: filter_diff_mset)
      finally show ?thesis using False gone by (subst drop_gone.simps) simp
    qed
  qed
qed

lemma drop_gone_filter: "mset (drop_gone ex 0 ps) = mset (filter (\<lambda>p. ex (pl_src p)) ps)"
  using drop_gone_mset [of 0 ps ex] by simp

lemma drop_gone_wf: "registry_wf r \<Longrightarrow> registry_wf (r\<lparr>pr_plugins := drop_gone ex 0 (pr_plugins r)\<rparr>)"
proof -
  assume wf: "registry_wf r"
  let ?ps = "pr_plugins r" and ?qs = "drop_gone ex 0 (pr_plugins r)"
  note m = drop_gone_filter [of ex ?ps]
  have "set ?qs \<subseteq> set ?ps" using m by (metis filter_is_subset mset_eq_setD)
  moreover have "length ?qs \<le> length ?ps" using m by (metis length_filter_le mset_eq_length)
  moreover have "distinct (map f ?qs)" if "distinct (map f ?ps)" for f :: "plugin_entry \<Rightarrow> string"
  proof -
    have "mset (map f ?qs) = mset (map f (filter (\<lambda>p. ex (pl_src p)) ?ps))" using m by (simp add: mset_map)
    then show ?thesis using distinct_map_filter [OF that] by (metis mset_eq_imp_distinct_iff)
  qed
  ultimately show ?thesis using wf by (auto simp: registry_wf_def list_all_iff)
qed

lemma plugin_compile_dir: "plugin_compile J e r src mtime sz = Some (r', err, rc) \<Longrightarrow> pr_dir r' = pr_dir r"
  by (erule plugin_compile_cases) (simp_all add: record_failure_def)

lemma drop_gone_bounds: "registry_bounds r \<Longrightarrow> registry_bounds (r\<lparr>pr_plugins := drop_gone ex 0 (pr_plugins r)\<rparr>)"
proof -
  assume b: "registry_bounds r"
  note m = drop_gone_filter [of ex "pr_plugins r"]
  have "set (drop_gone ex 0 (pr_plugins r)) \<subseteq> set (pr_plugins r)" using m by (metis filter_is_subset mset_eq_setD)
  moreover have "length (drop_gone ex 0 (pr_plugins r)) \<le> length (pr_plugins r)" using m by (metis length_filter_le mset_eq_length)
  ultimately show ?thesis using b by (auto simp: registry_bounds_def list_all_iff)
qed

text \<open>The path of a file of the directory, and one name of the scan: it is skipped or compiled.\<close>

definition scan_path :: "string \<Rightarrow> string \<Rightarrow> string" where
  "scan_path dir n = buf_set 4200 (dir @ ''/'' @ n)"

lemma scan_names_Cons:
  assumes "scan_names J mt E (n # ns) r = Some r'"
  obtains "scan_names J mt E ns r = Some r'"
  | m r1 err rc where "plugin_compile J (E (scan_path (pr_dir r) n)) r (scan_path (pr_dir r) n) m 4096 = Some (r1, err, rc)"
      "scan_names J mt E ns r1 = Some r'"
  using assms unfolding scan_names.simps Let_def scan_path_def [symmetric]
  by (auto simp: bind_eq_Some_conv split: if_splits option.splits)

lemma scan_names_bounds: "registry_bounds r \<Longrightarrow> scan_names J mt E ns r = Some r' \<Longrightarrow> registry_bounds r'"
proof (induction ns arbitrary: r)
  case (Cons n ns)
  from Cons.prems(2) show ?case
    by (cases rule: scan_names_Cons) (use Cons.IH Cons.prems(1) plugin_compile_bounds in blast)+
qed simp

lemma scan_names_wf:
  "registry_wf r \<Longrightarrow> (\<And>n. n \<in> set ns \<Longrightarrow> length (scan_path (pr_dir r) n) < 4096 \<and> short_name (E (scan_path (pr_dir r) n))) \<Longrightarrow>
   scan_names J mt E ns r = Some r' \<Longrightarrow> registry_wf r'"
proof (induction ns arbitrary: r)
  case (Cons n ns)
  have n: "length (scan_path (pr_dir r) n) < 4096" "short_name (E (scan_path (pr_dir r) n))" using Cons.prems(2) by simp_all
  from Cons.prems(3) show ?case
  proof (cases rule: scan_names_Cons)
    case 1
    then show ?thesis using Cons.IH Cons.prems(1,2) by simp
  next
    case (2 m r1 err rc)
    show ?thesis
      using Cons.IH [OF plugin_compile_wf [OF Cons.prems(1) n 2(1)] _ 2(2)] plugin_compile_dir [OF 2(1)] Cons.prems(2) by simp
  qed
qed simp

lemma plugin_scan_dir: "plugin_scan J fs rd mt E r = Some r' \<Longrightarrow> pr_dir r' = pr_dir r"
proof -
  have s: "scan_names J mt E ns r = Some r' \<Longrightarrow> pr_dir r' = pr_dir r" for ns r r'
    by (induction ns arbitrary: r) (simp, erule scan_names_Cons, blast, metis plugin_compile_dir)
  assume "plugin_scan J fs rd mt E r = Some r'"
  then show ?thesis using s by (auto simp: plugin_scan_def Let_def split: option.splits)
qed

lemma plugin_scan_bounds: "registry_bounds r \<Longrightarrow> plugin_scan J fs rd mt E r = Some r' \<Longrightarrow> registry_bounds r'"
  by (auto simp: plugin_scan_def Let_def split: option.splits intro: drop_gone_bounds scan_names_bounds [OF drop_gone_bounds])

text \<open>The files that a scan may compile, with the names that their code declares.\<close>

definition scanned :: "(string \<Rightarrow> string list option) \<Rightarrow> (string \<Rightarrow> compile_env) \<Rightarrow> string \<Rightarrow> (string \<times> string option) set" where
  "scanned rd E dir = (\<lambda>n. (scan_path dir n, declared_name (E (scan_path dir n)))) ` set (case rd dir of Some ns \<Rightarrow> ns | None \<Rightarrow> [])"

text \<open>The paths fit their field of 4096 bytes and the names theirs of 64.\<close>

definition all_fit :: "(string \<times> string option) set \<Rightarrow> bool" where
  "all_fit tried \<longleftrightarrow> (\<forall>(src, d) \<in> tried. length src < 4096 \<and> (\<forall>n. d = Some n \<longrightarrow> length n < 64))"

lemma all_fit_Un [simp]: "all_fit (A \<union> B) \<longleftrightarrow> all_fit A \<and> all_fit B"
  by (auto simp: all_fit_def)

lemma plugin_scan_wf:
  assumes "registry_wf r" "all_fit (scanned rd E (pr_dir r))" "plugin_scan J fs rd mt E r = Some r'"
  shows "registry_wf r'"
proof -
  let ?r1 = "r\<lparr>pr_plugins := drop_gone (file_exists fs) 0 (pr_plugins r)\<rparr>"
  have w: "registry_wf ?r1" by (rule drop_gone_wf [OF assms(1)])
  show ?thesis
  proof (cases "rd (pr_dir r)")
    case None
    with assms(3) w show ?thesis by (simp add: plugin_scan_def Let_def)
  next
    case (Some ns)
    have "scan_names J mt E ns ?r1 = Some r'" using assms(3) Some by (simp add: plugin_scan_def Let_def)
    moreover have "length (scan_path (pr_dir r) n) < 4096 \<and> short_name (E (scan_path (pr_dir r) n))" if "n \<in> set ns" for n
      using assms(2) that Some by (simp add: all_fit_def scanned_def short_name_def)
    ultimately show ?thesis using scan_names_wf [OF w, of ns E] by simp
  qed
qed

text \<open>
  Scans of the directory and compilations asked for by agents, in any order, with whatever the directory holds and the compiler
  says. The set records the files tried, each with the name that its code declares.
\<close>

inductive plugin_steps :: "cjson_api \<Rightarrow> string \<Rightarrow> (string \<times> string option) set \<Rightarrow> plugin_registry \<Rightarrow> bool" for J dir where
  start: "plugin_steps J dir {} \<lparr>pr_dir = dir, pr_plugins = [], pr_failed = []\<rparr>"
| scan: "plugin_steps J dir tried r \<Longrightarrow> plugin_scan J fs rd mt E r = Some r' \<Longrightarrow> plugin_steps J dir (tried \<union> scanned rd E dir) r'"
| compile: "plugin_steps J dir tried r \<Longrightarrow> plugin_compile J e r src mtime sz = Some (r', err, rc) \<Longrightarrow>
    plugin_steps J dir (tried \<union> {(src, declared_name e)}) r'"

text \<open>
  (C26) The registry of plugins: starting with an empty one, after any number of scans of the directory and of compilations asked
  for by agents, whatever the directory holds and the compiler says, it holds at most 32 plugins and 32 remembered failures, every stored name is one
  that the providers accept, fits its field and is not the name of a built-in tool, and every stored path fits its field. No two plugins come from the same
  file or have the same name, provided that every path tried has less than 4096 bytes and every declared name less than 64; a name of 64 bytes, which
  is accepted, is cut when it is stored and not compared (\<open>long_names_collide\<close> below).
\<close>

theorem plugin_registry_invariant:
  assumes "plugin_steps J dir tried r"
  shows "length (pr_plugins r) \<le> 32 \<and> length (pr_failed r) \<le> 32 \<and>
    (\<forall>p \<in> set (pr_plugins r). tool_name_valid (pl_name p) \<and> length (pl_name p) < 64 \<and> tool_find (Some (pl_name p)) = None \<and> length (pl_src p) < 4096) \<and>
    ((\<forall>(src, d) \<in> tried. length src < 4096 \<and> (\<forall>n. d = Some n \<longrightarrow> length n < 64)) \<longrightarrow>
       distinct (map pl_src (pr_plugins r)) \<and> distinct (map pl_name (pr_plugins r)))"
proof -
  have "registry_bounds r \<and> (all_fit tried \<longrightarrow> registry_wf r) \<and> pr_dir r = dir" using assms
  proof (induction rule: plugin_steps.induct)
    case start
    show ?case by (simp add: registry_wf_def registry_bounds_def)
  next
    case (scan tried r fs rd mt E r')
    then show ?case using plugin_scan_bounds [OF _ scan(2)] plugin_scan_wf [OF _ _ scan(2)] plugin_scan_dir [OF scan(2)] by simp
  next
    case (compile tried r e src mtime sz r' err rc)
    have "all_fit {(src, declared_name e)} \<Longrightarrow> length src < 4096 \<and> short_name e" by (simp add: all_fit_def short_name_def)
    then show ?case
      using compile plugin_compile_bounds [OF _ compile(2)] plugin_compile_wf [OF _ _ _ compile(2)] plugin_compile_dir [OF compile(2)]
      by (simp del: Un_insert_right)
  qed
  then show ?thesis unfolding registry_bounds_def registry_wf_def all_fit_def [symmetric] by (simp add: list_all_iff entry_ok_def)
qed

text \<open>A compiler that accepts a plugin, in a registry that has none.\<close>

definition tcc_sample :: "string \<Rightarrow> tcc_result" where
  "tcc_sample n = \<lparr>tr_msgs = [], tr_ok = True, tr_name = Some (Some n), tr_exec = Some 7, tr_desc = None, tr_schema = None\<rparr>"

definition child_sample :: child_env where
  "child_sample = \<lparr>ce_clock = (\<lambda>i. int i * 1000), ce_read = (\<lambda>_. ReadEnd), ce_wait = (\<lambda>_. Reaped (Exited 0)), ce_reaped = True\<rparr>"

definition compile_sample :: "string \<Rightarrow> compile_env" where
  "compile_sample n = \<lparr>co_check = Spawned child_sample [], co_tcc = Some (tcc_sample n)\<rparr>"

lemma compile_check_sample: "compile_check (co_check (compile_sample n)) sz = Some ([], 0)"
  by (simp add: compile_sample_def compile_check_def child_collect_def Let_def strip_newlines_def)
     (subst read_loop.simps, simp add: child_sample_def, subst wait_loop.simps, simp)

abbreviation no_plugins :: "string \<Rightarrow> plugin_registry" where
  "no_plugins dir \<equiv> \<lparr>pr_dir = dir, pr_plugins = [], pr_failed = []\<rparr>"

lemma compile_sample_loads:
  assumes "tool_name_valid n" "tool_find (Some n) = None"
  shows "plugin_compile J (compile_sample n) (no_plugins dir) src mtime sz =
     Some (\<lparr>pr_dir = dir, pr_plugins = [new_entry J src mtime (n, 7, None, None)], pr_failed = []\<rparr>, buf_set sz (buf_set 64 n), 0)"
proof -
  have "build (tcc_sample n) = ([], Some (n, 7, None, None))" using assms by (simp add: build_def tcc_sample_def)
  then show ?thesis by (simp add: plugin_compile_def compile_check_sample) (simp add: compile_sample_def slot_clash_def new_entry_def)
qed

lemma weather_ok: "tool_name_valid ''weather''" "tool_find (Some ''weather'') = None"
  by (simp_all add: tool_name_valid_def is_lower_def byte_def tool_find_def tool_ids_def)

theorem plugin_registry_invariant_witness:
  "\<exists>r. plugin_steps (table_cjson []) ''plugins'' {(''plugins/w.c'', Some ''weather'')} r \<and> map pl_name (pr_plugins r) = [''weather''] \<and>
     distinct (map pl_src (pr_plugins r))"
proof -
  let ?J = "table_cjson []" and ?src = "''plugins/w.c''"
  let ?r = "\<lparr>pr_dir = ''plugins'', pr_plugins = [new_entry ?J ?src 5 (''weather'', 7, None, None)], pr_failed = []\<rparr>"
  have s: "plugin_steps ?J ''plugins'' {(?src, Some ''weather'')} ?r"
    using compile [OF start compile_sample_loads [OF weather_ok], of ?J "''plugins''" ?src 5]
    by (simp add: declared_name_def compile_sample_def tcc_sample_def)
  from plugin_registry_invariant [OF s] have "distinct (map pl_src (pr_plugins ?r))" by simp
  with s show ?thesis by (intro exI [of _ ?r]) (simp add: new_entry_def)
qed

text \<open>
  A plugin whose name has 64 bytes, which is a valid tool name, is loaded under the first 63 of them: the model is offered
  the whole name, and calling it finds no plugin.
\<close>

lemma long_name_never_found:
  assumes "tool_name_valid n" "tool_find (Some n) = None" "length n = 64" "\<not> rn_pipe_fails e"
  shows "\<exists>r err. plugin_compile J (compile_sample n) (no_plugins dir) src mtime sz = Some (r, err, 0) \<and>
     plugin_execute J e r n None out_sz = Some None"
proof -
  have "buf_set 64 n \<noteq> n" using assms(3) by (metis length_buf_set_less less_irrefl zero_less_numeral)
  then show ?thesis using assms(4) by (simp add: compile_sample_loads [OF assms(1,2)] plugin_execute_def new_entry_def)
qed

text \<open>
  Two files that declare names of 64 bytes with the same first 63 are both loaded, under the same stored name, although a name
  used by another file is meant to be refused.
\<close>

lemma compile_sample_appends:
  assumes "tool_name_valid n" "tool_find (Some n) = None" "slot_clash src n (pr_plugins r) = (None, None)" "length (pr_plugins r) < 32"
  shows "plugin_compile J (compile_sample n) r src mtime sz =
     Some (r\<lparr>pr_plugins := pr_plugins r @ [new_entry J src mtime (n, 7, None, None)]\<rparr>, buf_set sz (buf_set 64 n), 0)"
proof -
  have "build (tcc_sample n) = ([], Some (n, 7, None, None))" using assms by (simp add: build_def tcc_sample_def)
  then show ?thesis using assms(3,4) by (simp add: plugin_compile_def compile_check_sample) (simp add: compile_sample_def new_entry_def)
qed

lemma long_names_collide:
  assumes "tool_name_valid n" "tool_name_valid n'" "length n = 64" "length n' = 64" "take 63 n = take 63 n'" "src \<noteq> src'" "length src < 4096"
  shows "\<exists>r r' err err'. plugin_compile J (compile_sample n) (no_plugins dir) src mtime sz = Some (r, err, 0) \<and>
     plugin_compile J (compile_sample n') r src' mtime' sz = Some (r', err', 0) \<and> map pl_name (pr_plugins r') = [take 63 n, take 63 n]"
proof -
  have f: "tool_find (Some n) = None" "tool_find (Some n') = None" using tool_names_short assms(3,4) by fastforce+
  have c: "pl_src (new_entry J src mtime (n, 7, None, None)) = src" "pl_name (new_entry J src mtime (n, 7, None, None)) = take 63 n"
    "take 63 n \<noteq> n'" using assms by (auto simp: new_entry_def buf_set_def)
  define r where "r = \<lparr>pr_dir = dir, pr_plugins = [new_entry J src mtime (n, 7, None, None)], pr_failed = []\<rparr>"
  have "slot_clash src' n' (pr_plugins r) = (None, None)" using c assms(6) by (simp add: r_def slot_clash_def)
  from compile_sample_appends [OF assms(2) f(2) this] compile_sample_loads [OF assms(1) f(1)] assms(5) c(2) show ?thesis
    by (fastforce simp: r_def [symmetric] buf_set_def new_entry_def r_def)
qed

section \<open>Loading is a transaction\<close>

lemma filter_update: "i < length xs \<Longrightarrow> \<not> P (xs ! i) \<Longrightarrow> \<not> P x \<Longrightarrow> filter P (xs[i := x]) = filter P xs"
  by (induction xs arbitrary: i) (auto split: nat.splits simp: nth_Cons')

lemma filter_distinct_one: "distinct (map f xs) \<Longrightarrow> x \<in> set xs \<Longrightarrow> filter (\<lambda>y. f y = f x) xs = [x]"
  by (induction xs) (auto simp: filter_empty_conv image_iff)

text \<open>
  (C27) Compiling a plugin is all or nothing: when it fails, for whatever reason, the loaded plugins stay exactly as they are and
  the failure is remembered for this file and time; when it succeeds, the file has exactly one plugin, with this time, its
  name is what is reported, and the plugins of all other files are as before.
\<close>

theorem plugin_compile_transaction:
  assumes "registry_wf r" "length src < 4096" "plugin_compile J e r src mtime sz = Some (r', err, rc)"
  shows "if rc = 0 then \<exists>p. filter (\<lambda>q. pl_src q = src) (pr_plugins r') = [p] \<and> pl_mtime p = mtime \<and> err = buf_set sz (pl_name p) \<and>
         filter (\<lambda>q. pl_src q \<noteq> src) (pr_plugins r') = filter (\<lambda>q. pl_src q \<noteq> src) (pr_plugins r)
       else pr_plugins r' = pr_plugins r \<and> is_known_failure r' src mtime"
  using assms(3)
proof (cases rule: plugin_compile_cases)
  case failed
  then show ?thesis using assms(2) by (auto simp: record_failure_def is_known_failure_def)
next
  case (loaded t name fn desc schema slot)
  let ?p = "new_entry J src mtime (name, fn, desc, schema)" and ?ps = "pr_plugins r"
  have p: "pl_src ?p = src" "pl_mtime ?p = mtime" "err = buf_set sz (pl_name ?p)" using assms(2) loaded(6) by (simp_all add: new_entry_def)
  note s = slot_clash_props [OF loaded(3)] and d = assms(1) [unfolded registry_wf_def]
  have "filter (\<lambda>q. pl_src q = src) (put_entry slot ?p ?ps) = [?p] \<and>
      filter (\<lambda>q. pl_src q \<noteq> src) (put_entry slot ?p ?ps) = filter (\<lambda>q. pl_src q \<noteq> src) ?ps"
  proof (cases slot)
    case None
    then show ?thesis using s p(1) by (auto simp: put_entry_def filter_empty_conv)
  next
    case (Some i)
    have i: "i < length ?ps" "pl_src (?ps ! i) = src" using s Some by simp_all
    have "map pl_src (?ps[i := ?p]) = map pl_src ?ps" using i p(1) by (simp add: map_update list_update_same_conv)
    then have "distinct (map pl_src (?ps[i := ?p]))" using d by simp
    moreover have "?p \<in> set (?ps[i := ?p])" using i(1) by (simp add: set_update_memI)
    ultimately have "filter (\<lambda>q. pl_src q = pl_src ?p) (?ps[i := ?p]) = [?p]" by (rule filter_distinct_one)
    then show ?thesis using Some i p(1) filter_update [of i ?ps "\<lambda>q. pl_src q \<noteq> src" ?p] by (simp add: put_entry_def)
  qed
  then show ?thesis using loaded(5,7) p by auto
qed

theorem plugin_compile_transaction_witness:
  "\<exists>r' p. plugin_compile (table_cjson []) (compile_sample ''weather'') (no_plugins ''d'') ''d/w.c'' 5 4096 = Some (r', ''weather'', 0) \<and>
     filter (\<lambda>q. pl_src q = ''d/w.c'') (pr_plugins r') = [p] \<and> pl_mtime p = 5"
proof -
  have w: "registry_wf (no_plugins ''d'')" by (simp add: registry_wf_def)
  note c = compile_sample_loads [OF weather_ok, of "table_cjson []" "''d''" "''d/w.c''" 5 4096]
  have n: "buf_set 4096 (buf_set 64 ''weather'') = ''weather''" by simp
  obtain r' where r: "plugin_compile (table_cjson []) (compile_sample ''weather'') (no_plugins ''d'') ''d/w.c'' 5 4096 = Some (r', ''weather'', 0)"
    using c unfolding n by blast
  from plugin_compile_transaction [OF w _ r] r show ?thesis by auto
qed

section \<open>Running\<close>

text \<open>
  Running a plugin always gives an answer, whatever the plugin does (it crashes, never returns, says nothing): once the clock has passed the time
  limit of 180 seconds there is a text that is not empty and fits the buffer, or the null pointer, and that only when no plugin of this name is loaded.
\<close>

theorem plugin_execute_answers:
  assumes "mono (ce_clock (rn_child e))" "ce_clock (rn_child e) 0 + 180000 \<le> ce_clock (rn_child e) n"
    "\<forall>i s. ce_wait (rn_child e) i = Reaped s \<longrightarrow> status_ok s" "ce_reaped (rn_child e)" "2 \<le> sz"
  shows "\<exists>res. plugin_execute J e r name input sz = Some res \<and>
     (case res of None \<Rightarrow> name \<notin> pl_name ` set (pr_plugins r) | Some t \<Rightarrow> t \<noteq> [] \<and> length t < sz)"
proof -
  define ij where "ij = (case input of Some v \<Rightarrow> cJSON_PrintUnformatted J v | None \<Rightarrow> Some ''{}'')"
  define failed where "failed = buf_set sz (''Error: cannot start plugin '' @ [CHR 0x27] @ name @ [CHR 0x27])"
  have ne: "buf_set sz (c # s) \<noteq> [] \<and> length (buf_set sz (c # s)) < sz" for c s using assms(5) by (auto simp: buf_set_def)
  have f: "failed \<noteq> [] \<and> length failed < sz" using ne [of "CHR ''E''"] unfolding failed_def by simp
  note u = plugin_execute_def [of J e r name input sz, unfolded Let_def ij_def [symmetric] failed_def [symmetric]]
  show ?thesis
  proof (cases "ij = None \<or> rn_pipe_fails e")
    case True
    then have "plugin_execute J e r name input sz = Some (Some failed)" unfolding u by (auto split: option.split)
    then show ?thesis using f by simp
  next
    case False
    then obtain j where j: "ij = Some j" by auto
    show ?thesis
    proof (cases "find (\<lambda>p. pl_name p = name) (pr_plugins r)")
      case None
      then have "plugin_execute J e r name input sz = Some None" using False j unfolding u by simp
      moreover have "name \<notin> pl_name ` set (pr_plugins r)" using None by (auto simp: find_None_iff)
      ultimately show ?thesis by simp
    next
      case (Some p)
      show ?thesis
      proof (cases "rn_fork_fails e")
        case True
        then show ?thesis using False j Some f unfolding u by simp
      next
        case nofail: False
        have "ce_clock (rn_child e) 0 + 180 * 1000 \<le> ce_clock (rn_child e) n" using assms(2) by simp
        from child_collect_result [OF assms(1) this assms(3,4), of "rn_says e" "sz - 1"]
        obtain rd rest st where c: "child_collect (rn_child e) 180 (sz - 1) (rn_says e) = Some (take (sz - 1) rd, length rd - (sz - 1), st)" by blast
        have l: "length (cstr (take (sz - 1) rd)) < sz" using length_cstr_le [of "take (sz - 1) rd"] assms(5) by auto
        show ?thesis using nofail False j Some c ne l unfolding u by (cases st) simp_all
      qed
    qed
  qed
qed

theorem plugin_execute_answers_witness:
  "\<exists>t. plugin_execute (table_cjson []) \<lparr>rn_pipe_fails = False, rn_fork_fails = False, rn_child = child_sample, rn_says = ''sunny''\<rparr>
       \<lparr>pr_dir = ''d'', pr_plugins = [new_entry (table_cjson []) ''d/w.c'' 5 (''weather'', 7, None, None)], pr_failed = []\<rparr> ''weather'' None 256 = Some (Some t) \<and> t \<noteq> []"
proof -
  let ?e = "\<lparr>rn_pipe_fails = False, rn_fork_fails = False, rn_child = child_sample, rn_says = ''sunny''\<rparr>"
  have "mono (ce_clock (rn_child ?e))" "ce_clock (rn_child ?e) 0 + 180000 \<le> ce_clock (rn_child ?e) 180"
    "\<forall>i s. ce_wait (rn_child ?e) i = Reaped s \<longrightarrow> status_ok s" "ce_reaped (rn_child ?e)" by (simp_all add: child_sample_def mono_def status_ok_def)
  from plugin_execute_answers [OF this, of 256 "table_cjson []" "\<lparr>pr_dir = ''d'', pr_plugins = [new_entry (table_cjson []) ''d/w.c'' 5 (''weather'', 7, None, None)], pr_failed = []\<rparr>" "''weather''" None]
  show ?thesis by (auto simp: new_entry_def split: option.splits)
qed

text \<open>The list of functions for the model is never cut.\<close>

lemma plugin_api_names_whole: "plugin_api_names = concat (map (\<lambda>(i, n). (if i \<noteq> 0 then '', '' else []) @ n) (enumerate 0 plugin_api))"
proof -
  let ?f = "\<lambda>(i, n). (if i \<noteq> (0 :: nat) then '', '' else []) @ n"
  have "plugin_api_names = fold (\<lambda>x b. buf_appendf 1024 b (?f x)) (enumerate 0 plugin_api) []"
    by (simp add: plugin_api_names_def case_prod_unfold)
  also have "\<dots> = take 1023 (concat (map ?f (enumerate 0 plugin_api)))" by (subst fold_buf_appendf) simp_all
  also have "\<dots> = concat (map ?f (enumerate 0 plugin_api))" by (intro take_all) (simp add: plugin_api_def)
  finally show ?thesis .
qed

section \<open>The order of the schemas\<close>

lemma insert_schema_sort: "insert_schema J s (sort_key (schema_name J) ss) = sort_key (schema_name J) (ss @ [s])"
  unfolding sort_key_snoc insert_schema_def Let_def not_less
  by (simp add: takeWhile_eq_take [symmetric] dropWhile_eq_drop [symmetric])

lemma insert_schemas_sort: "fold (insert_schema J) ss (sort_key (schema_name J) ts) = sort_key (schema_name J) (ts @ ss)"
proof (induction ss arbitrary: ts)
  case (Cons s ss)
  show ?case using Cons [of "ts @ [s]"] by (simp add: insert_schema_sort)
qed simp

text \<open>
  The schemas of the plugins come sorted by name, whatever the order of the registry: inserting one after the other is
  the stable sort by name, so removing and reloading plugins does not change the order in which the model sees the others.
\<close>

theorem plugin_schemas_sorted:
  "plugin_get_schemas J r = CArray (sort_key (schema_name J) (map pl_schema (pr_plugins r)))"
  using insert_schemas_sort [of J "map pl_schema (pr_plugins r)" "[]"] by (simp add: plugin_get_schemas_def)

end
