(* ===== verification/Tools.thy ===== *)
theory Tools
  imports Plugin
begin

text \<open>
  Running a tool, the second part of \<open>src/tools.c\<close>. The state a tool works on is \<open>world\<close>: the files, the agents with their
  memories, the plugins, and what was shown on IRC and to terminals. What does not change during a session is the
  \<open>tool_ctx\<close>; clock, random numbers, children, failing writes and the compiler are the environment of a call, \<open>tool_env\<close>. A shell
  command and a plugin run with the rights of the daemon and may leave the files in any state: \<open>te_exec_fs\<close> and \<open>te_plugin_fs\<close> say in which.

  A result \<open>None\<close> stands for a call that has no defined result: the code would follow a null pointer, or wait for a
  child for ever. The lemmas show that this does not happen for arguments that passed the check, that the answer fits
  its buffer, what each tool may change, and that what is written to a file is read back.
\<close>

section \<open>State\<close>

record world =
  w_fs :: fs
  w_agents :: "agent_ctx list"
  w_plugins :: plugin_registry
  w_out :: "irc_out list"
  w_dirs :: "string list" \<comment> \<open>directories created\<close>
  w_ran :: "(string \<times> cjson) list" \<comment> \<open>a history that the code does not keep: the calls of tools that agents made and that were run\<close>

text \<open>\<open>tx_me\<close>: the number of the agent.\<close>

record tool_ctx =
  tx_me :: nat
  tx_messenger :: messenger_t
  tx_irc :: irc_t

record tool_env =
  te_now :: time
  te_tz :: tzone
  te_uid :: string
  te_write :: wenv
  te_append :: append_env
  te_errno :: string
  te_send :: "nat \<Rightarrow> send_env"
  te_spawn :: "string \<Rightarrow> spawn_env"
  te_compile :: "string \<Rightarrow> string \<Rightarrow> compile_env"
  te_run :: "string \<Rightarrow> cjson \<Rightarrow> run_env"
  te_exec_fs :: "string \<Rightarrow> fs \<Rightarrow> fs"
  te_plugin_fs :: "string \<Rightarrow> cjson \<Rightarrow> fs \<Rightarrow> fs"
  te_utimes_fails :: bool
  te_nomem :: bool
  te_noreport :: bool

abbreviation me :: "tool_ctx \<Rightarrow> world \<Rightarrow> agent_ctx" where
  "me x w \<equiv> w_agents w ! tx_me x"

definition peers :: "tool_ctx \<Rightarrow> world \<Rightarrow> agent_ctx list" where
  "peers x w = take (a_n_peers (me x w)) (w_agents w)"

definition set_memory :: "nat \<Rightarrow> memory_t \<Rightarrow> world \<Rightarrow> world" where
  "set_memory i m w = w\<lparr>w_agents := (w_agents w)[i := (w_agents w ! i)\<lparr>a_memory := m\<rparr>]\<rparr>"

abbreviation show_out :: "irc_out list \<Rightarrow> world \<Rightarrow> world" where
  "show_out outs w \<equiv> w\<lparr>w_out := w_out w @ outs\<rparr>"

section \<open>Messages\<close>

definition agent_message :: "cjson_api \<Rightarrow> tool_env \<Rightarrow> tool_ctx \<Rightarrow> string option \<Rightarrow> string \<Rightarrow> string option \<Rightarrow> bool \<Rightarrow> nat \<Rightarrow> world \<Rightarrow> world \<times> string" where
  "agent_message J e x to content thread_id reply sz w =
     (let name = messenger_resolve (tx_messenger x) to
      in if name = Some ''owner''
         then (show_out (irc_reply (tx_irc x) (Some (a_name (me x w))) (Some content)) w, buf_set sz ''Sent to owner.'')
         else let (fs', out) = messenger_send J (te_send e) (tx_messenger x) (a_name (me x w)) to content thread_id reply sz (w_fs w);
                  w1 = w\<lparr>w_fs := fs'\<rparr>
              in if starts_with ''Error'' out then (w1, out)
                 else let prefix = buf_set 96 (a_name (me x w) @ '' => '' @ (case name of Some n \<Rightarrow> n | None \<Rightarrow> or_empty to))
                      in (show_out (irc_reply (tx_irc x) (Some prefix) (Some content)) w1, out))"

definition find_peer :: "tool_ctx \<Rightarrow> string \<Rightarrow> world \<Rightarrow> nat option" where
  "find_peer x name w = find (\<lambda>i. strcaseeq (a_name (peers x w ! i)) name) [0..<length (peers x w)]"

section \<open>Plugins\<close>

fun skip_lines :: "nat \<Rightarrow> string \<Rightarrow> string option" where
  "skip_lines 0 s = Some s"
| "skip_lines (Suc n) s = (case strchr LF s of Some r \<Rightarrow> skip_lines n (tl r) | None \<Rightarrow> None)"

text \<open>One line of the compiler's messages, \<open>l\<close> the text from there on, with the line of code it names.\<close>

definition annotate_line :: "string \<Rightarrow> nat \<Rightarrow> string \<Rightarrow> string \<Rightarrow> string" where
  "annotate_line code sz l out =
     (let line = before LF l;
          out1 = buf_appendf sz out (line @ [LF]);
          line_no = (if CHR '':'' \<in> set line then atoi (drop (length (before (CHR '':'') line) + 1) l) else 0)
      in if line_no > 0
         then (case skip_lines (nat (line_no - 1)) code of
                 Some src \<Rightarrow>
                   if src \<noteq> []
                   then let slen = length (before LF src)
                        in buf_appendf sz out1 (''    '' @ dec_int line_no @ '' | '' @ take (utf8_prefix src (if slen < 200 then slen else 200)) src @ [LF])
                   else out1
               | None \<Rightarrow> out1)
         else out1)"

fun annotate_loop :: "string \<Rightarrow> nat \<Rightarrow> nat \<Rightarrow> string \<Rightarrow> string \<Rightarrow> string" where
  "annotate_loop code sz 0 l out = out"
| "annotate_loop code sz (Suc n) l out =
     (if l = [] then out
      else annotate_loop code sz n (case strchr LF l of Some r \<Rightarrow> tl r | None \<Rightarrow> []) (annotate_line code sz l out))"

definition annotate_errors :: "string \<Rightarrow> string \<Rightarrow> nat \<Rightarrow> string \<Rightarrow> string" where
  "annotate_errors code err sz out = annotate_loop code sz 12 err out"

function skip_trace :: "string \<Rightarrow> string" where
  "skip_trace s =
     (if starts_with ''[GET '' s \<or> starts_with ''[POST '' s
      then skip_trace (case strchr LF s of Some r \<Rightarrow> tl r | None \<Rightarrow> [])
      else s)"
  by pat_completeness auto
termination
proof (relation "measure length")
  fix s
  assume "starts_with ''[GET '' s \<or> starts_with ''[POST '' s"
  then have "s \<noteq> []" by (auto simp: starts_with_def)
  moreover have "length (tl r) < length s" if "strchr LF s = Some r" for r
    using strchr_Some [OF that] by (auto dest: arg_cong [of _ _ length])
  ultimately show "(case strchr LF s of Some r \<Rightarrow> tl r | None \<Rightarrow> [], s) \<in> measure length" by (simp split: option.split)
qed simp

declare skip_trace.simps [simp del]

text \<open>A run of a plugin: the files are what it leaves when it could be started. The inner \<open>None\<close>: there is no such plugin.\<close>

definition run_plugin :: "cjson_api \<Rightarrow> tool_env \<Rightarrow> string \<Rightarrow> cjson \<Rightarrow> nat \<Rightarrow> world \<Rightarrow> (world \<times> string option) option" where
  "run_plugin J e name input sz w =
     (let run = te_run e name input;
          started = cJSON_PrintUnformatted J input \<noteq> None \<and> \<not> rn_pipe_fails run \<and> name \<in> pl_name ` set (pr_plugins (w_plugins w)) \<and> \<not> rn_fork_fails run
      in map_option (Pair (if started then w\<lparr>w_fs := te_plugin_fs e name input (w_fs w)\<rparr> else w))
           (plugin_execute J run (w_plugins w) name (Some input) sz))"

text \<open>The report after \<open>out\<close>, and whether the test failed.\<close>

definition test_plugin :: "cjson_api \<Rightarrow> tool_env \<Rightarrow> world \<Rightarrow> string \<Rightarrow> string \<Rightarrow> nat \<Rightarrow> string \<Rightarrow> (world \<times> string \<times> bool) option" where
  "test_plugin J e w tool_name test sz out =
     do { (w', res0) \<leftarrow> (case cJSON_Parse J test of
                      Some (CObject kvs) \<Rightarrow> run_plugin J e tool_name (CObject kvs) 16384 w
                    | _ \<Rightarrow> Some (w, Some ''Error: test_input is not a JSON object''));
          let res = (case res0 of Some r \<Rightarrow> r | None \<Rightarrow> ''Error: plugin not loaded'');
          let rest = skip_trace res;
          let trace_len = length res - length rest;
          let output = dropWhile (\<lambda>c. c = SP \<or> c = LF \<or> c = CR) rest;
          let failed = (starts_with ''Error:'' res \<or> starts_with_ci ''error'' output \<or> output = [] \<or> output = ''[empty output]'');
          let o1 = buf_appendf sz out ([LF] @ ''Test run with '' @ test);
          let o2 = (if trace_len \<noteq> 0
                    then buf_appendf sz o1 ([LF] @ ''HTTP calls (debug trace, not part of the output):'' @ [LF] @ take trace_len res) else o1);
          Some (w', buf_appendf sz o2 ([LF] @ ''Plugin output:'' @ [LF] @ (if output \<noteq> [] then output else ''(empty)'') @ [LF] @
                  (if failed then ''Fix the plugin and call create_plugin again.''
                   else ''If this is not what the plugin should answer, fix it '' @ ''and call create_plugin again.'')), failed) }"

fun unescape_once :: "string \<Rightarrow> string" where
  "unescape_once [] = []"
| "unescape_once [c] = [c]"
| "unescape_once (c # d # s) =
     (if c \<noteq> CHR 0x5C then c # unescape_once (d # s)
      else if d = CHR ''n'' then LF # unescape_once s
      else if d = CHR ''t'' then TAB # unescape_once s
      else if d = CHR ''r'' then CR # unescape_once s
      else if d = CHR 0x22 then CHR 0x22 # unescape_once s
      else if d = CHR 0x5C then CHR 0x5C # unescape_once s
      else c # unescape_once (d # s))"

definition escape_c :: "string \<Rightarrow> string" where
  "escape_c t = concat (map (\<lambda>c. if c = CHR 0x22 \<or> c = CHR 0x5C then [CHR 0x5C, c] else [c]) t)"

text \<open>
  Where the text of the schema lies in the code: what comes before it, with the opening quote, the text, and the rest from the
  closing quote on.
\<close>

definition schema_place :: "string \<Rightarrow> (string \<times> string \<times> string) option" where
  "schema_place code =
     (case strstr ''TC_PLUGIN_SCHEMA'' code of
        None \<Rightarrow> None
      | Some decl \<Rightarrow>
          let line = before LF decl;
              opn = length (before (CHR 0x22) line);
              stem = (if CHR '';'' \<in> set line then rev (tl (dropWhile (\<lambda>c. c \<noteq> CHR '';'') (rev line))) else []);
              stem' = rev (dropWhile (\<lambda>c. c = SP \<or> c = TAB) (rev stem));
              cls = length stem'
          in if CHR 0x22 \<notin> set line \<or> cls \<le> opn + 1 \<or> stem' ! (cls - 1) \<noteq> CHR 0x22 then None
             else Some (take (length code - length decl + opn + 1) code, take (cls - 1 - opn - 1) (drop (opn + 1) decl), drop (cls - 1) decl))"

definition fix_schema_quotes :: "cjson_api \<Rightarrow> bool \<Rightarrow> cjson \<Rightarrow> cjson" where
  "fix_schema_quotes J nomem input =
     (case j_str J input ''code'' of
        None \<Rightarrow> input
      | Some code \<Rightarrow>
          (case schema_place code of
             None \<Rightarrow> input
           | Some (pre, raw, post) \<Rightarrow>
               if nomem \<or> CHR 0x22 \<notin> set raw \<or> strstr [CHR 0x5C, CHR 0x22] raw \<noteq> None then input
               else (case Option.bind (cJSON_ParseWithOpts J raw) (cJSON_PrintUnformatted J) of
                       None \<Rightarrow> input
                     | Some t \<Rightarrow> cJSON_ReplaceItemInObject J input ''code'' (CString (pre @ escape_c t @ post)))))"

section \<open>The tools\<close>

definition read_file_tool :: "cjson_api \<Rightarrow> tool_env \<Rightarrow> cjson \<Rightarrow> nat \<Rightarrow> world \<Rightarrow> string option" where
  "read_file_tool J e input sz w =
     (let offset = j_int J input ''offset'' 0; limit = j_int J input ''limit'' 32768
      in if offset < 0 then Some (buf_set sz ''Error: offset must be >= 0'')
         else if limit \<le> 0 then Some (buf_set sz ''Error: limit must be > 0'')
         else case j_str J input ''path'' of
                None \<Rightarrow> None
              | Some path \<Rightarrow>
                  (case w_fs w path of
                     Some (File d) \<Rightarrow>
                       let lim1 = (if limit > 32768 then 32768 else nat limit);
                           lim = (if lim1 > sz - 160 then sz - 160 else lim1);
                           data = take lim (drop (nat offset) d)
                       in if NUL \<in> set data then Some (buf_set sz (''Error: '' @ path @ '' is a binary file''))
                          else if length d > nat offset + length data
                          then Some (buf_appendf sz data ([LF] @ ''[truncated: call read_file with offset='' @ dec_int (offset + int (length data)) @ '' for more]''))
                          else if data = [] then Some (buf_set sz ''[empty output]'')
                          else Some data
                   | _ \<Rightarrow> Some (buf_set sz (''Error: cannot open '' @ path @ '': '' @ te_errno e))))"

definition write_file_tool :: "cjson_api \<Rightarrow> tool_env \<Rightarrow> cjson \<Rightarrow> nat \<Rightarrow> world \<Rightarrow> (world \<times> string) option" where
  "write_file_tool J e input sz w =
     (case (j_str J input ''path'', j_str J input ''content'') of
        (Some path, Some content) \<Rightarrow>
          let (fs', ok) = (if j_bool J input ''append'' False then append_file (te_append e) path content (w_fs w)
                           else case atomic_write (te_write e) path content (w_fs w) of (fs', rc) \<Rightarrow> (fs', rc = 0))
          in Some (w\<lparr>w_fs := fs', w_dirs := w_dirs w @ mkdirs_for path\<rparr>,
                   buf_set sz (if \<not> ok then ''Error: cannot write '' @ path @ '': '' @ te_errno e
                               else ''Written '' @ dec_nat (length content) @ '' bytes to '' @ path))
      | _ \<Rightarrow> None)"

definition schedule_tool :: "cjson_api \<Rightarrow> tool_env \<Rightarrow> tool_ctx \<Rightarrow> bool \<Rightarrow> cjson \<Rightarrow> nat \<Rightarrow> world \<Rightarrow> world \<times> string" where
  "schedule_tool J e x recurring input sz w =
     (let minutes = j_int J input ''in_minutes'' 0;
          run_at = (if minutes > 0 then Some (format_time (te_tz e) (te_now e + minutes * 60) False 32) else j_str J input ''run_at'')
      in if \<not> given run_at then (w, buf_set sz ''Error: give in_minutes (e.g. 5) or run_at'')
         else let (fs', out) = sched_add J (te_tz e) (te_write e) (te_now e) (te_uid e) (a_scheduler (me x w)) run_at
                                 (j_str J input ''description'') (j_str J input ''prompt'') (if recurring then j_str J input ''interval'' else None) sz (w_fs w)
              in (w\<lparr>w_fs := fs'\<rparr>, out))"

text \<open>The dash is U+2014 in UTF-8.\<close>

definition DASH :: string where "DASH = '' '' @ [CHR 0xE2, CHR 0x80, CHR 0x94] @ '' ''"

definition agent_line :: "tool_ctx \<Rightarrow> nat \<times> agent_ctx \<Rightarrow> string" where
  "agent_line x = (\<lambda>(i, a). ''- '' @ a_name a @ (if i = tx_me x then '' (you)'' else []) @ (if a_specialty a \<noteq> [] then DASH else []) @
     a_specialty a @ (if i \<noteq> tx_me x \<and> a_busy a then '' [busy]'' else []) @ [LF])"

definition clear_agent :: "nat \<Rightarrow> bool \<Rightarrow> bool \<Rightarrow> world \<Rightarrow> world" where
  "clear_agent i mem facts w =
     (let w1 = (if mem then (case memory_clear (w_fs w, a_memory (w_agents w ! i)) of (fs', m) \<Rightarrow> set_memory i m (w\<lparr>w_fs := fs'\<rparr>)) else w)
      in if facts then w1\<lparr>w_fs := facts_clear (a_memory (w_agents w1 ! i)) (w_fs w1)\<rparr> else w1)"

definition clear_memory_tool :: "cjson_api \<Rightarrow> tool_ctx \<Rightarrow> cjson \<Rightarrow> nat \<Rightarrow> world \<Rightarrow> (world \<times> string) option" where
  "clear_memory_tool J x input sz w =
     (case j_str J input ''agent'' of
        None \<Rightarrow> None
      | Some agent \<Rightarrow>
          let what = (if given (j_str J input ''what'') then the (j_str J input ''what'') else ''both'');
              mem = (what \<noteq> ''facts''); facts = (what \<noteq> ''memory'')
          in if agent = ''all''
             then Some (fold (\<lambda>i. clear_agent i mem facts) [0..<length (peers x w)] w,
                        buf_set sz (''Cleared '' @ what @ '' for '' @ dec_nat (length (peers x w)) @ '' agents.''))
             else (case find_peer x agent w of
                     None \<Rightarrow> Some (w, buf_set sz (''Error: unknown agent '' @ [CHR 0x27] @ agent @ [CHR 0x27]))
                   | Some i \<Rightarrow> Some (clear_agent i mem facts w, buf_set sz (''Cleared '' @ what @ '' for '' @ a_name (w_agents w ! i) @ ''.''))))"

text \<open>What the builder is told when its code does not compile.\<close>

definition compile_report :: "string \<Rightarrow> string \<Rightarrow> string \<Rightarrow> nat \<Rightarrow> string" where
  "compile_report name code err sz =
     (let o1 = annotate_errors code err sz (buf_appendf sz [] (''Error: compilation failed for '' @ name @ ''.c:'' @ [LF]));
          o2 = (if strstr ''unresolved reference'' err \<noteq> None \<or> strstr ''implicit declaration'' err \<noteq> None
                then buf_appendf sz o1 (''Only these functions exist: '' @ plugin_api_names @ [LF]) else o1);
          o3 = (if strstr ''defined twice'' err \<noteq> None \<or> strstr ''redefinition'' err \<noteq> None
                then buf_appendf sz o2 (''One of your functions has the name of a '' @ ''provided one: rename it (e.g. my_isdigit).'' @ [LF]) else o2)
      in buf_appendf sz o3 (''Hint: include only '' @ [CHR 0x22] @ ''tc_plugin.h'' @ [CHR 0x22] @ '', use only its tc_* functions, '' @
           ''and export TC_PLUGIN_NAME, TC_PLUGIN_DESC, TC_PLUGIN_SCHEMA '' @ ''and tc_execute(const char *input_json).''))"

definition plugin_base :: "string \<Rightarrow> string" where
  "plugin_base name0 = (let name = buf_set 80 name0 in if length name > 2 \<and> ends_with ''.c'' name then take (length name - 2) name else name)"

definition fixed_input :: "cjson_api \<Rightarrow> tool_env \<Rightarrow> cjson \<Rightarrow> cjson" where
  "fixed_input J e input =
     (let input1 = (case j_str J input ''code'' of
                      Some c \<Rightarrow> if LF \<notin> set c \<and> strstr [CHR 0x5C, CHR ''n''] c \<noteq> None
                                then update_item ''code'' (\<lambda>_. CString (unescape_once c)) input else input
                    | None \<Rightarrow> input)
      in fix_schema_quotes J (te_nomem e) input1)"

definition create_plugin_tool :: "cjson_api \<Rightarrow> tool_env \<Rightarrow> cjson \<Rightarrow> nat \<Rightarrow> world \<Rightarrow> (world \<times> string) option" where
  "create_plugin_tool J e input0 sz w =
     (let input = fixed_input J e input0
      in case (j_str J input ''code'', j_str J input ''name'') of
           (Some code, Some name0) \<Rightarrow>
             let name = plugin_base name0
             in if \<not> tool_name_valid name
                then Some (w, buf_set sz (''Error: invalid plugin name '' @ [CHR 0x27] @ name @ [CHR 0x27] @ '' '' @ ''(letters, digits, '' @
                       [CHR 0x27] @ ''_'' @ [CHR 0x27] @ '' and '' @ [CHR 0x27] @ ''-'' @ [CHR 0x27] @ '' only)''))
                else
                  let src = buf_set 4200 (pr_dir (w_plugins w) @ ''/'' @ name @ ''.c'')
                  in do { (reg, err, rc) \<leftarrow> plugin_compile J (te_compile e src code) (w_plugins w) src (te_now e) 4096;
                          let w1 = w\<lparr>w_plugins := reg\<rparr>;
                          if rc \<noteq> 0 then Some (w1, compile_report name code err sz)
                          else
                            let (fs', rc') = atomic_write (te_write e) src code (w_fs w1); w2 = w1\<lparr>w_fs := fs'\<rparr>
                            in if rc' \<noteq> 0 \<or> te_utimes_fails e
                               then Some (w2, buf_set sz (''Error: plugin loaded, but '' @ src @ '' cannot be saved: '' @ te_errno e))
                               else if \<not> te_noreport e \<and> given (j_str J input ''test_input'')
                               then map_option (\<lambda>(w3, report, failed). (w3, buf_set sz
                                        (if failed then ''Error: '' @ name @ ''.c compiled, but its test run failed.'' @ report
                                         else ''Plugin '' @ [CHR 0x27] @ name @ [CHR 0x27] @ '' compiled and loaded as tool '' @ [CHR 0x27] @ err @ [CHR 0x27] @ ''.'' @ report)))
                                      (test_plugin J e w2 err (the (j_str J input ''test_input'')) 32768 [])
                               else Some (w2, buf_set sz (''Plugin '' @ [CHR 0x27] @ name @ [CHR 0x27] @ '' compiled and loaded as tool '' @ [CHR 0x27] @ err @ [CHR 0x27] @ ''.'')) }
         | _ \<Rightarrow> None)"

text \<open>A command runs when it is not empty and the child could be made.\<close>

definition exec_tool :: "cjson_api \<Rightarrow> tool_env \<Rightarrow> cjson \<Rightarrow> nat \<Rightarrow> world \<Rightarrow> (world \<times> string) option" where
  "exec_tool J e input sz w =
     (let cmd = j_str J input ''command''; child = te_spawn e (or_empty cmd);
          started = given cmd \<and> sz \<ge> 256 \<and> (case child of Spawned _ _ \<Rightarrow> True | _ \<Rightarrow> False)
      in map_option (Pair (if started then w\<lparr>w_fs := te_exec_fs e (or_empty cmd) (w_fs w)\<rparr> else w))
           (tool_exec_cmd child cmd (j_int J input ''timeout'' 30) sz))"

definition execute_tool :: "cjson_api \<Rightarrow> tool_env \<Rightarrow> tool_ctx \<Rightarrow> tool_id \<Rightarrow> cjson \<Rightarrow> nat \<Rightarrow> world \<Rightarrow> (world \<times> string) option" where
  "execute_tool J e x i input sz w =
     (let str = j_str J input; m = a_memory (me x w); tasks = a_scheduler (me x w)
      in case i of
           TOOL_EXEC \<Rightarrow> exec_tool J e input sz w
         | TOOL_READ_FILE \<Rightarrow> map_option (Pair w) (read_file_tool J e input sz w)
         | TOOL_WRITE_FILE \<Rightarrow> write_file_tool J e input sz w
         | TOOL_SCHEDULE_TASK \<Rightarrow> Some (schedule_tool J e x False input sz w)
         | TOOL_SCHEDULE_RECURRING \<Rightarrow> Some (schedule_tool J e x True input sz w)
         | TOOL_LIST_TASKS \<Rightarrow> Some (w, sched_list J (te_tz e) tasks sz (w_fs w))
         | TOOL_UPDATE_TASK \<Rightarrow>
             (case sched_update J (te_tz e) (te_write e) (te_now e) tasks (str ''task_id'') (str ''run_at'') (str ''description'') (str ''prompt'')
                     (str ''interval'') sz (w_fs w) of (fs', out) \<Rightarrow> Some (w\<lparr>w_fs := fs'\<rparr>, out))
         | TOOL_CANCEL_TASK \<Rightarrow> (case sched_cancel J (te_write e) tasks (str ''task_id'') sz (w_fs w) of (fs', out) \<Rightarrow> Some (w\<lparr>w_fs := fs'\<rparr>, out))
         | TOOL_REMEMBER \<Rightarrow>
             (case memory_add J (te_append e) (te_uid e) (now_iso (te_tz e) (te_now e) 32) (str ''content'') (str ''category'')
                     (j_int J input ''importance'' 5) (str ''tags'') sz (w_fs w, m) of ((fs', m'), out) \<Rightarrow> Some (set_memory (tx_me x) m' (w\<lparr>w_fs := fs'\<rparr>), out))
         | TOOL_RECALL \<Rightarrow> (case memory_search J (str ''query'') (j_int J input ''n'' 20) sz (w_fs w) m of (m', out) \<Rightarrow> Some (set_memory (tx_me x) m' w, out))
         | TOOL_SET_FACT \<Rightarrow> (case facts_set J (te_write e) m (str ''key'') (str ''value'') sz (w_fs w) of (fs', out) \<Rightarrow> Some (w\<lparr>w_fs := fs'\<rparr>, out))
         | TOOL_GET_FACT \<Rightarrow> Some (w, facts_get J m (str ''key'') sz (w_fs w))
         | TOOL_SEND_MESSAGE \<Rightarrow> (case str ''content'' of Some c \<Rightarrow> Some (agent_message J e x (str ''to'') c None False sz w) | None \<Rightarrow> None)
         | TOOL_LIST_AGENTS \<Rightarrow>
             Some (w, fold (\<lambda>a b. buf_appendf sz b (agent_line x a)) (enumerate 0 (peers x w)) (buf_appendf sz [] (''Agents:'' @ [LF])))
         | TOOL_CREATE_PLUGIN \<Rightarrow> create_plugin_tool J e input sz w
         | TOOL_CLEAR_MEMORY \<Rightarrow> clear_memory_tool J x input sz w)"

section \<open>Answers fit\<close>

lemma fold_bound:
  "(\<And>x b. length b < (k :: nat) \<Longrightarrow> length (f x b) < k) \<Longrightarrow> length b < k \<Longrightarrow> length (fold f xs b) < k"
  by (induction xs arbitrary: b) simp_all

lemma appendf_bound: "length b < sz \<Longrightarrow> length (buf_appendf sz b s) < sz"
  using length_buf_appendf [of b sz s] by linarith

lemma fold_appendf_bound: "length b < sz \<Longrightarrow> length (fold (\<lambda>x b. buf_appendf sz b (f x)) xs b) < sz"
  by (rule fold_bound [OF appendf_bound])

lemma sched_list_bound: "0 < sz \<Longrightarrow> length (sched_list J tz path sz fs) < sz"
  by (auto simp: sched_list_def length_buf_set_less Let_def appendf_bound intro!: fold_bound split: option.split)

lemma facts_get_bound: "0 < sz \<Longrightarrow> length (facts_get J m key sz fs) < sz"
proof -
  assume sz: "0 < sz"
  have "length (fold (\<lambda>(k, v) b. case v of CString s \<Rightarrow> buf_appendf sz b (''- '' @ k @ '': '' @ s @ [LF]) | _ \<Rightarrow> b) xs []) < sz" for xs
    by (rule fold_bound) (use sz in \<open>auto simp: appendf_bound split: cjson.split\<close>)
  then show ?thesis using sz by (simp add: facts_get_def Let_def length_buf_set_less)
qed

lemma memory_search_bound: "0 < sz \<Longrightarrow> length (snd (memory_search J q n sz fs m)) < sz"
  by (simp add: memory_search_def Let_def fold_appendf_bound)

lemma memory_add_bound: "0 < sz \<Longrightarrow> length (snd (memory_add J e mid now content cat imp tags sz s)) < sz"
  by (simp add: memory_add_def Let_def length_buf_set_less split: prod.split option.split)

lemma sched_edit_bounds:
  assumes "0 < sz"
  shows "length (snd (sched_add J tz e now tid path run_at desc prompt iv sz fs)) < sz"
    "length (snd (sched_update J tz e now path idp run_at desc prompt iv sz fs)) < sz"
    "length (snd (sched_cancel J e path idp sz fs)) < sz"
    "length (snd (facts_set J e m key val sz fs)) < sz"
  using assms
  by (simp_all add: sched_add_def sched_update_def sched_cancel_def facts_set_def Let_def length_buf_set_less split: prod.split option.split sum.split)

lemma messenger_send_bound: "0 < sz \<Longrightarrow> length (snd (messenger_send J env m from to content th reply sz fs)) < sz"
  by (auto simp: messenger_send_def send_one_def unknown_recipient_def Let_def length_buf_set_less fold_appendf_bound appendf_bound split: prod.split option.split)

lemma agent_message_bound: "0 < sz \<Longrightarrow> length (snd (agent_message J e x to content th reply sz w)) < sz"
  using messenger_send_bound [of sz J "te_send e" "tx_messenger x" "a_name (me x w)" to content th reply "w_fs w"]
  by (auto simp: agent_message_def Let_def length_buf_set_less split: prod.split)

lemma annotate_bound: "0 < sz \<Longrightarrow> length out < sz \<Longrightarrow> length (annotate_loop code sz n l out) < sz"
  by (induction n arbitrary: l out) (auto simp: annotate_line_def Let_def appendf_bound split: option.split)

lemma compile_report_bound: "0 < sz \<Longrightarrow> length (compile_report name code err sz) < sz"
  by (simp add: compile_report_def Let_def annotate_errors_def appendf_bound annotate_bound)

section \<open>Every checked call has a result\<close>

text \<open>A child that is waited for ends: the clock passes the time limit, what \<open>waitpid\<close> reports are statuses, and a killed child is reaped.\<close>

definition child_ends :: "int \<Rightarrow> child_env \<Rightarrow> bool" where
  "child_ends limit c \<longleftrightarrow> mono (ce_clock c) \<and> (\<exists>n. ce_clock c 0 + limit * 1000 \<le> ce_clock c n) \<and> (\<forall>i s. ce_wait c i = Reaped s \<longrightarrow> status_ok s) \<and> ce_reaped c"

definition spawn_ends :: "int \<Rightarrow> spawn_env \<Rightarrow> bool" where
  "spawn_ends limit s \<longleftrightarrow> (case s of Spawned c stream \<Rightarrow> child_ends limit c \<and> length stream < 2 ^ 64 | _ \<Rightarrow> True)"

definition env_ends :: "tool_env \<Rightarrow> bool" where
  "env_ends e \<longleftrightarrow> (\<forall>cmd. spawn_ends 3600 (te_spawn e cmd)) \<and> (\<forall>src code. spawn_ends 30 (co_check (te_compile e src code))) \<and>
     (\<forall>name input. child_ends 180 (rn_child (te_run e name input)))"

lemma child_ends_less: "child_ends limit c \<Longrightarrow> limit' \<le> limit \<Longrightarrow> child_ends limit' c"
proof -
  assume "child_ends limit c" "limit' \<le> limit"
  moreover have "limit' * 1000 \<le> limit * 1000" using \<open>limit' \<le> limit\<close> by simp
  ultimately show ?thesis unfolding child_ends_def by (meson add_left_mono order_trans)
qed

lemma exec_defined:
  assumes "spawn_ends 3600 s" "256 \<le> sz"
  shows "\<exists>out. tool_exec_cmd s cmd timeout sz = Some out \<and> length out < sz"
proof (cases "given cmd \<and> (\<exists>c stream. s = Spawned c stream)")
  case True
  then obtain c stream where s: "s = Spawned c stream" by blast
  have "exec_timeout timeout \<le> 3600" by (simp add: exec_timeout_def)
  with assms(1) s have c: "child_ends (exec_timeout timeout) c" "length stream < 2 ^ 64" by (auto simp: spawn_ends_def intro: child_ends_less)
  then obtain n where "mono (ce_clock c)" "ce_clock c 0 + exec_timeout timeout * 1000 \<le> ce_clock c n" "\<forall>i s. ce_wait c i = Reaped s \<longrightarrow> status_ok s" "ce_reaped c"
    by (auto simp: child_ends_def)
  from tool_exec_cmd_text [OF this assms(2) _ c(2), of cmd] True show ?thesis using assms(2) s by force
next
  case False
  then show ?thesis using assms(2) by (cases s) (auto simp: tool_exec_cmd_def length_buf_set_less)
qed

lemma compile_defined:
  assumes "spawn_ends 30 (co_check c)"
  shows "\<exists>r'. plugin_compile J c r src mtime sz = Some r'"
proof -
  have "\<exists>y. compile_check (co_check c) sz = Some y"
  proof (cases "co_check c")
    case (Spawned ce stream)
    then obtain n where n: "mono (ce_clock ce)" "ce_clock ce 0 + 30 * 1000 \<le> ce_clock ce n" "\<forall>i s. ce_wait ce i = Reaped s \<longrightarrow> status_ok s" "ce_reaped ce"
      using assms by (auto simp: spawn_ends_def child_ends_def)
    from child_collect_result [OF this, of stream "sz - 1"] obtain o1 d st where "child_collect ce 30 (sz - 1) stream = Some (o1, d, st)" by blast
    with Spawned show ?thesis by (simp add: compile_check_def Let_def del: split_paired_Ex)
  qed (simp_all add: compile_check_def)
  then obtain y where "compile_check (co_check c) sz = Some y" by blast
  then show ?thesis by (simp add: plugin_compile_def Let_def case_prod_unfold del: split_paired_Ex)
qed

lemma plugin_defined:
  assumes "child_ends 180 (rn_child c)" "2 \<le> sz"
  shows "\<exists>res. plugin_execute J c r name input sz = Some res \<and> (case res of None \<Rightarrow> True | Some t \<Rightarrow> t \<noteq> [] \<and> length t < sz)"
proof -
  obtain n where n: "mono (ce_clock (rn_child c))" "ce_clock (rn_child c) 0 + 180000 \<le> ce_clock (rn_child c) n" "\<forall>i s. ce_wait (rn_child c) i = Reaped s \<longrightarrow> status_ok s" "ce_reaped (rn_child c)"
    using assms(1) by (auto simp: child_ends_def)
  from plugin_execute_answers [OF this assms(2), of J r name input] show ?thesis by (auto split: option.splits)
qed

lemma run_plugin_defined:
  assumes "env_ends e" "2 \<le> sz"
  shows "\<exists>w' res. run_plugin J e name v sz w = Some (w', res) \<and> (case res of None \<Rightarrow> True | Some t \<Rightarrow> t \<noteq> [] \<and> length t < sz)"
  using plugin_defined [of "te_run e name v" sz J "w_plugins w" name "Some v"] assms by (auto simp: env_ends_def run_plugin_def Let_def)

lemma test_plugin_defined:
  assumes "env_ends e"
  shows "\<exists>r. test_plugin J e w tn test sz out = Some r"
proof -
  have "\<exists>r. run_plugin J e tn v 16384 w = Some r" for v using run_plugin_defined [OF assms, of 16384 J tn v w] by auto
  then have "\<exists>r. (case cJSON_Parse J test of Some (CObject kvs) \<Rightarrow> run_plugin J e tn (CObject kvs) 16384 w
    | _ \<Rightarrow> Some (w, Some ''Error: test_input is not a JSON object'')) = Some r" by (auto split: option.split cjson.split)
  then obtain w' res where r: "(case cJSON_Parse J test of Some (CObject kvs) \<Rightarrow> run_plugin J e tn (CObject kvs) 16384 w
    | _ \<Rightarrow> Some (w, Some ''Error: test_input is not a JSON object'')) = Some (w', res)" by auto
  show ?thesis unfolding test_plugin_def r Let_def by (simp del: split_paired_Ex)
qed

lemma fixed_input_keeps:
  assumes "cjson_laws J" "j_str J (CObject kvs) ''code'' = Some c" "j_str J (CObject kvs) ''name'' = Some n"
  shows "\<exists>c'. j_str J (fixed_input J e (CObject kvs)) ''code'' = Some c' \<and> j_str J (fixed_input J e (CObject kvs)) ''name'' = Some n"
proof -
  have fx: "\<exists>c'. j_str J (fix_schema_quotes J b (CObject kvs1)) ''code'' = Some c' \<and> j_str J (fix_schema_quotes J b (CObject kvs1)) ''name'' = Some n"
    if "j_str J (CObject kvs1) ''code'' = Some c1" "j_str J (CObject kvs1) ''name'' = Some n" for kvs1 b c1
  proof (cases "\<exists>s. fix_schema_quotes J b (CObject kvs1) = cJSON_ReplaceItemInObject J (CObject kvs1) ''code'' (CString s)")
    case True
    then obtain s where s: "fix_schema_quotes J b (CObject kvs1) = CObject (replace_ci ''code'' (CString s) kvs1)" by (auto simp: cjson_obj [OF assms(1)])
    have "lookup_ci ''code'' kvs1 \<noteq> None" using that(1) by (auto simp: j_str_object [OF assms(1)] split: option.splits)
    then have "lookup_ci ''code'' (replace_ci ''code'' (CString s) kvs1) = Some (CString s)"
      "lookup_ci ''name'' (replace_ci ''code'' (CString s) kvs1) = lookup_ci ''name'' kvs1"
      by (simp_all add: lookup_ci_replace strcaseeq_def tolower_def is_upper_def byte_def)
    then show ?thesis using that(2) unfolding s by (simp add: j_str_object [OF assms(1)])
  next
    case False
    then have "fix_schema_quotes J b (CObject kvs1) = CObject kvs1"
      using that(1) unfolding fix_schema_quotes_def by (auto simp: Let_def split: option.splits prod.splits if_splits)
    then show ?thesis using that by simp
  qed
  show ?thesis
  proof (cases "LF \<notin> set c \<and> strstr [CHR 0x5C, CHR ''n''] c \<noteq> None")
    case True
    define kvs1 where "kvs1 = update_ci ''code'' (\<lambda>_. CString (unescape_once c)) kvs"
    have f: "fixed_input J e (CObject kvs) = fix_schema_quotes J (te_nomem e) (CObject kvs1)"
      using assms(2) True by (simp add: fixed_input_def update_item_def kvs1_def)
    have "j_str J (CObject kvs1) ''code'' = Some (unescape_once c)" "j_str J (CObject kvs1) ''name'' = Some n"
      using assms(2,3) by (auto simp: kvs1_def j_str_object [OF assms(1)] lookup_update_ci strcaseeq_def tolower_def is_upper_def byte_def split: option.splits)
    from fx [OF this] show ?thesis unfolding f .
  next
    case False
    then have f: "fixed_input J e (CObject kvs) = fix_schema_quotes J (te_nomem e) (CObject kvs)"
      using assms(2) unfolding fixed_input_def by (simp only: Let_def option.case if_False)
    from fx [OF assms(2,3)] show ?thesis unfolding f .
  qed
qed

lemma create_plugin_defined:
  assumes "cjson_laws J" "env_ends e" "0 < sz" "j_str J (CObject kvs) ''code'' = Some c" "j_str J (CObject kvs) ''name'' = Some n"
  shows "\<exists>w' out. create_plugin_tool J e (CObject kvs) sz w = Some (w', out) \<and> length out < sz"
proof -
  define input where "input = fixed_input J e (CObject kvs)"
  obtain code where i: "j_str J input ''code'' = Some code" "j_str J input ''name'' = Some n"
    using fixed_input_keeps [OF assms(1,4,5), of e] by (auto simp: input_def)
  define src where "src = buf_set 4200 (pr_dir (w_plugins w) @ ''/'' @ plugin_base n @ ''.c'')"
  have "spawn_ends 30 (co_check (te_compile e src code))" using assms(2) by (simp add: env_ends_def)
  from compile_defined [OF this, of J "w_plugins w" src "te_now e" 4096] obtain reg err rc where
    c: "plugin_compile J (te_compile e src code) (w_plugins w) src (te_now e) 4096 = Some (reg, err, rc)" by auto
  obtain fs' rc' where a: "atomic_write (te_write e) src code (w_fs w) = (fs', rc')" by fastforce
  obtain w3 report failed where r: "test_plugin J e (w\<lparr>w_plugins := reg, w_fs := fs'\<rparr>) err (the (j_str J input ''test_input'')) 32768 [] = Some (w3, report, failed)"
    using test_plugin_defined [OF assms(2), of J "w\<lparr>w_plugins := reg, w_fs := fs'\<rparr>" err "the (j_str J input ''test_input'')" 32768 "[]"] by auto
  show ?thesis
    unfolding create_plugin_tool_def Let_def input_def [symmetric] i option.case prod.case src_def [symmetric]
    using assms(3) by (simp add: c a r length_buf_set_less compile_report_bound)
qed

lemma required_string: "arg_ok J input p \<Longrightarrow> p_required p \<Longrightarrow> p_type p = TC_STRING \<Longrightarrow> \<exists>s. j_str J input (p_name p) = Some s"
  by (auto simp: arg_ok_def j_str_def split: option.splits cjson.splits)

lemma checked_strings:
  assumes "list_all (arg_ok J input) (t_params (TOOLS i))"
  shows "i = TOOL_READ_FILE \<Longrightarrow> \<exists>s. j_str J input ''path'' = Some s"
    and "i = TOOL_WRITE_FILE \<Longrightarrow> \<exists>s t. j_str J input ''path'' = Some s \<and> j_str J input ''content'' = Some t"
    and "i = TOOL_SEND_MESSAGE \<Longrightarrow> \<exists>s. j_str J input ''content'' = Some s"
    and "i = TOOL_CREATE_PLUGIN \<Longrightarrow> \<exists>s t. j_str J input ''code'' = Some s \<and> j_str J input ''name'' = Some t"
    and "i = TOOL_CLEAR_MEMORY \<Longrightarrow> \<exists>s. j_str J input ''agent'' = Some s"
  using assms by (auto dest!: required_string)

lemma read_file_defined:
  assumes "256 \<le> sz" "j_str J input ''path'' = Some p"
  shows "\<exists>out. read_file_tool J e input sz w = Some out \<and> length out < sz"
proof -
  have b: "\<exists>out. Some (buf_set sz s) = Some out \<and> length out < sz" for s using assms(1) by (simp add: length_buf_set_less)
  define lim1 where "lim1 = (if j_int J input ''limit'' 32768 > 32768 then 32768 else nat (j_int J input ''limit'' 32768))"
  define lim where "lim = (if lim1 > sz - 160 then sz - 160 else lim1)"
  have "lim < sz" using assms(1) by (auto simp: lim_def)
  define data where "data d = take lim (drop (nat (j_int J input ''offset'' 0)) d)" for d :: string
  have l: "length (data d) < sz" for d using \<open>lim < sz\<close> by (simp add: data_def)
  show ?thesis
    unfolding read_file_tool_def Let_def assms(2) option.case lim1_def [symmetric] lim_def [symmetric] data_def [symmetric]
    using assms(1) l by (simp add: length_buf_set_less appendf_bound split: option.split fnode.split)
qed

lemma write_file_defined:
  assumes "0 < sz" "j_str J input ''path'' = Some p" "j_str J input ''content'' = Some c"
  shows "\<exists>w' out. write_file_tool J e input sz w = Some (w', out) \<and> length out < sz"
  unfolding write_file_tool_def assms(2,3) option.case prod.case Let_def case_prod_unfold using assms(1) by (simp add: length_buf_set_less)

lemma clear_memory_defined:
  "0 < sz \<Longrightarrow> j_str J input ''agent'' = Some a \<Longrightarrow> \<exists>w' out. clear_memory_tool J x input sz w = Some (w', out) \<and> length out < sz"
  by (auto simp: clear_memory_tool_def Let_def length_buf_set_less split: option.split)

lemma schedule_bound: "0 < sz \<Longrightarrow> length (snd (schedule_tool J e x r input sz w)) < sz"
  using sched_edit_bounds(1) [of sz] by (auto simp: schedule_tool_def Let_def length_buf_set_less case_prod_unfold)

lemma result_pair: "length (snd p) < sz \<Longrightarrow> \<exists>w' out. Some p = Some (w', out) \<and> length out < sz"
  by (cases p) simp

lemma execute_tool_result:
  assumes "cjson_laws J" "env_ends e" "256 \<le> sz" "list_all (arg_ok J (CObject kvs)) (t_params (TOOLS i))"
  shows "\<exists>w' out. execute_tool J e x i (CObject kvs) sz w = Some (w', out) \<and> length out < sz"
proof -
  have sz: "0 < sz" using assms(3) by simp
  note s = checked_strings [OF assms(4)]
  note b = sched_edit_bounds [OF sz] sched_list_bound [OF sz] facts_get_bound [OF sz] memory_search_bound [OF sz] memory_add_bound [OF sz]
  show ?thesis
  proof (cases i)
    case TOOL_EXEC
    have "spawn_ends 3600 (te_spawn e (or_empty (j_str J (CObject kvs) ''command'')))" using assms(2) by (simp add: env_ends_def)
    from exec_defined [OF this assms(3), of "j_str J (CObject kvs) ''command''" "j_int J (CObject kvs) ''timeout'' 30"]
    show ?thesis by (auto simp: execute_tool_def exec_tool_def Let_def TOOL_EXEC)
  next
    case TOOL_READ_FILE
    with s(1) obtain p where "j_str J (CObject kvs) ''path'' = Some p" by blast
    from read_file_defined [OF assms(3) this, of e w] show ?thesis by (auto simp: execute_tool_def TOOL_READ_FILE)
  next
    case TOOL_WRITE_FILE
    with s(2) obtain p c where "j_str J (CObject kvs) ''path'' = Some p" "j_str J (CObject kvs) ''content'' = Some c" by blast
    from write_file_defined [OF sz this, of e w] show ?thesis by (auto simp: execute_tool_def TOOL_WRITE_FILE)
  next
    case TOOL_CREATE_PLUGIN
    with s(4) create_plugin_defined [OF assms(1,2) sz] show ?thesis by (auto simp: execute_tool_def)
  next
    case TOOL_CLEAR_MEMORY
    with s(5) clear_memory_defined [OF sz] show ?thesis by (auto simp: execute_tool_def)
  next
    case TOOL_SEND_MESSAGE
    with s(3) obtain c where "j_str J (CObject kvs) ''content'' = Some c" by blast
    then show ?thesis using agent_message_bound [OF sz, of J e x "j_str J (CObject kvs) ''to''" c None False w]
      by (cases "agent_message J e x (j_str J (CObject kvs) ''to'') c None False sz w") (simp add: execute_tool_def TOOL_SEND_MESSAGE)
  next
    case TOOL_LIST_AGENTS
    then show ?thesis using sz by (simp add: execute_tool_def fold_appendf_bound appendf_bound)
  next
    case TOOL_SCHEDULE_TASK
    then show ?thesis by (simp add: execute_tool_def) (intro result_pair [unfolded option.inject] schedule_bound sz)
  next
    case TOOL_SCHEDULE_RECURRING
    then show ?thesis by (simp add: execute_tool_def) (intro result_pair [unfolded option.inject] schedule_bound sz)
  qed (use b in \<open>simp_all add: execute_tool_def case_prod_unfold Let_def\<close>)
qed

lemma checked_args:
  assumes "cjson_laws J" "tool_check_args J i (CObject kvs) sz = (input', None)"
  shows "\<exists>kvs'. input' = CObject kvs' \<and> list_all (arg_ok J input') (t_params (TOOLS i))"
proof -
  have "check_params J (t_params (TOOLS i)) (CObject kvs) = (input', [])"
    using assms(2) by (auto simp: tool_check_args_def Let_def split: prod.splits if_splits)
  from check_params_ok [OF assms(1) TOOLS_names_apart this] show ?thesis by blast
qed

text \<open>
  (C22) A call of a built-in tool whose arguments passed the check always has a result: no tool follows a null pointer, waits for ever for a
  command, a compiler or a plugin, or writes past its buffer, whatever the files, the children and the other agents are.
\<close>

theorem execute_tool_defined:
  assumes "cjson_laws J" "env_ends e" "256 \<le> sz" "tool_check_args J i (CObject kvs) sz = (input', None)"
  shows "\<exists>w' out. execute_tool J e x i input' sz w = Some (w', out) \<and> length out < sz"
  using checked_args [OF assms(1,4)] execute_tool_result [OF assms(1-3)] by auto

section \<open>What a tool changes\<close>

lemma agent_message_frame:
  "agent_message J e x to content th reply sz w = (w', out) \<Longrightarrow> w_agents w' = w_agents w \<and> w_plugins w' = w_plugins w \<and> w_dirs w' = w_dirs w \<and> w_ran w' = w_ran w"
  by (auto simp: agent_message_def Let_def case_prod_unfold split: if_splits prod.splits)

text \<open>Of an agent, a tool changes at most the cache of its memory.\<close>

definition same_identity :: "agent_ctx \<Rightarrow> agent_ctx \<Rightarrow> bool" where
  "same_identity a b \<longleftrightarrow> (\<exists>c. b = a\<lparr>a_memory := (a_memory a)\<lparr>mem_cache := c\<rparr>\<rparr>)"

lemma same_identity_refl [simp]: "same_identity a a"
  unfolding same_identity_def by (rule exI [of _ "mem_cache (a_memory a)"]) simp

lemma same_identity_upd [simp]: "same_identity a (a\<lparr>a_memory := (a_memory a)\<lparr>mem_cache := c\<rparr>\<rparr>)"
  unfolding same_identity_def by blast

lemma same_identity_trans: "same_identity a b \<Longrightarrow> same_identity b c \<Longrightarrow> same_identity a c"
  unfolding same_identity_def by auto

definition same_agents :: "agent_ctx list \<Rightarrow> agent_ctx list \<Rightarrow> bool" where
  "same_agents as bs \<longleftrightarrow> list_all2 same_identity as bs"

lemma same_agents_refl [simp]: "same_agents as as"
  by (simp add: same_agents_def list_all2_same)

lemma same_agents_trans: "same_agents as bs \<Longrightarrow> same_agents bs cs \<Longrightarrow> same_agents as cs"
  unfolding same_agents_def by (rule list_all2_trans [OF same_identity_trans])

lemma same_agents_update:
  assumes "same_identity (as ! i) a"
  shows "same_agents as (as[i := a])"
proof -
  have "same_identity (as ! j) (as[i := a] ! j)" if "j < length as" for j using assms that by (cases "j = i") simp_all
  then show ?thesis by (simp add: same_agents_def list_all2_conv_all_nth)
qed

lemma set_memory_frame:
  assumes "m = (a_memory (w_agents w ! i))\<lparr>mem_cache := c\<rparr>"
  shows "same_agents (w_agents w) (w_agents (set_memory i m w))"
  unfolding set_memory_def by (simp add: assms same_agents_update)

lemma set_memory_keeps [simp]:
  "w_plugins (set_memory i m w) = w_plugins w" "w_out (set_memory i m w) = w_out w" "w_fs (set_memory i m w) = w_fs w" "w_ran (set_memory i m w) = w_ran w"
  "j \<noteq> i \<Longrightarrow> w_agents (set_memory i m w) ! j = w_agents w ! j"
  by (simp_all add: set_memory_def)

lemma clear_agent_frame:
  "same_agents (w_agents w) (w_agents (clear_agent i a b w)) \<and> w_plugins (clear_agent i a b w) = w_plugins w \<and> w_out (clear_agent i a b w) = w_out w \<and>
    w_ran (clear_agent i a b w) = w_ran w"
proof -
  have "same_agents (w_agents v) (w_agents (set_memory i ((a_memory (w_agents v ! i))\<lparr>mem_cache := None\<rparr>) v))" for v by (rule set_memory_frame) (rule refl)
  from this [of "w\<lparr>w_fs := (w_fs w)(memory_log_path (a_memory (w_agents w ! i)) := None)\<rparr>"]
  show ?thesis by (simp add: clear_agent_def memory_clear_def Let_def)
qed

lemma clear_agents_frame:
  "same_agents (w_agents w) (w_agents (fold (\<lambda>i. clear_agent i a b) js w)) \<and> w_plugins (fold (\<lambda>i. clear_agent i a b) js w) = w_plugins w \<and>
    w_out (fold (\<lambda>i. clear_agent i a b) js w) = w_out w \<and> w_ran (fold (\<lambda>i. clear_agent i a b) js w) = w_ran w"
proof (induction js arbitrary: w)
  case (Cons i js)
  show ?case using Cons [of "clear_agent i a b w"] clear_agent_frame [of w i a b] same_agents_trans by auto
qed simp

lemma load_cache_dir: "\<exists>c. load_cache J fs m = m\<lparr>mem_cache := c\<rparr>"
proof (cases "mem_cache m")
  case None
  then show ?thesis by (auto simp: load_cache_def split: slurp.split)
next
  case (Some a)
  then show ?thesis by (intro exI [of _ "mem_cache m"]) (simp add: load_cache_def)
qed

lemma memory_ops_dir:
  "\<exists>c. fst (memory_search J q n sz fs m) = m\<lparr>mem_cache := c\<rparr>"
  "\<exists>c. snd (fst (memory_add J e mid now content cat imp tags sz (fs, m))) = m\<lparr>mem_cache := c\<rparr>"
proof -
  obtain c where c: "load_cache J fs m = m\<lparr>mem_cache := c\<rparr>" using load_cache_dir by blast
  show "\<exists>c. fst (memory_search J q n sz fs m) = m\<lparr>mem_cache := c\<rparr>" by (simp add: memory_search_def Let_def c) blast
  show "\<exists>c. snd (fst (memory_add J e mid now content cat imp tags sz (fs, m))) = m\<lparr>mem_cache := c\<rparr>"
  proof (cases "given content")
    case True
    then show ?thesis by (auto simp: memory_add_def Let_def c case_prod_unfold)
  next
    case False
    then show ?thesis by (intro exI [of _ "mem_cache m"]) (simp add: memory_add_def)
  qed
qed

lemma run_plugin_frame:
  "run_plugin J e name v sz w = Some (w', res) \<Longrightarrow> w_agents w' = w_agents w \<and> w_plugins w' = w_plugins w \<and> w_out w' = w_out w \<and> w_ran w' = w_ran w"
  by (auto simp: run_plugin_def Let_def)

lemma test_plugin_frame:
  "test_plugin J e w tn test sz out = Some (w', r) \<Longrightarrow> w_agents w' = w_agents w \<and> w_plugins w' = w_plugins w \<and> w_out w' = w_out w \<and> w_ran w' = w_ran w"
  by (auto simp: test_plugin_def bind_eq_Some_conv Let_def dest!: run_plugin_frame split: option.splits cjson.splits)

lemma create_plugin_frame:
  assumes "create_plugin_tool J e input sz w = Some (w', out)"
  shows "w_agents w' = w_agents w \<and> w_out w' = w_out w \<and> w_ran w' = w_ran w"
  using assms unfolding create_plugin_tool_def Let_def
  by (auto simp: bind_eq_Some_conv case_prod_unfold split: option.splits if_splits dest: test_plugin_frame)

lemma tool_changes:
  assumes "execute_tool J e x i input sz w = Some (w', out)"
  shows "same_agents (w_agents w) (w_agents w') \<and>
    (i \<noteq> TOOL_CLEAR_MEMORY \<longrightarrow> (\<forall>j. j \<noteq> tx_me x \<longrightarrow> w_agents w' ! j = w_agents w ! j)) \<and>
    (i \<noteq> TOOL_CREATE_PLUGIN \<longrightarrow> w_plugins w' = w_plugins w) \<and>
    (i \<noteq> TOOL_SEND_MESSAGE \<longrightarrow> w_out w' = w_out w) \<and>
    (i \<in> {TOOL_READ_FILE, TOOL_LIST_TASKS, TOOL_RECALL, TOOL_GET_FACT, TOOL_LIST_AGENTS} \<longrightarrow> w_fs w' = w_fs w)"
proof -
  note u = assms [unfolded execute_tool_def Let_def]
  show ?thesis
  proof (cases i)
    case TOOL_REMEMBER
    define r where "r = memory_add J (te_append e) (te_uid e) (now_iso (te_tz e) (te_now e) 32) (j_str J input ''content'') (j_str J input ''category'')
      (j_int J input ''importance'' 5) (j_str J input ''tags'') sz (w_fs w, a_memory (me x w))"
    obtain c where c: "snd (fst r) = (a_memory (me x w))\<lparr>mem_cache := c\<rparr>" using memory_ops_dir(2) r_def by blast
    have w: "w' = set_memory (tx_me x) (snd (fst r)) (w\<lparr>w_fs := fst (fst r)\<rparr>)" using u TOOL_REMEMBER by (simp add: r_def case_prod_unfold)
    have "same_agents (w_agents w) (w_agents w')" using set_memory_frame [where m = "snd (fst r)" and w = "w\<lparr>w_fs := fst (fst r)\<rparr>" and i = "tx_me x" and c = c] c unfolding w by simp
    then show ?thesis using w TOOL_REMEMBER by simp
  next
    case TOOL_RECALL
    define r where "r = memory_search J (j_str J input ''query'') (j_int J input ''n'' 20) sz (w_fs w) (a_memory (me x w))"
    obtain c where c: "fst r = (a_memory (me x w))\<lparr>mem_cache := c\<rparr>" using memory_ops_dir(1) r_def by blast
    have w: "w' = set_memory (tx_me x) (fst r) w" using u TOOL_RECALL by (simp add: r_def case_prod_unfold)
    show ?thesis using set_memory_frame [OF c] w TOOL_RECALL by simp
  next
    case TOOL_CLEAR_MEMORY
    with u have "clear_memory_tool J x input sz w = Some (w', out)" by simp
    then have "same_agents (w_agents w) (w_agents w') \<and> w_plugins w' = w_plugins w \<and> w_out w' = w_out w"
      using clear_agent_frame clear_agents_frame by (auto simp: clear_memory_tool_def Let_def split: option.splits if_splits)
    then show ?thesis using TOOL_CLEAR_MEMORY by simp
  next
    case TOOL_CREATE_PLUGIN
    with u have "create_plugin_tool J e input sz w = Some (w', out)" by simp
    then show ?thesis using create_plugin_frame TOOL_CREATE_PLUGIN by simp
  next
    case TOOL_SEND_MESSAGE
    with u show ?thesis by (auto dest: agent_message_frame split: option.splits)
  next
    case TOOL_EXEC
    with u show ?thesis by (auto simp: exec_tool_def Let_def)
  next
    case TOOL_WRITE_FILE
    with u show ?thesis by (auto simp: write_file_tool_def Let_def case_prod_unfold split: option.splits)
  next
    case TOOL_SCHEDULE_TASK
    with u show ?thesis by (auto simp: schedule_tool_def Let_def case_prod_unfold split: if_splits)
  next
    case TOOL_SCHEDULE_RECURRING
    with u show ?thesis by (auto simp: schedule_tool_def Let_def case_prod_unfold split: if_splits)
  qed (use u in \<open>auto simp: case_prod_unfold\<close>)
qed

text \<open>The history of calls is the business of the session.\<close>

lemma tool_keeps_history:
  assumes "execute_tool J e x i input sz w = Some (w', out)"
  shows "w_ran w' = w_ran w"
proof -
  note u = assms [unfolded execute_tool_def Let_def]
  show ?thesis
  proof (cases i)
    case TOOL_CLEAR_MEMORY
    with u have "clear_memory_tool J x input sz w = Some (w', out)" by simp
    then show ?thesis using clear_agent_frame clear_agents_frame by (auto simp: clear_memory_tool_def Let_def split: option.splits if_splits)
  next
    case TOOL_CREATE_PLUGIN
    with u show ?thesis using create_plugin_frame by simp
  next
    case TOOL_SEND_MESSAGE
    with u show ?thesis by (auto dest: agent_message_frame split: option.splits)
  qed (use u in \<open>auto simp: case_prod_unfold exec_tool_def write_file_tool_def schedule_tool_def Let_def split: option.splits if_splits\<close>)
qed

text \<open>
  What a tool may change: only \<open>create_plugin\<close> touches the registry of plugins, only \<open>send_message\<close> shows something to the owner, and only
  \<open>clear_memory\<close> reaches another agent, of which it drops no more than the cached memories; name, role, provider and limits of every agent stay. The tools
  that look things up leave the files alone.
\<close>

theorem execute_tool_frame:
  assumes "execute_tool J e x i input sz w = Some (w', out)"
  shows "same_agents (w_agents w) (w_agents w') \<and>
    (i \<noteq> TOOL_CLEAR_MEMORY \<longrightarrow> (\<forall>j. j \<noteq> tx_me x \<longrightarrow> w_agents w' ! j = w_agents w ! j)) \<and>
    (i \<noteq> TOOL_CREATE_PLUGIN \<longrightarrow> w_plugins w' = w_plugins w) \<and>
    (i \<noteq> TOOL_SEND_MESSAGE \<longrightarrow> w_out w' = w_out w) \<and>
    (i \<in> {TOOL_READ_FILE, TOOL_LIST_TASKS, TOOL_RECALL, TOOL_GET_FACT, TOOL_LIST_AGENTS} \<longrightarrow> w_fs w' = w_fs w)"
  using tool_changes [OF assms] .

section \<open>Texts and files\<close>

lemma unescape_escape: "unescape_once (escape_c t) = t"
proof (induction t)
  case (Cons c t)
  show ?case
  proof (cases "c = CHR 0x22 \<or> c = CHR 0x5C")
    case True
    then show ?thesis using Cons by (auto simp: escape_c_def)
  next
    case False
    then have e: "escape_c (c # t) = c # escape_c t" by (simp add: escape_c_def)
    from False have "unescape_once (c # s) = c # unescape_once s" for s by (cases s) simp_all
    with e Cons show ?thesis by simp
  qed
qed (simp add: escape_c_def)

text \<open>
  (C24) Repairing the schema of a plugin: when the text between the outer quotes of the declaration is JSON with bare quotes, the code gets a string literal that a C compiler
  reads back as JSON of the same value, and nothing else of the code changes.
\<close>

theorem fix_schema_quotes_repairs:
  assumes "cjson_laws J" "j_str J (CObject kvs) ''code'' = Some code" "schema_place code = Some (pre, raw, post)"
    "CHR 0x22 \<in> set raw" "strstr [CHR 0x5C, CHR 0x22] raw = None" "cJSON_ParseWithOpts J raw = Some v" "cJSON_PrintUnformatted J v = Some t"
  shows "code = pre @ raw @ post \<and>
    (\<exists>lit. j_str J (fix_schema_quotes J False (CObject kvs)) ''code'' = Some (pre @ lit @ post) \<and> unescape_once lit = t \<and> cJSON_Parse J (unescape_once lit) = Some v)"
proof -
  have "lookup_ci ''code'' kvs \<noteq> None" using assms(2) by (auto simp: j_str_object [OF assms(1)] split: option.splits)
  then have "lookup_ci ''code'' (replace_ci ''code'' (CString (pre @ escape_c t @ post)) kvs) = Some (CString (pre @ escape_c t @ post))" by (simp add: lookup_ci_replace)
  moreover have "fix_schema_quotes J False (CObject kvs) = CObject (replace_ci ''code'' (CString (pre @ escape_c t @ post)) kvs)"
    using assms by (simp add: fix_schema_quotes_def cjson_obj)
  ultimately have l: "j_str J (fix_schema_quotes J False (CObject kvs)) ''code'' = Some (pre @ escape_c t @ post)" by (simp add: j_str_object [OF assms(1)])
  obtain decl where d: "strstr ''TC_PLUGIN_SCHEMA'' code = Some decl" using assms(3) by (auto simp: schema_place_def split: option.splits)
  define line where "line = before LF decl"
  define opn where "opn = length (before (CHR 0x22) line)"
  define stem where "stem = (if CHR '';'' \<in> set line then rev (tl (dropWhile (\<lambda>c. c \<noteq> CHR '';'') (rev line))) else [])"
  define stem' where "stem' = rev (dropWhile (\<lambda>c. c = SP \<or> c = TAB) (rev stem))"
  define cls where "cls = length stem'"
  have p: "opn + 1 < cls" "pre = take (length code - length decl + opn + 1) code" "raw = take (cls - 1 - opn - 1) (drop (opn + 1) decl)" "post = drop (cls - 1) decl"
    using assms(3) unfolding schema_place_def d option.case Let_def line_def [symmetric] opn_def [symmetric] stem_def [symmetric] stem'_def [symmetric] cls_def [symmetric]
    by (auto split: if_splits)
  obtain a where a: "code = a @ decl" using strstr_Some [OF d] by blast
  have "raw @ post = drop (opn + 1) decl"
  proof -
    have "cls - 1 - opn - 1 + (opn + 1) = cls - 1" using p(1) by simp
    then have "post = drop (cls - 1 - opn - 1) (drop (opn + 1) decl)" unfolding p(4) by (simp only: drop_drop)
    then show ?thesis unfolding p(3) by (simp only: append_take_drop_id)
  qed
  then have "code = pre @ raw @ post" unfolding p(2) a by simp
  with l assms(7) cjson_law(2) [OF assms(1)] unescape_escape [of t] show ?thesis by auto
qed

text \<open>
  (C25) What a tool call writes, a later call reads: when \<open>write_file\<close> reports success, \<open>read_file\<close> of the same path answers with exactly the text
  that was written, as long as it is not empty, has no null byte and fits an answer.
\<close>

theorem write_then_read_file:
  assumes "cjson_laws J" "execute_tool J e x TOOL_WRITE_FILE (CObject [(''path'', CString path), (''content'', CString content)]) sz w = Some (w1, out)"
    "\<not> starts_with ''Error'' out" "6 \<le> sz" "content \<noteq> []" "NUL \<notin> set content" "length content \<le> sz - 160" "length content \<le> 32768"
  shows "execute_tool J e' x' TOOL_READ_FILE (CObject [(''path'', CString path)]) sz w1 = Some (w1, content)"
proof -
  obtain fs' rc where a: "atomic_write (te_write e) path content (w_fs w) = (fs', rc)" by fastforce
  note k = j_str_object [OF assms(1)] j_bool_def j_int_def cjson_law(3) [OF assms(1)] strcaseeq_def tolower_def is_upper_def byte_def
  have w1: "w1 = w\<lparr>w_fs := fs', w_dirs := w_dirs w @ mkdirs_for path\<rparr>" and o: "out = buf_set sz (if rc \<noteq> 0 then ''Error: cannot write '' @ path @ '': '' @ te_errno e
       else ''Written '' @ dec_nat (length content) @ '' bytes to '' @ path)"
    using assms(2) by (auto simp: execute_tool_def write_file_tool_def k a)
  have "rc = 0"
  proof (rule ccontr)
    assume "rc \<noteq> 0"
    then have "out = buf_set sz (''Error'' @ '': cannot write '' @ path @ '': '' @ te_errno e)" using o by simp
    with error_text [OF assms(4)] assms(3) show False by metis
  qed
  with a atomic_write_ok [of "te_write e" path content "w_fs w"] have "fs' path = Some (File content)" by auto
  moreover have "\<not> (if 32768 > sz - 160 then sz - 160 else 32768) < length content" using assms(7,8) by simp
  ultimately show ?thesis
    using assms(5-8) by (simp add: execute_tool_def read_file_tool_def k w1 Let_def)
qed

section \<open>Instances\<close>

definition tool_sample :: tool_env where
  "tool_sample = \<lparr>te_now = 0, te_tz = utc, te_uid = ''u'', te_write = sample_wenv, te_append = AppendOk, te_errno = [],
     te_send = mail_env, te_spawn = (\<lambda>_. Spawned child_sample ''hello''), te_compile = (\<lambda>_ _. compile_sample ''weather''),
     te_run = (\<lambda>_ _. \<lparr>rn_pipe_fails = False, rn_fork_fails = False, rn_child = child_sample, rn_says = ''sunny''\<rparr>),
     te_exec_fs = (\<lambda>_ fs. fs(''made'' \<mapsto> File ''x'')), te_plugin_fs = (\<lambda>_ _ fs. fs), te_utimes_fails = False, te_nomem = False, te_noreport = False\<rparr>"

definition world_sample :: world where
  "world_sample = \<lparr>w_fs = Map.empty, w_agents = [], w_plugins = no_plugins ''d'', w_out = [], w_dirs = [], w_ran = []\<rparr>"

definition ctx_sample :: tool_ctx where
  "ctx_sample = \<lparr>tx_me = 0, tx_messenger = mail_box, tx_irc = sample_irc\<rparr>"

lemma child_sample_ends: "child_ends limit child_sample"
proof -
  have "limit * 1000 \<le> int (nat limit) * 1000" by simp
  then show ?thesis by (auto simp: child_ends_def child_sample_def mono_def status_ok_def intro!: exI [of _ "nat limit"])
qed

lemma tool_sample_ends: "env_ends tool_sample"
  by (auto simp: env_ends_def tool_sample_def spawn_ends_def child_sample_ends compile_sample_def)

lemma empty_cjson_laws: "cjson_laws (table_cjson [])"
  by (rule table_cjson_laws) simp_all

theorem execute_tool_defined_witness:
  "\<exists>w' out. execute_tool (table_cjson []) tool_sample ctx_sample TOOL_EXEC (CObject [(''command'', CString ''ls'')]) 256 world_sample = Some (w', out) \<and> length out < 256"
proof -
  have "tool_check_args (table_cjson []) TOOL_EXEC (CObject [(''command'', CString ''ls'')]) 256 = (CObject [(''command'', CString ''ls'')], None)"
    by (simp add: tool_check_args_def check_param_def check_text_def quote_json_def table_cjson_def strcaseeq_def tolower_def is_upper_def byte_def)
  from execute_tool_defined [OF empty_cjson_laws tool_sample_ends _ this] show ?thesis by simp
qed

lemma write_sample:
  "execute_tool (table_cjson []) tool_sample ctx_sample TOOL_WRITE_FILE (CObject [(''path'', CString ''f''), (''content'', CString ''hi'')]) 256 world_sample =
     Some (world_sample\<lparr>w_fs := (Map.empty(tmp_name sample_wenv ''f'' := None))(''f'' \<mapsto> File ''hi''), w_dirs := []\<rparr>, ''Written 2 bytes to f'')"
proof -
  note k = j_str_object [OF empty_cjson_laws] j_bool_def cjson_law(3) [OF empty_cjson_laws] strcaseeq_def tolower_def is_upper_def byte_def
  have "atomic_write sample_wenv ''f'' ''hi'' Map.empty = ((Map.empty(tmp_name sample_wenv ''f'' := None))(''f'' \<mapsto> File ''hi''), 0)" by (rule sample_write) simp
  moreover have "te_write tool_sample = sample_wenv" "w_fs world_sample = Map.empty" "w_dirs world_sample = []" by (simp_all add: tool_sample_def world_sample_def)
  moreover have "mkdirs_for ''f'' = []" by (simp add: mkdirs_for_def buf_set_def)
  moreover have "buf_set 256 (''Written '' @ dec_nat 2 @ '' bytes to '' @ ''f'') = ''Written 2 bytes to f''" by code_simp
  ultimately show ?thesis by (simp add: execute_tool_def write_file_tool_def k numeral_2_eq_2)
qed

theorem write_then_read_file_witness:
  "\<exists>w1. execute_tool (table_cjson []) tool_sample ctx_sample TOOL_WRITE_FILE (CObject [(''path'', CString ''f''), (''content'', CString ''hi'')]) 256 world_sample = Some (w1, ''Written 2 bytes to f'') \<and>
     execute_tool (table_cjson []) tool_sample ctx_sample TOOL_READ_FILE (CObject [(''path'', CString ''f'')]) 256 w1 = Some (w1, ''hi'')"
  using write_sample write_then_read_file [OF empty_cjson_laws write_sample, of tool_sample ctx_sample] by (auto simp: starts_with_def)

theorem execute_tool_frame_witness:
  "\<exists>w1 out. execute_tool (table_cjson []) tool_sample ctx_sample TOOL_WRITE_FILE (CObject [(''path'', CString ''f''), (''content'', CString ''hi'')]) 256 world_sample = Some (w1, out) \<and>
     same_agents (w_agents world_sample) (w_agents w1) \<and> w_plugins w1 = w_plugins world_sample \<and> w_out w1 = w_out world_sample"
  using write_sample execute_tool_frame [OF write_sample] by blast

definition schema_text :: string where
  "schema_text = [CHR 0x7B, CHR 0x22] @ ''a'' @ [CHR 0x22] @ '':1'' @ [CHR 0x7D]"

definition schema_code :: string where
  "schema_code = ''char *TC_PLUGIN_SCHEMA = '' @ [CHR 0x22] @ schema_text @ [CHR 0x22] @ '';'' @ [LF] @ ''int x;''"

theorem fix_schema_quotes_repairs_witness:
  "\<exists>lit. j_str (table_cjson [(CObject [(''a'', CNumber 1 1)], schema_text)]) (fix_schema_quotes (table_cjson [(CObject [(''a'', CNumber 1 1)], schema_text)]) False
      (CObject [(''code'', CString schema_code)])) ''code'' = Some (''char *TC_PLUGIN_SCHEMA = '' @ [CHR 0x22] @ lit @ [CHR 0x22] @ '';'' @ [LF] @ ''int x;'') \<and> unescape_once lit = schema_text"
proof -
  let ?J = "table_cjson [(CObject [(''a'', CNumber 1 1)], schema_text)]"
  have J: "cjson_laws ?J" by (rule table_cjson_laws) (simp_all add: schema_text_def)
  have c: "j_str ?J (CObject [(''code'', CString schema_code)]) ''code'' = Some schema_code" by (simp add: j_str_object [OF J])
  have p: "schema_place schema_code = Some (''char *TC_PLUGIN_SCHEMA = '' @ [CHR 0x22], schema_text, [CHR 0x22] @ '';'' @ [LF] @ ''int x;'')" by code_simp
  have s: "strstr [CHR 0x5C, CHR 0x22] schema_text = None" by code_simp
  have "cJSON_ParseWithOpts ?J schema_text = Some (CObject [(''a'', CNumber 1 1)])" "cJSON_PrintUnformatted ?J (CObject [(''a'', CNumber 1 1)]) = Some schema_text"
    by (simp_all add: table_cjson_def)
  from fix_schema_quotes_repairs [OF J c p _ s this] show ?thesis by (auto simp: schema_text_def)
qed

end
