(* ===== verification/Prompt.thy ===== *)
theory Prompt
  imports Tools Daemon
begin

text \<open>
  The texts of \<open>src/include/prompt.h\<close> and the part of \<open>src/agent.c\<close> that turns a trigger into the turns of a conversation: who the
  session answers to, the system prompt of an agent, and the first or next turn.

  A format string is a function of the texts it prints. The lemmas show who counts as a requester and that the first or
  next turn of a conversation is never cut. That the system prompt does not change between sessions is in \<open>Agent_Loop\<close>.
\<close>

section \<open>Texts\<close>

definition PROMPT_IDENTITY :: "string \<Rightarrow> string \<Rightarrow> string \<Rightarrow> string" where
  "PROMPT_IDENTITY a1 a2 a3 =
     ''You are '' @ a1 @ ''.'' @ [LF] @ a2 @ [LF, LF] @ a3 @ [LF]"

definition PROMPT_BUILDER_PEER :: "string" where
  "PROMPT_BUILDER_PEER =
     '' (send it only requests for a new tool; run commands and answer questions yourself)''"

definition PROMPT_HUB_ROLE :: "string" where
  "PROMPT_HUB_ROLE =
     ''## Hub Role'' @ [LF] @ ''You are the main agent. Analyse requests and delegate when needed.'' @ [LF] @ ''Do not describe what you WILL do '' @
     [CHR 0xE2, CHR 0x80, CHR 0x94] @ '' do it. '' @ ''If you delegate, call send_message immediately.'' @ [LF, LF]"

definition PROMPT_TRIGGER_HEADER :: "string \<Rightarrow> string" where
  "PROMPT_TRIGGER_HEADER a1 =
     ''## Trigger'' @ [LF] @ ''Type: '' @ a1 @ [LF, LF]"

definition PROMPT_OBJECTIVES_HEADER :: "string \<Rightarrow> string" where
  "PROMPT_OBJECTIVES_HEADER a1 =
     ''## Objectives'' @ [LF] @ a1 @ [LF]"

definition PROMPT_AGENTS_HEADER :: "string \<Rightarrow> string" where
  "PROMPT_AGENTS_HEADER a1 =
     ''## Other agents'' @ [LF] @ a1 @ [LF]"

definition PROMPT_SCHEDULE_HEADER :: "string \<Rightarrow> string" where
  "PROMPT_SCHEDULE_HEADER a1 =
     ''## Scheduled tasks'' @ [LF] @ a1 @ [LF]"

definition PROMPT_FACTS_HEADER :: "string \<Rightarrow> string" where
  "PROMPT_FACTS_HEADER a1 =
     ''## Facts'' @ [LF] @ a1 @ [LF]"

definition PROMPT_MEMORIES_HEADER :: "string \<Rightarrow> string" where
  "PROMPT_MEMORIES_HEADER a1 =
     ''## Recent memories'' @ [LF] @ a1 @ [LF]"

definition PROMPT_CHAT_HEADER :: "string \<Rightarrow> string" where
  "PROMPT_CHAT_HEADER a1 =
     ''## On the channel (oldest first)'' @ [LF] @ a1 @ [LF]"

definition PROMPT_RULES :: "string" where
  "PROMPT_RULES =
     ''## Rules'' @ [LF] @ ''1. Be concise. Finish quickly if nothing to do.'' @ [LF] @ ''2. No spending without authorisation.'' @ [LF] @
     ''3. ALWAYS show the result of a tool call to the user. '' @ ''Never call a tool and end your turn without reporting '' @
     ''the result in your reply.'' @ [LF] @ ''4. If a tool returns an error, empty output, or '' @ [CHR 0x22] @ ''[empty output]'' @ [CHR 0x22] @
     '', report it as-is.'' @ [LF] @ ''5. Never invent an expected result or fabricate missing output.'' @ [LF, LF]"

definition PROMPT_NOW :: "string \<Rightarrow> string" where
  "PROMPT_NOW a1 =
     ''## Now'' @ [LF] @ a1 @ [LF, LF]"

definition PROMPT_NONE :: "string" where
  "PROMPT_NONE =
     ''None.'' @ [LF]"

definition PROMPT_EMPTY_TRIGGER :: "string" where
  "PROMPT_EMPTY_TRIGGER =
     ''(empty message)''"

definition PROMPT_TASK_DUE :: "string \<Rightarrow> string" where
  "PROMPT_TASK_DUE a1 =
     ''It is time for a task you scheduled earlier: '' @ a1 @ [LF] @ ''Do it now (for a reminder: remind the owner in text). '' @
     ''It must not be scheduled again.''"

definition PROMPT_MESSAGE_FROM :: "string \<Rightarrow> string \<Rightarrow> string" where
  "PROMPT_MESSAGE_FROM a1 a2 =
     ''Message from '' @ a1 @ '':'' @ [LF] @ a2"

definition PROMPT_REPLY_FROM :: "string \<Rightarrow> string \<Rightarrow> string" where
  "PROMPT_REPLY_FROM a1 a2 =
     ''Answer from '' @ a1 @ '':'' @ [LF] @ a2"

definition PROMPT_COMM_AGENT_MSG :: "string" where
  "PROMPT_COMM_AGENT_MSG =
     ''## Communication (request from another agent)'' @ [LF] @ ''Another agent asked you something. Do it, then answer in text: '' @
     ''your final text reply is sent back to it automatically.'' @ [LF] @ ''- Use send_message only to involve a third agent.'' @ [LF] @
     ''- NEVER send acknowledgments like '' @ [CHR 0x22] @ ''OK'' @ [CHR 0x22] @ '', '' @ [CHR 0x22] @ ''Received'' @ [CHR 0x22] @ '', '' @ [CHR 0x22] @
     ''Done'' @ [CHR 0x22] @ ''. '' @ ''These trigger unnecessary work.'' @ [LF, LF]"

definition PROMPT_COMM_AGENT_REPLY :: "string" where
  "PROMPT_COMM_AGENT_REPLY =
     ''## Communication (answer from another agent)'' @ [LF] @ ''This answers a request you sent earlier. Give the owner the result '' @
     ''in text, then stop.'' @ [LF] @ ''- Do NOT reply to that agent or thank it.'' @ [LF, LF]"

definition PROMPT_COMM_DIRECT :: "string" where
  "PROMPT_COMM_DIRECT =
     ''## Communication'' @ [LF] @ ''To REPLY TO THE OWNER: respond directly in text.'' @ [LF] @ ''To contact ANOTHER AGENT: use send_message.'' @ [LF] @
     ''Do NOT use send_message(to='' @ [CHR 0x27] @ ''owner'' @ [CHR 0x27] @ '') '' @ [CHR 0xE2, CHR 0x80, CHR 0x94] @ '' it is redundant.'' @ [LF, LF]"

definition PROMPT_IRC_FORMAT :: "string" where
  "PROMPT_IRC_FORMAT =
     ''## IRC Output Format'' @ [LF] @ ''You are an IRC assistant. Your text reply is relayed to a chat channel.'' @ [LF] @
     ''Hard rule: fit your answer on ONE short line whenever possible '' @ ''(<= 200 chars, no newline).'' @ [LF] @
     ''- No bullet lists, no headings, no markdown, no code blocks.'' @ [LF] @ ''- One concise sentence beats a paragraph.'' @ [LF] @
     ''- If the answer truly needs more, split into the fewest possible '' @ ''short lines (each still standalone).'' @ [LF] @
     ''- Drop greetings, sign-offs, and '' @ [CHR 0x27] @ ''let me know if...'' @ [CHR 0x27] @ '' filler.'' @ [LF, LF]"

definition PROMPT_BUILDER_RULES :: "string \<Rightarrow> string" where
  "PROMPT_BUILDER_RULES a1 =
     ''## Builder Workflow'' @ [LF] @ ''- The template below contains signatures and examples.'' @ [LF] @
     ''- Do NOT call read_file for _template.c or tc_plugin.h.'' @ [LF] @ ''- Read a similar existing plugin if useful.'' @ [LF] @
     ''- Once a file has been read in this session, do not re-read it.'' @ [LF] @ ''- To read local files, prefer read_file over exec(cat ...).'' @ [LF] @
     ''- Write a single C file with #include '' @ [CHR 0x22] @ ''tc_plugin.h'' @ [CHR 0x22] @ '', '' @
     ''TC_PLUGIN_NAME, TC_PLUGIN_DESC, TC_PLUGIN_SCHEMA and '' @ ''tc_execute(const char *input_json).'' @ [LF] @
     ''- Use only the functions listed in the template. '' @ ''No libc, no system headers.'' @ [LF] @
     ''- Never simulate, mock or hard-code results: fetch real data with '' @ ''tc_http_get from a public API that needs no key (e.g. '' @
     ''https://wttr.in/<city>?format=3 for weather, '' @ ''https://api.frankfurter.dev/v1/latest?from=EUR for currency rates). '' @
     ''If no such API exists, say so.'' @ [LF] @ ''- If compilation fails, fix the code and retry.'' @ [LF] @
     ''- Pass test_input to create_plugin to see your plugin run.'' @ [LF] @ ''- Do not describe your next step: call create_plugin.'' @ [LF] @
     ''- When done, answer in text with the plugin name and its '' @ ''parameters: the answer goes to whoever asked.'' @ [LF] @ [LF] @
     ''## Plugin template'' @ [LF, CHR 0x60, CHR 0x60, CHR 0x60] @ ''c'' @ [LF] @ a1 @ [CHR 0x60, CHR 0x60, CHR 0x60, LF, LF]"

definition PROMPT_BUILDER_NUDGE :: "string" where
  "PROMPT_BUILDER_NUDGE =
     ''Do not narrate. Call create_plugin now with the complete, '' @ ''corrected code, or say in one sentence why you cannot.''"

definition PROMPT_BUILDER_AUTO_FAIL :: "string \<Rightarrow> string" where
  "PROMPT_BUILDER_AUTO_FAIL a1 =
     ''Auto-compilation failed:'' @ [LF] @ take 3000 a1 @ [LF] @ ''Call create_plugin with corrected code.''"

definition PROMPT_HUB_NUDGE :: "string" where
  "PROMPT_HUB_NUDGE =
     ''You called list_agents but did not call send_message. '' @ ''Do not narrate '' @ [CHR 0xE2, CHR 0x80, CHR 0x94] @
     '' call send_message now to delegate.''"

definition PROMPT_EMPTY_NUDGE :: "string" where
  "PROMPT_EMPTY_NUDGE =
     ''Your last reply was empty. Reply in text, or call a tool.''"

definition PROMPT_BAD_ARGS :: "string \<Rightarrow> string" where
  "PROMPT_BAD_ARGS a1 =
     ''Error: the arguments of '' @ a1 @ '' are not a valid JSON object. '' @ ''Call it again with a JSON object that matches its schema.''"

definition PROMPT_UNKNOWN_TOOL :: "string \<Rightarrow> string" where
  "PROMPT_UNKNOWN_TOOL a1 =
     ''Error: unknown tool '' @ [CHR 0x27] @ a1 @ [CHR 0x27] @ ''. Available tools:''"

definition PROMPT_REPEAT_CALL :: "string \<Rightarrow> string" where
  "PROMPT_REPEAT_CALL a1 =
     ''Error: '' @ a1 @ '' was already called with these exact arguments. '' @ ''Use the earlier result, or do something else.''"

definition PROMPT_ELIDED :: "string \<Rightarrow> string" where
  "PROMPT_ELIDED a1 =
     [LF] @ ''[... '' @ a1 @ '' bytes of old tool output removed to fit the context budget]''"

definition PROMPT_LLM_ERROR :: "string \<Rightarrow> string" where
  "PROMPT_LLM_ERROR a1 =
     ''(LLM error: '' @ a1 @ '')''"

definition PROMPT_NO_ANSWER :: "string \<Rightarrow> string" where
  "PROMPT_NO_ANSWER a1 =
     ''('' @ a1 @ '' finished without an answer)''"

definition PROMPT_FAILED_ANSWER :: "string \<Rightarrow> string" where
  "PROMPT_FAILED_ANSWER a1 =
     ''('' @ a1 @ '' could not finish the request)''"

definition PROMPT_REFUSED :: "string" where
  "PROMPT_REFUSED =
     ''(the model declined to answer)''"

definition PROMPT_STUCK :: "string" where
  "PROMPT_STUCK =
     ''(stopped: the model kept repeating the same tool call)''"

definition PROMPT_MAX_TURNS :: "string \<Rightarrow> string" where
  "PROMPT_MAX_TURNS a1 =
     ''(stopped after '' @ a1 @ '' turns without finishing)''"

definition PROMPT_SYSTEM_FMT :: "string \<Rightarrow> string \<Rightarrow> string \<Rightarrow> string \<Rightarrow> string \<Rightarrow> string \<Rightarrow> string \<Rightarrow> string" where
  "PROMPT_SYSTEM_FMT a1 a2 a3 a4 a5 a6 a7 =
     PROMPT_IDENTITY a1 a2 a3 @ a4 @ a5 @ PROMPT_OBJECTIVES_HEADER a6 @ PROMPT_AGENTS_HEADER a7 @ PROMPT_RULES"

definition PROMPT_FIRST_TURN_FMT where
  "PROMPT_FIRST_TURN_FMT a1 a2 a3 a4 a5 a6 a7 a8 a9 =
     PROMPT_TRIGGER_HEADER a1 @ a2 @ a3 @ PROMPT_FACTS_HEADER a4 @ PROMPT_SCHEDULE_HEADER a5 @ PROMPT_MEMORIES_HEADER a6 @ a7 @ PROMPT_NOW a8 @
     ''## Message'' @ [LF] @ a9"

definition PROMPT_NEXT_TURN_FMT :: "string \<Rightarrow> string \<Rightarrow> string \<Rightarrow> string \<Rightarrow> string \<Rightarrow> string" where
  "PROMPT_NEXT_TURN_FMT a1 a2 a3 a4 a5 =
     PROMPT_TRIGGER_HEADER a1 @ a2 @ a3 @ PROMPT_NOW a4 @ ''## Message'' @ [LF] @ a5"

section \<open>The trigger\<close>

fun trigger_type_str :: "trigger_type \<Rightarrow> string" where
  "trigger_type_str TRIG_IRC = ''irc''"
| "trigger_type_str TRIG_SCHEDULE = ''schedule''"
| "trigger_type_str TRIG_AGENT_MSG = ''agent_message''"

record trigger_info =
  ti_requesters :: "string list"
  ti_reply_batch :: bool
  ti_relay :: bool

definition is_true :: "cjson option \<Rightarrow> bool" where
  "is_true v \<longleftrightarrow> v = Some (CBool True)"

text \<open>One message of the batch. The name is compared before it is cut to the size of its field.\<close>

definition add_requester :: "cjson_api \<Rightarrow> cjson \<Rightarrow> string list \<Rightarrow> string list" where
  "add_requester J m rs =
     (case j_str J m ''from'' of
        None \<Rightarrow> rs
      | Some from \<Rightarrow>
          if is_true (cJSON_GetObjectItem J m ''reply'') \<or> from \<in> set rs \<or> length rs \<ge> 16 then rs
          else rs @ [buf_set 32 from])"

definition parse_trigger :: "cjson_api \<Rightarrow> trigger_type \<Rightarrow> string \<Rightarrow> trigger_info" where
  "parse_trigger J ty data =
     (if ty \<noteq> TRIG_AGENT_MSG then \<lparr>ti_requesters = [], ti_reply_batch = False, ti_relay = True\<rparr>
      else let rs = fold (add_requester J) (case cJSON_Parse J data of Some v \<Rightarrow> array_items v | None \<Rightarrow> []) []
           in \<lparr>ti_requesters = rs, ti_reply_batch = (rs = []), ti_relay = (rs = [])\<rparr>)"

text \<open>One task or message as text, after what is there already.\<close>

definition render_item :: "cjson_api \<Rightarrow> trigger_type \<Rightarrow> nat \<Rightarrow> cjson \<Rightarrow> string \<Rightarrow> string" where
  "render_item J ty cap it out =
     (let o1 = (if out \<noteq> [] then buf_appendf cap out [LF, LF] else out)
      in if ty = TRIG_SCHEDULE
         then let o2 = buf_appendf cap o1 (PROMPT_TASK_DUE (or_empty (j_str J it ''description'')))
              in (case j_str J it ''prompt'' of
                    Some p \<Rightarrow> if p \<noteq> [] then buf_appendf cap o2 ([LF] @ ''Instructions: '' @ p) else o2
                  | None \<Rightarrow> o2)
         else let from = (case j_str J it ''from'' of Some f \<Rightarrow> f | None \<Rightarrow> ''?''); content = or_empty (j_str J it ''content'')
              in buf_appendf cap o1 (if is_true (cJSON_GetObjectItem J it ''reply'') then PROMPT_REPLY_FROM from content else PROMPT_MESSAGE_FROM from content))"

text \<open>\<open>nomem\<close>: the buffer cannot be allocated.\<close>

definition render_trigger :: "cjson_api \<Rightarrow> bool \<Rightarrow> trigger_type \<Rightarrow> string \<Rightarrow> string" where
  "render_trigger J nomem ty data =
     (if data = [] then PROMPT_EMPTY_TRIGGER
      else case (if ty = TRIG_IRC then None else cJSON_Parse J data) of
             Some (CArray items) \<Rightarrow>
               if nomem then data
               else fold (render_item J ty (length data + 256 * (length items + 1))) items []
           | _ \<Rightarrow> data)"

section \<open>Prompts\<close>

definition peer_lines :: "tool_ctx \<Rightarrow> world \<Rightarrow> string" where
  "peer_lines x w =
     fold (\<lambda>(i, p) b. if i = tx_me x then b
                      else buf_appendf 4096 b (''- '' @ a_name p @ (if a_specialty p \<noteq> [] then DASH else []) @ a_specialty p @
                                               (if a_is_builder p then PROMPT_BUILDER_PEER else []) @ [LF]))
       (enumerate 0 (peers x w)) []"

definition objective_lines :: "agent_ctx \<Rightarrow> string" where
  "objective_lines a = fold (\<lambda>g b. buf_appendf 4096 b (''- '' @ g @ [LF])) (a_objectives a) []"

definition or_none :: "string \<Rightarrow> string" where
  "or_none s = (if s \<noteq> [] then s else PROMPT_NONE)"

definition build_system_prompt :: "tool_ctx \<Rightarrow> world \<Rightarrow> nat \<Rightarrow> string" where
  "build_system_prompt x w sz =
     (let a = me x w;
          rules = (if a_is_builder a
                   then buf_set 8192 (PROMPT_BUILDER_RULES
                     (case file_slurp (w_fs w) ''plugins/_template.c'' of Slurped t \<Rightarrow> cstr t | _ \<Rightarrow> ''/* template unavailable */''))
                   else [])
      in buf_set sz (PROMPT_SYSTEM_FMT (a_name a) (a_personality a) (a_prompt_extra a) (if a_is_hub a then PROMPT_HUB_ROLE else []) rules
           (or_none (objective_lines a)) (or_none (peer_lines x w))))"

definition format_now :: "tzone \<Rightarrow> time \<Rightarrow> nat \<Rightarrow> string" where
  "format_now tz t sz =
     (let u = format_time tz t False 32; l = format_time tz t True 32
      in buf_set sz (if starts_with l u then u else l @ '' local time (UTC: '' @ u @ '')''))"

definition comm_rules :: "trigger_type \<Rightarrow> trigger_info \<Rightarrow> string" where
  "comm_rules ty trig = (if ty \<noteq> TRIG_AGENT_MSG then PROMPT_COMM_DIRECT else if ti_reply_batch trig then PROMPT_COMM_AGENT_REPLY else PROMPT_COMM_AGENT_MSG)"

text \<open>
  The first turn: \<open>nomem i\<close> says which of the allocations fail (0: the message, 1: the memories, 2: the turn). Reading the memories fills
  their cache, so the world changes.
\<close>

definition build_first_turn :: "cjson_api \<Rightarrow> (nat \<Rightarrow> bool) \<Rightarrow> tool_env \<Rightarrow> tool_ctx \<Rightarrow> trigger_type \<Rightarrow> trigger_info \<Rightarrow> string \<Rightarrow> string \<Rightarrow> world \<Rightarrow> world \<times> string option" where
  "build_first_turn J nomem e x ty trig data chan w =
     (let message = render_trigger J (nomem 0) ty data;
          cap = length message + length chan + 32768 + 3 * 4096
      in if nomem 1 \<or> nomem 2 then (w, None)
         else let (m, memories) = memory_search J None 15 32768 (w_fs w) (a_memory (me x w));
                  w1 = set_memory (tx_me x) m w;
                  tasks = sched_list J (te_tz e) (a_scheduler (me x w)) 4096 (w_fs w);
                  facts = facts_get J m (Some []) 4096 (w_fs w)
              in (w1, Some (buf_set cap (PROMPT_FIRST_TURN_FMT (trigger_type_str ty) (comm_rules ty trig) (if ti_relay trig then PROMPT_IRC_FORMAT else [])
                        (or_none facts) (or_none tasks) (or_none memories) chan (format_now (te_tz e) (te_now e) 96) message))))"

definition build_next_turn :: "cjson_api \<Rightarrow> (nat \<Rightarrow> bool) \<Rightarrow> tool_env \<Rightarrow> trigger_type \<Rightarrow> trigger_info \<Rightarrow> string \<Rightarrow> string \<Rightarrow> string option" where
  "build_next_turn J nomem e ty trig data chan =
     (let message = render_trigger J (nomem 0) ty data; cap = length message + length chan + 4096
      in if nomem 2 then None
         else Some (buf_set cap (PROMPT_NEXT_TURN_FMT (trigger_type_str ty) (comm_rules ty trig) chan (format_now (te_tz e) (te_now e) 96) message)))"

section \<open>Who is answered\<close>

text \<open>The senders of the requests in a batch of messages: answers to earlier requests do not count.\<close>

definition senders :: "cjson_api \<Rightarrow> cjson list \<Rightarrow> string list" where
  "senders J ms = List.map_filter (\<lambda>m. if is_true (cJSON_GetObjectItem J m ''reply'') then None else j_str J m ''from'') ms"

lemma add_requesters:
  assumes "\<forall>s \<in> set (senders J ms). length s < 32" "distinct rs" "length rs \<le> 16"
  shows "distinct (fold (add_requester J) ms rs) \<and> length (fold (add_requester J) ms rs) \<le> 16 \<and>
    set (fold (add_requester J) ms rs) \<subseteq> set rs \<union> set (senders J ms) \<and>
    (length (fold (add_requester J) ms rs) < 16 \<longrightarrow> set rs \<union> set (senders J ms) \<subseteq> set (fold (add_requester J) ms rs))"
  using assms
proof (induction ms arbitrary: rs)
  case (Cons m ms)
  have p: "\<forall>s \<in> set (senders J ms). length s < 32" using Cons.prems(1) by (auto simp: senders_def map_filter_simps split: option.splits)
  define rs' where "rs' = add_requester J m rs"
  show ?case
  proof (cases "is_true (cJSON_GetObjectItem J m ''reply'') \<or> j_str J m ''from'' = None")
    case True
    then have "rs' = rs" "senders J (m # ms) = senders J ms" by (auto simp: rs'_def add_requester_def senders_def map_filter_simps split: option.split)
    then show ?thesis using Cons.IH [OF p Cons.prems(2,3)] by (simp add: rs'_def)
  next
    case False
    then obtain s where s: "j_str J m ''from'' = Some s" "\<not> is_true (cJSON_GetObjectItem J m ''reply'')" by auto
    then have sd: "senders J (m # ms) = s # senders J ms" by (simp add: senders_def map_filter_simps)
    then have "buf_set 32 s = s" using Cons.prems(1) by (simp add: buf_set_def)
    with s have r: "rs' = (if s \<in> set rs \<or> length rs \<ge> 16 then rs else rs @ [s])" by (simp add: rs'_def add_requester_def)
    then have d: "distinct rs'" "length rs' \<le> 16" using Cons.prems by auto
    have g: "length rs \<le> length (fold (add_requester J) ms rs)" for rs
    proof (induction ms arbitrary: rs)
      case (Cons a ms)
      have "length rs \<le> length (add_requester J a rs)" by (auto simp: add_requester_def split: option.split)
      with Cons.IH [of "add_requester J a rs"] show ?case by simp
    qed simp
    show ?thesis
      using Cons.IH [OF p d] r g [of rs'] unfolding sd by (auto simp: rs'_def [symmetric] split: if_splits)
  qed
qed (simp add: senders_def map_filter_simps)

text \<open>
  (C21) Who a session answers to: of a batch of messages, the session owes an answer to the senders of requests, each once and at most sixteen of
  them, to all of them if they are fewer; an answer to an earlier request never asks for an answer, so two agents cannot answer each
  other for ever, and exactly when nobody asks, the text of the session goes to the owner.
\<close>

theorem parse_trigger_requesters:
  assumes "cJSON_Parse J data = Some (CArray ms)" "\<forall>s \<in> set (senders J ms). length s < 32"
  shows "let t = parse_trigger J TRIG_AGENT_MSG data
    in distinct (ti_requesters t) \<and> length (ti_requesters t) \<le> 16 \<and> set (ti_requesters t) \<subseteq> set (senders J ms) \<and>
       (length (ti_requesters t) < 16 \<longrightarrow> set (ti_requesters t) = set (senders J ms)) \<and>
       (ti_relay t \<longleftrightarrow> ti_requesters t = []) \<and> (ti_reply_batch t \<longleftrightarrow> ti_requesters t = [])"
  using add_requesters [OF assms(2), of "[]"] by (auto simp: parse_trigger_def assms(1) Let_def array_items_def)

section \<open>The turns are never cut\<close>

lemma trigger_type_str_length: "length (trigger_type_str ty) \<le> 13"
  by (cases ty) simp_all

lemma comm_rules_length: "length (comm_rules ty trig) \<le> 700"
  by (simp add: comm_rules_def PROMPT_COMM_DIRECT_def PROMPT_COMM_AGENT_REPLY_def PROMPT_COMM_AGENT_MSG_def)

lemma format_now_length: "length (format_now tz t 96) < 96"
  by (simp add: format_now_def Let_def length_buf_set_less)

lemma or_none_length: "length s < n \<Longrightarrow> 7 \<le> n \<Longrightarrow> length (or_none s) < n"
  by (simp add: or_none_def PROMPT_NONE_def)

lemma header_lengths:
  "length (PROMPT_TRIGGER_HEADER a) = length a + 19" "length (PROMPT_FACTS_HEADER a) = length a + 10" "length (PROMPT_SCHEDULE_HEADER a) = length a + 20"
  "length (PROMPT_MEMORIES_HEADER a) = length a + 20" "length (PROMPT_NOW a) = length a + 9"
  by (simp_all add: PROMPT_TRIGGER_HEADER_def PROMPT_FACTS_HEADER_def PROMPT_SCHEDULE_HEADER_def PROMPT_MEMORIES_HEADER_def PROMPT_NOW_def)

lemma irc_format_length: "length PROMPT_IRC_FORMAT \<le> 700"
  by (simp add: PROMPT_IRC_FORMAT_def)

lemma buf_set_all: "length s < n \<Longrightarrow> buf_set n s = s"
  by (simp add: buf_set_def)

lemmas turn_lengths = header_lengths trigger_type_str_length comm_rules_length irc_format_length format_now_length

lemma next_turn_fits:
  "build_next_turn J nomem e ty trig data chan = Some t \<Longrightarrow>
     t = PROMPT_NEXT_TURN_FMT (trigger_type_str ty) (comm_rules ty trig) chan (format_now (te_tz e) (te_now e) 96) (render_trigger J (nomem 0) ty data)"
proof -
  assume a: "build_next_turn J nomem e ty trig data chan = Some t"
  define m where "m = render_trigger J (nomem 0) ty data"
  define tx where "tx = PROMPT_NEXT_TURN_FMT (trigger_type_str ty) (comm_rules ty trig) chan (format_now (te_tz e) (te_now e) 96) m"
  have "length tx < length m + length chan + 4096"
    using trigger_type_str_length [of ty] comm_rules_length [of ty trig] format_now_length [of "te_tz e" "te_now e"]
    by (simp add: tx_def PROMPT_NEXT_TURN_FMT_def header_lengths)
  then show ?thesis using a by (auto simp: build_next_turn_def Let_def buf_set_all m_def tx_def split: if_splits)
qed

lemma first_turn_fits:
  fixes J e x w
  defines "mem \<equiv> memory_search J None 15 32768 (w_fs w) (a_memory (me x w))"
  assumes "build_first_turn J nomem e x ty trig data chan w = (w', Some t)"
  shows "t = PROMPT_FIRST_TURN_FMT (trigger_type_str ty) (comm_rules ty trig) (if ti_relay trig then PROMPT_IRC_FORMAT else [])
    (or_none (facts_get J (fst mem) (Some []) 4096 (w_fs w))) (or_none (sched_list J (te_tz e) (a_scheduler (me x w)) 4096 (w_fs w)))
    (or_none (snd mem)) chan (format_now (te_tz e) (te_now e) 96) (render_trigger J (nomem 0) ty data)"
proof -
  define m where "m = render_trigger J (nomem 0) ty data"
  define tasks where "tasks = or_none (sched_list J (te_tz e) (a_scheduler (me x w)) 4096 (w_fs w))"
  define facts where "facts = or_none (facts_get J (fst mem) (Some []) 4096 (w_fs w))"
  define memories where "memories = or_none (snd mem)"
  define tx where "tx = PROMPT_FIRST_TURN_FMT (trigger_type_str ty) (comm_rules ty trig) (if ti_relay trig then PROMPT_IRC_FORMAT else [])
    facts tasks memories chan (format_now (te_tz e) (te_now e) 96) m"
  have "length memories < 32768" unfolding memories_def mem_def by (rule or_none_length [OF memory_search_bound]) simp_all
  moreover have "length facts < 4096" unfolding facts_def by (rule or_none_length [OF facts_get_bound]) simp_all
  moreover have "length tasks < 4096" unfolding tasks_def by (rule or_none_length [OF sched_list_bound]) simp_all
  moreover have "length (if ti_relay trig then PROMPT_IRC_FORMAT else []) \<le> 700" using irc_format_length by simp
  ultimately have l: "length tx < length m + length chan + 32768 + 3 * 4096"
    using trigger_type_str_length [of ty] comm_rules_length [of ty trig] format_now_length [of "te_tz e" "te_now e"]
    unfolding tx_def PROMPT_FIRST_TURN_FMT_def length_append header_lengths by simp
  have "t = buf_set (length m + length chan + 32768 + 3 * 4096) tx"
    using assms(2) unfolding build_first_turn_def Let_def m_def [symmetric] mem_def [symmetric]
    by (simp add: case_prod_unfold tx_def tasks_def facts_def memories_def split: if_splits)
  then have "t = tx" using buf_set_all [OF l] by simp
  then show ?thesis unfolding tx_def m_def facts_def tasks_def memories_def .
qed

lemma first_turn_given:
  "snd (build_first_turn J nomem e x ty trig data chan w) = None \<longleftrightarrow> nomem 1 \<or> nomem 2"
  by (simp add: build_first_turn_def Let_def case_prod_unfold)

text \<open>
  (C20) The turns that open a session are built from all of their parts, none cut, unless memory for them is exhausted. The first turn holds, in this
  order: what started the session, the rules for answering, the format of the channel when the text goes there, the facts, the scheduled tasks and the
  memories as \<open>facts_get\<close>, \<open>sched_list\<close> and \<open>memory_search\<close> write them (\<open>PROMPT_NONE\<close> for none), the lines of the channel, the time and the
  rendered message of the trigger. Every further turn holds the same without the format, the facts, the tasks and the memories.
\<close>

theorem opening_turn_uncut:
  "let mem = memory_search J None 15 32768 (w_fs w) (a_memory (me x w)) in
    snd (build_first_turn J nomem e x ty trig data chan w) = (if nomem 1 \<or> nomem 2 then None else
      Some (PROMPT_TRIGGER_HEADER (trigger_type_str ty) @ comm_rules ty trig @ (if ti_relay trig then PROMPT_IRC_FORMAT else []) @
        PROMPT_FACTS_HEADER (or_none (facts_get J (fst mem) (Some []) 4096 (w_fs w))) @
        PROMPT_SCHEDULE_HEADER (or_none (sched_list J (te_tz e) (a_scheduler (me x w)) 4096 (w_fs w))) @
        PROMPT_MEMORIES_HEADER (or_none (snd mem)) @ chan @ PROMPT_NOW (format_now (te_tz e) (te_now e) 96) @
        ''## Message'' @ [LF] @ render_trigger J (nomem 0) ty data)) \<and>
    build_next_turn J nomem e ty trig data chan = (if nomem 2 then None else
      Some (PROMPT_TRIGGER_HEADER (trigger_type_str ty) @ comm_rules ty trig @ chan @ PROMPT_NOW (format_now (te_tz e) (te_now e) 96) @
        ''## Message'' @ [LF] @ render_trigger J (nomem 0) ty data))"
  unfolding Let_def
proof (intro conjI, goal_cases)
  case 1
  define mem where "mem = memory_search J None 15 32768 (w_fs w) (a_memory (me x w))"
  show ?case
  proof (cases "snd (build_first_turn J nomem e x ty trig data chan w)")
    case None
    then show ?thesis using first_turn_given by auto
  next
    case (Some t)
    then have "build_first_turn J nomem e x ty trig data chan w = (fst (build_first_turn J nomem e x ty trig data chan w), Some t)"
      by (simp add: prod_eq_iff)
    from first_turn_fits [OF this] have t: "t = PROMPT_FIRST_TURN_FMT (trigger_type_str ty) (comm_rules ty trig) (if ti_relay trig then PROMPT_IRC_FORMAT else [])
      (or_none (facts_get J (fst mem) (Some []) 4096 (w_fs w))) (or_none (sched_list J (te_tz e) (a_scheduler (me x w)) 4096 (w_fs w)))
      (or_none (snd mem)) chan (format_now (te_tz e) (te_now e) 96) (render_trigger J (nomem 0) ty data)" unfolding mem_def .
    have "\<not> (nomem 1 \<or> nomem 2)" using Some first_turn_given by (metis option.distinct(1))
    then show ?thesis unfolding Some t PROMPT_FIRST_TURN_FMT_def mem_def by (simp only: if_False)
  qed
next
  case 2
  show ?case
  proof (cases "build_next_turn J nomem e ty trig data chan")
    case None
    then show ?thesis by (simp add: build_next_turn_def Let_def split: if_splits)
  next
    case (Some t)
    then have "\<not> nomem 2" by (auto simp: build_next_turn_def Let_def)
    then show ?thesis using next_turn_fits [OF Some] unfolding Some PROMPT_NEXT_TURN_FMT_def by (simp only: if_False)
  qed
qed

definition batch_sample :: "cjson list" where
  "batch_sample = [CObject [(''from'', CString ''ann'')], CObject [(''from'', CString ''bob''), (''reply'', CBool True)], CObject [(''from'', CString ''ann'')]]"

theorem parse_trigger_requesters_witness:
  "cJSON_Parse (table_cjson [(CArray batch_sample, ''b'')]) ''b'' = Some (CArray batch_sample) \<and>
     set (ti_requesters (parse_trigger (table_cjson [(CArray batch_sample, ''b'')]) TRIG_AGENT_MSG ''b'')) \<subseteq> {''ann''}"
proof -
  let ?J = "table_cjson [(CArray batch_sample, ''b'')]"
  have p: "cJSON_Parse ?J ''b'' = Some (CArray batch_sample)" by (simp add: table_cjson_def)
  have k: "\<not> strcaseeq ''from'' ''reply''" by (simp add: strcaseeq_def tolower_def is_upper_def byte_def)
  have s: "senders ?J batch_sample = [''ann'', ''ann'']"
    by (simp add: senders_def batch_sample_def table_cjson_def map_filter_simps is_true_def j_str_def k)
  show ?thesis using parse_trigger_requesters [OF p] p s by (simp add: Let_def)
qed

end
