(* ===== verification/Http.thy ===== *)
theory Http
  imports Util
begin

text \<open>
  \<open>src/http.c\<close>: the HTTP client. TLS (BearSSL) and the sockets are the environment of a
  request (\<open>henv\<close>): whether the connection and the handshake succeed, whether the request could
  be written, what the peer sends in which pieces, whether a wait timed out. The per-thread
  settings are a record. Requests return the settings, the response and the request that went
  out.

  The lemmas show that no URL, header or content type can add a line to a request, that a
  chunked body is decoded to what the peer encoded, that the response buffer holds the
  received bytes up to its limit, that header look-up and URL parsing invert the printed
  forms, and that extra headers reach only the first host of a redirected request.
\<close>

datatype http_err = HTTP_ERR_CONNECT | HTTP_ERR_TLS | HTTP_ERR_PROTO | HTTP_ERR_REQUEST
  | HTTP_ERR_NOMEM | HTTP_ERR_TIMEOUT

fun err_code :: "http_err \<Rightarrow> int" where
  "err_code HTTP_ERR_CONNECT = -1"
| "err_code HTTP_ERR_TLS = -2"
| "err_code HTTP_ERR_PROTO = -3"
| "err_code HTTP_ERR_REQUEST = -4"
| "err_code HTTP_ERR_NOMEM = -5"
| "err_code HTTP_ERR_TIMEOUT = -6"

record http_response =
  status :: int
  body :: "string option"
  retry_after :: int
  location :: string

record http_tls =
  extra_hdrs :: "(string \<times> string) list"
  req_timeout :: int

record henv =
  net_ok :: bool
  tls_start_ok :: bool
  sent_ok :: bool
  rx :: "string list"
  timed_out :: bool
  tls_err :: bool

record http_req =
  hr_host :: string
  hr_port :: int
  hr_tls :: bool
  hr_head :: string
  hr_body :: string

section \<open>Settings\<close>

definition is_ctl :: "char \<Rightarrow> bool" where
  "is_ctl c \<longleftrightarrow> byte c < 32 \<or> byte c = 127"

definition has_ctl :: "string \<Rightarrow> bool" where
  "has_ctl s \<longleftrightarrow> list_ex is_ctl s"

definition http_set_header :: "string option \<Rightarrow> string option \<Rightarrow> http_tls \<Rightarrow> http_tls" where
  "http_set_header name val st =
     (if name = None \<or> the name = [] then st\<lparr>extra_hdrs := []\<rparr>
      else if length (extra_hdrs st) \<ge> 4 then st
      else st\<lparr>extra_hdrs := extra_hdrs st @
                [(buf_set 128 (the name), buf_set 512 (case val of Some v \<Rightarrow> v | None \<Rightarrow> []))]\<rparr>)"

definition http_set_timeout :: "int \<Rightarrow> http_tls \<Rightarrow> http_tls" where
  "http_set_timeout seconds st = st\<lparr>req_timeout := (if seconds > 0 then seconds else 0)\<rparr>"

definition http_strerror :: "int \<Rightarrow> string" where
  "http_strerror st =
     (if st = err_code HTTP_ERR_CONNECT then ''cannot connect''
      else if st = err_code HTTP_ERR_TLS then ''TLS handshake failed''
      else if st = err_code HTTP_ERR_PROTO then ''no valid HTTP response''
      else if st = err_code HTTP_ERR_REQUEST then ''invalid URL or header''
      else if st = err_code HTTP_ERR_NOMEM then ''out of memory''
      else if st = err_code HTTP_ERR_TIMEOUT then ''timed out''
      else ''HTTP error'')"

section \<open>URLs\<close>

definition scheme_split :: "string \<Rightarrow> bool \<times> string" where
  "scheme_split url =
     (if starts_with ''https://'' url then (True, drop 8 url)
      else if starts_with ''http://'' url then (False, drop 7 url) else (False, url))"

definition authority :: "string \<Rightarrow> string" where
  "authority u = takeWhile (\<lambda>c. c \<notin> set ''/?#'') u"

text \<open>The host and, when there is one, what follows the colon, up to the end of the URL.\<close>

definition host_port :: "string \<Rightarrow> (string \<times> string option) option" where
  "host_port u =
     (let a = authority u
      in if u \<noteq> [] \<and> hd u = CHR ''['' then
           (case strchr (CHR '']'') a of
              None \<Rightarrow> None
            | Some r \<Rightarrow>
                let i = length a - length r
                in if i + 1 < length a
                   then if u ! (i + 1) \<noteq> CHR '':'' then None
                        else Some (tl (take i u), Some (drop (i + 2) u))
                   else Some (tl (take i u), None))
         else if CHR '':'' \<in> set a
         then let i = length (before (CHR '':'') a) in Some (take i u, Some (drop (i + 1) u))
         else Some (a, None))"

definition parse_url :: "string option \<Rightarrow> (string \<times> int \<times> string \<times> bool) option" where
  "parse_url urlp =
     (case urlp of None \<Rightarrow> None | Some url \<Rightarrow>
       if has_ctl url then None
       else let (is_https, u) = scheme_split url
        in case host_port u of
             None \<Rightarrow> None
           | Some (host, pt) \<Rightarrow>
               if host = [] \<or> length host \<ge> 256 then None
               else let port = (case pt of Some p \<Rightarrow> atoi p | None \<Rightarrow> if is_https then 443 else 80);
                        rest = drop (length (authority u)) u;
                        path = (if rest \<noteq> [] \<and> hd rest = CHR ''/'' then [] else ''/'') @ before (CHR ''#'') rest
                    in if length path \<ge> 2048 then None
                       else if port > 0 \<and> port < 65536 then Some (host, port, path, is_https) else None)"

definition hex_up :: "nat \<Rightarrow> char" where
  "hex_up n = ''0123456789ABCDEF'' ! (n mod 16)"

definition must_encode :: "char \<Rightarrow> bool" where
  "must_encode c \<longleftrightarrow> byte c \<le> 32 \<or> byte c \<ge> 127 \<or> c \<in> set (DQ # BSL # ''<>^`{|}'')"

definition enc_char :: "char \<Rightarrow> string" where
  "enc_char c = (if must_encode c then [CHR ''%'', hex_up (byte c div 16), hex_up (byte c mod 16)] else [c])"

fun encode_loop :: "nat \<Rightarrow> nat \<Rightarrow> string \<Rightarrow> string option" where
  "encode_loop sz off [] = Some []"
| "encode_loop sz off (c # cs) =
     (if off + 4 > sz then None
      else map_option (\<lambda>r. enc_char c @ r) (encode_loop sz (off + length (enc_char c)) cs))"

definition encode_path :: "string \<Rightarrow> nat \<Rightarrow> string option" where
  "encode_path inp sz = encode_loop sz 0 inp"

definition resolve_location :: "string \<Rightarrow> string \<Rightarrow> nat \<Rightarrow> string option" where
  "resolve_location cur loc sz =
     (let se = map_option (\<lambda>r. length cur - length r) (strstr ''://'' cur);
          oe = (case se of Some i \<Rightarrow> i + 3 + length (authority (drop (i + 3) cur)) | None \<Rightarrow> length cur);
          n = (if strstr ''://'' loc \<noteq> None then loc
               else if starts_with ''//'' loc then take (case se of Some i \<Rightarrow> i + 1 | None \<Rightarrow> 0) cur @ loc
               else if starts_with ''/'' loc then take oe cur @ loc
               else let path = takeWhile (\<lambda>c. c \<notin> set ''?#'') (drop oe cur);
                        dir = rev (dropWhile (\<lambda>c. c \<noteq> CHR ''/'') (rev path))
                    in if dir \<noteq> [] then take oe cur @ dir @ loc else take oe cur @ ''/'' @ loc)
      in if 0 < length n \<and> length n < sz then Some n else None)"

section \<open>Responses\<close>

text \<open>Value of a header of the block \<open>buf\<close> that ends where \<open>hend\<close> starts.\<close>

function find_header :: "string \<Rightarrow> string \<Rightarrow> string \<Rightarrow> string option" where
  "find_header p hend name =
     (case strstr CRLF p of
        None \<Rightarrow> None
      | Some q \<Rightarrow>
          if length q \<le> length hend then None
          else let line = drop 2 q
               in if starts_with_ci name line \<and> length name < length line \<and> line ! length name = CHR '':''
                  then Some (dropWhile (\<lambda>c. c = SP \<or> c = TAB) (drop (length name + 1) line))
                  else find_header line hend name)"
  by pat_completeness auto
termination
  by (relation "measure (\<lambda>(p, hend, name). length p)") (auto dest!: length_strstr)

declare find_header.simps [simp del]

definition is_xdigit :: "char \<Rightarrow> bool" where
  "is_xdigit c \<longleftrightarrow> is_digit c \<or> (65 \<le> byte c \<and> byte c \<le> 70) \<or> (97 \<le> byte c \<and> byte c \<le> 102)"

definition xdigit_val :: "char \<Rightarrow> nat" where
  "xdigit_val c = (if is_digit c then byte c - 48 else if byte c \<le> 70 then byte c - 55 else byte c - 87)"

definition ULONG_MAX :: nat where "ULONG_MAX = 2 ^ 64 - 1"

definition hex_value :: "string \<Rightarrow> nat" where
  "hex_value s = foldl (\<lambda>a c. a * 16 + xdigit_val c) 0 s"

text \<open>\<open>strtoul(s, NULL, 16)\<close>: blanks, a sign, an optional \<open>0x\<close>, digits; it saturates.\<close>

definition strtoul16 :: "string \<Rightarrow> nat" where
  "strtoul16 s =
     (let t = dropWhile isspace s;
          neg = (t \<noteq> [] \<and> hd t = CHR ''-'');
          u = (if t \<noteq> [] \<and> (hd t = CHR ''-'' \<or> hd t = CHR ''+'') then tl t else t);
          v = (if starts_with_ci ''0x'' u \<and> length u > 2 \<and> is_xdigit (u ! 2) then drop 2 u else u);
          n = hex_value (takeWhile is_xdigit v)
      in if n > ULONG_MAX then ULONG_MAX else if neg \<and> n > 0 then ULONG_MAX + 1 - n else n)"

text \<open>The bytes that \<open>http_dechunk\<close> moves to the front of the body.\<close>

function http_dechunk :: "string \<Rightarrow> string" where
  "http_dechunk p =
     (case strstr CRLF p of
        None \<Rightarrow> []
      | Some eol \<Rightarrow>
          let chunk = strtoul16 (cstr p); q = drop 2 eol
          in if chunk = 0 then []
             else let n = (if chunk > length q then length q else chunk); r = drop n q
                  in take n q @ http_dechunk (if starts_with CRLF r then drop 2 r else r))"
  by pat_completeness auto
termination
proof (relation "measure length")
  fix p eol chunk q n r
  assume eol: "strstr CRLF p = Some eol" and q: "q = drop 2 eol" and r: "r = drop n q"
  have "2 \<le> length eol" using strstr_Some [OF eol] by (auto simp: starts_with_def dest: arg_cong [of _ _ length])
  then have "length r < length p" using length_strstr [OF eol] q r by simp
  then show "(if starts_with CRLF r then drop 2 r else r, p) \<in> measure length" by auto
qed simp

declare http_dechunk.simps [simp del]

text \<open>\<open>sscanf(buf, "HTTP/%*s %d", &status)\<close>.\<close>

definition scan_status :: "string \<Rightarrow> int option" where
  "scan_status buf =
     (if \<not> starts_with ''HTTP/'' buf then None
      else let r = dropWhile isspace (drop 5 buf); w = takeWhile (\<lambda>c. \<not> isspace c) r
           in if w = [] then None
              else let (v, rest, ov) = strtol (drop (length w) r)
                   in if rest = drop (length w) r then None else Some (to_int32 v))"

fun contains_ci :: "string \<Rightarrow> string \<Rightarrow> bool" where
  "contains_ci p [] = (p = [])"
| "contains_ci p (c # s) = (starts_with_ci p (c # s) \<or> contains_ci p s)"

definition is_chunked :: "string option \<Rightarrow> bool" where
  "is_chunked te =
     (case te of None \<Rightarrow> False | Some t \<Rightarrow>
       (case strstr CRLF t of None \<Rightarrow> False
        | Some eol \<Rightarrow> contains_ci ''chunked'' (take (length t - length eol) t)))"

definition err_resp :: "http_err \<Rightarrow> http_response" where
  "err_resp e = \<lparr>status = err_code e, body = None, retry_after = 0, location = []\<rparr>"

text \<open>\<open>buf\<close>: all bytes received; the searches see the C string at its start.\<close>

definition parse_response :: "bool \<Rightarrow> bool \<Rightarrow> string \<Rightarrow> http_response" where
  "parse_response tmo terr buf =
     (let s = cstr buf
      in case (strstr (CRLF @ CRLF) s, scan_status s) of
           (Some hend, Some st) \<Rightarrow>
             let ra = find_header s hend ''Retry-After'';
                 loc = find_header s hend ''Location'';
                 b = drop (length s - length hend + 4) buf
             in \<lparr>status = st,
                 body = Some (if is_chunked (find_header s hend ''Transfer-Encoding'') then http_dechunk b else b),
                 retry_after = (case ra of Some v \<Rightarrow> atoi v | None \<Rightarrow> 0),
                 location = (case loc of Some v \<Rightarrow> buf_set 1024 (takeWhile (\<lambda>c. c \<noteq> CR \<and> c \<noteq> LF) v) | None \<Rightarrow> [])\<rparr>
         | _ \<Rightarrow> err_resp (if tmo then HTTP_ERR_TIMEOUT
                         else if buf = [] \<and> terr then HTTP_ERR_TLS else HTTP_ERR_PROTO))"

text \<open>
  The read loop with its growing buffer: \<open>cap\<close> bytes allocated, \<open>acc\<close> received so far. An empty
  delivery is the end of the stream, an error or a timeout.
\<close>

definition buf_max :: nat where "buf_max = 4 * 1024 * 1024"

function http_read :: "string list \<Rightarrow> nat \<Rightarrow> string \<Rightarrow> string" where
  "http_read rds cap acc =
     (if length acc \<ge> buf_max then acc
      else let cap' = (if length acc + 8192 > cap then min (cap * 2) buf_max else cap);
               room = cap' - length acc - 1
           in case rds of
                [] \<Rightarrow> acc
              | d # rds' \<Rightarrow>
                  if d = [] \<or> room = 0 then acc
                  else if length d \<le> room then http_read rds' cap' (acc @ d)
                  else http_read (drop room d # rds') cap' (acc @ take room d))"
  by pat_completeness auto
termination
  by (relation "measure (\<lambda>(rds, cap, acc). length (concat rds) + length rds)") auto

declare http_read.simps [simp del]

section \<open>Requests\<close>

definition build_request :: "string \<Rightarrow> string \<Rightarrow> string \<Rightarrow> int \<Rightarrow> bool \<Rightarrow> string option \<Rightarrow> nat \<Rightarrow> (string \<times> string) list \<Rightarrow> string" where
  "build_request meth epath host port is_https ctype body_len hdrs =
     (let v6 = CHR '':'' \<in> set host; add = buf_appendf 4096;
          r1 = add [] (meth @ '' '' @ epath @ '' HTTP/1.1'' @ CRLF @ ''Host: '' @
                       (if v6 then ''['' else []) @ host @ (if v6 then '']'' else []));
          r2 = (if port = (if is_https then 443 else 80) then r1 else add r1 ('':'' @ dec_int port));
          r3 = add r2 (CRLF @ ''Connection: close'' @ CRLF);
          r4 = (case ctype of Some t \<Rightarrow> add r3 (''Content-Type: '' @ t @ CRLF) | None \<Rightarrow> r3);
          r5 = (if body_len > 0 then add r4 (''Content-Length: '' @ dec_nat body_len @ CRLF) else r4);
          r6 = fold (\<lambda>(n, v) r. add r (n @ '': '' @ v @ CRLF)) hdrs r5
      in add r6 CRLF)"

text \<open>
  The request that goes out, or \<open>None\<close> where the code sets \<open>bad\<close>. \<open>body_len\<close> is the length the
  caller passes with the body.
\<close>

definition make_request :: "http_tls \<Rightarrow> string \<Rightarrow> string option \<Rightarrow> string option \<Rightarrow> string option \<Rightarrow> nat \<Rightarrow> http_req option" where
  "make_request st meth url ctype bodyp body_len =
     (case parse_url url of
        None \<Rightarrow> None
      | Some (host, port, path, is_https) \<Rightarrow>
          (case encode_path path 3072 of
             None \<Rightarrow> None
           | Some epath \<Rightarrow>
               if (case ctype of Some t \<Rightarrow> has_ctl t | None \<Rightarrow> False) then None
               else let req = build_request meth epath host port is_https ctype body_len (extra_hdrs st)
                    in if list_ex (\<lambda>(n, v). has_ctl n \<or> has_ctl v) (extra_hdrs st) \<or> length req \<ge> 4095
                       then None
                       else Some \<lparr>hr_host = host, hr_port = port, hr_tls = is_https, hr_head = req,
                                  hr_body = (case bodyp of Some b \<Rightarrow> take body_len b | None \<Rightarrow> [])\<rparr>))"

definition do_request :: "henv \<Rightarrow> http_tls \<Rightarrow> string \<Rightarrow> string option \<Rightarrow> string option \<Rightarrow> string option \<Rightarrow> nat \<Rightarrow> http_tls \<times> http_response \<times> http_req option" where
  "do_request env st meth url ctype bodyp body_len =
     (let st' = st\<lparr>extra_hdrs := [], req_timeout := 0\<rparr>
      in case make_request st meth url ctype bodyp body_len of
           None \<Rightarrow> (st', err_resp HTTP_ERR_REQUEST, None)
         | Some rq \<Rightarrow>
             if \<not> net_ok env then (st', err_resp HTTP_ERR_CONNECT, None)
             else if hr_tls rq \<and> \<not> tls_start_ok env then (st', err_resp HTTP_ERR_TLS, None)
             else if \<not> sent_ok env
             then (st', err_resp (if timed_out env then HTTP_ERR_TIMEOUT
                                  else if hr_tls rq \<and> tls_err env then HTTP_ERR_TLS else HTTP_ERR_CONNECT), Some rq)
             else (st', parse_response (timed_out env) (hr_tls rq \<and> tls_err env) (http_read (rx env) 65536 []), Some rq))"

text \<open>The redirects of \<open>http_get\<close>; the environment of each hop is the next of the list.\<close>

definition is_redirect :: "int \<Rightarrow> bool" where
  "is_redirect s \<longleftrightarrow> s = 301 \<or> s = 302 \<or> s = 303 \<or> s = 307 \<or> s = 308"

fun get_hops :: "(nat \<Rightarrow> henv) \<Rightarrow> nat \<Rightarrow> nat \<Rightarrow> string \<Rightarrow> http_tls \<times> http_response \<times> http_req option list
    \<Rightarrow> http_tls \<times> http_response \<times> http_req option list" where
  "get_hops envs k 0 cur (st, r, rqs) = (st, r, rqs)"
| "get_hops envs k (Suc left) cur (st, r, rqs) =
     (if location r \<noteq> [] \<and> is_redirect (status r)
      then case resolve_location cur (location r) 2048 of
             None \<Rightarrow> (st, r, rqs)
           | Some nxt \<Rightarrow>
               let (st', r', rq) = do_request (envs k) st ''GET'' (Some nxt) None None 0
               in get_hops envs (k + 1) left nxt (st', r', rqs @ [rq])
      else (st, r, rqs))"

definition http_get :: "(nat \<Rightarrow> henv) \<Rightarrow> http_tls \<Rightarrow> string \<Rightarrow> http_tls \<times> http_response \<times> http_req option list" where
  "http_get envs st url =
     (if length url \<ge> 2048 then (st, err_resp HTTP_ERR_REQUEST, [])
      else let (st', r, rq) = do_request (envs 0) st ''GET'' (Some url) None None 0
           in get_hops envs 1 3 url (st', r, [rq]))"

definition http_post :: "henv \<Rightarrow> http_tls \<Rightarrow> string option \<Rightarrow> string option \<Rightarrow> string option \<Rightarrow> nat \<Rightarrow> http_tls \<times> http_response \<times> http_req option" where
  "http_post env st url ctype bodyp body_len = do_request env st ''POST'' url ctype bodyp body_len"

definition http_post_json :: "henv \<Rightarrow> http_tls \<Rightarrow> string option \<Rightarrow> string option \<Rightarrow> http_tls \<times> http_response \<times> http_req option" where
  "http_post_json env st url json =
     do_request env st ''POST'' url (Some ''application/json'') json (case json of Some j \<Rightarrow> length j | None \<Rightarrow> 0)"

text \<open>
  What a plugin gets in its buffer, and the line for the builder when the call is traced
  (\<open>http_trace_fd >= 0\<close>).
\<close>

definition copy_response :: "bool \<Rightarrow> string \<Rightarrow> string \<Rightarrow> http_response \<Rightarrow> nat \<Rightarrow> string \<times> string option \<times> int" where
  "copy_response trace meth url r buf_sz =
     (let buf = buf_set buf_sz (case body r of Some b \<Rightarrow> cstr b
                  | None \<Rightarrow> ''HTTP error '' @ dec_int (status r) @ '' ('' @ http_strerror (status r) @ '')'');
          cut = (case body r of
                   Some b \<Rightarrow> if length b \<ge> buf_sz
                             then buf_set 96 ('', cut to '' @ dec_nat (buf_sz - 1) @ '' of '' @ dec_nat (length b) @
                                    '' bytes: use a bigger buffer'') else []
                 | None \<Rightarrow> []);
          line = buf_set 768 (''['' @ meth @ '' '' @ url @ '' -> '' @ dec_int (status r) @ cut @ ''] '' @
                   take (utf8_prefix buf 300) buf);
          n = min (length line) 766
      in (buf, if trace then Some (map (\<lambda>c. if c = LF \<or> c = CR then SP else c) (take n line) @ [LF]) else None,
          status r))"

section \<open>Request lines\<close>

definition crlf_lines :: "string list \<Rightarrow> string" where
  "crlf_lines ls = concat (map (\<lambda>l. l @ CRLF) ls)"

lemma crlf_lines_simps [simp]:
  "crlf_lines [] = []" "crlf_lines (l # ls) = l @ CRLF @ crlf_lines ls"
  "crlf_lines (as @ bs) = crlf_lines as @ crlf_lines bs"
  by (simp_all add: crlf_lines_def)

definition request_lines :: "string \<Rightarrow> string \<Rightarrow> string \<Rightarrow> int \<Rightarrow> bool \<Rightarrow> string option \<Rightarrow> nat \<Rightarrow> (string \<times> string) list \<Rightarrow> string list" where
  "request_lines meth epath host port is_https ctype body_len hdrs =
     [meth @ '' '' @ epath @ '' HTTP/1.1'',
      ''Host: '' @ (if CHR '':'' \<in> set host then ''['' @ host @ '']'' else host) @
        (if port = (if is_https then 443 else 80) then [] else '':'' @ dec_int port),
      ''Connection: close''] @
     (case ctype of Some t \<Rightarrow> [''Content-Type: '' @ t] | None \<Rightarrow> []) @
     (if body_len > 0 then [''Content-Length: '' @ dec_nat body_len] else []) @
     map (\<lambda>(n, v). n @ '': '' @ v) hdrs"

lemma appendf_take: "buf_appendf 4096 (take 4095 a) b = take 4095 (a @ b)"
  using buf_appendf_take [of "take 4095 a" 4096 b] take_take_append [of 4095 a b]
  by (simp del: take_append)

lemma fold_appendf_take:
  "fold (\<lambda>(n, v) r. buf_appendf 4096 r (n @ '': '' @ v @ CRLF)) hdrs (take 4095 a) =
     take 4095 (a @ crlf_lines (map (\<lambda>(n, v). n @ '': '' @ v) hdrs))"
proof (induction hdrs arbitrary: a)
  case (Cons h hs)
  then show ?case by (cases h) (simp only: fold_Cons comp_apply case_prod_conv appendf_take list.map
        crlf_lines_simps append_assoc)
qed (simp)

lemma build_request_lines:
  "build_request meth epath host port is_https ctype body_len hdrs =
     take 4095 (crlf_lines (request_lines meth epath host port is_https ctype body_len hdrs) @ CRLF)"
proof -
  have start: "buf_appendf 4096 [] x = take 4095 x" for x
    using appendf_take [of "[]" x] by simp
  note eqs = build_request_def request_lines_def Let_def start appendf_take
    fold_appendf_take [unfolded append_Cons append_Nil]
    crlf_lines_simps append_assoc append_Nil append_Cons if_True if_False option.case simp_thms
  show ?thesis
    by (cases ctype; cases "body_len > 0"; cases "port = (if is_https then 443 else 80)";
        cases "CHR '':'' \<in> set host") (simp_all only: eqs)
qed

lemma has_ctl_simps [simp]:
  "\<not> has_ctl []" "has_ctl (c # s) \<longleftrightarrow> is_ctl c \<or> has_ctl s"
  "has_ctl (a @ b) \<longleftrightarrow> has_ctl a \<or> has_ctl b"
  by (simp_all add: has_ctl_def)

lemma has_ctl_subset: "set a \<subseteq> set b \<Longrightarrow> has_ctl a \<Longrightarrow> has_ctl b"
  by (auto simp: has_ctl_def list_ex_iff)

lemma ctl_CR_LF: "\<not> has_ctl s \<Longrightarrow> CR \<notin> set s \<and> LF \<notin> set s"
  by (auto simp: has_ctl_def list_ex_iff is_ctl_def byte_def)

lemma is_ctl_digit: "is_digit c \<Longrightarrow> \<not> is_ctl c"
  by (auto simp: is_digit_def is_ctl_def)

lemma has_ctl_dec_nat [simp]: "\<not> has_ctl (dec_nat n)"
  using dec_nat_digits [of n] is_ctl_digit by (auto simp: has_ctl_def list_ex_iff list_all_iff)

lemma has_ctl_dec_int [simp]: "\<not> has_ctl (dec_int i)"
  by (simp add: dec_int_def is_ctl_def byte_def)

lemma request_lines_ctl:
  assumes "\<not> has_ctl meth" "\<not> has_ctl epath" "\<not> has_ctl host"
    "\<forall>t. ctype = Some t \<longrightarrow> \<not> has_ctl t" "\<not> list_ex (\<lambda>(n, v). has_ctl n \<or> has_ctl v) hdrs"
  shows "\<forall>l \<in> set (request_lines meth epath host port is_https ctype body_len hdrs). \<not> has_ctl l"
proof -
  have "\<not> is_ctl c" if "32 \<le> byte c" "byte c < 127" for c using that by (auto simp: is_ctl_def)
  then show ?thesis
    using assms by (auto simp: request_lines_def list_ex_iff byte_def split: option.splits)
qed

section \<open>Percent-encoding\<close>

definition url_char :: "char \<Rightarrow> bool" where
  "url_char c \<longleftrightarrow> \<not> must_encode c"

lemma hex_up_url: "url_char (hex_up n)"
proof -
  have "list_all url_char ''0123456789ABCDEF''" by code_simp
  then show ?thesis unfolding hex_up_def list_all_length by simp
qed

lemma enc_char_url: "list_all url_char (enc_char c)"
proof -
  have "url_char (CHR ''%'')" by code_simp
  then show ?thesis using hex_up_url by (simp add: enc_char_def url_char_def)
qed

lemma encode_loop_Some:
  "encode_loop sz off s = Some r \<Longrightarrow> r = concat (map enc_char s) \<and> (s \<noteq> [] \<longrightarrow> off + length r < sz)"
proof (induction sz off s arbitrary: r rule: encode_loop.induct)
  case (2 sz off c cs)
  have "length (enc_char c) \<le> 3" by (simp add: enc_char_def)
  with 2 show ?case by (auto split: if_splits)
qed simp

lemma encode_loop_fits:
  "off + length (concat (map enc_char s)) + 3 \<le> sz \<Longrightarrow> encode_loop sz off s = Some (concat (map enc_char s))"
proof (induction sz off s rule: encode_loop.induct)
  case (2 sz off c cs)
  have "1 \<le> length (enc_char c)" by (simp add: enc_char_def)
  with 2 show ?case by auto
qed simp

lemma encode_path_url: "encode_path s sz = Some r \<Longrightarrow> list_all url_char r"
  using enc_char_url by (auto simp: encode_path_def list_all_iff dest!: encode_loop_Some)

lemma enc_char_id: "list_all url_char s \<Longrightarrow> concat (map enc_char s) = s"
  by (induction s) (simp_all add: enc_char_def url_char_def)

lemma ctl_must_encode: "is_ctl c \<Longrightarrow> must_encode c"
  unfolding is_ctl_def must_encode_def by linarith

lemma url_char_ctl: "list_all url_char s \<Longrightarrow> \<not> has_ctl s"
  by (induction s) (auto simp: url_char_def dest: ctl_must_encode)

lemma set_tl_take: "x \<in> set (tl (take i u)) \<Longrightarrow> x \<in> set u"
  by (metis in_set_takeD list.set_sel(2) tl_Nil)

lemma parse_url_host: "parse_url (Some url) = Some (host, port, path, h) \<Longrightarrow> \<not> has_ctl host"
proof -
  assume p: "parse_url (Some url) = Some (host, port, path, h)"
  obtain u where u: "scheme_split url = (h, u)" "\<not> has_ctl url"
    using p by (auto simp: parse_url_def Let_def split: if_splits prod.splits option.splits)
  then have "set u \<subseteq> set url"
    by (auto simp: scheme_split_def split: if_splits dest: in_set_dropD)
  moreover obtain pt where "host_port u = Some (host, pt)"
    using p u by (auto simp: parse_url_def Let_def split: if_splits prod.splits option.splits)
  then have "set host \<subseteq> set u"
    by (auto simp: host_port_def Let_def authority_def split: if_splits option.splits
        dest: set_takeWhileD in_set_takeD set_tl_take)
  ultimately show ?thesis using u(2) has_ctl_subset by blast
qed

lemma make_request_lines:
  assumes "make_request st meth url ctype bodyp body_len = Some rq" "\<not> has_ctl meth"
  shows "\<exists>epath. hr_head rq =
        crlf_lines (request_lines meth epath (hr_host rq) (hr_port rq) (hr_tls rq) ctype body_len (extra_hdrs st)) @ CRLF
      \<and> (\<forall>l \<in> set (request_lines meth epath (hr_host rq) (hr_port rq) (hr_tls rq) ctype body_len (extra_hdrs st)).
            \<not> has_ctl l)"
proof -
  obtain host port path h where u: "parse_url url = Some (host, port, path, h)"
    using assms(1) by (cases "parse_url url") (auto simp: make_request_def)
  obtain epath where e: "encode_path path 3072 = Some epath"
    using assms(1) u by (cases "encode_path path 3072") (auto simp: make_request_def)
  define R where "R = build_request meth epath host port h ctype body_len (extra_hdrs st)"
  have c: "\<forall>t. ctype = Some t \<longrightarrow> \<not> has_ctl t"
    using assms(1) by (auto simp: make_request_def u e)
  then have "\<not> (case ctype of None \<Rightarrow> False | Some t \<Rightarrow> has_ctl t)" by (simp split: option.split)
  then have eq: "make_request st meth url ctype bodyp body_len =
      (if list_ex (\<lambda>(n, v). has_ctl n \<or> has_ctl v) (extra_hdrs st) \<or> length R \<ge> 4095 then None
       else Some \<lparr>hr_host = host, hr_port = port, hr_tls = h, hr_head = R,
                  hr_body = (case bodyp of Some b \<Rightarrow> take body_len b | None \<Rightarrow> [])\<rparr>)"
    by (simp only: make_request_def u e option.case prod.case Let_def R_def [symmetric] if_False)
  then have hd: "\<not> list_ex (\<lambda>(n, v). has_ctl n \<or> has_ctl v) (extra_hdrs st)" and len: "length R < 4095"
    using assms(1) by (metis option.distinct(1), metis not_le option.distinct(1))
  have rq: "hr_host rq = host" "hr_port rq = port" "hr_tls rq = h" "hr_head rq = R"
  proof -
    have "\<not> (list_ex (\<lambda>(n, v). has_ctl n \<or> has_ctl v) (extra_hdrs st) \<or> length R \<ge> 4095)"
      using hd len by linarith
    then have "rq = \<lparr>hr_host = host, hr_port = port, hr_tls = h, hr_head = R,
        hr_body = (case bodyp of Some b \<Rightarrow> take body_len b | None \<Rightarrow> [])\<rparr>"
      using assms(1) unfolding eq by (simp only: if_False option.inject)
    then show "hr_host rq = host" "hr_port rq = port" "hr_tls rq = h" "hr_head rq = R" by simp_all
  qed
  have "parse_url None = None" by (simp add: parse_url_def)
  then obtain u' where "url = Some u'" using u by (cases url) simp_all
  then have "\<not> has_ctl host" using u parse_url_host by blast
  then have ls: "\<forall>l \<in> set (request_lines meth epath host port h ctype body_len (extra_hdrs st)). \<not> has_ctl l"
    using assms(2) url_char_ctl [OF encode_path_url [OF e]] c hd by (intro request_lines_ctl)
  have "hr_head rq = crlf_lines (request_lines meth epath host port h ctype body_len (extra_hdrs st)) @ CRLF"
    using len unfolding rq(4) R_def build_request_lines length_take by (intro take_all) linarith
  with ls rq show ?thesis by blast
qed

lemma length_request_lines:
  "length (request_lines meth epath host port h ctype body_len hdrs) =
     3 + (if ctype = None then 0 else 1) + (if body_len > 0 then 1 else 0) + length hdrs"
  by (auto simp: request_lines_def split: option.splits)

section \<open>Chunked bodies\<close>

fun hex_nat :: "nat \<Rightarrow> string" where
  "hex_nat n = (if n < 16 then [hex_digit n] else hex_nat (n div 16) @ [hex_digit n])"

declare hex_nat.simps [simp del]

text \<open>A chunk: its size, an extension, its data.\<close>

definition chunk_enc :: "string \<times> string \<Rightarrow> string" where
  "chunk_enc c = hex_nat (length (snd c)) @ fst c @ CRLF @ snd c @ CRLF"

definition chunk_ext :: "string \<Rightarrow> bool" where
  "chunk_ext e \<longleftrightarrow> (e = [] \<or> hd e = CHR '';'') \<and> CR \<notin> set e \<and> NUL \<notin> set e"

definition chunked_enc :: "(string \<times> string) list \<Rightarrow> string \<Rightarrow> string" where
  "chunked_enc cs trailer = concat (map chunk_enc cs) @ ''0'' @ CRLF @ trailer"

lemma hex_digit_xdigit: "is_xdigit (hex_digit n) \<and> xdigit_val (hex_digit n) = n mod 16 \<and> \<not> isspace (hex_digit n)
    \<and> hex_digit n \<noteq> CHR ''-'' \<and> hex_digit n \<noteq> CHR ''+'' \<and> tolower (hex_digit n) \<noteq> CHR ''x''"
proof -
  have "list_all (\<lambda>i. let c = ''0123456789abcdef'' ! i in is_xdigit c \<and> xdigit_val c = i \<and> \<not> isspace c \<and> c \<noteq> CHR ''-''
      \<and> c \<noteq> CHR ''+'' \<and> tolower c \<noteq> CHR ''x'') [0..<16]" by code_simp
  moreover have "n mod 16 \<in> set [0..<16]" by simp
  ultimately show ?thesis unfolding list_all_iff Let_def hex_digit_def by blast
qed

lemma hex_nat_xdigit: "list_all (\<lambda>c. is_xdigit c \<and> \<not> isspace c \<and> c \<noteq> CHR ''-'' \<and> c \<noteq> CHR ''+'' \<and> tolower c \<noteq> CHR ''x'') (hex_nat n)"
  by (induction n rule: hex_nat.induct) (subst hex_nat.simps, auto simp: hex_digit_xdigit)

lemma hex_nat_nonempty [simp]: "hex_nat n \<noteq> []"
  by (subst hex_nat.simps) simp

lemma hex_value_hex_nat: "hex_value (hex_nat n) = n"
proof (induction n rule: hex_nat.induct)
  case (1 n)
  then show ?case
    by (cases "n < 16") (simp_all add: hex_nat.simps [of n] hex_value_def hex_digit_xdigit)
qed

lemma strstr_CRLF [ctext]: "CR \<notin> set a \<Longrightarrow> strstr CRLF (a @ CRLF @ b) = Some (CRLF @ b)"
  by (induction a) (auto simp: starts_with_def)

lemma xdigit_props: "is_xdigit c \<Longrightarrow> c \<noteq> CR \<and> c \<noteq> NUL"
  by (auto simp: is_xdigit_def is_digit_def byte_def)

lemma strtoul16_hex:
  assumes "n \<le> ULONG_MAX" "t \<noteq> []" "\<not> is_xdigit (hd t)" "tolower (hd t) \<noteq> CHR ''x''"
  shows "strtoul16 (hex_nat n @ t) = n"
proof -
  let ?h = "hex_nat n"
  let ?s = "?h @ t"
  obtain c h where h: "?h = c # h" by (cases ?h) auto
  have all: "list_all (\<lambda>c. is_xdigit c \<and> \<not> isspace c \<and> c \<noteq> CHR ''-'' \<and> c \<noteq> CHR ''+'' \<and> tolower c \<noteq> CHR ''x'') (c # h)"
    using hex_nat_xdigit [of n] by (simp only: h)
  have "tolower ((h @ t) ! 0) \<noteq> CHR ''x''"
    using all assms(2,4) by (cases h; cases t) auto
  then have no0x: "\<not> starts_with_ci ''0x'' ?s"
    by (cases "h @ t") (auto simp: h starts_with_ci_def strcaseeq_def tolower_def is_upper_def byte_def)
  have "dropWhile isspace ?s = ?s" "hd ?s \<noteq> CHR ''-''" "hd ?s \<noteq> CHR ''+''" "?s \<noteq> []"
    using all by (simp_all add: h)
  moreover have "takeWhile is_xdigit ?s = ?h"
    using all assms(2,3) by (intro takeWhile_stop) (simp_all only: h, auto simp: list_all_iff)
  ultimately show ?thesis
    using assms(1) no0x by (simp add: strtoul16_def Let_def hex_value_hex_nat)
qed

lemma strtoul16_size:
  assumes "n \<le> ULONG_MAX" "chunk_ext e"
  shows "strtoul16 (cstr (hex_nat n @ e @ CRLF @ r)) = n"
proof -
  have "NUL \<notin> set (hex_nat n @ e @ CRLF)"
    using hex_nat_xdigit [of n] assms(2) xdigit_props by (auto simp: list_all_iff chunk_ext_def)
  then have "cstr (hex_nat n @ e @ CRLF @ r) = hex_nat n @ (e @ CRLF @ cstr r)"
    by (simp add: cstr_def takeWhile_append)
  moreover have "hd (e @ CRLF @ cstr r) = CHR '';'' \<or> hd (e @ CRLF @ cstr r) = CR"
    using assms(2) by (cases e) (auto simp: chunk_ext_def)
  then have "\<not> is_xdigit (hd (e @ CRLF @ cstr r)) \<and> tolower (hd (e @ CRLF @ cstr r)) \<noteq> CHR ''x''"
    by (elim disjE) (simp_all only:, code_simp+)
  ultimately show ?thesis using strtoul16_hex [OF assms(1)] by simp
qed

lemma http_dechunk_step:
  assumes "snd c \<noteq> []" "length (snd c) \<le> ULONG_MAX" "chunk_ext (fst c)"
  shows "http_dechunk (chunk_enc c @ r) = snd c @ http_dechunk r"
proof -
  let ?n = "length (snd c)"
  have "CR \<notin> set (hex_nat ?n @ fst c)"
    using hex_nat_xdigit [of ?n] assms(3) xdigit_props by (auto simp: list_all_iff chunk_ext_def)
  then have "strstr CRLF (chunk_enc c @ r) = Some (CRLF @ snd c @ CRLF @ r)"
    using strstr_CRLF [of "hex_nat ?n @ fst c" "snd c @ CRLF @ r"] by (simp add: chunk_enc_def)
  moreover have "strtoul16 (cstr (chunk_enc c @ r)) = ?n"
    using strtoul16_size [OF assms(2,3), of "snd c @ CRLF @ r"] by (simp add: chunk_enc_def)
  ultimately show ?thesis
    using assms(1) by (simp add: http_dechunk.simps [of "chunk_enc c @ r"] Let_def starts_with_def)
qed

lemma http_dechunk_end: "http_dechunk (''0'' @ CRLF @ trailer) = []"
proof -
  have "strstr CRLF (''0'' @ CRLF @ trailer) = Some (CRLF @ trailer)" by (rule strstr_CRLF) simp
  moreover have "hex_nat 0 = ''0''" by code_simp
  then have "strtoul16 (cstr (''0'' @ CRLF @ trailer)) = 0"
    using strtoul16_size [of 0 "[]" trailer] by (simp add: chunk_ext_def)
  ultimately show ?thesis by (subst http_dechunk.simps) (simp only: option.case Let_def simp_thms if_True)
qed

lemma http_dechunk_enc:
  "list_all (\<lambda>c. snd c \<noteq> [] \<and> length (snd c) \<le> ULONG_MAX \<and> chunk_ext (fst c)) cs \<Longrightarrow>
     http_dechunk (chunked_enc cs trailer) = concat (map snd cs)"
proof (induction cs)
  case (Cons c cs)
  have "chunked_enc (c # cs) trailer = chunk_enc c @ chunked_enc cs trailer" by (simp add: chunked_enc_def)
  with Cons show ?case by (simp add: http_dechunk_step)
qed (simp only: chunked_enc_def list.map concat.simps append_Nil http_dechunk_end)

lemma length_http_dechunk: "length (http_dechunk p) \<le> length p"
proof (induction p rule: http_dechunk.induct)
  case (1 p)
  show ?case
  proof (cases "strstr CRLF p")
    case None
    then show ?thesis by (simp add: http_dechunk.simps [of p])
  next
    case (Some eol)
    let ?q = "drop 2 eol"
    let ?n = "if strtoul16 (cstr p) > length ?q then length ?q else strtoul16 (cstr p)"
    let ?r = "drop ?n ?q"
    let ?s = "if starts_with CRLF ?r then drop 2 ?r else ?r"
    show ?thesis
    proof (cases "strtoul16 (cstr p) = 0")
      case False
      have "length (http_dechunk ?s) \<le> length ?s"
        using 1 [OF Some refl refl False refl refl] .
      also have "\<dots> \<le> length ?q - ?n" by (auto intro: diff_le_mono2)
      finally have "length (take ?n ?q @ http_dechunk ?s) \<le> length ?q" by auto
      moreover have "http_dechunk p = take ?n ?q @ http_dechunk ?s"
        using Some False by (subst http_dechunk.simps) (simp only: option.case Let_def if_False)
      moreover have "length ?q \<le> length p" using length_strstr [OF Some] by simp
      ultimately show ?thesis by (metis le_trans)
    qed (use Some in \<open>simp add: http_dechunk.simps [of p] Let_def\<close>)
  qed
qed

section \<open>The response buffer\<close>

fun rx_bytes :: "string list \<Rightarrow> string" where
  "rx_bytes [] = []"
| "rx_bytes (d # ds) = (if d = [] then [] else d @ rx_bytes ds)"

lemma http_read_take:
  "65536 \<le> cap \<Longrightarrow> cap \<le> buf_max \<Longrightarrow> length acc < cap \<Longrightarrow>
     http_read rds cap acc = take (buf_max - 1) (acc @ rx_bytes rds)"
proof (induction rds cap acc rule: http_read.induct)
  case (1 rds cap acc)
  define cap' where "cap' = (if length acc + 8192 > cap then min (cap * 2) buf_max else cap)"
  define room where "room = cap' - length acc - 1"
  have cap': "65536 \<le> cap'" "cap' \<le> buf_max" "length acc < cap'"
    using 1(3-5) by (auto simp: cap'_def)
  have full: "length acc = buf_max - 1" if "room = 0"
  proof -
    have "cap' \<le> length acc + 1" using that room_def by simp
    then show ?thesis using 1(3-5) cap' by (auto simp: cap'_def min_def split: if_splits)
  qed
  have lt: "\<not> buf_max \<le> length acc" using 1(4,5) by simp
  have unf: "http_read rds cap acc =
      (case rds of [] \<Rightarrow> acc
       | d # rds' \<Rightarrow> if d = [] \<or> room = 0 then acc
           else if length d \<le> room then http_read rds' cap' (acc @ d)
           else http_read (drop room d # rds') cap' (acc @ take room d))"
    by (subst http_read.simps) (simp only: lt if_False Let_def cap'_def [symmetric] room_def [symmetric])
  have acc: "take (buf_max - 1) acc = acc" using 1(4,5) by simp
  show ?case
  proof (cases rds)
    case Nil
    with acc show ?thesis unfolding unf by simp
  next
    case (Cons d rds')
    consider "d = []" | "d \<noteq> []" "room = 0" | "d \<noteq> []" "0 < room" "length d \<le> room"
      | "d \<noteq> []" "0 < room" "room < length d" by linarith
    then show ?thesis
    proof cases
      case 3
      then have "http_read rds' cap' (acc @ d) = take (buf_max - 1) ((acc @ d) @ rx_bytes rds')"
        using 1(1) [OF lt cap'_def room_def Cons _ 3(3)] cap' by (simp add: room_def)
      with 3 Cons show ?thesis unfolding unf by simp
    next
      case 4
      then have "http_read (drop room d # rds') cap' (acc @ take room d) =
          take (buf_max - 1) ((acc @ take room d) @ rx_bytes (drop room d # rds'))"
        using 1(2) [OF lt cap'_def room_def Cons] cap' by (simp add: room_def)
      with 4 Cons show ?thesis
        unfolding unf by (simp del: take_append) (metis append.assoc append_take_drop_id)
    qed (use Cons acc full in \<open>unfold unf, simp_all\<close>)
  qed
qed

section \<open>Header look-up\<close>

definition hdr_line :: "string \<times> string \<Rightarrow> string" where
  "hdr_line h = fst h @ '': '' @ snd h"

definition hdr_ok :: "string \<times> string \<Rightarrow> bool" where
  "hdr_ok h \<longleftrightarrow> CR \<notin> set (fst h) \<and> CHR '':'' \<notin> set (fst h) \<and> CR \<notin> set (snd h)"

definition hblank :: "char \<Rightarrow> bool" where
  "hblank c \<longleftrightarrow> c = SP \<or> c = TAB"

lemma tolower_colon: "tolower c = CHR '':'' \<longleftrightarrow> c = CHR '':''"
  by (auto simp: tolower_def is_upper_def char_of_eq_byte byte_def)

lemma header_match:
  assumes "CHR '':'' \<notin> set n" "CHR '':'' \<notin> set name"
  shows "(starts_with_ci name (n @ CHR '':'' # t) \<and> length name < length (n @ CHR '':'' # t) \<and>
      (n @ CHR '':'' # t) ! length name = CHR '':'') \<longleftrightarrow> strcaseeq n name"
proof -
  consider "length name = length n" | "length name < length n" | "length n < length name" by linarith
  then show ?thesis
  proof cases
    case 1
    then show ?thesis by (simp add: starts_with_ci_def nth_append)
  next
    case 2
    then have "n ! length name \<noteq> CHR '':''" using assms(1) by (metis nth_mem)
    with 2 show ?thesis by (auto simp: nth_append dest: strcaseeq_length)
  next
    case 3
    have "\<not> starts_with_ci name (n @ CHR '':'' # t)"
    proof
      assume "starts_with_ci name (n @ CHR '':'' # t)"
      then have eq: "map tolower (take (length name) (n @ CHR '':'' # t)) = map tolower name"
        by (simp add: starts_with_ci_def strcaseeq_def)
      have "map tolower (take (length name) (n @ CHR '':'' # t)) ! length n = CHR '':''"
        using 3 by (simp add: nth_append nth_Cons' take_Cons' tolower_colon)
      then have "tolower (name ! length n) = CHR '':''" unfolding eq using 3 by simp
      then show False using 3 assms(2) by (metis nth_mem tolower_colon)
    qed
    with 3 show ?thesis by (auto dest: strcaseeq_length)
  qed
qed

lemma find_header_lines:
  assumes "CR \<notin> set l" "list_all hdr_ok hs" "CHR '':'' \<notin> set name"
  shows "map_option (before CR) (find_header (l @ CRLF @ crlf_lines (map hdr_line hs) @ CRLF @ b) (CRLF @ CRLF @ b) name) =
     map_option (\<lambda>h. dropWhile hblank (snd h)) (find (\<lambda>h. strcaseeq (fst h) name) hs)"
  using assms(1,2)
proof (induction hs arbitrary: l)
  case Nil
  have "strstr CRLF (l @ CRLF @ CRLF @ b) = Some (CRLF @ CRLF @ b)" by (rule strstr_CRLF [OF Nil(1)])
  then show ?case by (subst find_header.simps) simp
next
  case (Cons h hs)
  let ?r = "crlf_lines (map hdr_line hs) @ CRLF @ b"
  let ?line = "hdr_line h @ CRLF @ ?r"
  let ?p = "l @ CRLF @ ?line"
  have p: "l @ CRLF @ crlf_lines (map hdr_line (h # hs)) @ CRLF @ b = ?p" by simp
  have st: "strstr CRLF ?p = Some (CRLF @ ?line)" by (rule strstr_CRLF [OF Cons(2)])
  have len: "\<not> length (CRLF @ ?line) \<le> length (CRLF @ CRLF @ b)" by (simp add: hdr_line_def)
  have line: "?line = fst h @ CHR '':'' # (SP # snd h @ CRLF @ ?r)" by (simp add: hdr_line_def)
  have m: "(starts_with_ci name ?line \<and> length name < length ?line \<and> ?line ! length name = CHR '':'')
      \<longleftrightarrow> strcaseeq (fst h) name"
    unfolding line using Cons(3) assms(3) by (intro header_match) (simp_all add: hdr_ok_def)
  have "drop 2 (CRLF @ ?line) = ?line" by simp
  then have unf: "find_header ?p (CRLF @ CRLF @ b) name =
      (if strcaseeq (fst h) name then Some (dropWhile (\<lambda>c. c = SP \<or> c = TAB) (drop (length name + 1) ?line))
       else find_header ?line (CRLF @ CRLF @ b) name)"
    by (subst find_header.simps) (simp only: st option.case len if_False Let_def m)
  show ?case
  proof (cases "strcaseeq (fst h) name")
    case True
    then have "drop (length name + 1) ?line = SP # snd h @ CRLF @ ?r"
      unfolding line by (simp add: strcaseeq_length [OF True, symmetric])
    moreover have "before CR (dropWhile (\<lambda>c. c = SP \<or> c = TAB) (snd h @ CR # t)) = dropWhile hblank (snd h)" for t
    proof -
      have "CR \<notin> set (dropWhile hblank (snd h))" using Cons(3) by (auto simp: hdr_ok_def dest: set_dropWhileD)
      moreover have "dropWhile (\<lambda>c. c = SP \<or> c = TAB) (snd h @ CR # t) = dropWhile hblank (snd h) @ CR # t"
        by (induction "snd h") (auto simp: hblank_def dropWhile_append)
      ultimately show ?thesis by (simp add: before_append)
    qed
    ultimately show ?thesis using True unfolding p unf by simp
  next
    case False
    have "CR \<notin> set (hdr_line h)" using Cons(3) by (simp add: hdr_ok_def hdr_line_def)
    then have "map_option (before CR) (find_header ?line (CRLF @ CRLF @ b) name) =
        map_option (\<lambda>h. dropWhile hblank (snd h)) (find (\<lambda>h. strcaseeq (fst h) name) hs)"
      using Cons(1,3) by simp
    with False show ?thesis unfolding p unf by simp
  qed
qed

section \<open>URLs printed and parsed\<close>

definition show_url :: "bool \<Rightarrow> string \<Rightarrow> nat option \<Rightarrow> string \<Rightarrow> string" where
  "show_url https host port path =
     (if https then ''https://'' else ''http://'') @ host @
     (case port of Some p \<Rightarrow> '':'' @ dec_nat p | None \<Rightarrow> []) @ path"

definition host_ok :: "string \<Rightarrow> bool" where
  "host_ok h \<longleftrightarrow> h \<noteq> [] \<and> length h < 256 \<and> \<not> has_ctl h \<and> set h \<inter> set ''/?#:['' = {}"

definition path_ok :: "string \<Rightarrow> bool" where
  "path_ok p \<longleftrightarrow> p \<noteq> [] \<and> hd p = CHR ''/'' \<and> length p < 2048 \<and> \<not> has_ctl p \<and> CHR ''#'' \<notin> set p"

lemma digit_no_delim: "is_digit c \<Longrightarrow> c \<notin> set ''/?#:[''"
  by (auto simp: is_digit_def byte_def)

lemma parse_show_url:
  assumes "host_ok host" "path_ok path" "\<forall>p. port = Some p \<longrightarrow> 0 < p \<and> p < 65536"
  shows "parse_url (Some (show_url https host port path)) =
     Some (host, (case port of Some p \<Rightarrow> int p | None \<Rightarrow> if https then 443 else 80), path, https)"
proof -
  define mid where "mid = (case port of Some p \<Rightarrow> CHR '':'' # dec_nat p | None \<Rightarrow> [])"
  define u where "u = host @ mid @ path"
  obtain ps where path: "path = CHR ''/'' # ps" using assms(2) by (cases path) (auto simp: path_ok_def)
  have url: "show_url https host port path = (if https then ''https://'' else ''http://'') @ u"
    by (simp add: show_url_def u_def mid_def split: option.split)
  have sch: "scheme_split (show_url https host port path) = (https, u)"
    by (simp add: url scheme_split_def starts_with_def)
  have ctl: "\<not> has_ctl (show_url https host port path)"
    using assms by (simp add: url u_def mid_def host_ok_def path_ok_def is_ctl_def byte_def split: option.split)
  have "list_all (\<lambda>c. c \<notin> set ''/?#'') (host @ mid)"
    using assms(1) digit_no_delim dec_nat_digits
    by (fastforce simp: list_all_iff host_ok_def mid_def split: option.split)
  then have au: "authority u = host @ mid"
    using takeWhile_stop [of "\<lambda>c. c \<notin> set ''/?#''" "host @ mid" path] by (simp add: authority_def u_def path)
  have hp: "host_port u = Some (host, map_option (\<lambda>p. dec_nat p @ path) port)"
  proof -
    have "hd u \<noteq> CHR ''[''" using assms(1) by (cases host) (auto simp: u_def host_ok_def)
    moreover have "CHR '':'' \<notin> set host" using assms(1) by (auto simp: host_ok_def)
    moreover have "host_port u = (if hd u = CHR ''['' then host_port u
        else if CHR '':'' \<in> set (host @ mid)
        then let i = length (before (CHR '':'') (host @ mid)) in Some (take i u, Some (drop (i + 1) u))
        else Some (host @ mid, None))"
      by (simp add: host_port_def au)
    ultimately show ?thesis
      by (cases port) (auto simp: mid_def before_append u_def Let_def)
  qed
  have port: "(case map_option (\<lambda>p. dec_nat p @ path) port of Some p \<Rightarrow> atoi p | None \<Rightarrow> if https then 443 else 80) =
      (case port of Some p \<Rightarrow> int p | None \<Rightarrow> if https then 443 else 80)"
    using assms(3) by (auto simp: atoi_dec_nat INT_MAX_def path is_digit_def byte_def split: option.split)
  have "drop (length (authority u)) u = path" unfolding au by (simp add: u_def)
  moreover have bf: "before (CHR ''#'') path = path"
    using assms(2) by (auto simp: path_ok_def takeWhile_eq_all_conv)
  moreover define P where "P = (case port of Some p \<Rightarrow> int p | None \<Rightarrow> if https then 443 else 80)"
  moreover have "0 < P \<and> P < 65536" using assms(3) by (cases port) (simp_all add: P_def)
  ultimately show ?thesis
    using assms(1,2) ctl port
    by (simp add: parse_url_def sch hp Let_def host_ok_def path_ok_def bf P_def [symmetric])
qed

section \<open>Redirects\<close>

lemma do_request_clean: "do_request env st meth url ct b n = (st', r, rq) \<Longrightarrow> extra_hdrs st' = [] \<and> req_timeout st' = 0"
  by (auto simp: do_request_def Let_def split: option.splits if_splits)

lemma do_request_made:
  "do_request env st meth url ct b n = (st', r, Some rq) \<Longrightarrow> make_request st meth url ct b n = Some rq"
  by (auto simp: do_request_def Let_def split: option.splits if_splits)

text \<open>A request without extra headers.\<close>

definition plain_get :: "http_req option \<Rightarrow> bool" where
  "plain_get rq \<longleftrightarrow>
     (case rq of None \<Rightarrow> True
      | Some q \<Rightarrow> \<exists>st url. extra_hdrs st = [] \<and> make_request st ''GET'' (Some url) None None 0 = Some q)"

lemma get_hops_props:
  "extra_hdrs st = [] \<Longrightarrow> get_hops envs k n cur (st, r, rqs) = (st', r', rqs') \<Longrightarrow>
     \<exists>more_rqs. rqs' = rqs @ more_rqs \<and> length more_rqs \<le> n \<and> list_all plain_get more_rqs \<and> extra_hdrs st' = []"
proof (induction n arbitrary: k cur st r rqs)
  case (Suc n)
  show ?case
  proof (cases "location r \<noteq> [] \<and> is_redirect (status r) \<and> resolve_location cur (location r) 2048 \<noteq> None")
    case True
    then obtain nxt where nxt: "resolve_location cur (location r) 2048 = Some nxt" by blast
    obtain st1 r1 rq where d: "do_request (envs k) st ''GET'' (Some nxt) None None 0 = (st1, r1, rq)"
      by (cases "do_request (envs k) st ''GET'' (Some nxt) None None 0")
    have "plain_get rq"
      using do_request_made [of "envs k" st "''GET''" "Some nxt" None None 0 st1 r1] d Suc.prems(1)
      by (cases rq) (auto simp: plain_get_def)
    moreover have "get_hops envs (k + 1) n nxt (st1, r1, rqs @ [rq]) = (st', r', rqs')"
      using Suc.prems(2) True nxt d by simp
    from Suc.IH [OF _ this] obtain m where "rqs' = (rqs @ [rq]) @ m" "length m \<le> n" "list_all plain_get m"
      "extra_hdrs st' = []"
      using do_request_clean [OF d] by blast
    ultimately show ?thesis by (intro exI [of _ "rq # m"]) simp
  next
    case False
    with Suc.prems show ?thesis by (auto split: if_splits option.splits)
  qed
qed simp

lemma sample_request:
  "\<exists>rq. make_request \<lparr>extra_hdrs = [(''X'', ''1'')], req_timeout = 0\<rparr> ''GET'' (Some ''http://h/a b'') None None 0 = Some rq
     \<and> \<not> hr_tls rq"
proof -
  have b: "length (build_request ''GET'' ''/a%20b'' ''h'' 80 False None 0 [(''X'', ''1'')]) < 4095"
    unfolding build_request_lines length_take
    by (rule min.strict_coboundedI1) (simp add: request_lines_def)
  have "parse_url (Some ''http://h/a b'') = Some (''h'', 80, ''/a b'', False)"
    using parse_show_url [of "''h''" "''/a b''" None False]
    by (simp add: show_url_def host_ok_def path_ok_def is_ctl_def byte_def)
  moreover have "encode_path ''/a b'' 3072 = Some ''/a%20b''"
    by (simp add: encode_path_def enc_char_def must_encode_def hex_up_def byte_def)
  ultimately show ?thesis
    using b by (simp add: make_request_def is_ctl_def byte_def not_le)
qed

section \<open>Properties\<close>

text \<open>
  (C10) No header injection: a request that \<open>do_request\<close> builds consists of exactly its own lines, the
  request line, Host, Connection and one line per content type, length and extra header, none
  of which holds a control character, whatever URL, content type and header values were given.
\<close>

theorem make_request_no_injection:
  assumes "make_request st meth url ctype bodyp body_len = Some rq" "\<not> has_ctl meth"
  shows "\<exists>ls. hr_head rq = crlf_lines ls @ CRLF \<and> list_all (\<lambda>l. \<not> has_ctl l) ls \<and>
     length ls = 3 + (if ctype = None then 0 else 1) + (if body_len > 0 then 1 else 0) + length (extra_hdrs st)"
proof -
  obtain epath where e: "hr_head rq =
        crlf_lines (request_lines meth epath (hr_host rq) (hr_port rq) (hr_tls rq) ctype body_len (extra_hdrs st)) @ CRLF"
    "\<forall>l \<in> set (request_lines meth epath (hr_host rq) (hr_port rq) (hr_tls rq) ctype body_len (extra_hdrs st)). \<not> has_ctl l"
    using make_request_lines [OF assms] by blast
  show ?thesis
    by (intro exI conjI, rule e(1)) (use e(2) in \<open>simp_all add: list_all_iff length_request_lines\<close>)
qed

theorem make_request_no_injection_witness:
  "\<exists>rq ls. make_request \<lparr>extra_hdrs = [(''X'', ''1'')], req_timeout = 0\<rparr> ''GET'' (Some ''http://h/a b'') None None 0 = Some rq
     \<and> hr_head rq = crlf_lines ls @ CRLF \<and> length ls = 4"
  using sample_request make_request_no_injection
    [of "\<lparr>extra_hdrs = [(''X'', ''1'')], req_timeout = 0\<rparr>" "''GET''" "Some ''http://h/a b''" None None 0]
  by (fastforce simp: is_ctl_def byte_def)

text \<open>
  (C7) Decoding a chunked body gives back what the peer encoded, for every sequence of chunks, with or
  without chunk extensions and whatever trailer follows; the result never exceeds the input,
  so decoding in place is safe.
\<close>

theorem http_dechunk_roundtrip:
  "length (http_dechunk p) \<le> length p \<and>
   (list_all (\<lambda>c. snd c \<noteq> [] \<and> length (snd c) \<le> ULONG_MAX \<and> chunk_ext (fst c)) cs \<longrightarrow>
      http_dechunk (chunked_enc cs trailer) = concat (map snd cs))"
  using length_http_dechunk [of p] http_dechunk_enc [of cs trailer] by blast

theorem http_dechunk_roundtrip_witness:
  "http_dechunk (chunked_enc [([], ''hello ''), ('';x=1'', ''world'')] ''T: 1'') = ''hello world''"
  using http_dechunk_roundtrip [of "[]" "[([], ''hello ''), ('';x=1'', ''world'')]" "''T: 1''"]
  by (simp add: chunk_ext_def ULONG_MAX_def)

text \<open>
  Of a response the client keeps exactly the bytes received up to 4 MB less one, however they
  arrive and however its buffer grows; the terminating NUL always fits.
\<close>

theorem http_read_bounded:
  "http_read rds 65536 [] = take (4 * 1024 * 1024 - 1) (rx_bytes rds)"
  using http_read_take [of 65536 "[]" rds] by (simp add: buf_max_def)

text \<open>
  Looking up a header in a response block returns the value of the first header of that name,
  without regard to case and without leading blanks, or nothing when there is none; text in
  the body is never taken for a header.
\<close>

theorem find_header_first:
  assumes "CR \<notin> set line" "list_all hdr_ok hs" "CHR '':'' \<notin> set name"
  shows "map_option (before CR)
       (find_header (line @ CRLF @ crlf_lines (map hdr_line hs) @ CRLF @ bod) (CRLF @ CRLF @ bod) name) =
     map_option (\<lambda>h. dropWhile hblank (snd h)) (find (\<lambda>h. strcaseeq (fst h) name) hs)"
  using assms by (rule find_header_lines)

theorem find_header_first_witness:
  "map_option (before CR) (find_header (''HTTP/1.1 302 Found'' @ CRLF @
       crlf_lines (map hdr_line [(''Server'', ''x''), (''location'', ''/a'')]) @ CRLF @ ''b'') (CRLF @ CRLF @ ''b'') ''Location'')
     = Some ''/a''"
proof -
  have "find (\<lambda>h. strcaseeq (fst h) ''Location'') [(''Server'', ''x''), (''location'', ''/a'')] = Some (''location'', ''/a'')"
    by code_simp
  then show ?thesis
    by (subst find_header_first) (simp_all add: hdr_ok_def hblank_def del: find.simps)
qed

text \<open>
  Parsing a URL inverts printing it: scheme, host, port (the scheme's own when none is given)
  and path come back, for every host and path the client can send.
\<close>

theorem parse_url_roundtrip:
  assumes "host_ok host" "path_ok path" "\<forall>p. port = Some p \<longrightarrow> 0 < p \<and> p < 65536"
  shows "parse_url (Some (show_url https host port path)) =
     Some (host, (case port of Some p \<Rightarrow> int p | None \<Rightarrow> if https then 443 else 80), path, https)"
  using assms by (rule parse_show_url)

theorem parse_url_roundtrip_witness:
  "parse_url (Some (show_url True ''a.b'' (Some 8080) ''/x'')) = Some (''a.b'', 8080, ''/x'', True)"
  by (subst parse_url_roundtrip) (simp_all add: host_ok_def path_ok_def is_ctl_def byte_def)

text \<open>
  A GET sends at most four requests, and only the first of them carries the extra headers (API
  keys, tokens): every request that follows a redirect is built without any.
\<close>

theorem http_get_headers_first_host:
  assumes "http_get envs st url = (st', r, rqs)"
  shows "length rqs \<le> 4 \<and> list_all plain_get (tl rqs)"
proof (cases "length url \<ge> 2048")
  case True
  with assms show ?thesis by (auto simp: http_get_def)
next
  case False
  obtain st1 r1 rq where d: "do_request (envs 0) st ''GET'' (Some url) None None 0 = (st1, r1, rq)"
    by (cases "do_request (envs 0) st ''GET'' (Some url) None None 0")
  then have "get_hops envs 1 3 url (st1, r1, [rq]) = (st', r, rqs)"
    using assms False by (simp add: http_get_def)
  from get_hops_props [OF _ this] show ?thesis using do_request_clean [OF d] by auto
qed

theorem http_get_headers_first_host_witness:
  "\<exists>st' r rqs. http_get (\<lambda>_. \<lparr>net_ok = False, tls_start_ok = True, sent_ok = True, rx = [], timed_out = False, tls_err = False\<rparr>)
       \<lparr>extra_hdrs = [(''K'', ''v'')], req_timeout = 0\<rparr> ''http://h/'' = (st', r, rqs) \<and> length rqs \<le> 4 \<and> list_all plain_get (tl rqs)"
proof -
  let ?g = "http_get (\<lambda>_. \<lparr>net_ok = False, tls_start_ok = True, sent_ok = True, rx = [], timed_out = False, tls_err = False\<rparr>)
       \<lparr>extra_hdrs = [(''K'', ''v'')], req_timeout = 0\<rparr> ''http://h/''"
  obtain st' r rqs where g: "?g = (st', r, rqs)" by (cases ?g)
  with http_get_headers_first_host [OF g] show ?thesis by blast
qed

text \<open>
  The settings of a GET whose URL is too long for its buffer are not consumed: the call fails,
  and the extra headers and the timeout stay in place, so they go out with the next request of
  the thread, to whichever host that is. The declaration of \<open>http_set_header\<close> says the
  settings are reset after each request.
\<close>

theorem http_get_long_url_keeps_headers:
  assumes "length url \<ge> 2048" "make_request st ''GET'' (Some url2) None None 0 = Some rq" "net_ok (envs2 0)"
    "\<not> hr_tls rq" "length url2 < 2048"
  shows "\<exists>st1 st2 r2 rqs2. http_get envs st url = (st1, err_resp HTTP_ERR_REQUEST, []) \<and> extra_hdrs st1 = extra_hdrs st \<and>
     http_get envs2 st1 url2 = (st2, r2, Some rq # rqs2)"
proof -
  have long: "http_get envs st url = (st, err_resp HTTP_ERR_REQUEST, [])"
    using assms(1) by (simp add: http_get_def)
  obtain st1 r1 where d: "do_request (envs2 0) st ''GET'' (Some url2) None None 0 = (st1, r1, Some rq)"
    using assms(2-4) by (cases "sent_ok (envs2 0)") (simp_all add: do_request_def Let_def)
  obtain st2 r2 rqs2 where g: "get_hops envs2 1 3 url2 (st1, r1, [Some rq]) = (st2, r2, rqs2)"
    by (cases "get_hops envs2 1 3 url2 (st1, r1, [Some rq])")
  from get_hops_props [OF _ g] do_request_clean [OF d] obtain m where "rqs2 = Some rq # m" by auto
  with g d assms(5) have "http_get envs2 st url2 = (st2, r2, Some rq # m)" by (simp add: http_get_def)
  with long show ?thesis by blast
qed

theorem http_get_long_url_keeps_headers_witness:
  "\<exists>st1 st2 r2 rq rqs2. http_get (\<lambda>_. \<lparr>net_ok = True, tls_start_ok = True, sent_ok = False, rx = [], timed_out = False, tls_err = False\<rparr>)
       \<lparr>extra_hdrs = [(''X'', ''1'')], req_timeout = 0\<rparr> (replicate 2048 (CHR ''a''))
       = (st1, err_resp HTTP_ERR_REQUEST, []) \<and> extra_hdrs st1 = [(''X'', ''1'')] \<and>
     http_get (\<lambda>_. \<lparr>net_ok = True, tls_start_ok = True, sent_ok = False, rx = [], timed_out = False, tls_err = False\<rparr>)
       st1 ''http://h/a b'' = (st2, r2, Some rq # rqs2)"
proof -
  obtain rq where "make_request \<lparr>extra_hdrs = [(''X'', ''1'')], req_timeout = 0\<rparr> ''GET'' (Some ''http://h/a b'') None None 0 = Some rq"
    "\<not> hr_tls rq" using sample_request by blast
  then show ?thesis
    using http_get_long_url_keeps_headers [of "replicate 2048 (CHR ''a'')" "\<lparr>extra_hdrs = [(''X'', ''1'')], req_timeout = 0\<rparr>"
      "''http://h/a b''" rq "\<lambda>_. \<lparr>net_ok = True, tls_start_ok = True, sent_ok = False, rx = [], timed_out = False, tls_err = False\<rparr>"
      "\<lambda>_. \<lparr>net_ok = True, tls_start_ok = True, sent_ok = False, rx = [], timed_out = False, tls_err = False\<rparr>"]
    by simp blast
qed

text \<open>
  A redirect to a path whose query holds an absolute URL, such as \<open>/login?next=https://b/\<close>, is
  taken for an absolute URL itself: the code looks for \<open>://\<close> anywhere in the target, so the
  origin is not prepended and the next request is refused as an invalid URL.
\<close>

theorem resolve_location_query_url:
  "resolve_location ''http://a/x'' ''/login?next=https://b/'' 2048 = Some ''/login?next=https://b/'' \<and>
   parse_url (Some ''/login?next=https://b/'') = None"
proof
  show "resolve_location ''http://a/x'' ''/login?next=https://b/'' 2048 = Some ''/login?next=https://b/''"
    by (simp add: resolve_location_def starts_with_def Let_def)
  have "host_port ''/login?next=https://b/'' = Some ([], None)"
    by (simp add: host_port_def authority_def Let_def)
  then show "parse_url (Some ''/login?next=https://b/'') = None"
    by (simp add: parse_url_def scheme_split_def starts_with_def Let_def)
qed

text \<open>
  Percent-encoding a path leaves only characters that may stand in a request line, fits the
  output buffer, and encoding twice changes nothing more.
\<close>

theorem encode_path_sound:
  assumes "encode_path s sz = Some r" "s \<noteq> []"
  shows "list_all url_char r \<and> length r < sz \<and> encode_path r (length r + 3) = Some r"
proof -
  have u: "list_all url_char r" by (rule encode_path_url [OF assms(1)])
  moreover have "length r < sz" using assms by (auto simp: encode_path_def dest: encode_loop_Some)
  moreover have "encode_path r (length r + 3) = Some r"
    using encode_loop_fits [of 0 r "length r + 3"] by (simp add: encode_path_def enc_char_id [OF u])
  ultimately show ?thesis by blast
qed

theorem encode_path_sound_witness:
  "list_all url_char ''/a%20b'' \<and> length ''/a%20b'' < 3072"
  using encode_path_sound [of "''/a b''" 3072 "''/a%20b''"]
  by (simp add: encode_path_def enc_char_def must_encode_def hex_up_def byte_def)

end
