(* ===== verification/Provider.thy ===== *)
theory Provider
  imports Config Http
begin

text \<open>
  \<open>src/provider.c\<close>: calls to the API of a language model, in the protocol of Anthropic or of OpenAI.
  The conversation is kept in the blocks of the first; the second is converted to and from.

  The replies of the servers, the random numbers and which allocations fail are the environment
  \<open>llm_env\<close>. A call returns the settings of the HTTP client, what it did (the requests it sent, the seconds
  it slept), the response record and the result code. Nodes of a JSON value can always be allocated.

  The lemmas show that a call sends at most three requests and sleeps at most a minute between
  two of them, that both protocols keep one contract (\<open>llm_backend\<close>), that the conversation is
  carried over to the OpenAI format without losing, adding or reordering anything, that a reply
  of that format comes back as the same conversation, and that reasoning is kept apart from text.
\<close>

section \<open>Records\<close>

record text_block =
  tb_type :: string
  tb_text :: string

record tool_call =
  tc_id :: string
  tc_name :: string
  tc_input :: string

record llm_usage =
  us_input :: int
  us_cached :: int
  us_written :: int
  us_output :: int

record llm_response =
  text_blocks :: "text_block list"
  tool_calls :: "tool_call list"
  stop_reason :: string
  usage :: llm_usage
  lr_content :: "cjson option"
  lr_error :: string

text \<open>
  \<open>le_http n\<close>: how the network and the server behave at attempt \<open>n\<close>. \<open>le_calloc\<close>: the arrays of the response
  cannot be allocated; \<open>le_nomem i\<close>: the copies for block or call \<open>i\<close> of a reply fail; \<open>le_join m i\<close>: so does the
  buffer of \<open>join_blocks\<close> for message \<open>m\<close>, at the start (0) or when it grows for block \<open>i - 1\<close>.
\<close>

record llm_env =
  le_http :: "nat \<Rightarrow> henv"
  le_calloc :: bool
  le_nomem :: "nat \<Rightarrow> bool"
  le_join :: "nat \<Rightarrow> nat \<Rightarrow> bool"
  le_rnd :: "nat \<Rightarrow> nat list option"
  le_now :: "64 word"
  le_ptr :: "64 word"

record llm_io =
  io_reqs :: "http_req option list"
  io_sleeps :: "int list"

definition blank_response :: llm_response where
  "blank_response = \<lparr>text_blocks = [], tool_calls = [], stop_reason = [],
     usage = \<lparr>us_input = 0, us_cached = 0, us_written = 0, us_output = 0\<rparr>, lr_content = None, lr_error = []\<rparr>"

section \<open>JSON access through a pointer that may be null\<close>

definition opt_item :: "cjson_api \<Rightarrow> cjson option \<Rightarrow> string \<Rightarrow> cjson option" where
  "opt_item J v key = (case v of Some x \<Rightarrow> cJSON_GetObjectItem J x key | None \<Rightarrow> None)"

definition opt_str :: "cjson_api \<Rightarrow> cjson option \<Rightarrow> string \<Rightarrow> string option" where
  "opt_str J v key = (case v of Some x \<Rightarrow> j_str J x key | None \<Rightarrow> None)"

definition opt_int :: "cjson_api \<Rightarrow> cjson option \<Rightarrow> string \<Rightarrow> int \<Rightarrow> int" where
  "opt_int J v key def = (case v of Some x \<Rightarrow> j_int J x key def | None \<Rightarrow> def)"

definition opt_items :: "cjson option \<Rightarrow> cjson list" where
  "opt_items v = (case v of Some x \<Rightarrow> array_items x | None \<Rightarrow> [])"

text \<open>A null string is not added (\<open>cJSON_AddStringToObject\<close>).\<close>

definition add_string_opt :: "cjson_api \<Rightarrow> string \<Rightarrow> string option \<Rightarrow> cjson \<Rightarrow> cjson" where
  "add_string_opt J key val obj = (case val of Some s \<Rightarrow> add_string J key s obj | None \<Rightarrow> obj)"

definition add_number :: "cjson_api \<Rightarrow> string \<Rightarrow> int \<Rightarrow> cjson \<Rightarrow> cjson" where
  "add_number J key n obj = cJSON_AddItemToObject J obj key (CNumber n (of_int n))"

section \<open>Requests\<close>

definition is_official :: "provider_ref \<Rightarrow> string \<Rightarrow> bool" where
  "is_official prov host \<longleftrightarrow> base_url prov = [] \<or> strstr host (base_url prov) \<noteq> None"

definition api_url :: "provider_ref \<Rightarrow> string \<Rightarrow> string \<Rightarrow> nat \<Rightarrow> string" where
  "api_url prov def_base path sz =
     (let base = (if base_url prov \<noteq> [] then base_url prov else def_base);
          b = rev (dropWhile (\<lambda>c. c = CHR ''/'') (rev base));
          p = (if ends_with ''/v1'' b \<and> starts_with ''/v1/'' path then drop 3 path else path)
      in buf_set sz (b @ p))"

definition anthropic_auth :: "provider_ref \<Rightarrow> http_tls \<Rightarrow> http_tls" where
  "anthropic_auth prov st =
     http_set_header (Some ''anthropic-version'') (Some ''2023-06-01'') (http_set_header (Some ''x-api-key'') (Some (api_key prov)) st)"

definition openai_auth :: "provider_ref \<Rightarrow> http_tls \<Rightarrow> http_tls" where
  "openai_auth prov st =
     http_set_header (Some ''Authorization'')
       (Some (buf_set 300 (''Bearer '' @ (if api_key prov \<noteq> [] then api_key prov else ''none'')))) st"

definition describe_failure :: "cjson_api \<Rightarrow> http_response \<Rightarrow> nat \<Rightarrow> string" where
  "describe_failure J r sz =
     (if status r < 0 then buf_set sz (http_strerror (status r))
      else let txt = (case body r of Some b \<Rightarrow> cstr b | None \<Rightarrow> []);
               e = opt_item J (cJSON_Parse J txt) ''error'';
               msg = (case e of Some (CString s) \<Rightarrow> Some s | _ \<Rightarrow> opt_str J e ''message'')
           in buf_set sz (''HTTP '' @ dec_int (status r) @ '': '' @ take 200 (case msg of Some m \<Rightarrow> m | None \<Rightarrow> txt)))"

definition retryable :: "int \<Rightarrow> bool" where
  "retryable s \<longleftrightarrow> s = err_code HTTP_ERR_CONNECT \<or> s = err_code HTTP_ERR_PROTO \<or> s = 408 \<or> s = 409 \<or> s = 429 \<or> s \<ge> 500"

definition retry_wait :: "nat \<Rightarrow> http_response \<Rightarrow> int" where
  "retry_wait attempt r =
     (let wait = (if retry_after r > 0 then retry_after r else push_bit (2 * attempt) 2) in if wait > 60 then 60 else wait)"

text \<open>From attempt \<open>attempt\<close> on; \<open>err\<close> is the text in the error buffer.\<close>

function post_retry :: "llm_env \<Rightarrow> cjson_api \<Rightarrow> provider_ref \<Rightarrow> string \<Rightarrow> string \<Rightarrow> (http_tls \<Rightarrow> http_tls) \<Rightarrow> nat \<Rightarrow> string \<Rightarrow> http_tls \<Rightarrow>
    http_tls \<times> llm_io \<times> http_response \<times> string" where
  "post_retry e J prov url json auth attempt err st =
     (let st1 = http_set_timeout (if pr_timeout prov > 0 then pr_timeout prov else 600) (auth st);
          (st2, r, rq) = http_post_json (le_http e attempt) st1 (Some url) (Some json);
          err' = describe_failure J r 256
      in if status r = 200 then (st2, \<lparr>io_reqs = [rq], io_sleeps = []\<rparr>, r, err)
         else if attempt \<ge> 2 \<or> \<not> retryable (status r) then (st2, \<lparr>io_reqs = [rq], io_sleeps = []\<rparr>, r, err')
         else let (st3, io, r', err'') = post_retry e J prov url json auth (attempt + 1) err' st2
              in (st3, \<lparr>io_reqs = rq # io_reqs io, io_sleeps = retry_wait attempt r # io_sleeps io\<rparr>, r', err''))"
  by pat_completeness auto
termination
  by (relation "measure (\<lambda>(e, J, prov, url, json, auth, attempt, err, st). 3 - attempt)") auto

declare post_retry.simps [simp del]

section \<open>Building the response\<close>

definition add_text :: "bool \<Rightarrow> string \<Rightarrow> string option \<Rightarrow> nat \<Rightarrow> llm_response \<Rightarrow> llm_response" where
  "add_text nomem ty t len out =
     (case t of None \<Rightarrow> out
      | Some s \<Rightarrow> if len = 0 \<or> nomem then out
                  else out\<lparr>text_blocks := text_blocks out @ [\<lparr>tb_type = buf_set 16 ty, tb_text = take len s\<rparr>]\<rparr>)"

abbreviation add_whole :: "bool \<Rightarrow> string \<Rightarrow> string option \<Rightarrow> llm_response \<Rightarrow> llm_response" where
  "add_whole nomem ty t \<equiv> add_text nomem ty t (case t of Some s \<Rightarrow> length s | None \<Rightarrow> 0)"

definition add_tool_call :: "string \<Rightarrow> string \<Rightarrow> string \<Rightarrow> llm_response \<Rightarrow> llm_response" where
  "add_tool_call cid name input out =
     out\<lparr>tool_calls := tool_calls out @ [\<lparr>tc_id = buf_set 64 cid, tc_name = buf_set 64 name, tc_input = input\<rparr>]\<rparr>"

section \<open>Anthropic\<close>

definition add_cache_breakpoint :: "cjson_api \<Rightarrow> cjson \<Rightarrow> cjson" where
  "add_cache_breakpoint J obj = cJSON_AddItemToObject J obj ''cache_control'' (add_string J ''type'' ''ephemeral'' (CObject []))"

definition anthropic_payload :: "cjson_api \<Rightarrow> provider_ref \<Rightarrow> string option \<Rightarrow> cjson \<Rightarrow> cjson option \<Rightarrow> cjson" where
  "anthropic_payload J prov sys messages tools =
     (let p1 = add_string J ''model'' (pr_model prov) (CObject []);
          p2 = add_number J ''max_tokens'' (if max_tokens prov > 0 then max_tokens prov else 16000) p1;
          p3 = cJSON_AddItemToObject J p2 ''messages'' messages;
          p4 = (case tools of Some t \<Rightarrow> if array_items t \<noteq> [] then cJSON_AddItemToObject J p3 ''tools'' t else p3 | None \<Rightarrow> p3)
      in if is_official prov ''api.anthropic.com'' then
           let block = add_cache_breakpoint J (add_string_opt J ''text'' sys (add_string J ''type'' ''text'' (CObject [])));
               p5 = cJSON_AddItemToObject J p4 ''system'' (cJSON_AddItemToArray J (CArray []) block)
           in add_cache_breakpoint J p5
         else add_string_opt J ''system'' sys p4)"

text \<open>One block of the content, number \<open>i\<close>.\<close>

definition anthropic_block :: "llm_env \<Rightarrow> cjson_api \<Rightarrow> nat \<times> cjson \<Rightarrow> llm_response \<Rightarrow> llm_response" where
  "anthropic_block e J = (\<lambda>(i, block) out.
     case j_str J block ''type'' of
       None \<Rightarrow> out
     | Some ty \<Rightarrow>
         if ty = ''text'' then add_whole (le_nomem e i) ''text'' (j_str J block ''text'') out
         else if ty = ''thinking'' then add_whole (le_nomem e i) ''thinking'' (j_str J block ''thinking'') out
         else if ty = ''tool_use'' then
           (case (j_str J block ''id'', j_str J block ''name'',
                  (case cJSON_GetObjectItem J block ''input'' of
                     Some inp \<Rightarrow> cJSON_PrintUnformatted J inp
                   | None \<Rightarrow> if le_nomem e i then None else Some ''{}'')) of
              (Some cid, Some name, Some input) \<Rightarrow> add_tool_call cid name input out
            | _ \<Rightarrow> out)
         else out)"

definition anthropic_reply :: "llm_env \<Rightarrow> cjson_api \<Rightarrow> cjson \<Rightarrow> llm_response \<Rightarrow> llm_response \<times> int" where
  "anthropic_reply e J top_obj out =
     (let us = cJSON_GetObjectItem J top_obj ''usage'';
          cached = opt_int J us ''cache_read_input_tokens'' 0;
          written = opt_int J us ''cache_creation_input_tokens'' 0;
          content = (case cJSON_GetObjectItem J top_obj ''content'' of Some (CArray bs) \<Rightarrow> bs | _ \<Rightarrow> []);
          out1 = out\<lparr>stop_reason := buf_set 32 (case j_str J top_obj ''stop_reason'' of Some s \<Rightarrow> s | None \<Rightarrow> ''end_turn''),
                   usage := \<lparr>us_input = to_int32 (opt_int J us ''input_tokens'' 0 + cached + written), us_cached = cached,
                             us_written = written, us_output = opt_int J us ''output_tokens'' 0\<rparr>,
                   lr_content := Some (CArray content)\<rparr>
      in if le_calloc e then (out1\<lparr>lr_error := ''out of memory''\<rparr>, -1)
         else (fold (anthropic_block e J) (enumerate 0 content) out1, 0))"

definition call_anthropic :: "llm_env \<Rightarrow> cjson_api \<Rightarrow> provider_ref \<Rightarrow> string option \<Rightarrow> cjson \<Rightarrow> cjson option \<Rightarrow> http_tls \<Rightarrow> llm_response \<Rightarrow>
    http_tls \<times> llm_io \<times> llm_response \<times> int" where
  "call_anthropic e J prov sys messages tools st out =
     (case cJSON_PrintUnformatted J (anthropic_payload J prov sys messages tools) of
        None \<Rightarrow> (st, \<lparr>io_reqs = [], io_sleeps = []\<rparr>, out\<lparr>lr_error := ''cannot serialize request''\<rparr>, -1)
      | Some json0 \<Rightarrow>
          let (st', io, resp, err) = post_retry e J prov (api_url prov ''https://api.anthropic.com'' ''/v1/messages'' 512) (utf8_scrub json0)
                                       (anthropic_auth prov) 0 (lr_error out) st;
              out1 = out\<lparr>lr_error := err\<rparr>
          in if status resp \<noteq> 200 then (st', io, out1, -1)
             else case (case body resp of Some b \<Rightarrow> cJSON_Parse J (cstr b) | None \<Rightarrow> None) of
                    None \<Rightarrow> (st', io, out1\<lparr>lr_error := ''invalid JSON response''\<rparr>, -1)
                  | Some top_obj \<Rightarrow> (case anthropic_reply e J top_obj out1 of (out2, rc) \<Rightarrow> (st', io, out2, rc)))"

section \<open>OpenAI: the request\<close>

function grow_cap :: "nat \<Rightarrow> nat \<Rightarrow> nat" where
  "grow_cap need cap = (if need \<le> cap \<or> cap = 0 then cap else grow_cap need (cap * 2))"
  by pat_completeness auto
termination
  by (relation "measure (\<lambda>(need, cap). need - cap)") auto

declare grow_cap.simps [simp del]

text \<open>
  The loop of \<open>join_blocks\<close> over the remaining blocks: \<open>cap\<close> bytes are allocated, \<open>s\<close> is the text so far, \<open>i\<close> the
  number of the block.
\<close>

fun join_loop :: "(nat \<Rightarrow> bool) \<Rightarrow> cjson_api \<Rightarrow> string \<Rightarrow> nat \<Rightarrow> cjson list \<Rightarrow> nat \<Rightarrow> string \<Rightarrow> string" where
  "join_loop fails J ty i [] cap s = s"
| "join_loop fails J ty i (block # blocks) cap s =
     (case (j_str J block ''type'', j_str J block ''text'') of
        (Some bty, Some t) \<Rightarrow>
          if bty \<noteq> ty \<or> t = [] then join_loop fails J ty (i + 1) blocks cap s
          else let need = length s + length t + 2
               in if need > cap \<and> fails (i + 1) then s
                  else join_loop fails J ty (i + 1) blocks (if need > cap then grow_cap need cap else cap) (s @ (if s \<noteq> [] then [LF] else []) @ t)
      | _ \<Rightarrow> join_loop fails J ty (i + 1) blocks cap s)"

definition join_blocks :: "(nat \<Rightarrow> bool) \<Rightarrow> cjson_api \<Rightarrow> cjson list \<Rightarrow> string \<Rightarrow> string option" where
  "join_blocks fails J blocks ty = (if fails 0 then None else Some (join_loop fails J ty 0 blocks 256 []))"

definition add_string_or_empty :: "cjson_api \<Rightarrow> string \<Rightarrow> string option \<Rightarrow> cjson \<Rightarrow> cjson" where
  "add_string_or_empty J key s obj = add_string J key (case s of Some t \<Rightarrow> t | None \<Rightarrow> []) obj"

text \<open>The call of a \<open>tool_use\<close> block, \<open>None\<close> where the loop continues with the next block.\<close>

definition openai_call :: "cjson_api \<Rightarrow> cjson \<Rightarrow> cjson option" where
  "openai_call J block =
     (case (j_str J block ''type'', j_str J block ''name'') of
        (Some bty, Some name) \<Rightarrow>
          if bty \<noteq> ''tool_use'' then None
          else let args = (case cJSON_GetObjectItem J block ''input'' of Some inp \<Rightarrow> cJSON_PrintUnformatted J inp | None \<Rightarrow> None);
                   call = add_string J ''type'' ''function''
                     (add_string J ''id'' (case j_str J block ''id'' of Some d \<Rightarrow> d | None \<Rightarrow> []) (CObject []));
                   func = add_string J ''arguments'' (case args of Some a \<Rightarrow> a | None \<Rightarrow> ''{}'') (add_string J ''name'' name (CObject []))
               in Some (cJSON_AddItemToObject J call ''function'' func)
      | _ \<Rightarrow> None)"

definition openai_result :: "cjson_api \<Rightarrow> cjson \<Rightarrow> cjson option" where
  "openai_result J block =
     (if j_str J block ''type'' \<noteq> Some ''tool_result'' then None
      else Some (add_string_or_empty J ''content'' (j_str J block ''content'')
             (add_string_or_empty J ''tool_call_id'' (j_str J block ''tool_use_id'') (add_string J ''role'' ''tool'' (CObject [])))))"

definition add_all :: "cjson_api \<Rightarrow> cjson list \<Rightarrow> cjson \<Rightarrow> cjson" where
  "add_all J vs arr = fold (\<lambda>v a. cJSON_AddItemToArray J a v) vs arr"

definition append_openai_message :: "(nat \<Rightarrow> bool) \<Rightarrow> cjson_api \<Rightarrow> cjson \<Rightarrow> cjson \<Rightarrow> cjson" where
  "append_openai_message fails J msg oai =
     (case (j_str J msg ''role'', cJSON_GetObjectItem J msg ''content'') of
        (Some role, Some (CArray blocks)) \<Rightarrow>
          if role = ''assistant'' then
            let converted = add_string_or_empty J ''content'' (join_blocks fails J blocks ''text'') (add_string J ''role'' ''assistant'' (CObject []));
                calls = add_all J (List.map_filter (openai_call J) blocks) (CArray [])
            in cJSON_AddItemToArray J oai
                 (if array_items calls \<noteq> [] then cJSON_AddItemToObject J converted ''tool_calls'' calls else converted)
          else
            let oai1 = add_all J (List.map_filter (openai_result J) blocks) oai
            in (case join_blocks fails J blocks ''text'' of
                  Some t \<Rightarrow> if t \<noteq> [] then cJSON_AddItemToArray J oai1 (add_string J ''content'' t (add_string J ''role'' role (CObject []))) else oai1
                | None \<Rightarrow> oai1)
      | _ \<Rightarrow> cJSON_AddItemToArray J oai msg)"

definition openai_tool :: "cjson_api \<Rightarrow> cjson \<Rightarrow> cjson" where
  "openai_tool J t =
     (let f1 = add_string_opt J ''description'' (j_str J t ''description'') (add_string_opt J ''name'' (j_str J t ''name'') (CObject []));
          f2 = (case cJSON_GetObjectItem J t ''input_schema'' of Some s \<Rightarrow> cJSON_AddItemToObject J f1 ''parameters'' s | None \<Rightarrow> f1)
      in cJSON_AddItemToObject J (add_string J ''type'' ''function'' (CObject [])) ''function'' f2)"

definition convert_tools_to_openai :: "cjson_api \<Rightarrow> cjson \<Rightarrow> cjson" where
  "convert_tools_to_openai J tools = add_all J (map (openai_tool J) (array_items tools)) (CArray [])"

definition openai_messages :: "llm_env \<Rightarrow> cjson_api \<Rightarrow> string option \<Rightarrow> cjson \<Rightarrow> cjson" where
  "openai_messages e J sys messages =
     (let m0 = (case sys of
                  Some s \<Rightarrow> if s \<noteq> [] then cJSON_AddItemToArray J (CArray []) (add_string J ''content'' s (add_string J ''role'' ''system'' (CObject [])))
                            else CArray []
                | None \<Rightarrow> CArray [])
      in fold (\<lambda>(i, msg) oai. append_openai_message (le_join e i) J msg oai) (enumerate 0 (array_items messages)) m0)"

definition openai_payload :: "llm_env \<Rightarrow> cjson_api \<Rightarrow> provider_ref \<Rightarrow> string option \<Rightarrow> cjson \<Rightarrow> cjson option \<Rightarrow> cjson" where
  "openai_payload e J prov sys messages tools =
     (let official = is_official prov ''api.openai.com'';
          p1 = cJSON_AddItemToObject J (add_string J ''model'' (pr_model prov) (CObject [])) ''messages'' (openai_messages e J sys messages);
          p2 = add_number J (if official then ''max_completion_tokens'' else ''max_tokens'')
                 (if max_tokens prov > 0 then max_tokens prov else if official then 16000 else 4096) p1;
          p3 = (case tools of
                  Some t \<Rightarrow> if array_items t \<noteq> [] then cJSON_AddItemToObject J p2 ''tools'' (convert_tools_to_openai J t) else p2
                | None \<Rightarrow> p2);
          p4 = (if reasoning_effort prov \<noteq> [] then add_string J ''reasoning_effort'' (reasoning_effort prov) p3 else p3)
      in if official \<and> cache_key prov \<noteq> [] then add_string J ''prompt_cache_key'' (cache_key prov) p4 else p4)"

section \<open>OpenAI: the reply\<close>

definition tool_arguments :: "cjson_api \<Rightarrow> bool \<Rightarrow> cjson option \<Rightarrow> string option" where
  "tool_arguments J nomem args =
     (case args of
        Some (CObject kvs) \<Rightarrow> cJSON_PrintUnformatted J (CObject kvs)
      | Some (CString s) \<Rightarrow>
          if s = [] then (if nomem then None else Some ''{}'')
          else (case cJSON_Parse J s of
                  Some (CString s') \<Rightarrow>
                    (case cJSON_Parse J s' of
                       Some (CObject kvs) \<Rightarrow> cJSON_PrintUnformatted J (CObject kvs)
                     | _ \<Rightarrow> if nomem then None else Some s)
                | _ \<Rightarrow> if nomem then None else Some s)
      | _ \<Rightarrow> if nomem then None else Some ''{}'')"

definition skip_blank :: "string \<Rightarrow> string" where
  "skip_blank s = dropWhile (\<lambda>c. c = SP \<or> c = LF \<or> c = CR \<or> c = TAB) s"

text \<open>The content of a reply: its inlined reasoning, if there is any, and the rest.\<close>

definition think_split :: "string \<Rightarrow> string option \<times> string" where
  "think_split content =
     (let t = skip_blank content
      in if starts_with ''<think>'' t
         then (case strstr ''</think>'' t of
                 Some r \<Rightarrow> (Some (take (length t - length r - 7) (drop 7 t)), skip_blank (drop 8 r))
               | None \<Rightarrow> (Some (drop 7 t), []))
         else (None, t))"

definition openai_text :: "llm_env \<Rightarrow> cjson_api \<Rightarrow> cjson \<Rightarrow> llm_response \<Rightarrow> llm_response" where
  "openai_text e J message out =
     (let reasoning = (case j_str J message ''reasoning_content'' of Some r \<Rightarrow> Some r | None \<Rightarrow> j_str J message ''reasoning'');
          out1 = add_whole (le_nomem e 0) ''thinking'' reasoning out
      in case j_str J message ''content'' of
           None \<Rightarrow> out1
         | Some c \<Rightarrow>
             let (th, t) = think_split c;
                 out2 = add_whole (le_nomem e 1) ''thinking'' th out1
             in if t = [] then out2
                else (add_whole (le_nomem e 2) ''text'' (Some t) out2)
                       \<lparr>lr_content := Some (cJSON_AddItemToArray J (the (lr_content out2)) (add_string J ''text'' t (add_string J ''type'' ''text'' (CObject []))))\<rparr>)"

definition call_id :: "llm_env \<Rightarrow> nat \<Rightarrow> string option \<Rightarrow> string" where
  "call_id e i given_id =
     (case given_id of
        Some d \<Rightarrow> if d \<noteq> [] then buf_set 64 d else buf_set 64 (''call_'' @ uuid_short (le_rnd e i) (le_now e) (le_ptr e) 8)
      | None \<Rightarrow> buf_set 64 (''call_'' @ uuid_short (le_rnd e i) (le_now e) (le_ptr e) 8))"

definition tool_use_block :: "cjson_api \<Rightarrow> string \<Rightarrow> string \<Rightarrow> string \<Rightarrow> cjson" where
  "tool_use_block J cid name args =
     cJSON_AddItemToObject J (add_string J ''name'' name (add_string J ''id'' cid (add_string J ''type'' ''tool_use'' (CObject [])))) ''input''
       (case cJSON_Parse J args of Some (CObject kvs) \<Rightarrow> CObject kvs | _ \<Rightarrow> CObject [])"

definition openai_tool_call :: "llm_env \<Rightarrow> cjson_api \<Rightarrow> nat \<times> cjson \<Rightarrow> llm_response \<Rightarrow> llm_response" where
  "openai_tool_call e J = (\<lambda>(i, tc) out.
     let func = cJSON_GetObjectItem J tc ''function''
     in case opt_str J func ''name'' of
          None \<Rightarrow> out
        | Some name \<Rightarrow>
            if name = [] then out
            else let cid = call_id e i (j_str J tc ''id'')
                 in case tool_arguments J (le_nomem e (i + 3)) (opt_item J func ''arguments'') of
                      None \<Rightarrow> out
                    | Some args \<Rightarrow>
                        add_tool_call cid name args
                          (out\<lparr>lr_content := Some (cJSON_AddItemToArray J (the (lr_content out)) (tool_use_block J cid name args))\<rparr>))"

definition openai_reply :: "llm_env \<Rightarrow> cjson_api \<Rightarrow> cjson option \<Rightarrow> llm_response \<Rightarrow> llm_response \<times> int" where
  "openai_reply e J top_obj out =
     (let choice = (case opt_items (opt_item J top_obj ''choices'') of c # cs \<Rightarrow> Some c | [] \<Rightarrow> None)
      in case opt_item J choice ''message'' of
           None \<Rightarrow> (out\<lparr>lr_error := ''invalid response (no message)''\<rparr>, -1)
         | Some message \<Rightarrow>
             let us = opt_item J top_obj ''usage'';
                 details = opt_item J us ''prompt_tokens_details'';
                 calls = opt_items (cJSON_GetObjectItem J message ''tool_calls'');
                 out1 = out\<lparr>usage := \<lparr>us_input = opt_int J us ''prompt_tokens'' 0, us_cached = opt_int J details ''cached_tokens'' 0,
                                       us_written = opt_int J details ''cache_write_tokens'' 0, us_output = opt_int J us ''completion_tokens'' 0\<rparr>,
                            lr_content := Some (CArray [])\<rparr>
             in if le_calloc e then (out1\<lparr>lr_error := ''out of memory''\<rparr>, -1)
                else let out2 = fold (openai_tool_call e J) (enumerate 0 calls) (openai_text e J message out1);
                         stop = (if tool_calls out2 \<noteq> [] then ''tool_use''
                                 else if opt_str J choice ''finish_reason'' = Some ''length'' then ''max_tokens'' else ''end_turn'')
                     in (out2\<lparr>stop_reason := buf_set 32 stop\<rparr>, 0))"

definition call_openai :: "llm_env \<Rightarrow> cjson_api \<Rightarrow> provider_ref \<Rightarrow> string option \<Rightarrow> cjson \<Rightarrow> cjson option \<Rightarrow> http_tls \<Rightarrow> llm_response \<Rightarrow>
    http_tls \<times> llm_io \<times> llm_response \<times> int" where
  "call_openai e J prov sys messages tools st out =
     (case cJSON_PrintUnformatted J (openai_payload e J prov sys messages tools) of
        None \<Rightarrow> (st, \<lparr>io_reqs = [], io_sleeps = []\<rparr>, out\<lparr>lr_error := ''cannot serialize request''\<rparr>, -1)
      | Some json0 \<Rightarrow>
          let (st', io, resp, err) = post_retry e J prov (api_url prov ''https://api.openai.com'' ''/v1/chat/completions'' 512) (utf8_scrub json0)
                                       (openai_auth prov) 0 (lr_error out) st;
              out1 = out\<lparr>lr_error := err\<rparr>
          in if status resp \<noteq> 200 then (st', io, out1, -1)
             else case openai_reply e J (case body resp of Some b \<Rightarrow> cJSON_Parse J (cstr b) | None \<Rightarrow> None) out1 of
                    (out2, rc) \<Rightarrow> (st', io, out2, rc))"

definition llm_call :: "llm_env \<Rightarrow> cjson_api \<Rightarrow> provider_ref \<Rightarrow> string option \<Rightarrow> cjson \<Rightarrow> cjson option \<Rightarrow> http_tls \<Rightarrow>
    http_tls \<times> llm_io \<times> llm_response \<times> int" where
  "llm_call e J prov sys messages tools st =
     (if provider_type prov = ''anthropic'' then call_anthropic e J prov sys messages tools st blank_response
      else call_openai e J prov sys messages tools st blank_response)"

section \<open>Requests and retries\<close>

lemma post_json_made:
  assumes "http_post_json env st (Some url) (Some json) = (st', r, rq)"
  shows "extra_hdrs st' = [] \<and> (\<forall>q. rq = Some q \<longrightarrow> hr_body q = json \<and>
    make_request st ''POST'' (Some url) (Some ''application/json'') (Some json) (length json) = Some q)"
proof -
  have "hr_body q = json" if "make_request st ''POST'' (Some url) (Some ''application/json'') (Some json) (length json) = Some q" for q
    using that by (auto simp: make_request_def Let_def split: option.splits if_splits prod.splits)
  then show ?thesis
    using assms unfolding http_post_json_def by (auto dest: do_request_clean do_request_made)
qed

lemma describe_failure_nonempty: "describe_failure J r 256 \<noteq> []"
  by (auto simp: describe_failure_def Let_def buf_set_def http_strerror_def)

lemma retry_wait_range: "1 \<le> retry_wait n r \<and> retry_wait n r \<le> 60"
proof -
  have "(1 :: int) \<le> 2 ^ (2 * n)" by simp
  then have "1 \<le> push_bit (2 * n) (2 :: int)" unfolding push_bit_eq_mult by linarith
  then show ?thesis unfolding retry_wait_def Let_def by auto
qed

text \<open>
  What the requests of a call look like: each carries the same body, goes to the URL of the call and has the
  headers \<open>hs\<close>.
\<close>

definition call_reqs :: "(string \<times> string) list \<Rightarrow> string \<Rightarrow> string \<Rightarrow> http_req option list \<Rightarrow> bool" where
  "call_reqs hs url json rqs \<longleftrightarrow>
     (\<forall>q. Some q \<in> set rqs \<longrightarrow> hr_body q = json \<and>
        make_request \<lparr>extra_hdrs = hs, req_timeout = 0\<rparr> ''POST'' (Some url) (Some ''application/json'') (Some json) (length json) = Some q)"

definition io_ok :: "nat \<Rightarrow> llm_io \<Rightarrow> bool" where
  "io_ok n io \<longleftrightarrow> length (io_reqs io) \<le> n \<and> length (io_sleeps io) = length (io_reqs io) - 1 \<and> (\<forall>w \<in> set (io_sleeps io). 1 \<le> w \<and> w \<le> 60)"

lemma make_request_hdrs:
  assumes "extra_hdrs a = extra_hdrs b"
  shows "make_request a = make_request b"
  by (intro ext) (unfold make_request_def assms, rule refl)

lemma post_retry_bounds:
  assumes "post_retry e J prov url json auth n err st = (st', io, r, err')" "n \<le> 2" "extra_hdrs st = []"
    "\<And>s. extra_hdrs s = [] \<Longrightarrow> extra_hdrs (auth s) = hs"
  shows "io_ok (3 - n) io \<and> io_reqs io \<noteq> [] \<and> call_reqs hs url json (io_reqs io) \<and> extra_hdrs st' = [] \<and> (status r \<noteq> 200 \<longrightarrow> err' \<noteq> [])"
  using assms
proof (induction e J prov url json auth n err st arbitrary: st' io r err' rule: post_retry.induct)
  case (1 e J prov url json auth n err st)
  define st1 where "st1 = http_set_timeout (if pr_timeout prov > 0 then pr_timeout prov else 600) (auth st)"
  obtain st2 r0 rq where post: "http_post_json (le_http e n) st1 (Some url) (Some json) = (st2, r0, rq)" by (metis prod_cases3)
  have h: "extra_hdrs st1 = hs" using 1(4,5) by (simp add: st1_def http_set_timeout_def)
  have q: "call_reqs hs url json [rq]" and s2: "extra_hdrs st2 = []"
    using post_json_made [OF post] make_request_hdrs [of st1 "\<lparr>extra_hdrs = hs, req_timeout = 0\<rparr>"] h by (auto simp: call_reqs_def)
  note step = 1(2) [unfolded post_retry.simps [of e J prov url json auth n] Let_def, folded st1_def, unfolded post prod.case]
  show ?case
  proof (cases "status r0 = 200 \<or> n \<ge> 2 \<or> \<not> retryable (status r0)")
    case True
    with step q s2 1(3) show ?thesis by (auto simp: io_ok_def describe_failure_nonempty split: if_splits)
  next
    case False
    obtain st3 io3 r3 err3 where rec: "post_retry e J prov url json auth (n + 1) (describe_failure J r0 256) st2 = (st3, io3, r3, err3)"
      by (metis prod_cases4)
    have "io_ok (3 - (n + 1)) io3 \<and> io_reqs io3 \<noteq> [] \<and> call_reqs hs url json (io_reqs io3) \<and> extra_hdrs st3 = [] \<and> (status r3 \<noteq> 200 \<longrightarrow> err3 \<noteq> [])"
      using False s2 1(5) by (intro "1.IH" [OF st1_def post [symmetric] refl refl refl _ _ rec]) auto
    with step False q rec retry_wait_range [of n r0] show ?thesis by (auto simp: io_ok_def call_reqs_def Suc_diff_Suc)
  qed
qed

section \<open>One contract for both protocols\<close>

text \<open>
  What the agent relies on: at most three requests and bounded waits, requests that are UTF-8 text and carry only
  the headers of the call, which are gone afterwards; a failure has a message, a success has a turn to replay.
\<close>

locale llm_backend =
  fixes call :: "llm_env \<Rightarrow> cjson_api \<Rightarrow> provider_ref \<Rightarrow> string option \<Rightarrow> cjson \<Rightarrow> cjson option \<Rightarrow> http_tls \<Rightarrow> llm_response \<Rightarrow>
      http_tls \<times> llm_io \<times> llm_response \<times> int"
    and url_of :: "provider_ref \<Rightarrow> string"
    and hdrs_of :: "provider_ref \<Rightarrow> (string \<times> string) list"
  assumes requests: "call e J prov sys messages tools st out = (st', io, out', rc) \<Longrightarrow> extra_hdrs st = [] \<Longrightarrow>
      io_ok 3 io \<and> extra_hdrs st' = [] \<and> (\<exists>json. utf8_text json \<and> call_reqs (hdrs_of prov) (url_of prov) json (io_reqs io))"
    and outcome: "call e J prov sys messages tools st out = (st', io, out', rc) \<Longrightarrow> extra_hdrs st = [] \<Longrightarrow> cjson_laws J \<Longrightarrow>
      rc = 0 \<and> (\<exists>blocks. lr_content out' = Some (CArray blocks)) \<and> io_reqs io \<noteq> [] \<or> rc = -1 \<and> lr_error out' \<noteq> []"
begin

lemma total_wait:
  assumes "call e J prov sys messages tools st out = (st', io, out', rc)" "extra_hdrs st = []"
  shows "sum_list (io_sleeps io) \<le> 120"
proof -
  have io: "length (io_sleeps io) \<le> 2" "\<forall>w \<in> set (io_sleeps io). w \<le> 60" using requests [OF assms] by (auto simp: io_ok_def)
  have "sum_list (io_sleeps io) \<le> sum_list (map (\<lambda>_. 60) (io_sleeps io))"
    using io(2) sum_list_mono [of "io_sleeps io" "\<lambda>w. w" "\<lambda>_. 60"] by simp
  also have "\<dots> = 60 * int (length (io_sleeps io))" by (simp add: sum_list_triv)
  finally show ?thesis using io(1) by linarith
qed

end

definition anthropic_hdrs :: "provider_ref \<Rightarrow> (string \<times> string) list" where
  "anthropic_hdrs prov = [(''x-api-key'', buf_set 512 (api_key prov)), (''anthropic-version'', ''2023-06-01'')]"

definition openai_hdrs :: "provider_ref \<Rightarrow> (string \<times> string) list" where
  "openai_hdrs prov = [(''Authorization'', buf_set 300 (''Bearer '' @ (if api_key prov \<noteq> [] then api_key prov else ''none'')))]"

lemma anthropic_auth_hdrs: "extra_hdrs s = [] \<Longrightarrow> extra_hdrs (anthropic_auth prov s) = anthropic_hdrs prov"
  by (simp add: anthropic_auth_def http_set_header_def anthropic_hdrs_def)

lemma buf_set_less: "m \<le> n \<Longrightarrow> buf_set n (buf_set m s) = buf_set m s"
  by (simp add: buf_set_def)

lemma openai_auth_hdrs: "extra_hdrs s = [] \<Longrightarrow> extra_hdrs (openai_auth prov s) = openai_hdrs prov"
  by (simp add: openai_auth_def http_set_header_def openai_hdrs_def buf_set_less)

lemma anthropic_block_keeps: "lr_content (anthropic_block e J b out) = lr_content out"
  by (simp add: anthropic_block_def add_text_def add_tool_call_def split: prod.split option.split)

lemma anthropic_reply_outcome:
  assumes "anthropic_reply e J v out = (out', rc)"
  shows "rc = 0 \<and> (\<exists>blocks. lr_content out' = Some (CArray blocks)) \<or> rc = -1 \<and> lr_error out' \<noteq> []"
proof -
  have "lr_content (fold (anthropic_block e J) bs o1) = lr_content o1" for bs o1
    by (induction bs arbitrary: o1) (simp_all add: anthropic_block_keeps)
  with assms show ?thesis by (auto simp: anthropic_reply_def Let_def split: if_splits)
qed

lemma openai_text_content:
  assumes "cjson_laws J" "lr_content out = Some (CArray bs)"
  shows "lr_content (openai_text e J m out) = Some (CArray (bs @ (case j_str J m ''content'' of None \<Rightarrow> []
    | Some c \<Rightarrow> if snd (think_split c) = [] then [] else [CObject [(''type'', CString ''text''), (''text'', CString (snd (think_split c)))]])))"
proof -
  have k: "lr_content (add_text b ty t n o1) = lr_content o1" for b ty t n o1 by (simp add: add_text_def split: option.split)
  show ?thesis
    using assms(2) by (auto simp: openai_text_def Let_def k case_prod_unfold cjson_obj [OF assms(1)] add_string_def split: option.split)
qed

lemma openai_tool_call_cases:
  assumes "cjson_laws J" "lr_content out = Some (CArray bs)"
  obtains (skipped) "openai_tool_call e J x out = out"
  | (called) cid name args where "openai_tool_call e J x out = add_tool_call cid name args (out\<lparr>lr_content := Some (CArray (bs @ [tool_use_block J cid name args]))\<rparr>)"
      "cid = call_id e (fst x) (j_str J (snd x) ''id'')" "name \<noteq> []"
proof -
  obtain i tc where x: "x = (i, tc)" by (cases x)
  show ?thesis
  proof (cases "opt_str J (cJSON_GetObjectItem J tc ''function'') ''name''")
    case None
    then show ?thesis by (intro skipped) (simp add: openai_tool_call_def x Let_def)
  next
    case (Some name)
    show ?thesis
    proof (cases "name = [] \<or> tool_arguments J (le_nomem e (i + 3)) (opt_item J (cJSON_GetObjectItem J tc ''function'') ''arguments'') = None")
      case True
      with Some show ?thesis by (intro skipped) (auto simp: openai_tool_call_def x Let_def)
    next
      case False
      then obtain args where "tool_arguments J (le_nomem e (i + 3)) (opt_item J (cJSON_GetObjectItem J tc ''function'') ''arguments'') = Some args" by blast
      with Some False assms show ?thesis
        by (intro called [of "call_id e i (j_str J tc ''id'')" name args]) (simp_all add: openai_tool_call_def x Let_def cjson_obj [OF assms(1)])
    qed
  qed
qed

lemma openai_tool_calls_content:
  assumes "cjson_laws J" "lr_content out = Some (CArray bs)"
  shows "\<exists>bs'. lr_content (fold (openai_tool_call e J) xs out) = Some (CArray (bs @ bs'))"
  using assms(2)
proof (induction xs arbitrary: out bs)
  case (Cons x xs)
  show ?case
  proof (rule openai_tool_call_cases [OF assms(1) Cons.prems, of e x])
    assume "openai_tool_call e J x out = out"
    with Cons show ?thesis by simp
  next
    fix cid name args
    assume c: "openai_tool_call e J x out = add_tool_call cid name args (out\<lparr>lr_content := Some (CArray (bs @ [tool_use_block J cid name args]))\<rparr>)"
    have "lr_content (openai_tool_call e J x out) = Some (CArray (bs @ [tool_use_block J cid name args]))" unfolding c by (simp add: add_tool_call_def)
    from Cons.IH [OF this] show ?thesis by auto
  qed
qed simp

lemma openai_reply_outcome:
  assumes "openai_reply e J v out = (out', rc)" "cjson_laws J"
  shows "rc = 0 \<and> (\<exists>blocks. lr_content out' = Some (CArray blocks)) \<or> rc = -1 \<and> lr_error out' \<noteq> []"
proof -
  have "\<exists>bs. lr_content (fold (openai_tool_call e J) xs (openai_text e J m o1)) = Some (CArray bs)" if "lr_content o1 = Some (CArray [])" for xs m o1
    using openai_tool_calls_content [OF assms(2) openai_text_content [OF assms(2) that]] by blast
  with assms(1) show ?thesis by (auto simp: openai_reply_def Let_def split: if_splits option.splits)
qed

text \<open>Both calls have one shape: print the request, send it, read the reply.\<close>

definition exchange :: "(http_tls \<Rightarrow> http_tls) \<Rightarrow> string \<Rightarrow> cjson \<Rightarrow> (cjson option \<Rightarrow> llm_response \<Rightarrow> llm_response \<times> int) \<Rightarrow>
    llm_env \<Rightarrow> cjson_api \<Rightarrow> provider_ref \<Rightarrow> http_tls \<Rightarrow> llm_response \<Rightarrow> http_tls \<times> llm_io \<times> llm_response \<times> int" where
  "exchange auth url payload reply e J prov st out =
     (case cJSON_PrintUnformatted J payload of
        None \<Rightarrow> (st, \<lparr>io_reqs = [], io_sleeps = []\<rparr>, out\<lparr>lr_error := ''cannot serialize request''\<rparr>, -1)
      | Some json0 \<Rightarrow>
          let (st', io, resp, err) = post_retry e J prov url (utf8_scrub json0) auth 0 (lr_error out) st
          in if status resp \<noteq> 200 then (st', io, out\<lparr>lr_error := err\<rparr>, -1)
             else case reply (case body resp of Some b \<Rightarrow> cJSON_Parse J (cstr b) | None \<Rightarrow> None) (out\<lparr>lr_error := err\<rparr>) of
                    (out2, rc) \<Rightarrow> (st', io, out2, rc))"

lemma exchange_cases:
  assumes "exchange auth url payload reply e J prov st out = (st', io, out', rc)" "extra_hdrs st = []"
    "\<And>s. extra_hdrs s = [] \<Longrightarrow> extra_hdrs (auth s) = hs"
  obtains (unsent) "st' = st" "io = \<lparr>io_reqs = [], io_sleeps = []\<rparr>" "rc = -1" "lr_error out' \<noteq> []"
  | (sent) json where "io_ok 3 io" "io_reqs io \<noteq> []" "extra_hdrs st' = []" "utf8_text json" "call_reqs hs url json (io_reqs io)"
      "rc = -1 \<and> lr_error out' \<noteq> [] \<or> (\<exists>v o1. reply v o1 = (out', rc))"
proof (cases "cJSON_PrintUnformatted J payload")
  case None
  with assms(1) show ?thesis by (intro unsent) (auto simp: exchange_def)
next
  case (Some json0)
  obtain s1 io1 resp err where p: "post_retry e J prov url (utf8_scrub json0) auth 0 (lr_error out) st = (s1, io1, resp, err)" by (metis prod_cases4)
  define r where "r = reply (case body resp of Some b \<Rightarrow> cJSON_Parse J (cstr b) | None \<Rightarrow> None) (out\<lparr>lr_error := err\<rparr>)"
  have x: "(st', io, out', rc) = (if status resp \<noteq> 200 then (s1, io1, out\<lparr>lr_error := err\<rparr>, -1) else (case r of (out2, rc) \<Rightarrow> (s1, io1, out2, rc)))"
    unfolding assms(1) [symmetric] exchange_def Some r_def option.case p Let_def prod.case ..
  note b = post_retry_bounds [OF p _ assms(2,3)]
  show ?thesis
  proof (rule sent [of "utf8_scrub json0"])
    have io: "io = io1" "st' = s1" using x by (simp_all split: if_splits prod.splits)
    show "io_ok 3 io" "io_reqs io \<noteq> []" "extra_hdrs st' = []" "call_reqs hs url (utf8_scrub json0) (io_reqs io)" using b by (simp_all add: io)
    show "utf8_text (utf8_scrub json0)" by (rule utf8_scrub_text)
    show "rc = -1 \<and> lr_error out' \<noteq> [] \<or> (\<exists>v o1. reply v o1 = (out', rc))"
      using x b r_def by (cases "status resp = 200"; cases r) auto
  qed
qed

lemma exchange_requests:
  assumes "exchange auth url payload reply e J prov st out = (st', io, out', rc)" "extra_hdrs st = []"
    "\<And>s. extra_hdrs s = [] \<Longrightarrow> extra_hdrs (auth s) = hs"
  shows "io_ok 3 io \<and> extra_hdrs st' = [] \<and> (\<exists>json. utf8_text json \<and> call_reqs hs url json (io_reqs io))"
  by (rule exchange_cases [OF assms]) (use assms(2) in \<open>auto simp: io_ok_def call_reqs_def intro: utf8_text.intros\<close>)

lemma exchange_outcome:
  assumes "exchange auth url payload reply e J prov st out = (st', io, out', rc)" "extra_hdrs st = []"
    "\<And>s. extra_hdrs s = [] \<Longrightarrow> extra_hdrs (auth s) = hs"
    "\<And>v o1 o2 rc. reply v o1 = (o2, rc) \<Longrightarrow> rc = 0 \<and> (\<exists>blocks. lr_content o2 = Some (CArray blocks)) \<or> rc = -1 \<and> lr_error o2 \<noteq> []"
  shows "rc = 0 \<and> (\<exists>blocks. lr_content out' = Some (CArray blocks)) \<and> io_reqs io \<noteq> [] \<or> rc = -1 \<and> lr_error out' \<noteq> []"
  by (rule exchange_cases [OF assms(1-3)]) (use assms(4) in blast)+

lemma call_anthropic_exchange:
  "call_anthropic e J prov sys messages tools =
     exchange (anthropic_auth prov) (api_url prov ''https://api.anthropic.com'' ''/v1/messages'' 512) (anthropic_payload J prov sys messages tools)
       (\<lambda>v o1. case v of None \<Rightarrow> (o1\<lparr>lr_error := ''invalid JSON response''\<rparr>, -1) | Some t \<Rightarrow> anthropic_reply e J t o1) e J prov"
  by (intro ext) (simp add: call_anthropic_def exchange_def Let_def case_prod_unfold split: option.split)

lemma call_openai_exchange:
  "call_openai e J prov sys messages tools =
     exchange (openai_auth prov) (api_url prov ''https://api.openai.com'' ''/v1/chat/completions'' 512) (openai_payload e J prov sys messages tools)
       (openai_reply e J) e J prov"
  by (intro ext) (simp add: call_openai_def exchange_def Let_def case_prod_unfold split: option.split)

interpretation anthropic: llm_backend call_anthropic "\<lambda>prov. api_url prov ''https://api.anthropic.com'' ''/v1/messages'' 512" anthropic_hdrs
proof (standard, goal_cases)
  case 1
  then show ?case unfolding call_anthropic_exchange by (rule exchange_requests) (rule anthropic_auth_hdrs)
next
  case (2 e J prov sys messages tools st out st' io out' rc)
  from 2(1,2) show ?case unfolding call_anthropic_exchange
    by (rule exchange_outcome) (auto simp: anthropic_auth_hdrs split: option.splits dest: anthropic_reply_outcome)
qed

interpretation openai: llm_backend call_openai "\<lambda>prov. api_url prov ''https://api.openai.com'' ''/v1/chat/completions'' 512" openai_hdrs
proof (standard, goal_cases)
  case 1
  then show ?case unfolding call_openai_exchange by (rule exchange_requests) (rule openai_auth_hdrs)
next
  case (2 e J prov sys messages tools st out st' io out' rc)
  from 2(1,2) show ?case unfolding call_openai_exchange
    by (rule exchange_outcome) (auto simp: openai_auth_hdrs dest: openai_reply_outcome [OF _ 2(3)])
qed

section \<open>The conversation in both formats\<close>

text \<open>
  What a conversation says, whatever its format: a text of a role, a call of a tool with its number, name and
  arguments, the result of a call.
\<close>

datatype conv_event = Says string string | Calls string string string | Results string string

definition block_call :: "cjson_api \<Rightarrow> cjson \<Rightarrow> conv_event option" where
  "block_call J b =
     (if j_str J b ''type'' = Some ''tool_use'' then
        map_option (\<lambda>n. Calls (or_empty (j_str J b ''id'')) n
          (case opt_item J (Some b) ''input'' of None \<Rightarrow> ''{}'' | Some v \<Rightarrow> (case cJSON_PrintUnformatted J v of Some a \<Rightarrow> a | None \<Rightarrow> ''{}''))) (j_str J b ''name'')
      else None)"

definition block_result :: "cjson_api \<Rightarrow> cjson \<Rightarrow> conv_event option" where
  "block_result J b =
     (if j_str J b ''type'' = Some ''tool_result'' then Some (Results (or_empty (j_str J b ''tool_use_id'')) (or_empty (j_str J b ''content''))) else None)"

definition block_text :: "cjson_api \<Rightarrow> cjson \<Rightarrow> string option" where
  "block_text J b = (if j_str J b ''type'' = Some ''text'' \<and> j_str J b ''text'' \<noteq> Some [] then j_str J b ''text'' else None)"

fun lines_of :: "string list \<Rightarrow> string" where
  "lines_of [] = []"
| "lines_of [t] = t"
| "lines_of (t # ts) = t @ LF # lines_of ts"

text \<open>A message in blocks: the results it brings, then what it says, then the calls it makes.\<close>

definition conv_events :: "cjson_api \<Rightarrow> cjson \<Rightarrow> conv_event list" where
  "conv_events J msg =
     (let role = or_empty (j_str J msg ''role'')
      in case cJSON_GetObjectItem J msg ''content'' of
           Some (CArray blocks) \<Rightarrow>
             let t = lines_of (List.map_filter (block_text J) blocks)
             in List.map_filter (block_result J) blocks @ (if t \<noteq> [] \<or> role = ''assistant'' then [Says role t] else []) @
                List.map_filter (block_call J) blocks
         | _ \<Rightarrow> [Says role (or_empty (j_str J msg ''content''))])"

text \<open>A message of the OpenAI format.\<close>

definition oai_call :: "cjson_api \<Rightarrow> cjson \<Rightarrow> conv_event" where
  "oai_call J c =
     (let f = cJSON_GetObjectItem J c ''function''
      in Calls (or_empty (j_str J c ''id'')) (or_empty (opt_str J f ''name'')) (or_empty (opt_str J f ''arguments'')))"

definition oai_events :: "cjson_api \<Rightarrow> cjson \<Rightarrow> conv_event list" where
  "oai_events J msg =
     (if j_str J msg ''role'' = Some ''tool'' then [Results (or_empty (j_str J msg ''tool_call_id'')) (or_empty (j_str J msg ''content''))]
      else Says (or_empty (j_str J msg ''role'')) (or_empty (j_str J msg ''content'')) #
           map (oai_call J) (opt_items (cJSON_GetObjectItem J msg ''tool_calls'')))"

text \<open>
  The turns of the agent's conversation: the owner's side brings results and text, the model's side text and
  calls; a plain message is a string.
\<close>

definition turn_ok :: "cjson_api \<Rightarrow> cjson \<Rightarrow> bool" where
  "turn_ok J msg \<longleftrightarrow>
     (case cJSON_GetObjectItem J msg ''content'' of
        Some (CArray blocks) \<Rightarrow>
          j_str J msg ''role'' = Some ''assistant'' \<and> list_all (\<lambda>b. block_result J b = None) blocks \<or>
          j_str J msg ''role'' = Some ''user'' \<and> list_all (\<lambda>b. block_call J b = None) blocks
      | _ \<Rightarrow> j_str J msg ''role'' = Some ''user'' \<and> cJSON_GetObjectItem J msg ''tool_calls'' = None)"

lemma json_obj_add:
  assumes "cjson_laws J"
  shows "add_string J k s (CObject kvs) = CObject (kvs @ [(k, CString s)])"
    "add_string_or_empty J k v (CObject kvs) = CObject (kvs @ [(k, CString (or_empty v))])"
  by (simp_all add: add_string_def add_string_or_empty_def cjson_obj [OF assms] or_empty_def)

lemma add_all_array:
  assumes "cjson_laws J"
  shows "add_all J vs (CArray xs) = CArray (xs @ vs)"
  unfolding add_all_def by (induction vs arbitrary: xs) (simp_all add: cjson_obj [OF assms])

lemma prov_keys_differ:
  "\<not> strcaseeq ''role'' ''content''" "\<not> strcaseeq ''role'' ''tool_call_id''" "\<not> strcaseeq ''role'' ''tool_calls''"
  "\<not> strcaseeq ''tool_call_id'' ''content''" "\<not> strcaseeq ''content'' ''tool_calls''" "\<not> strcaseeq ''content'' ''tool_call_id''"
  "\<not> strcaseeq ''id'' ''function''" "\<not> strcaseeq ''type'' ''function''" "\<not> strcaseeq ''name'' ''arguments''"
  "\<not> strcaseeq ''type'' ''id''" "\<not> strcaseeq ''type'' ''name''" "\<not> strcaseeq ''id'' ''name''" "\<not> strcaseeq ''type'' ''text''"
  "\<not> strcaseeq ''type'' ''input''" "\<not> strcaseeq ''id'' ''input''" "\<not> strcaseeq ''name'' ''input''" "\<not> strcaseeq ''tool_call_id'' ''tool_calls''"
  by (simp_all add: strcaseeq_def tolower_def is_upper_def byte_def)

lemma oai_call_event:
  assumes "cjson_laws J"
  shows "map_option (oai_call J) (openai_call J b) = block_call J b"
  unfolding openai_call_def block_call_def
  by (simp add: json_obj_add [OF assms] oai_call_def Let_def j_str_object [OF assms] cjson_obj [OF assms] prov_keys_differ opt_str_def opt_item_def or_empty_def split: option.split)

lemma oai_result_event:
  assumes "cjson_laws J"
  shows "map_option (oai_events J) (openai_result J b) = map_option (\<lambda>x. [x]) (block_result J b)"
  unfolding openai_result_def block_result_def
  by (simp add: json_obj_add [OF assms] oai_events_def j_str_object [OF assms] prov_keys_differ) (simp add: or_empty_def)

lemma join_loop_lines:
  assumes "\<And>n. \<not> fails n"
  shows "join_loop fails J ''text'' i blocks cap s =
    (let ts = List.map_filter (block_text J) blocks in if ts = [] then s else if s = [] then lines_of ts else s @ LF # lines_of ts)"
proof (induction blocks arbitrary: i cap s)
  case (Cons b blocks)
  have l: "lines_of (t # ts) = (if ts = [] then t else t @ LF # lines_of ts)" for t ts by (cases ts) simp_all
  show ?case
    using assms Cons by (auto simp: block_text_def List.map_filter_simps l Let_def split: option.split)
qed (simp add: List.map_filter_simps)

lemma join_blocks_lines: "(\<And>n. \<not> fails n) \<Longrightarrow> join_blocks fails J blocks ''text'' = Some (lines_of (List.map_filter (block_text J) blocks))"
  by (simp add: join_blocks_def join_loop_lines Let_def)

lemma map_filter_via:
  "(\<And>x. map_option g (f x) = h x) \<Longrightarrow> map g (List.map_filter f xs) = List.map_filter h xs"
  by (induction xs) (simp_all add: List.map_filter_simps option.map_comp split: option.split, metis option.simps(8,9) option.inject option.distinct(1))

lemma map_filter_none: "list_all (\<lambda>x. f x = None) xs \<Longrightarrow> List.map_filter f xs = []"
  by (induction xs) (auto simp: List.map_filter_simps)

lemma append_message_events:
  assumes "cjson_laws J" "turn_ok J msg" "\<And>n. \<not> fails n"
  shows "\<exists>ms. append_openai_message fails J msg (CArray oai) = CArray (oai @ ms) \<and> concat (map (oai_events J) ms) = conv_events J msg"
proof -
  note obj = json_obj_add [OF assms(1)] j_str_object [OF assms(1)] cjson_obj [OF assms(1)] prov_keys_differ
  consider (assistant) blocks where "cJSON_GetObjectItem J msg ''content'' = Some (CArray blocks)" "j_str J msg ''role'' = Some ''assistant''"
      "list_all (\<lambda>b. block_result J b = None) blocks"
    | (user) blocks where "cJSON_GetObjectItem J msg ''content'' = Some (CArray blocks)" "j_str J msg ''role'' = Some ''user''"
      "list_all (\<lambda>b. block_call J b = None) blocks"
    | (plain) "\<And>blocks. cJSON_GetObjectItem J msg ''content'' \<noteq> Some (CArray blocks)" "j_str J msg ''role'' = Some ''user''"
      "cJSON_GetObjectItem J msg ''tool_calls'' = None"
    using assms(2) unfolding turn_ok_def by (auto split: option.splits cjson.splits)
  then show ?thesis
  proof cases
    case assistant
    define t where "t = lines_of (List.map_filter (block_text J) blocks)"
    define cs where "cs = List.map_filter (openai_call J) blocks"
    define m where "m = CObject ([(''role'', CString ''assistant''), (''content'', CString t)] @ (if cs \<noteq> [] then [(''tool_calls'', CArray cs)] else []))"
    have "append_openai_message fails J msg (CArray oai) = CArray (oai @ [m])"
      by (simp add: append_openai_message_def assistant join_blocks_lines [OF assms(3)] Let_def obj add_all_array [OF assms(1)] m_def cs_def
          array_items_def t_def or_empty_def)
    moreover have "map (oai_call J) cs = List.map_filter (block_call J) blocks"
      unfolding cs_def by (rule map_filter_via) (rule oai_call_event [OF assms(1)])
    then have "oai_events J m = conv_events J msg"
      by (cases "cs = []") (simp_all add: oai_events_def conv_events_def m_def obj assistant map_filter_none or_empty_def opt_items_def array_items_def t_def Let_def)
    ultimately show ?thesis by (intro exI [of _ "[m]"]) simp
  next
    case user
    define t where "t = lines_of (List.map_filter (block_text J) blocks)"
    define rs where "rs = List.map_filter (openai_result J) blocks"
    define m where "m = (if t = [] then [] else [CObject [(''role'', CString ''user''), (''content'', CString t)]])"
    have "append_openai_message fails J msg (CArray oai) = CArray (oai @ rs @ m)"
      by (simp add: append_openai_message_def user join_blocks_lines [OF assms(3)] Let_def obj add_all_array [OF assms(1)] m_def rs_def t_def)
    moreover have "map (oai_events J) rs = map (\<lambda>x. [x]) (List.map_filter (block_result J) blocks)"
      unfolding rs_def map_filter_via [OF oai_result_event [OF assms(1)]] by (rule map_filter_via [symmetric]) simp
    then have "concat (map (oai_events J) (rs @ m)) = conv_events J msg"
      by (simp add: oai_events_def conv_events_def m_def obj user map_filter_none or_empty_def opt_items_def t_def [symmetric] Let_def)
    ultimately show ?thesis by (intro exI [of _ "rs @ m"]) simp
  next
    case plain
    have "append_openai_message fails J msg (CArray oai) = CArray (oai @ [msg])"
      using plain by (simp add: append_openai_message_def obj split: option.split cjson.split)
    moreover have "oai_events J msg = conv_events J msg"
      using plain by (simp add: oai_events_def conv_events_def opt_items_def Let_def split: option.split cjson.split)
    ultimately show ?thesis by (intro exI [of _ "[msg]"]) simp
  qed
qed

lemma append_messages_events:
  assumes "cjson_laws J" "list_all (turn_ok J) msgs" "\<And>m n. \<not> fails m n"
  shows "\<exists>ms. fold (\<lambda>(i, msg) oai. append_openai_message (fails i) J msg oai) (enumerate k msgs) (CArray oai) = CArray (oai @ ms) \<and>
    concat (map (oai_events J) ms) = concat (map (conv_events J) msgs)"
  using assms(2)
proof (induction msgs arbitrary: k oai)
  case (Cons msg msgs)
  obtain ms where ms: "append_openai_message (fails k) J msg (CArray oai) = CArray (oai @ ms)" "concat (map (oai_events J) ms) = conv_events J msg"
    using append_message_events [of J msg "fails k" oai] assms(1,3) Cons.prems by auto
  obtain ms' where "fold (\<lambda>(i, msg) oai. append_openai_message (fails i) J msg oai) (enumerate (Suc k) msgs) (CArray (oai @ ms)) = CArray ((oai @ ms) @ ms')"
    "concat (map (oai_events J) ms') = concat (map (conv_events J) msgs)"
    using Cons.IH [of "Suc k" "oai @ ms"] Cons.prems by auto
  with ms show ?case by (intro exI [of _ "ms @ ms'"]) simp
qed simp

text \<open>
  (C14) The conversation is carried over to the OpenAI format whole: read back from the messages of the request, the texts, the calls of tools
  (with their numbers, names and arguments) and the results of calls are those of the agent's conversation, each
  once and in the same order, after the system prompt.
\<close>

theorem openai_conversation_complete:
  assumes "cjson_laws J" "list_all (turn_ok J) msgs" "\<And>m n. \<not> le_join e m n"
  shows "concat (map (oai_events J) (array_items (openai_messages e J (Some prompt) (CArray msgs)))) =
    (if prompt = [] then [] else [Says ''system'' prompt]) @ concat (map (conv_events J) msgs)"
proof -
  note obj = json_obj_add [OF assms(1)] j_str_object [OF assms(1)] cjson_obj [OF assms(1)] prov_keys_differ
  define m0 where "m0 = (if prompt = [] then [] else [CObject [(''role'', CString ''system''), (''content'', CString prompt)]])"
  have s: "concat (map (oai_events J) m0) = (if prompt = [] then [] else [Says ''system'' prompt])"
    by (simp add: m0_def oai_events_def obj or_empty_def opt_items_def)
  have "openai_messages e J (Some prompt) (CArray msgs) =
      fold (\<lambda>(i, msg) oai. append_openai_message (le_join e i) J msg oai) (enumerate 0 msgs) (CArray m0)"
    by (simp add: openai_messages_def obj array_items_def m0_def)
  then show ?thesis using append_messages_events [of J msgs "le_join e" 0 m0] assms s by (auto simp: array_items_def)
qed

section \<open>Replies\<close>

lemma tool_use_block_object:
  assumes "cjson_laws J"
  shows "tool_use_block J cid name args = CObject [(''type'', CString ''tool_use''), (''id'', CString cid), (''name'', CString name),
    (''input'', case cJSON_Parse J args of Some (CObject kvs) \<Rightarrow> CObject kvs | _ \<Rightarrow> CObject [])]"
  by (simp add: tool_use_block_def json_obj_add [OF assms] cjson_obj [OF assms])

lemma call_id_props: "call_id e i g \<noteq> [] \<and> length (call_id e i g) < 64"
proof -
  have "buf_set 64 s \<noteq> []" if "s \<noteq> []" for s using that by (simp add: buf_set_def)
  then show ?thesis by (auto simp: call_id_def length_buf_set_less split: option.split)
qed

text \<open>
  The calls that a turn makes and the calls that the agent is told to run agree: the same numbers in the same order, the
  same names (the agent's copy has at most 63 bytes), and the arguments of the turn are those the agent gets, if they are an
  object.
\<close>

definition same_call :: "cjson_api \<Rightarrow> cjson \<Rightarrow> tool_call \<Rightarrow> bool" where
  "same_call J b c \<longleftrightarrow>
     j_str J b ''type'' = Some ''tool_use'' \<and> j_str J b ''id'' = Some (tc_id c) \<and> tc_id c \<noteq> [] \<and>
     (\<exists>n. j_str J b ''name'' = Some n \<and> n \<noteq> [] \<and> tc_name c = buf_set 64 n) \<and>
     cJSON_GetObjectItem J b ''input'' = Some (case cJSON_Parse J (tc_input c) of Some (CObject kvs) \<Rightarrow> CObject kvs | _ \<Rightarrow> CObject [])"

lemma openai_calls_agree:
  assumes "cjson_laws J" "lr_content out = Some (CArray bs)"
  shows "\<exists>bs' cs. lr_content (fold (openai_tool_call e J) xs out) = Some (CArray (bs @ bs')) \<and>
    tool_calls (fold (openai_tool_call e J) xs out) = tool_calls out @ cs \<and> list_all2 (same_call J) bs' cs \<and> length cs \<le> length xs \<and>
    text_blocks (fold (openai_tool_call e J) xs out) = text_blocks out"
  using assms(2)
proof (induction xs arbitrary: out bs)
  case (Cons x xs)
  show ?case
  proof (rule openai_tool_call_cases [OF assms(1) Cons.prems, of e x])
    assume s: "openai_tool_call e J x out = out"
    from Cons.IH [OF Cons.prems] obtain bs' cs where "lr_content (fold (openai_tool_call e J) xs out) = Some (CArray (bs @ bs'))"
      "tool_calls (fold (openai_tool_call e J) xs out) = tool_calls out @ cs" "list_all2 (same_call J) bs' cs" "length cs \<le> length xs"
      "text_blocks (fold (openai_tool_call e J) xs out) = text_blocks out" by blast
    with s show ?thesis by (intro exI [of _ bs'] exI [of _ cs]) simp
  next
    fix cid name args
    assume c: "openai_tool_call e J x out = add_tool_call cid name args (out\<lparr>lr_content := Some (CArray (bs @ [tool_use_block J cid name args]))\<rparr>)"
      "cid = call_id e (fst x) (j_str J (snd x) ''id'')" "name \<noteq> []"
    let ?c = "\<lparr>tc_id = buf_set 64 cid, tc_name = buf_set 64 name, tc_input = args\<rparr>"
    define out1 where "out1 = openai_tool_call e J x out"
    have o1: "lr_content out1 = Some (CArray (bs @ [tool_use_block J cid name args]))" "tool_calls out1 = tool_calls out @ [?c]"
      "text_blocks out1 = text_blocks out" by (simp_all add: out1_def c(1) add_tool_call_def)
    have sc: "same_call J (tool_use_block J cid name args) ?c"
      using c(3) call_id_props [of e "fst x" "j_str J (snd x) ''id''"]
      by (simp add: same_call_def tool_use_block_object [OF assms(1)] j_str_object [OF assms(1)] cjson_obj [OF assms(1)] prov_keys_differ c(2) [symmetric])
    from Cons.IH [OF o1(1)] obtain bs' cs where "lr_content (fold (openai_tool_call e J) xs out1) = Some (CArray ((bs @ [tool_use_block J cid name args]) @ bs'))"
      "tool_calls (fold (openai_tool_call e J) xs out1) = tool_calls out1 @ cs" "list_all2 (same_call J) bs' cs" "length cs \<le> length xs"
      "text_blocks (fold (openai_tool_call e J) xs out1) = text_blocks out1" by blast
    with o1 sc show ?thesis by (intro exI [of _ "tool_use_block J cid name args # bs'"] exI [of _ "?c # cs"]) (simp add: out1_def)
  qed
qed simp

lemma openai_text_blocks: "text_blocks out = [] \<Longrightarrow> length (text_blocks (openai_text e J m out)) \<le> 3 \<and> tool_calls (openai_text e J m out) = tool_calls out"
  by (auto simp: openai_text_def add_text_def Let_def split: option.split prod.split)

text \<open>The text of a reply that the owner may see.\<close>

definition shown :: "llm_response \<Rightarrow> string list" where
  "shown out = map tb_text (filter (\<lambda>b. tb_type b = ''text'') (text_blocks out))"

lemma shown_add_text:
  "shown (add_text b ty t n out) = (case t of Some s \<Rightarrow> if n = 0 \<or> b \<or> buf_set 16 ty \<noteq> ''text'' then shown out else shown out @ [take n s] | None \<Rightarrow> shown out)"
  by (simp add: add_text_def shown_def split: option.split)

lemma openai_text_shown:
  "shown (openai_text e J m out) = shown out @
    (case j_str J m ''content'' of None \<Rightarrow> [] | Some c \<Rightarrow> if snd (think_split c) = [] \<or> le_nomem e 2 then [] else [snd (think_split c)])"
proof -
  have c: "shown (o1\<lparr>lr_content := v\<rparr>) = shown o1" for o1 v by (simp add: shown_def)
  show ?thesis by (simp add: openai_text_def Let_def case_prod_unfold c shown_add_text split: option.split)
qed

lemma strstr_first:
  "(\<And>i. i < length a \<Longrightarrow> \<not> starts_with p (drop i (a @ p @ s))) \<Longrightarrow> p \<noteq> [] \<Longrightarrow> strstr p (a @ p @ s) = Some (p @ s)"
proof (induction a)
  case Nil
  then show ?case by (cases p) (simp_all, metis append_Cons starts_with_append)
next
  case (Cons c a)
  have "\<not> starts_with p (drop i (a @ p @ s))" if "i < length a" for i using Cons.prems(1) [of "Suc i"] that by simp
  with Cons.IH Cons.prems(2) have "strstr p (a @ p @ s) = Some (p @ s)" by blast
  with Cons.prems(1) [of 0] show ?case by simp
qed

lemma think_split_think:
  assumes "list_all (\<lambda>c. c = SP \<or> c = LF \<or> c = CR \<or> c = TAB) ws"
    "\<And>i. i < length th \<Longrightarrow> \<not> starts_with ''</think>'' (drop i (th @ ''</think>'' @ rest))"
  shows "think_split (ws @ ''<think>'' @ th @ ''</think>'' @ rest) = (Some th, skip_blank rest)"
proof -
  define t where "t = ''<think>'' @ th @ ''</think>'' @ rest"
  have s: "skip_blank (ws @ t) = t" unfolding skip_blank_def by (rule dropWhile_stop [OF assms(1)]) (simp add: t_def)
  have "strstr ''</think>'' ((''<think>'' @ th) @ ''</think>'' @ rest) = Some (''</think>'' @ rest)"
  proof (rule strstr_first)
    fix i
    assume i: "i < length (''<think>'' @ th)"
    show "\<not> starts_with ''</think>'' (drop i ((''<think>'' @ th) @ ''</think>'' @ rest))"
    proof (cases "i < 7")
      case True
      then have "i \<in> {0, 1, 2, 3, 4, 5, 6}" by auto
      then show ?thesis by (auto simp: starts_with_def)
    next
      case False
      have "drop (i - 7) (drop 7 (''<think>'' @ th @ ''</think>'' @ rest)) = drop i (''<think>'' @ th @ ''</think>'' @ rest)"
        using False by (subst drop_drop) simp
      with False i assms(2) [of "i - 7"] show ?thesis by simp
    qed
  qed simp
  then have e: "strstr ''</think>'' t = Some (''</think>'' @ rest)" by (simp only: t_def append_assoc)
  have w: "starts_with ''<think>'' t" unfolding t_def by (rule starts_with_append)
  have d: "take (length t - length (''</think>'' @ rest) - 7) (drop 7 t) = th" "drop 8 (''</think>'' @ rest) = rest" by (simp_all add: t_def)
  show ?thesis unfolding t_def [symmetric] think_split_def Let_def s e option.case d by (simp only: w if_True)
qed

lemma strstr_None: "(\<And>i. \<not> starts_with p (drop i s)) \<Longrightarrow> strstr p s = None"
proof (induction p s rule: strstr.induct)
  case (1 p)
  then show ?case using "1" [of 0] by (auto simp: starts_with_def)
next
  case (2 p c s)
  have "\<not> starts_with p (drop i s)" for i using "2.prems" [of "Suc i"] by simp
  then show ?case using 2 "2.prems" [of 0] by simp
qed

lemma think_split_open:
  assumes "list_all (\<lambda>c. c = SP \<or> c = LF \<or> c = CR \<or> c = TAB) ws" "\<And>i. \<not> starts_with ''</think>'' (drop i th)"
  shows "think_split (ws @ ''<think>'' @ th) = (Some th, [])"
proof -
  have s: "skip_blank (ws @ ''<think>'' @ th) = ''<think>'' @ th"
    unfolding skip_blank_def by (rule dropWhile_stop [OF assms(1)]) simp
  have "strstr ''</think>'' (''<think>'' @ th) = None"
    using strstr_None [OF assms(2)] by (simp add: starts_with_def)
  then show ?thesis unfolding think_split_def Let_def s by (simp add: starts_with_def)
qed

definition reply_message :: "cjson_api \<Rightarrow> cjson option \<Rightarrow> cjson option" where
  "reply_message J v = opt_item J (case opt_items (opt_item J v ''choices'') of c # cs \<Rightarrow> Some c | [] \<Rightarrow> None) ''message''"

lemma openai_reply_parts:
  assumes "openai_reply e J v o0 = (out, 0)" "text_blocks o0 = []" "tool_calls o0 = []"
  obtains m o1 xs stop where "reply_message J v = Some m" "\<not> le_calloc e" "lr_content o1 = Some (CArray [])" "text_blocks o1 = []" "tool_calls o1 = []"
    "xs = enumerate 0 (opt_items (cJSON_GetObjectItem J m ''tool_calls''))"
    "out = (fold (openai_tool_call e J) xs (openai_text e J m o1))\<lparr>stop_reason := stop\<rparr>"
    "stop = ''tool_use'' \<longleftrightarrow> tool_calls (fold (openai_tool_call e J) xs (openai_text e J m o1)) \<noteq> []"
proof -
  obtain m where m: "reply_message J v = Some m" and c: "\<not> le_calloc e"
    using assms(1) by (auto simp: openai_reply_def reply_message_def Let_def split: option.splits if_splits list.splits)
  define us where "us = opt_item J v ''usage''"
  define o1 where "o1 = o0\<lparr>usage := \<lparr>us_input = opt_int J us ''prompt_tokens'' 0,
    us_cached = opt_int J (opt_item J us ''prompt_tokens_details'') ''cached_tokens'' 0,
    us_written = opt_int J (opt_item J us ''prompt_tokens_details'') ''cache_write_tokens'' 0, us_output = opt_int J us ''completion_tokens'' 0\<rparr>,
    lr_content := Some (CArray [])\<rparr>"
  define o2 where "o2 = fold (openai_tool_call e J) (enumerate 0 (opt_items (cJSON_GetObjectItem J m ''tool_calls''))) (openai_text e J m o1)"
  obtain fin :: bool where "openai_reply e J v o0 =
      (o2\<lparr>stop_reason := buf_set 32 (if tool_calls o2 \<noteq> [] then ''tool_use'' else if fin then ''max_tokens'' else ''end_turn'')\<rparr>, 0)"
    using c unfolding openai_reply_def reply_message_def [symmetric] m Let_def option.case us_def [symmetric] o1_def [symmetric] o2_def [symmetric] by simp
  with assms show ?thesis
    by (intro that [OF m c, of o1 _ "buf_set 32 (if tool_calls o2 \<noteq> [] then ''tool_use'' else if fin then ''max_tokens'' else ''end_turn'')", OF _ _ _ refl])
      (simp_all add: o2_def [symmetric], simp_all add: o1_def)
qed

lemma llm_call_ok:
  assumes "llm_call e J prov sys messages tools st = (st', io, out, rc)" "extra_hdrs st = []" "cjson_laws J"
  shows "length (io_reqs io) \<le> 3 \<and> length (io_sleeps io) = length (io_reqs io) - 1 \<and> (\<forall>w \<in> set (io_sleeps io). 1 \<le> w \<and> w \<le> 60) \<and>
    extra_hdrs st' = [] \<and>
    (\<exists>json. utf8_text json \<and>
      (if provider_type prov = ''anthropic''
       then call_reqs (anthropic_hdrs prov) (api_url prov ''https://api.anthropic.com'' ''/v1/messages'' 512) json (io_reqs io)
       else call_reqs (openai_hdrs prov) (api_url prov ''https://api.openai.com'' ''/v1/chat/completions'' 512) json (io_reqs io))) \<and>
    (rc = 0 \<and> (\<exists>blocks. lr_content out = Some (CArray blocks)) \<and> io_reqs io \<noteq> [] \<or> rc = -1 \<and> lr_error out \<noteq> [])"
proof (cases "provider_type prov = ''anthropic''")
  case True
  then have c: "call_anthropic e J prov sys messages tools st blank_response = (st', io, out, rc)" using assms(1) by (simp add: llm_call_def)
  from anthropic.requests [OF c assms(2)] anthropic.outcome [OF c assms(2,3)] True show ?thesis by (simp add: io_ok_def)
next
  case False
  then have c: "call_openai e J prov sys messages tools st blank_response = (st', io, out, rc)" using assms(1) by (simp add: llm_call_def)
  from openai.requests [OF c assms(2)] openai.outcome [OF c assms(2,3)] False show ?thesis by (simp add: io_ok_def)
qed

text \<open>
  (C13) A call of a model, whatever its protocol and whatever the server does: at most three requests go out, the program sleeps at most a
  minute before each retry, every request is UTF-8 text and goes to the URL of the provider with its key, and the key is not
  left in the settings for the next request of the thread. The call ends with a turn that can be
  replayed, or with an error message.
\<close>

theorem llm_call_contract:
  assumes "llm_call e J prov sys messages tools st = (st', io, out, rc)" "extra_hdrs st = []" "cjson_laws J"
  shows "length (io_reqs io) \<le> 3 \<and> length (io_sleeps io) = length (io_reqs io) - 1 \<and> (\<forall>w \<in> set (io_sleeps io). 1 \<le> w \<and> w \<le> 60) \<and>
    extra_hdrs st' = [] \<and>
    (\<exists>json. utf8_text json \<and>
      (if provider_type prov = ''anthropic''
       then call_reqs (anthropic_hdrs prov) (api_url prov ''https://api.anthropic.com'' ''/v1/messages'' 512) json (io_reqs io)
       else call_reqs (openai_hdrs prov) (api_url prov ''https://api.openai.com'' ''/v1/chat/completions'' 512) json (io_reqs io))) \<and>
    (rc = 0 \<and> (\<exists>blocks. lr_content out = Some (CArray blocks)) \<and> io_reqs io \<noteq> [] \<or> rc = -1 \<and> lr_error out \<noteq> [])"
  by (rule llm_call_ok [OF assms])

lemma openai_reply_turn:
  assumes "openai_reply e J v o0 = (out, 0)" "cjson_laws J" "text_blocks o0 = []" "tool_calls o0 = []"
  shows "\<exists>texts calls. lr_content out = Some (CArray (texts @ calls)) \<and> (\<not> le_nomem e 2 \<longrightarrow> map (block_text J) texts = map Some (shown out)) \<and> list_all (\<lambda>b. block_call J b = None \<and> block_result J b = None) texts \<and> length texts \<le> 1 \<and>
    list_all2 (same_call J) calls (tool_calls out) \<and> (stop_reason out = ''tool_use'' \<longleftrightarrow> tool_calls out \<noteq> []) \<and>
    length (text_blocks out) \<le> 3 \<and> (\<exists>m. reply_message J v = Some m \<and> length (tool_calls out) \<le> length (opt_items (cJSON_GetObjectItem J m ''tool_calls'')))"
proof (rule openai_reply_parts [OF assms(1,3,4)])
  fix m o1 xs stop
  assume a: "reply_message J v = Some m" "\<not> le_calloc e" "lr_content o1 = Some (CArray [])" "text_blocks o1 = []" "tool_calls o1 = []"
    "xs = enumerate 0 (opt_items (cJSON_GetObjectItem J m ''tool_calls''))"
    "out = (fold (openai_tool_call e J) xs (openai_text e J m o1))\<lparr>stop_reason := stop\<rparr>"
    "stop = ''tool_use'' \<longleftrightarrow> tool_calls (fold (openai_tool_call e J) xs (openai_text e J m o1)) \<noteq> []"
  define texts where "texts = (case j_str J m ''content'' of None \<Rightarrow> []
    | Some c \<Rightarrow> if snd (think_split c) = [] then [] else [CObject [(''type'', CString ''text''), (''text'', CString (snd (think_split c)))]])"
  have t: "lr_content (openai_text e J m o1) = Some (CArray texts)" using openai_text_content [OF assms(2) a(3)] by (simp add: texts_def)
  from openai_calls_agree [OF assms(2) t, of e xs] obtain bs' cs where
    f: "lr_content (fold (openai_tool_call e J) xs (openai_text e J m o1)) = Some (CArray (texts @ bs'))"
      "tool_calls (fold (openai_tool_call e J) xs (openai_text e J m o1)) = cs" "list_all2 (same_call J) bs' cs" "length cs \<le> length xs"
      "text_blocks (fold (openai_tool_call e J) xs (openai_text e J m o1)) = text_blocks (openai_text e J m o1)"
    using openai_text_blocks [OF a(4), of e J m] a(5) by auto
  have "shown out = shown (openai_text e J m o1)" using f(5) a(7) by (simp add: shown_def)
  moreover have "shown o1 = []" by (simp add: shown_def a(4))
  ultimately have s: "\<not> le_nomem e 2 \<longrightarrow> map (block_text J) texts = map Some (shown out)" "length texts \<le> 1"
    "list_all (\<lambda>b. block_call J b = None \<and> block_result J b = None) texts"
    by (simp_all add: openai_text_shown texts_def block_text_def block_call_def block_result_def j_str_object [OF assms(2)] prov_keys_differ split: option.split)
  show ?thesis
    using f s a openai_text_blocks [OF a(4), of e J m]
    by (intro exI [of _ texts] exI [of _ bs']) simp
qed

text \<open>
  (C15) A reply in the OpenAI format comes back as a consistent turn: its content is at most one text, the one the owner is
  shown, followed by one block for each call the agent is told to run, with the same number, name and arguments;
  the turn ends with \<open>tool_use\<close> if and only if there is a call; and no more than the three text blocks and
  the one call per received call are stored that were allocated.
\<close>

theorem openai_reply_consistent:
  assumes "openai_reply e J v blank_response = (out, 0)" "cjson_laws J" "\<not> le_nomem e 2"
  shows "\<exists>texts calls. lr_content out = Some (CArray (texts @ calls)) \<and> map (block_text J) texts = map Some (shown out) \<and> length texts \<le> 1 \<and>
    list_all2 (same_call J) calls (tool_calls out) \<and> (stop_reason out = ''tool_use'' \<longleftrightarrow> tool_calls out \<noteq> []) \<and>
    length (text_blocks out) \<le> 3 \<and> (\<exists>m. reply_message J v = Some m \<and> length (tool_calls out) \<le> length (opt_items (cJSON_GetObjectItem J m ''tool_calls'')))"
  using openai_reply_turn [OF assms(1,2)] assms(3) by (simp add: blank_response_def) blast

lemma openai_reply_shown:
  assumes "openai_reply e J v blank_response = (out, 0)" "cjson_laws J" "reply_message J v = Some m"
  shows "shown out = (case j_str J m ''content'' of None \<Rightarrow> []
      | Some c \<Rightarrow> if snd (think_split c) = [] \<or> le_nomem e 2 then [] else [snd (think_split c)])"
proof (rule openai_reply_parts [OF assms(1)])
  show "text_blocks blank_response = []" "tool_calls blank_response = []" by (simp_all add: blank_response_def)
next
  fix m' o1 xs stop
  assume a: "reply_message J v = Some m'" "\<not> le_calloc e" "lr_content o1 = Some (CArray [])" "text_blocks o1 = []" "tool_calls o1 = []"
    "out = (fold (openai_tool_call e J) xs (openai_text e J m' o1))\<lparr>stop_reason := stop\<rparr>"
  have m: "m' = m" using a(1) assms(3) by simp
  have "text_blocks out = text_blocks (openai_text e J m o1)"
    using openai_calls_agree [OF assms(2) openai_text_content [OF assms(2) a(3), of e m], of e xs] a(6) m by auto
  moreover have "shown o1 = []" by (simp add: shown_def a(4))
  ultimately show ?thesis using openai_text_shown [of e J m o1] by (simp add: shown_def)
qed

text \<open>
  (C16) Reasoning is never shown. A reply without content shows nothing, whatever its reasoning fields hold. When the
  content starts, after blanks, with \<open><think>\<close>, the owner is shown what follows the first closing mark \<open></think>\<close>,
  without its leading blanks, and nothing else of it; when the reasoning is never closed, nothing is shown. Any other content is shown whole, without its leading
  blanks, and nothing beside it.
\<close>

theorem openai_reasoning_hidden:
  assumes "openai_reply e J v blank_response = (out, 0)" "cjson_laws J" "reply_message J v = Some m"
  shows "(j_str J m ''content'' = None \<longrightarrow> shown out = []) \<and>
    (\<forall>ws th rest. j_str J m ''content'' = Some (ws @ ''<think>'' @ th @ ''</think>'' @ rest) \<and>
       list_all (\<lambda>c. c = SP \<or> c = LF \<or> c = CR \<or> c = TAB) ws \<and>
       (\<forall>i < length th. \<not> starts_with ''</think>'' (drop i (th @ ''</think>'' @ rest))) \<longrightarrow>
       shown out = (if skip_blank rest = [] \<or> le_nomem e 2 then [] else [skip_blank rest])) \<and>
    (\<forall>ws th. j_str J m ''content'' = Some (ws @ ''<think>'' @ th) \<and>
       list_all (\<lambda>c. c = SP \<or> c = LF \<or> c = CR \<or> c = TAB) ws \<and> (\<forall>i. \<not> starts_with ''</think>'' (drop i th)) \<longrightarrow>
       shown out = []) \<and>
    (\<forall>c. j_str J m ''content'' = Some c \<and> \<not> starts_with ''<think>'' (skip_blank c) \<longrightarrow>
       shown out = (if skip_blank c = [] \<or> le_nomem e 2 then [] else [skip_blank c]))"
proof -
  have s: "shown out = (case j_str J m ''content'' of None \<Rightarrow> []
      | Some c \<Rightarrow> if snd (think_split c) = [] \<or> le_nomem e 2 then [] else [snd (think_split c)])"
    by (rule openai_reply_shown [OF assms])
  show ?thesis
  proof (intro conjI allI impI; (elim conjE)?)
    fix ws th rest
    assume c: "j_str J m ''content'' = Some (ws @ ''<think>'' @ th @ ''</think>'' @ rest)"
      and b: "list_all (\<lambda>c. c = SP \<or> c = LF \<or> c = CR \<or> c = TAB) ws"
      and n: "\<forall>i < length th. \<not> starts_with ''</think>'' (drop i (th @ ''</think>'' @ rest))"
    have "snd (think_split (ws @ ''<think>'' @ th @ ''</think>'' @ rest)) = skip_blank rest"
      by (rule arg_cong [OF think_split_think [OF b], of _ _ snd, unfolded snd_conv]) (use n in blast)
    then show "shown out = (if skip_blank rest = [] \<or> le_nomem e 2 then [] else [skip_blank rest])"
      by (simp only: s c option.case)
  next
    fix ws th
    assume c: "j_str J m ''content'' = Some (ws @ ''<think>'' @ th)"
      and b: "list_all (\<lambda>c. c = SP \<or> c = LF \<or> c = CR \<or> c = TAB) ws"
      and n: "\<forall>i. \<not> starts_with ''</think>'' (drop i th)"
    show "shown out = []"
      unfolding s c option.case think_split_open [OF b n [rule_format]] by simp
  qed (simp_all add: s think_split_def Let_def)
qed

section \<open>Instances\<close>

definition prov_sample :: provider_ref where
  "prov_sample = \<lparr>provider_name = ''p'', provider_type = ''openai'', api_key = ''k'', base_url = ''http://h'', pr_model = ''m'', max_tokens = 5,
     pr_timeout = 0, cache_key = [], reasoning_effort = []\<rparr>"

definition llm_sample :: llm_env where
  "llm_sample = \<lparr>le_http = (\<lambda>_. \<lparr>net_ok = False, tls_start_ok = False, sent_ok = False, rx = [], timed_out = False, tls_err = False\<rparr>),
     le_calloc = False, le_nomem = (\<lambda>_. False), le_join = (\<lambda>_ _. False), le_rnd = (\<lambda>_. None), le_now = 0, le_ptr = 0\<rparr>"

definition payload_sample :: cjson where
  "payload_sample = CObject [(''model'', CString ''m''), (''messages'', CArray []), (''max_tokens'', CNumber 5 5)]"

definition llm_cjson :: cjson_api where
  "llm_cjson = table_cjson [(payload_sample, ''q''), (CObject [], ''{}'')]"

definition turns_sample :: "cjson list" where
  "turns_sample =
     [CObject [(''role'', CString ''user''), (''content'', CString ''hi'')],
      CObject [(''role'', CString ''assistant''), (''content'', CArray [CObject [(''type'', CString ''text''), (''text'', CString ''a'')],
        CObject [(''type'', CString ''tool_use''), (''id'', CString ''c1''), (''name'', CString ''f''), (''input'', CObject [])]])],
      CObject [(''role'', CString ''user''), (''content'', CArray [CObject [(''type'', CString ''tool_result''), (''tool_use_id'', CString ''c1''), (''content'', CString ''ok'')]])]]"

definition reply_sample :: cjson where
  "reply_sample = CObject [(''choices'', CArray [CObject [(''message'', CObject [(''content'', CString ('' <think>hm</think> hi'')),
     (''tool_calls'', CArray [CObject [(''function'', CObject [(''name'', CString ''f''), (''arguments'', CObject [])])]])])]])]"

definition reply_open :: cjson where
  "reply_open = CObject [(''choices'', CArray [CObject [(''message'', CObject [(''content'', CString ('' <think>hm'')),
     (''tool_calls'', CArray [CObject [(''function'', CObject [(''name'', CString ''f''), (''arguments'', CObject [])])]])])]])]"

lemma llm_cjson_laws: "cjson_laws llm_cjson"
  unfolding llm_cjson_def by (rule table_cjson_laws) simp_all

lemma post_sample:
  "\<exists>rq. make_request \<lparr>extra_hdrs = [(''Authorization'', ''Bearer k'')], req_timeout = 600\<rparr> ''POST'' (Some ''http://h/v1/chat/completions'') (Some ''application/json'')
     (Some ''q'') 1 = Some rq"
proof -
  have b: "length (build_request ''POST'' ''/v1/chat/completions'' ''h'' 80 False (Some ''application/json'') 1 [(''Authorization'', ''Bearer k'')]) < 4095"
    unfolding build_request_lines length_take by (rule min.strict_coboundedI1) (simp add: request_lines_def dec_nat.simps [of "Suc 0"])
  have "parse_url (Some ''http://h/v1/chat/completions'') = Some (''h'', 80, ''/v1/chat/completions'', False)"
    using parse_show_url [of "''h''" "''/v1/chat/completions''" None False] by (simp add: show_url_def host_ok_def path_ok_def is_ctl_def byte_def)
  moreover have "encode_path ''/v1/chat/completions'' 3072 = Some ''/v1/chat/completions''"
    by (simp add: encode_path_def enc_char_def must_encode_def hex_up_def byte_def)
  ultimately show ?thesis using b by (simp add: make_request_def is_ctl_def byte_def not_le)
qed

lemma llm_sample_call:
  "llm_call llm_sample llm_cjson prov_sample None (CArray []) None \<lparr>extra_hdrs = [], req_timeout = 0\<rparr> =
     (\<lparr>extra_hdrs = [], req_timeout = 0\<rparr>, \<lparr>io_reqs = [None, None, None], io_sleeps = [2, 8]\<rparr>,
      blank_response\<lparr>lr_error := ''cannot connect''\<rparr>, -1)"
proof -
  have p: "cJSON_PrintUnformatted llm_cjson (openai_payload llm_sample llm_cjson prov_sample None (CArray []) None) = Some ''q''"
    by (simp add: openai_payload_def prov_sample_def is_official_def openai_messages_def json_obj_add [OF llm_cjson_laws] cjson_obj [OF llm_cjson_laws]
        add_number_def array_items_def starts_with_def) (simp add: llm_cjson_def table_cjson_def payload_sample_def)
  have u: "api_url prov_sample ''https://api.openai.com'' ''/v1/chat/completions'' 512 = ''http://h/v1/chat/completions''"
    by (simp add: api_url_def prov_sample_def ends_with_def buf_set_def)
  have q: "utf8_scrub ''q'' = ''q''" by (rule utf8_scrub_id) (rule utf8_text_ascii, simp add: byte_def)
  have h: "http_set_timeout 600 (openai_auth prov_sample \<lparr>extra_hdrs = [], req_timeout = 0\<rparr>) = \<lparr>extra_hdrs = [(''Authorization'', ''Bearer k'')], req_timeout = 600\<rparr>"
    by (simp add: openai_auth_def http_set_header_def http_set_timeout_def prov_sample_def buf_set_def)
  have s: "http_post_json (le_http llm_sample n) \<lparr>extra_hdrs = [(''Authorization'', ''Bearer k'')], req_timeout = 600\<rparr> (Some ''http://h/v1/chat/completions'') (Some ''q'')
      = (\<lparr>extra_hdrs = [], req_timeout = 0\<rparr>, err_resp HTTP_ERR_CONNECT, None)" for n
    using post_sample by (auto simp: http_post_json_def do_request_def llm_sample_def)
  have d: "describe_failure J (err_resp HTTP_ERR_CONNECT) 256 = ''cannot connect''" for J
    by (simp add: describe_failure_def err_resp_def http_strerror_def buf_set_def)
  have "post_retry llm_sample llm_cjson prov_sample ''http://h/v1/chat/completions'' ''q'' (openai_auth prov_sample) n err \<lparr>extra_hdrs = [], req_timeout = 0\<rparr>
     = (if n \<ge> 2 then (\<lparr>extra_hdrs = [], req_timeout = 0\<rparr>, \<lparr>io_reqs = [None], io_sleeps = []\<rparr>, err_resp HTTP_ERR_CONNECT, ''cannot connect'')
        else let (st3, io, r', err'') = post_retry llm_sample llm_cjson prov_sample ''http://h/v1/chat/completions'' ''q'' (openai_auth prov_sample) (n + 1) ''cannot connect'' \<lparr>extra_hdrs = [], req_timeout = 0\<rparr>
              in (st3, \<lparr>io_reqs = None # io_reqs io, io_sleeps = retry_wait n (err_resp HTTP_ERR_CONNECT) # io_sleeps io\<rparr>, r', err''))" for n err
    by (subst post_retry.simps) (simp add: h s d prov_sample_def [THEN arg_cong, of pr_timeout] Let_def err_resp_def [THEN arg_cong, of status] retryable_def)
  note r = this [of 0] this [of "Suc 0"] this [of "Suc (Suc 0)"]
  have "post_retry llm_sample llm_cjson prov_sample ''http://h/v1/chat/completions'' ''q'' (openai_auth prov_sample) 0 err \<lparr>extra_hdrs = [], req_timeout = 0\<rparr>
     = (\<lparr>extra_hdrs = [], req_timeout = 0\<rparr>, \<lparr>io_reqs = [None, None, None], io_sleeps = [2, 8]\<rparr>, err_resp HTTP_ERR_CONNECT, ''cannot connect'')" for err
    by (simp add: r retry_wait_def err_resp_def push_bit_eq_mult)
  moreover have "provider_type prov_sample \<noteq> ''anthropic''" by (simp add: prov_sample_def)
  ultimately show ?thesis
    unfolding llm_call_def call_openai_def p u q option.case by (simp add: q err_resp_def)
qed

lemma reply_sample_reply: "snd (openai_reply llm_sample llm_cjson (Some reply_sample) blank_response) = 0"
  by code_simp

lemma reply_open_reply: "snd (openai_reply llm_sample llm_cjson (Some reply_open) blank_response) = 0"
  by code_simp

lemma turns_sample_ok: "list_all (turn_ok llm_cjson) turns_sample"
  by code_simp

theorem openai_conversation_complete_witness:
  "concat (map (oai_events llm_cjson) (array_items (openai_messages llm_sample llm_cjson (Some ''s'') (CArray turns_sample)))) =
     [Says ''system'' ''s'', Says ''user'' ''hi'', Says ''assistant'' ''a'', Calls ''c1'' ''f'' ''{}'', Results ''c1'' ''ok'']"
proof -
  have "concat (map (conv_events llm_cjson) turns_sample) =
    [Says ''user'' ''hi'', Says ''assistant'' ''a'', Calls ''c1'' ''f'' ''{}'', Results ''c1'' ''ok'']" by code_simp
  with openai_conversation_complete [OF llm_cjson_laws turns_sample_ok, of llm_sample "''s''"] show ?thesis by (simp add: llm_sample_def)
qed

theorem llm_call_contract_witness:
  "\<exists>st' io out rc. llm_call llm_sample llm_cjson prov_sample None (CArray []) None \<lparr>extra_hdrs = [], req_timeout = 0\<rparr> = (st', io, out, rc) \<and>
     length (io_reqs io) = 3 \<and> (\<forall>w \<in> set (io_sleeps io). 1 \<le> w \<and> w \<le> 60) \<and> rc = -1 \<and> lr_error out \<noteq> []"
  using llm_call_contract [OF llm_sample_call _ llm_cjson_laws] llm_sample_call by auto

theorem openai_reply_consistent_witness:
  "\<exists>out. openai_reply llm_sample llm_cjson (Some reply_sample) blank_response = (out, 0) \<and> stop_reason out = ''tool_use'' \<and>
     (\<exists>texts calls. lr_content out = Some (CArray (texts @ calls)) \<and> list_all2 (same_call llm_cjson) calls (tool_calls out) \<and> length calls = 1)"
proof -
  define out where "out = fst (openai_reply llm_sample llm_cjson (Some reply_sample) blank_response)"
  have r: "openai_reply llm_sample llm_cjson (Some reply_sample) blank_response = (out, 0)" using reply_sample_reply by (simp add: out_def prod_eq_iff)
  have c: "length (tool_calls out) = 1" unfolding out_def by code_simp
  from openai_reply_consistent [OF r llm_cjson_laws] obtain texts calls where "lr_content out = Some (CArray (texts @ calls))"
    "list_all2 (same_call llm_cjson) calls (tool_calls out)" "stop_reason out = ''tool_use'' \<longleftrightarrow> tool_calls out \<noteq> []"
    by (auto simp: llm_sample_def)
  moreover from this(2) have "length calls = 1" using c list_all2_lengthD by fastforce
  ultimately show ?thesis using r c by fastforce
qed

theorem openai_reasoning_hidden_witness:
  "\<exists>out out'. openai_reply llm_sample llm_cjson (Some reply_sample) blank_response = (out, 0) \<and> shown out = [''hi''] \<and>
     openai_reply llm_sample llm_cjson (Some reply_open) blank_response = (out', 0) \<and> shown out' = []"
proof -
  define out out' where "out = fst (openai_reply llm_sample llm_cjson (Some reply_sample) blank_response)"
    and "out' = fst (openai_reply llm_sample llm_cjson (Some reply_open) blank_response)"
  have r: "openai_reply llm_sample llm_cjson (Some reply_sample) blank_response = (out, 0)" using reply_sample_reply by (simp add: out_def prod_eq_iff)
  have r': "openai_reply llm_sample llm_cjson (Some reply_open) blank_response = (out', 0)" using reply_open_reply by (simp add: out'_def prod_eq_iff)
  have m: "reply_message llm_cjson (Some reply_sample) \<noteq> None \<and>
    j_str llm_cjson (the (reply_message llm_cjson (Some reply_sample))) ''content'' = Some ('' '' @ ''<think>'' @ ''hm'' @ ''</think>'' @ '' hi'')" by code_simp
  have m': "reply_message llm_cjson (Some reply_open) \<noteq> None \<and>
    j_str llm_cjson (the (reply_message llm_cjson (Some reply_open))) ''content'' = Some ('' '' @ ''<think>'' @ ''hm'')" by code_simp
  obtain v v' where v: "reply_message llm_cjson (Some reply_sample) = Some v" "reply_message llm_cjson (Some reply_open) = Some v'"
    using m m' by blast
  have i: "\<forall>i < length ''hm''. \<not> starts_with ''</think>'' (drop i (''hm'' @ ''</think>'' @ '' hi''))"
    by (auto simp: starts_with_def numeral_2_eq_2 less_Suc_eq)
  have i': "\<forall>i. \<not> starts_with ''</think>'' (drop i ''hm'')"
    by (auto simp: starts_with_def drop_Cons split: nat.split)
  have "shown out = (if skip_blank '' hi'' = [] \<or> le_nomem llm_sample 2 then [] else [skip_blank '' hi''])"
    using openai_reasoning_hidden [OF r llm_cjson_laws v(1)] m v(1) i
    by (elim conjE allE [of _ "'' ''"] allE [of _ "''hm''"] allE [of _ "'' hi''"]) simp
  moreover have "shown out' = []"
    using openai_reasoning_hidden [OF r' llm_cjson_laws v(2)] m' v(2) i'
    by (elim conjE allE [of _ "'' ''"] allE [of _ "''hm''"]) simp
  ultimately show ?thesis using r r' by (simp add: skip_blank_def llm_sample_def)
qed

end
