(* ===== verification/Agent.thy ===== *)
theory Agent
  imports Prompt Provider
begin

text \<open>
  \<open>src/agent.c\<close>: the session of an agent, from its trigger to its end: the turns of the conversation with the model, the tool calls, the
  guards for models that repeat themselves or answer nothing, the answer to the agents that asked, and what is kept of the conversation.

  The state of a session is \<open>sess\<close>: the world of the tools, the owner's chat, the settings of the HTTP client, the agent's side of the open
  conversation. Every effect takes its own environment from a sequence (\<open>ae_tool\<close>), every call of the model from another.

  The lemmas here show how the table of a session counts the calls that were run, and what is left of a conversation that is shortened. What
  whole sessions guarantee is in \<open>Agent_Loop\<close>.
\<close>

section \<open>State\<close>

record session_state =
  ss_builder_retry :: bool
  ss_hub_retry :: bool
  ss_empty_retry :: bool
  ss_plugin_done :: bool
  ss_plugin_failed :: bool
  ss_sent_message :: bool
  ss_listed_agents :: bool
  ss_blocked :: nat
  ss_sent_to :: "string list"
  ss_notice :: string
  ss_calls :: "(64 word \<times> nat) list"

definition new_state :: session_state where
  "new_state = \<lparr>ss_builder_retry = False, ss_hub_retry = False, ss_empty_retry = False, ss_plugin_done = False, ss_plugin_failed = False,
     ss_sent_message = False, ss_listed_agents = False, ss_blocked = 0, ss_sent_to = [], ss_notice = [], ss_calls = []\<rparr>"

definition is_error :: "string \<Rightarrow> bool" where
  "is_error result \<longleftrightarrow> starts_with ''Error'' result"

section \<open>Plugin code in a text\<close>

text \<open>The part of \<open>s\<close> from \<open>cs\<close> up to the suffix \<open>ce\<close>.\<close>

definition upto_suffix :: "string \<Rightarrow> string \<Rightarrow> string" where
  "upto_suffix cs ce = take (length cs - length ce) cs"

definition fenced_code :: "string \<Rightarrow> nat \<Rightarrow> string option" where
  "fenced_code s code_sz =
     (case strstr [CHR 0x60, CHR 0x60, CHR 0x60] s of
        None \<Rightarrow> None
      | Some fence \<Rightarrow>
          (case strchr LF (drop 3 fence) of
             None \<Rightarrow> None
           | Some cs0 \<Rightarrow>
               let cs = tl cs0
               in case strstr [LF, CHR 0x60, CHR 0x60, CHR 0x60] cs of
                    None \<Rightarrow> None
                  | Some ce \<Rightarrow>
                      let block = upto_suffix cs ce
                      in if block \<noteq> [] \<and> length block < code_sz \<and> strstr ''tc_plugin.h'' block \<noteq> None \<and> strstr ''tc_execute'' block \<noteq> None
                         then Some block else None))"

text \<open>Raw code, up to its last closing brace. The loop looks from the end of the text down to, not including, the start of the code.\<close>

definition raw_code :: "string \<Rightarrow> string option" where
  "raw_code s =
     (case strstr (''#include '' @ [CHR 0x22] @ ''tc_plugin.h'' @ [CHR 0x22]) s of
        None \<Rightarrow> None
      | Some cs \<Rightarrow>
          if strstr ''tc_execute'' cs = None \<or> CHR 0x7D \<notin> set (tl cs) then None
          else Some (rev (dropWhile (\<lambda>c. c \<noteq> CHR 0x7D) (rev cs))))"

definition builder_extract_code :: "string \<Rightarrow> nat \<Rightarrow> nat \<Rightarrow> (string \<times> string) option" where
  "builder_extract_code s name_sz code_sz =
     (if s = [] then None
      else case (case fenced_code s code_sz of Some b \<Rightarrow> Some b | None \<Rightarrow> raw_code s) of
             None \<Rightarrow> None
           | Some code \<Rightarrow>
               if length code \<ge> code_sz then None
               else case strstr ''TC_PLUGIN_NAME'' code of
                      None \<Rightarrow> None
                    | Some np \<Rightarrow>
                        (case strchr (CHR 0x22) np of
                           None \<Rightarrow> None
                         | Some q0 \<Rightarrow>
                             let q1 = tl q0; name = before (CHR 0x22) q1
                             in if CHR 0x22 \<notin> set q1 \<or> name = [] \<or> length name \<ge> name_sz then None else Some (name, code)))"

section \<open>The length of a conversation\<close>

definition user_text :: "cjson_api \<Rightarrow> cjson \<Rightarrow> bool" where
  "user_text J m \<longleftrightarrow> j_str J m ''role'' = Some ''user'' \<and> (\<exists>s. cJSON_GetObjectItem J m ''content'' = Some (CString s))"

definition text_turns :: "cjson_api \<Rightarrow> cjson list \<Rightarrow> nat list" where
  "text_turns J msgs = filter (\<lambda>i. user_text J (msgs ! i)) [1..<length msgs]"

text \<open>A conversation that cannot be printed counts as too long. The second result: it fits.\<close>

function conv_fit :: "cjson_api \<Rightarrow> nat \<Rightarrow> cjson list \<Rightarrow> cjson list \<times> bool" where
  "conv_fit J mx msgs =
     (if (case cJSON_PrintUnformatted J (CArray msgs) of Some json \<Rightarrow> length json \<le> mx | None \<Rightarrow> False) then (msgs, True)
      else case text_turns J msgs of
             i # j # ts \<Rightarrow> conv_fit J mx (take i msgs @ drop j msgs)
           | _ \<Rightarrow> (msgs, False))"
  by pat_completeness auto
termination
proof (relation "measure (\<lambda>(J, mx, msgs). length msgs)")
  fix J :: cjson_api and mx msgs i r j ts
  assume t: "text_turns J msgs = i # r" "r = j # ts"
  have "sorted_wrt (<) (text_turns J msgs)" unfolding text_turns_def by (rule sorted_wrt_filter) simp
  with t have "i < j" by simp
  moreover have "j \<in> set (text_turns J msgs)" using t by simp
  then have "j < length msgs" by (simp add: text_turns_def)
  ultimately show "((J, mx, take i msgs @ drop j msgs), J, mx, msgs) \<in> measure (\<lambda>(J, mx, msgs). length msgs)" by simp
qed simp

declare conv_fit.simps [simp del]

section \<open>Tool calls\<close>

definition tool_offered :: "cjson_api \<Rightarrow> cjson list \<Rightarrow> string \<Rightarrow> bool" where
  "tool_offered J tools name \<longleftrightarrow> list_ex (\<lambda>t. j_str J t ''name'' = Some name) tools"

text \<open>\<open>%g\<close> of a number is \<open>fmt\<close>, the C library's.\<close>

definition arg_value :: "(rat \<Rightarrow> string) \<Rightarrow> cjson \<Rightarrow> string" where
  "arg_value fmt v =
     buf_set 96 (case v of
        CString s \<Rightarrow> if LF \<in> set s then ''<'' @ dec_nat (length s) @ '' chars>''
                     else take (utf8_prefix s 60) s @ (if length s > 60 then ''...'' else [])
      | CNumber i d \<Rightarrow> fmt d
      | CBool b \<Rightarrow> if b then ''true'' else ''false''
      | _ \<Rightarrow> ''{...}'')"

definition named_items :: "cjson option \<Rightarrow> (string option \<times> cjson) list" where
  "named_items v = (case v of Some (CObject kvs) \<Rightarrow> map (\<lambda>(k, x). (Some k, x)) kvs | Some (CArray xs) \<Rightarrow> map (Pair None) xs | _ \<Rightarrow> [])"

definition summarize_args :: "(rat \<Rightarrow> string) \<Rightarrow> cjson option \<Rightarrow> nat \<Rightarrow> string" where
  "summarize_args fmt input sz =
     fold (\<lambda>(k, v) out. buf_appendf sz out ((if out \<noteq> [] then '', '' else []) @ (case k of Some n \<Rightarrow> n | None \<Rightarrow> ''?'') @ ''='' @ arg_value fmt v))
       (named_items input) []"

definition fnv_prime :: "64 word" where "fnv_prime = 1099511628211"

definition fnv :: "string \<Rightarrow> 64 word \<Rightarrow> 64 word" where
  "fnv s h = foldl (\<lambda>h c. (h XOR of_nat (byte c)) * fnv_prime) h s"

definition call_hash :: "string \<Rightarrow> string \<Rightarrow> 64 word" where
  "call_hash name args = fnv args (fnv name 1469598103934665603 * fnv_prime)"

fun count_call :: "64 word \<Rightarrow> nat \<Rightarrow> (64 word \<times> nat) list \<Rightarrow> ((64 word \<times> nat) list \<times> bool) option" where
  "count_call h limit [] = None"
| "count_call h limit ((k, n) # cs) =
     (if k = h then Some ((k, n + 1) # cs, n + 1 > limit) else map_option (\<lambda>(cs', b). ((k, n) # cs', b)) (count_call h limit cs))"

definition repeated_call :: "cjson_api \<Rightarrow> string \<Rightarrow> cjson \<Rightarrow> nat \<Rightarrow> session_state \<Rightarrow> session_state \<times> bool" where
  "repeated_call J name input limit st =
     (let h = call_hash name (or_empty (cJSON_PrintUnformatted J input))
      in case count_call h limit (ss_calls st) of
           Some (cs, b) \<Rightarrow> (st\<lparr>ss_calls := cs\<rparr>, b)
         | None \<Rightarrow> if length (ss_calls st) < 64 then (st\<lparr>ss_calls := ss_calls st @ [(h, 1)]\<rparr>, False) else (st, False))"

definition is_requester :: "trigger_info \<Rightarrow> string option \<Rightarrow> bool" where
  "is_requester trig name \<longleftrightarrow> (case name of Some n \<Rightarrow> n \<in> set (ti_requesters trig) | None \<Rightarrow> False)"

text \<open>A built-in tool, its arguments an object. Every offered tool has a name.\<close>

definition run_builtin :: "cjson_api \<Rightarrow> tool_env \<Rightarrow> tool_ctx \<Rightarrow> tool_id \<Rightarrow> cjson \<Rightarrow> trigger_info \<Rightarrow> string option \<Rightarrow> nat \<Rightarrow> session_state \<times> world \<Rightarrow>
    ((session_state \<times> world) \<times> string) option" where
  "run_builtin J e x tid input trig thread_id sz = (\<lambda>(st, w).
     let to = (if tid = TOOL_SEND_MESSAGE then messenger_resolve (tx_messenger x) (j_str J input ''to'') else None);
         (input', problem) = tool_check_args J tid input sz
     in map_option (\<lambda>(w', result).
            ((if tid = TOOL_SEND_MESSAGE \<and> \<not> is_error result
              then st\<lparr>ss_sent_message := True,
                     ss_sent_to := (if to \<noteq> None \<and> length (ss_sent_to st) < 8 then ss_sent_to st @ [buf_set 32 (the to)] else ss_sent_to st)\<rparr>
              else st, w'), result))
          (case problem of
             Some msg \<Rightarrow> Some (w, msg)
           | None \<Rightarrow>
               if is_requester trig to
               then (case j_str J input' ''content'' of Some c \<Rightarrow> Some (agent_message J e x to c thread_id True sz w) | None \<Rightarrow> None)
               else execute_tool J e x tid input' sz w))"

text \<open>
  The two branches of \<open>run_tool\<close> that run a tool, built-in or plugin; \<open>w_ran\<close> records the call. A built-in tool is run when its arguments
  pass their check.
\<close>

definition perform :: "cjson_api \<Rightarrow> tool_env \<Rightarrow> tool_ctx \<Rightarrow> string \<Rightarrow> cjson \<Rightarrow> trigger_info \<Rightarrow> string option \<Rightarrow> nat \<Rightarrow> session_state \<times> world \<Rightarrow>
    ((session_state \<times> world) \<times> string) option" where
  "perform J e x name input trig thread_id sz = (\<lambda>(st, w0).
     let w = w0\<lparr>w_ran := w_ran w0 @ [(name, input)]\<rparr>
     in case tool_find (Some name) of
          Some i \<Rightarrow> run_builtin J e x i input trig thread_id sz (st, w)
        | None \<Rightarrow>
            map_option (\<lambda>(w', r). ((st, w'), case r of Some t \<Rightarrow> t
                | None \<Rightarrow> buf_set sz (''Error: plugin '' @ [CHR 0x27] @ name @ [CHR 0x27] @ '' is no longer loaded'')))
              (run_plugin J e name input sz w))"

definition run_tool :: "cjson_api \<Rightarrow> tool_env \<Rightarrow> tool_ctx \<Rightarrow> cjson list \<Rightarrow> tool_call \<Rightarrow> trigger_info \<Rightarrow> string option \<Rightarrow> nat \<Rightarrow> session_state \<times> world \<Rightarrow>
    ((session_state \<times> world) \<times> string) option" where
  "run_tool J e x tools call trig thread_id sz = (\<lambda>(st, w).
     let tid = tool_find (Some (tc_name call))
     in if \<not> tool_offered J tools (tc_name call)
        then Some ((st, w), fold (\<lambda>t b. buf_appendf sz b ('' '' @ or_empty (j_str J t ''name''))) tools (buf_appendf sz [] (PROMPT_UNKNOWN_TOOL (tc_name call))))
        else case cJSON_Parse J (tc_input call) of
               Some (CObject kvs) \<Rightarrow>
                 (case repeated_call J (tc_name call) (CObject kvs) (if a_is_builder (me x w) \<and> tid = Some TOOL_READ_FILE then 1 else 2) st of
                    (st1, True) \<Rightarrow> Some ((st1\<lparr>ss_blocked := ss_blocked st1 + 1\<rparr>, w), buf_set sz (PROMPT_REPEAT_CALL (tc_name call)))
                  | (st1, False) \<Rightarrow> perform J e x (tc_name call) (CObject kvs) trig thread_id sz (st1, w))
             | _ \<Rightarrow> Some ((st, w), buf_set sz (PROMPT_BAD_ARGS (tc_name call))))"

section \<open>Trimming the history\<close>

definition block_size :: "cjson_api \<Rightarrow> cjson \<Rightarrow> nat" where
  "block_size J b = length (or_empty (j_str J b ''content''))"

definition msg_blocks :: "cjson_api \<Rightarrow> cjson \<Rightarrow> cjson list" where
  "msg_blocks J m = (case cJSON_GetObjectItem J m ''content'' of Some v \<Rightarrow> array_items v | None \<Rightarrow> [])"

definition history_size :: "cjson_api \<Rightarrow> cjson list \<Rightarrow> nat" where
  "history_size J msgs = sum_list (map (block_size J) (concat (map (msg_blocks J) msgs)))"

definition elided :: "string \<Rightarrow> string" where
  "elided c = (let keep = utf8_prefix c 200 in buf_set 400 (take keep c @ PROMPT_ELIDED (dec_nat (length c - keep))))"

definition trim_block :: "cjson_api \<Rightarrow> nat \<Rightarrow> cjson \<Rightarrow> nat \<Rightarrow> cjson \<times> nat" where
  "trim_block J budget b tot =
     (let c = or_empty (j_str J b ''content'')
      in if tot \<le> budget \<or> length c \<le> 400 then (b, tot)
         else (cJSON_ReplaceItemInObject J b ''content'' (CString (elided c)), tot - (length c - length (elided c))))"

fun trim_blocks :: "cjson_api \<Rightarrow> nat \<Rightarrow> cjson list \<Rightarrow> nat \<Rightarrow> cjson list \<times> nat" where
  "trim_blocks J budget [] tot = ([], tot)"
| "trim_blocks J budget (b # bs) tot =
     (let (b', t1) = trim_block J budget b tot; (bs', t2) = trim_blocks J budget bs t1 in (b' # bs', t2))"

text \<open>The blocks of a message in place: the items of an array, or the members of an object.\<close>

definition with_items :: "cjson list \<Rightarrow> cjson \<Rightarrow> cjson" where
  "with_items bs v = (case v of CArray _ \<Rightarrow> CArray bs | CObject kvs \<Rightarrow> CObject (zip (map fst kvs) bs) | _ \<Rightarrow> v)"

definition trim_msg :: "cjson_api \<Rightarrow> nat \<Rightarrow> cjson \<Rightarrow> nat \<Rightarrow> cjson \<times> nat" where
  "trim_msg J budget m tot =
     (let (bs, t) = trim_blocks J budget (msg_blocks J m) tot in (update_item ''content'' (with_items bs) m, t))"

fun trim_msgs :: "cjson_api \<Rightarrow> nat \<Rightarrow> cjson list \<Rightarrow> nat \<Rightarrow> cjson list" where
  "trim_msgs J budget [] tot = []"
| "trim_msgs J budget (m # ms) tot =
     (if tot \<le> budget then m # ms else let (m', t) = trim_msg J budget m tot in m' # trim_msgs J budget ms t)"

definition trim_history :: "cjson_api \<Rightarrow> nat \<Rightarrow> cjson list \<Rightarrow> cjson list" where
  "trim_history J budget msgs =
     (if history_size J msgs \<le> budget \<or> msgs = [] then msgs
      else trim_msgs J (budget div 2) (butlast msgs) (history_size J msgs) @ [List.last msgs])"

definition user_msg :: "cjson_api \<Rightarrow> string \<Rightarrow> cjson" where
  "user_msg J s = add_string J ''content'' s (add_string J ''role'' ''user'' (CObject []))"

definition add_user_text :: "cjson_api \<Rightarrow> string \<Rightarrow> cjson list \<Rightarrow> cjson list" where
  "add_user_text J s msgs = msgs @ [user_msg J s]"

section \<open>Effects of a session\<close>

record sess =
  g_world :: world
  g_chat :: "chat_log option"
  g_tls :: http_tls
  g_conv :: "cjson list option"
  g_conv_id :: "32 word"
  g_conv_seq :: "32 word"
  g_step :: nat
  g_ios :: "(cjson list \<times> llm_io) list" \<comment> \<open>the calls of the model: the conversation that was sent, and what was done on the network\<close>

record agent_env =
  ae_tool :: "nat \<Rightarrow> tool_env"
  ae_llm :: "nat \<Rightarrow> llm_env"
  ae_start :: "nat \<Rightarrow> bool" \<comment> \<open>allocations at the start that fail\<close>
  ae_turn :: "nat \<Rightarrow> nat \<Rightarrow> bool" \<comment> \<open>and in a turn: the text, the answer, the code\<close>
  ae_msg :: bool \<comment> \<open>the buffer of the final answer\<close>
  ae_fmt :: "rat \<Rightarrow> string"

text \<open>What stays the same in a session: the agent, its trigger and thread.\<close>

record sess_ctx =
  sx_tool :: tool_ctx
  sx_store :: string
  sx_thread :: "string option"
  sx_type :: trigger_type
  sx_trig :: trigger_info
  sx_talk :: bool

definition self :: "sess_ctx \<Rightarrow> sess \<Rightarrow> agent_ctx" where
  "self c g = me (sx_tool c) (g_world g)"

definition tick :: "agent_env \<Rightarrow> sess \<Rightarrow> sess \<times> tool_env" where
  "tick E g = (g\<lparr>g_step := g_step g + 1\<rparr>, ae_tool E (g_step g))"

text \<open>\<open>session_add_message\<close>, \<open>irc_reply\<close>, \<open>irc_action\<close> and \<open>chat_add\<close> in the session's state.\<close>

definition log_msg :: "cjson_api \<Rightarrow> agent_env \<Rightarrow> sess_ctx \<Rightarrow> string \<Rightarrow> string \<Rightarrow> msg_type \<Rightarrow> sess \<Rightarrow> sess" where
  "log_msg J E c recipient content ty g0 =
     (let (g, e) = tick E g0
      in g\<lparr>g_world := (g_world g)\<lparr>w_fs := fst (session_add_message J (te_write e) (te_uid e) (now_iso (te_tz e) (te_now e) 32) (sx_store c) (sx_thread c)
             (a_name (self c g)) (Some recipient) content ty (w_fs (g_world g)))\<rparr>\<rparr>)"

definition say :: "sess_ctx \<Rightarrow> string \<Rightarrow> sess \<Rightarrow> sess" where
  "say c s g = g\<lparr>g_world := show_out (irc_reply (tx_irc (sx_tool c)) (Some (a_name (self c g))) (Some s)) (g_world g)\<rparr>"

definition act :: "sess_ctx \<Rightarrow> string \<Rightarrow> sess \<Rightarrow> sess" where
  "act c s g = g\<lparr>g_world := show_out (irc_action (tx_irc (sx_tool c)) (Some (a_name (self c g))) (Some s)) (g_world g)\<rparr>"

definition chat_line_add :: "agent_env \<Rightarrow> sess_ctx \<Rightarrow> string \<Rightarrow> string \<Rightarrow> sess \<Rightarrow> sess" where
  "chat_line_add E c who s g0 =
     (let (g, e) = tick E g0
      in g\<lparr>g_chat := map_option (chat_add (te_tz e) (te_now e) (te_now e) (a_name (self c g)) who (Some s)) (g_chat g)\<rparr>)"

section \<open>After a reply without calls\<close>

datatype next_step = GoOn | Finished | Failed

definition plugin_input :: "cjson_api \<Rightarrow> string \<Rightarrow> string \<Rightarrow> cjson" where
  "plugin_input J name code = add_string J ''code'' code (add_string J ''name'' name (CObject []))"

text \<open>The builder printed a plugin instead of calling \<open>create_plugin\<close>: compile it.\<close>

definition auto_compile :: "cjson_api \<Rightarrow> agent_env \<Rightarrow> sess_ctx \<Rightarrow> string \<Rightarrow> string \<Rightarrow> sess \<Rightarrow> (sess \<times> string) option" where
  "auto_compile J E c name code g0 =
     (let action = buf_set 160 (''auto-compiles '' @ [CHR 0x27] @ name @ [CHR 0x27] @ '' from text'');
          g1 = log_msg J E c [] action MSG_TOOL_CALL (act c action g0);
          (g2, e) = tick E g1
      in map_option (\<lambda>(w, result). (log_msg J E c [] result MSG_TOOL_RESULT (g2\<lparr>g_world := w\<rparr>), result))
           (execute_tool J e (sx_tool c) TOOL_CREATE_PLUGIN (plugin_input J name code) 4096 (g_world g2)))"

definition stalled :: string where
  "stalled = ''Builder stalled: the plugin request ended without a working plugin.''"

text \<open>\<open>nomem\<close>: the buffer for the code cannot be allocated.\<close>

definition after_text_reply :: "cjson_api \<Rightarrow> agent_env \<Rightarrow> sess_ctx \<Rightarrow> bool \<Rightarrow> string \<Rightarrow> session_state \<Rightarrow> cjson list \<Rightarrow> sess \<Rightarrow>
    (sess \<times> session_state \<times> cjson list \<times> next_step) option" where
  "after_text_reply J E c nomem s st msgs g =
     (if a_is_builder (self c g) \<and> \<not> ss_plugin_done st then
        (let stall = (\<lambda>g st. Some (if ti_relay (sx_trig c) then say c stalled g else g, st\<lparr>ss_notice := stalled\<rparr>, msgs, Failed))
         in case (if nomem then None else builder_extract_code s 64 32768) of
              Some (name, code) \<Rightarrow>
                (case auto_compile J E c name code g of
                   None \<Rightarrow> None
                 | Some (g1, result) \<Rightarrow>
                     if \<not> is_error result
                     then Some (if ti_relay (sx_trig c) then say c result g1 else g1, st\<lparr>ss_plugin_done := True, ss_notice := buf_set 4096 result\<rparr>, msgs, Finished)
                     else if \<not> ss_builder_retry st
                     then Some (g1, st\<lparr>ss_builder_retry := True\<rparr>, add_user_text J (buf_set 4096 (PROMPT_BUILDER_AUTO_FAIL result)) msgs, GoOn)
                     else stall g1 st)
            | None \<Rightarrow>
                if sx_type c \<noteq> TRIG_AGENT_MSG \<and> \<not> ss_plugin_failed st then Some (g, st, msgs, Finished)
                else if \<not> ss_builder_retry st
                then Some (g, st\<lparr>ss_builder_retry := True\<rparr>, add_user_text J PROMPT_BUILDER_NUDGE msgs, GoOn)
                else stall g st)
      else if a_is_hub (self c g) \<and> ss_listed_agents st \<and> \<not> ss_sent_message st \<and> \<not> ss_hub_retry st
      then Some (g, st\<lparr>ss_hub_retry := True\<rparr>, add_user_text J PROMPT_HUB_NUDGE msgs, GoOn)
      else if s = [] \<and> \<not> ss_empty_retry st
      then Some (g, st\<lparr>ss_empty_retry := True\<rparr>, add_user_text J PROMPT_EMPTY_NUDGE msgs, GoOn)
      else Some (g, st, msgs, Finished))"

section \<open>The answer to the agents that asked\<close>

definition answer_text :: "string \<Rightarrow> string \<Rightarrow> string option \<Rightarrow> bool \<Rightarrow> string" where
  "answer_text name notice answer failed =
     (let a = (if notice = [] \<and> \<not> given answer
               then Some (buf_set 160 (if failed then PROMPT_FAILED_ANSWER name else PROMPT_NO_ANSWER name)) else answer)
      in notice @ (if notice \<noteq> [] \<and> a \<noteq> None then [LF] else []) @ or_empty a)"

definition answer_one :: "cjson_api \<Rightarrow> agent_env \<Rightarrow> sess_ctx \<Rightarrow> string \<Rightarrow> string \<Rightarrow> sess \<Rightarrow> sess" where
  "answer_one J E c msg req g0 =
     (let (g, e) = tick E g0;
          (w, out) = agent_message J e (sx_tool c) (Some req) msg (sx_thread c) True 256 (g_world g)
      in log_msg J E c req msg MSG_DELEGATION (g\<lparr>g_world := w\<rparr>))"

definition deliver_answer :: "cjson_api \<Rightarrow> agent_env \<Rightarrow> sess_ctx \<Rightarrow> session_state \<Rightarrow> string option \<Rightarrow> bool \<Rightarrow> sess \<Rightarrow> sess" where
  "deliver_answer J E c st answer failed g =
     (if ae_msg E then g
      else fold (answer_one J E c (answer_text (a_name (self c g)) (ss_notice st) answer failed))
             (filter (\<lambda>r. r \<notin> set (ss_sent_to st)) (ti_requesters (sx_trig c))) g)"

section \<open>A turn\<close>

text \<open>The variables of the loop.\<close>

record turn_state =
  r_g :: sess
  r_st :: session_state
  r_msgs :: "cjson list"
  r_answer :: "string option"

definition thinking :: "text_block \<Rightarrow> bool" where
  "thinking b \<longleftrightarrow> tb_type b = ''thinking''"

text \<open>One text block: logged, and relayed to the owner unless it is thinking.\<close>

definition relay_block :: "cjson_api \<Rightarrow> agent_env \<Rightarrow> sess_ctx \<Rightarrow> text_block \<Rightarrow> sess \<Rightarrow> sess" where
  "relay_block J E c b g =
     (let g1 = log_msg J E c [] (tb_text b) (if thinking b then MSG_THINKING else MSG_TEXT) g
      in if thinking b \<or> \<not> ti_relay (sx_trig c) then g1
         else let g2 = say c (tb_text b) g1 in if sx_talk c then chat_line_add E c (a_name (self c g2)) (tb_text b) g2 else g2)"

definition reply_text :: "text_block list \<Rightarrow> string" where
  "reply_text bs = fold (\<lambda>b s. if thinking b then s else s @ (if s \<noteq> [] then [LF] else []) @ tb_text b) bs []"

definition result_block :: "cjson_api \<Rightarrow> string \<Rightarrow> string \<Rightarrow> cjson" where
  "result_block J cid result =
     (let b = add_string J ''content'' result (add_string J ''tool_use_id'' cid (add_string J ''type'' ''tool_result'' (CObject [])))
      in if is_error result then cJSON_AddItemToObject J b ''is_error'' (CBool True) else b)"

text \<open>One call: shown, logged, run, logged; what the session learns from it; and its result for the model.\<close>

definition note_result :: "string \<Rightarrow> string \<Rightarrow> session_state \<Rightarrow> session_state" where
  "note_result name result st =
     (let st1 = (if name = ''create_plugin''
                 then (if is_error result then st\<lparr>ss_plugin_failed := True\<rparr>
                       else st\<lparr>ss_plugin_failed := False, ss_plugin_done := True, ss_notice := buf_set 4096 result\<rparr>)
                 else st)
      in if name = ''list_agents'' then st1\<lparr>ss_listed_agents := True\<rparr> else st1)"

definition run_call :: "cjson_api \<Rightarrow> agent_env \<Rightarrow> sess_ctx \<Rightarrow> cjson list \<Rightarrow> tool_call \<Rightarrow> sess \<times> session_state \<Rightarrow> ((sess \<times> session_state) \<times> cjson) option" where
  "run_call J E c tools call = (\<lambda>(g, st).
     let params = summarize_args (ae_fmt E) (cJSON_Parse J (tc_input call)) 256;
         line = buf_set 400 (''calls '' @ tc_name call @ ''('' @ params @ '')'');
         g1 = log_msg J E c [] (drop 6 line) MSG_TOOL_CALL (act c line g);
         (g2, e) = tick E g1
     in map_option (\<lambda>((st1, w), result).
          ((log_msg J E c [] result MSG_TOOL_RESULT (g2\<lparr>g_world := w\<rparr>), note_result (tc_name call) result st1), result_block J (tc_id call) result))
        (run_tool J e (sx_tool c) tools call (sx_trig c) (sx_thread c) 32768 (st, g_world g2)))"

fun run_calls :: "cjson_api \<Rightarrow> agent_env \<Rightarrow> sess_ctx \<Rightarrow> cjson list \<Rightarrow> tool_call list \<Rightarrow> sess \<times> session_state \<Rightarrow> ((sess \<times> session_state) \<times> cjson list) option" where
  "run_calls J E c tools [] s = Some (s, [])"
| "run_calls J E c tools (call # calls) s =
     do { (s1, b) \<leftarrow> run_call J E c tools call s;
          (s2, bs) \<leftarrow> run_calls J E c tools calls s1;
          Some (s2, b # bs) }"

definition turn_msg :: "cjson_api \<Rightarrow> string \<Rightarrow> cjson list \<Rightarrow> cjson" where
  "turn_msg J role blocks = cJSON_AddItemToObject J (add_string J ''role'' role (CObject [])) ''content'' (CArray blocks)"

definition trims :: "agent_ctx \<Rightarrow> bool" where
  "trims a \<longleftrightarrow> a_history_budget a > 0 \<and> provider_type (a_provider a) \<noteq> ''anthropic''"

definition content_blocks :: "llm_response \<Rightarrow> cjson list" where
  "content_blocks resp = opt_items (lr_content resp)"

text \<open>After the model was called: \<open>out\<close> is its response in turn \<open>n\<close>.\<close>

definition turn_calls :: "cjson_api \<Rightarrow> agent_env \<Rightarrow> sess_ctx \<Rightarrow> cjson list \<Rightarrow> llm_response \<Rightarrow> turn_state \<Rightarrow> (turn_state \<times> next_step) option" where
  "turn_calls J E c tools out r =
     (case run_calls J E c tools (tool_calls out) (r_g r, r_st r) of
        None \<Rightarrow> None
      | Some ((g, st), results) \<Rightarrow>
          let msgs = r_msgs r @ [turn_msg J ''user'' results];
              msgs' = (if trims (self c g) then trim_history J (nat (a_history_budget (self c g))) msgs else msgs)
          in Some (if ss_blocked st \<ge> 3
                   then (r\<lparr>r_g := say c PROMPT_STUCK g, r_st := st\<lparr>ss_notice := buf_set 4096 PROMPT_STUCK\<rparr>, r_msgs := msgs'\<rparr>, Failed)
                   else (r\<lparr>r_g := g, r_st := st, r_msgs := msgs'\<rparr>, GoOn)))"

definition turn_reply :: "cjson_api \<Rightarrow> agent_env \<Rightarrow> sess_ctx \<Rightarrow> cjson list \<Rightarrow> nat \<Rightarrow> llm_response \<Rightarrow> turn_state \<Rightarrow> (turn_state \<times> next_step) option" where
  "turn_reply J E c tools n out r =
     (let g1 = fold (relay_block J E c) (text_blocks out) (r_g r);
          s = (if ae_turn E n 0 then [] else reply_text (text_blocks out));
          answer = (if s \<noteq> [] then (if ae_turn E n 1 then None else Some s) else r_answer r);
          msgs = (if content_blocks out \<noteq> []
                  then r_msgs r @ [cJSON_AddItemToObject J (add_string J ''role'' ''assistant'' (CObject [])) ''content'' (the (lr_content out))] else r_msgs r);
          r1 = r\<lparr>r_g := g1, r_answer := answer, r_msgs := msgs\<rparr>
      in if tool_calls out \<noteq> [] then turn_calls J E c tools out r1
         else if stop_reason out = ''refusal''
         then Some (r1\<lparr>r_g := (if ti_relay (sx_trig c) then say c PROMPT_REFUSED g1 else g1), r_st := (r_st r)\<lparr>ss_notice := buf_set 4096 PROMPT_REFUSED\<rparr>\<rparr>, Finished)
         else map_option (\<lambda>(g, st, msgs', nx). (r1\<lparr>r_g := g, r_st := st, r_msgs := msgs'\<rparr>, nx))
                (after_text_reply J E c (ae_turn E n 2) s (r_st r) msgs g1))"

definition session_turn :: "cjson_api \<Rightarrow> agent_env \<Rightarrow> sess_ctx \<Rightarrow> string \<Rightarrow> cjson list \<Rightarrow> nat \<Rightarrow> turn_state \<Rightarrow> (turn_state \<times> next_step) option" where
  "session_turn J E c prompt tools n r =
     (let g = r_g r;
          (tls, io, out, rc) = llm_call (ae_llm E n) J (a_provider (self c g)) (Some prompt) (CArray (r_msgs r)) (Some (CArray tools)) (g_tls g);
          g1 = g\<lparr>g_tls := tls, g_ios := g_ios g @ [(r_msgs r, io)]\<rparr>
      in if rc \<noteq> 0
         then let notice = buf_set 4096 (PROMPT_LLM_ERROR (lr_error out))
              in Some (r\<lparr>r_g := say c notice g1, r_st := (r_st r)\<lparr>ss_notice := notice\<rparr>\<rparr>, Failed)
         else turn_reply J E c tools n out (r\<lparr>r_g := g1\<rparr>))"

text \<open>The loop, with \<open>k\<close> turns left; the last result: the limit was reached.\<close>

fun session_turns :: "cjson_api \<Rightarrow> agent_env \<Rightarrow> sess_ctx \<Rightarrow> string \<Rightarrow> cjson list \<Rightarrow> nat \<Rightarrow> nat \<Rightarrow> turn_state \<Rightarrow> (turn_state \<times> bool \<times> bool) option" where
  "session_turns J E c prompt tools 0 n r = Some (r, False, True)"
| "session_turns J E c prompt tools (Suc k) n r =
     do { (r1, nx) \<leftarrow> session_turn J E c prompt tools n r;
          if nx = GoOn then session_turns J E c prompt tools k (n + 1) r1 else Some (r1, nx = Failed, False) }"

section \<open>A session\<close>

definition max_turns_of :: "agent_ctx \<Rightarrow> nat" where
  "max_turns_of a = (if a_max_turns a > 0 then nat (a_max_turns a) else 100)"

definition agent_tools :: "cjson_api \<Rightarrow> bool \<Rightarrow> plugin_registry \<Rightarrow> cjson list" where
  "agent_tools J builder reg = array_items (tools_to_json J builder) @ array_items (plugin_get_schemas J reg)"

text \<open>
  The start: the session's context, whether an open conversation goes on, the lines of the channel with their number, and the opening turn
  (\<open>None\<close> when memory is exhausted).
\<close>

definition session_open :: "cjson_api \<Rightarrow> agent_env \<Rightarrow> tool_ctx \<Rightarrow> string \<Rightarrow> string option \<Rightarrow> trigger_type \<Rightarrow> string \<Rightarrow> sess \<Rightarrow>
    sess \<times> sess_ctx \<times> bool \<times> 32 word \<times> 32 word \<times> string option" where
  "session_open J E x store thread_id ty data g0 =
     (let (g1, e) = tick E g0;
          trig = parse_trigger J ty data;
          talk = (ti_relay trig \<and> g_chat g1 \<noteq> None);
          (chat, conv_id) = (if talk then chat_id (te_now e) (g_chat g1) else (g_chat g1, 0));
          resume = (talk \<and> g_conv g1 \<noteq> None \<and> g_conv_id g1 = conv_id);
          g2 = g1\<lparr>g_chat := chat, g_conv := (if talk \<and> \<not> resume then None else g_conv g1)\<rparr>;
          c = \<lparr>sx_tool = x, sx_store = store, sx_thread = thread_id, sx_type = ty, sx_trig = trig, sx_talk = talk\<rparr>;
          (ls, sq) = (if talk \<and> \<not> ae_start E 0
                      then chat_render (if resume then g_conv_seq g2 else 0) (if resume then Some (a_name (self c g2)) else None) 6464 chat else ([], 0));
          chan = (if ls \<noteq> [] then buf_set 6464 (PROMPT_CHAT_HEADER ls) else []);
          (w, opening) = (if ae_start E 0 then (g_world g2, None)
                          else if resume then (g_world g2, build_next_turn J (\<lambda>i. ae_start E (i + 2)) e ty trig data chan)
                          else build_first_turn J (\<lambda>i. ae_start E (i + 2)) e x ty trig data chan (g_world g2))
      in (g2\<lparr>g_world := w\<rparr>, c, resume, conv_id, sq, if ae_start E 1 then None else opening))"

definition owner_label :: "string \<Rightarrow> string" where
  "owner_label name = buf_set 48 (''owner '' @ [CHR 0xE2, CHR 0x86, CHR 0x92] @ '' '' @ name)"

definition session_close :: "cjson_api \<Rightarrow> agent_env \<Rightarrow> sess_ctx \<Rightarrow> 32 word \<Rightarrow> 32 word \<Rightarrow> turn_state \<Rightarrow> bool \<Rightarrow> bool \<Rightarrow> sess" where
  "session_close J E c conv_id sq r failed limit =
     (let a = self c (r_g r);
          notice = buf_set 4096 (PROMPT_MAX_TURNS (dec_nat (max_turns_of a)));
          st = (if limit then (r_st r)\<lparr>ss_notice := notice\<rparr> else r_st r);
          g1 = (if limit then say c notice (r_g r) else r_g r);
          g2 = (if ti_requesters (sx_trig c) \<noteq> [] then deliver_answer J E c st (r_answer r) failed g1 else g1);
          (msgs, fits) = conv_fit J (if a_history_budget a > 0 then nat (a_history_budget a) else 65536) (r_msgs r)
      in if sx_talk c \<and> \<not> failed \<and> r_msgs r \<noteq> [] \<and> j_str J (List.last (r_msgs r)) ''role'' = Some ''assistant'' \<and> fits
         then g2\<lparr>g_conv := Some msgs, g_conv_id := conv_id, g_conv_seq := sq\<rparr>
         else g2)"

text \<open>The result: the state, and whether the session failed.\<close>

definition agent_run_session :: "cjson_api \<Rightarrow> agent_env \<Rightarrow> tool_ctx \<Rightarrow> string \<Rightarrow> string option \<Rightarrow> trigger_type \<Rightarrow> string \<Rightarrow> sess \<Rightarrow> (sess \<times> bool) option" where
  "agent_run_session J E x store thread_id ty data g0 =
     (case session_open J E x store thread_id ty data g0 of
        (g1, c, resume, conv_id, sq, None) \<Rightarrow> Some (g1, True)
      | (g1, c, resume, conv_id, sq, Some opening) \<Rightarrow>
          let prompt = build_system_prompt x (g_world g1) 65536;
              tools = agent_tools J (a_is_builder (self c g1)) (w_plugins (g_world g1));
              msgs = add_user_text J opening (if resume then the (g_conv g1) else []);
              g2 = (if resume then g1\<lparr>g_conv := None\<rparr> else g1);
              g3 = (if sx_talk c \<and> ty = TRIG_IRC then chat_line_add E c (owner_label (a_name (self c g2))) data g2 else g2)
          in do { (r, failed, limit) \<leftarrow> session_turns J E c prompt tools (max_turns_of (self c g3)) 0
                     \<lparr>r_g = g3, r_st = new_state, r_msgs = msgs, r_answer = None\<rparr>;
                  Some (session_close J E c conv_id sq r failed limit, failed) })"

section \<open>Repeated calls\<close>

definition hash_of :: "cjson_api \<Rightarrow> string \<times> cjson \<Rightarrow> 64 word" where
  "hash_of J = (\<lambda>(name, input). call_hash name (or_empty (cJSON_PrintUnformatted J input)))"

definition counted :: "64 word \<Rightarrow> session_state \<Rightarrow> nat" where
  "counted h st = (case map_of (ss_calls st) h of Some n \<Rightarrow> n | None \<Rightarrow> 0)"

lemma count_call_None: "count_call h limit cs = None \<longleftrightarrow> h \<notin> fst ` set cs"
  by (induction h limit cs rule: count_call.induct) auto

lemma count_call_Some:
  "count_call h limit cs = Some (cs', b) \<Longrightarrow> map fst cs' = map fst cs \<and> (\<exists>n. map_of cs h = Some n \<and> map_of cs' = (map_of cs)(h \<mapsto> n + 1) \<and> (b \<longleftrightarrow> n + 1 > limit))"
proof (induction h limit cs arbitrary: cs' rule: count_call.induct)
  case (2 h limit k n cs)
  show ?case
  proof (cases "k = h")
    case True
    with 2 show ?thesis by auto
  next
    case False
    with 2(2) obtain cs1 where c: "count_call h limit cs = Some (cs1, b)" "cs' = (k, n) # cs1" by auto
    from 2(1) [OF False c(1)] obtain m where "map fst cs1 = map fst cs" "map_of cs h = Some m" "map_of cs1 = (map_of cs)(h \<mapsto> m + 1)" "b \<longleftrightarrow> m + 1 > limit" by blast
    with c(2) False show ?thesis by (auto simp: fun_eq_iff)
  qed
qed simp

lemma repeated_call_counts:
  assumes "repeated_call J name input limit st = (st', b)" "distinct (map fst (ss_calls st))"
    "card (insert (hash_of J (name, input)) (fst ` set (ss_calls st))) \<le> 64" "1 \<le> limit"
  shows "counted (hash_of J (name, input)) st' = counted (hash_of J (name, input)) st + 1 \<and> (b \<longleftrightarrow> counted (hash_of J (name, input)) st \<ge> limit) \<and>
    (\<forall>h. h \<noteq> hash_of J (name, input) \<longrightarrow> counted h st' = counted h st) \<and>
    distinct (map fst (ss_calls st')) \<and> fst ` set (ss_calls st') = insert (hash_of J (name, input)) (fst ` set (ss_calls st))"
proof -
  define h where "h = hash_of J (name, input)"
  have u: "(case count_call h limit (ss_calls st) of Some (cs, b) \<Rightarrow> (st\<lparr>ss_calls := cs\<rparr>, b)
     | None \<Rightarrow> if length (ss_calls st) < 64 then (st\<lparr>ss_calls := ss_calls st @ [(h, 1)]\<rparr>, False) else (st, False)) = (st', b)"
    using assms(1) by (simp only: repeated_call_def h_def hash_of_def Let_def prod.case)
  show ?thesis unfolding h_def [symmetric]
  proof (cases "count_call h limit (ss_calls st)")
    case None
    then have n: "h \<notin> fst ` set (ss_calls st)" by (simp add: count_call_None)
    have "length (ss_calls st) = card (fst ` set (ss_calls st))" using distinct_card [OF assms(2)] by simp
    then have "length (ss_calls st) < 64" using assms(3) n by (simp add: h_def [symmetric])
    with u None have s: "st' = st\<lparr>ss_calls := ss_calls st @ [(h, 1)]\<rparr>" "\<not> b" by auto
    have "map_of (ss_calls st) h = None" using n by (simp add: map_of_eq_None_iff)
    then show "counted h st' = counted h st + 1 \<and> (b \<longleftrightarrow> counted h st \<ge> limit) \<and> (\<forall>k. k \<noteq> h \<longrightarrow> counted k st' = counted k st) \<and>
      distinct (map fst (ss_calls st')) \<and> fst ` set (ss_calls st') = insert h (fst ` set (ss_calls st))"
      using s n assms(2,4) by (auto simp: counted_def map_add_def split: option.split)
  next
    case (Some p)
    obtain cs b' where p: "p = (cs, b')" by fastforce
    with u Some have s: "st' = st\<lparr>ss_calls := cs\<rparr>" "b' = b" by auto
    from count_call_Some [OF Some [unfolded p]] obtain n where n: "map fst cs = map fst (ss_calls st)" "map_of (ss_calls st) h = Some n"
      "map_of cs = (map_of (ss_calls st))(h \<mapsto> n + 1)" "b' \<longleftrightarrow> n + 1 > limit" by blast
    have "fst ` set cs = fst ` set (ss_calls st)" using n(1) by (metis set_map)
    moreover have "h \<in> fst ` set (ss_calls st)" using n(2) by (metis map_of_eq_None_iff option.distinct(1))
    ultimately show "counted h st' = counted h st + 1 \<and> (b \<longleftrightarrow> counted h st \<ge> limit) \<and> (\<forall>k. k \<noteq> h \<longrightarrow> counted k st' = counted k st) \<and>
      distinct (map fst (ss_calls st')) \<and> fst ` set (ss_calls st') = insert h (fst ` set (ss_calls st))"
      using s n assms(2) by (auto simp: counted_def insert_absorb)
  qed
qed

text \<open>How often a tool may run with the same arguments in a session; \<open>b\<close>: of the builder, which reads a file only once.\<close>

definition run_limit :: "bool \<Rightarrow> string \<times> cjson \<Rightarrow> nat" where
  "run_limit b = (\<lambda>(name, input). if b \<and> tool_find (Some name) = Some TOOL_READ_FILE then 1 else 2)"

definition hash_count :: "cjson_api \<Rightarrow> 64 word \<Rightarrow> (string \<times> cjson) list \<Rightarrow> nat" where
  "hash_count J h done_calls = length (filter (\<lambda>c. hash_of J c = h) done_calls)"

text \<open>The table of a session and the calls that it has run.\<close>

definition run_counts :: "cjson_api \<Rightarrow> bool \<Rightarrow> session_state \<Rightarrow> (string \<times> cjson) list \<Rightarrow> bool" where
  "run_counts J b st done_calls \<longleftrightarrow> distinct (map fst (ss_calls st)) \<and> length (ss_calls st) \<le> 64 \<and>
     fst ` set (ss_calls st) \<subseteq> hash_of J ` set done_calls \<and> (card (hash_of J ` set done_calls) \<le> 64 \<longrightarrow> fst ` set (ss_calls st) = hash_of J ` set done_calls \<and>
        (\<forall>h. hash_count J h done_calls \<le> counted h st) \<and> (\<forall>c. count_list done_calls c \<le> run_limit b c))"

lemma run_counts_start: "run_counts J b new_state []"
  by (simp add: run_counts_def new_state_def hash_count_def)

lemma run_counts_same: "run_counts J b st done_calls \<Longrightarrow> ss_calls st' = ss_calls st \<Longrightarrow> run_counts J b st' done_calls"
  by (simp add: run_counts_def counted_def)

lemma count_le_hash_count: "count_list done_calls c \<le> hash_count J (hash_of J c) done_calls"
  unfolding hash_count_def by (induction done_calls) auto

text \<open>A call that is let through is one of fewer than its limit; a table that is full has 64 other calls.\<close>

lemma run_counts_call:
  assumes "run_counts J b st done_calls" "repeated_call J name input (run_limit b (name, input)) st = (st', blocked)"
  shows "run_counts J b st' (if blocked then done_calls else done_calls @ [(name, input)])"
proof -
  define c where "c = (name, input)"
  define h where "h = hash_of J c"
  let ?K = "fst ` set (ss_calls st)" and ?done_calls = "if blocked then done_calls else done_calls @ [c]"
  have d: "distinct (map fst (ss_calls st))" and len: "length (ss_calls st) \<le> 64" and sub: "?K \<subseteq> hash_of J ` set done_calls" using assms(1) by (simp_all add: run_counts_def)
  have lim: "1 \<le> run_limit b c" by (simp add: run_limit_def c_def)
  show ?thesis unfolding c_def [symmetric]
  proof (cases "card (insert h ?K) \<le> 64")
    case False
    have "card ?K = length (ss_calls st)" using distinct_card [OF d] by simp
    then have n: "h \<notin> ?K" "\<not> length (ss_calls st) < 64" using False len by (cases "h \<in> ?K"; simp add: insert_absorb)+
    have "count_call h (run_limit b c) (ss_calls st) = None" using n(1) by (simp add: count_call_None)
    then have s: "st' = st" "\<not> blocked"
      using assms(2) n(2) by (simp_all add: repeated_call_def Let_def h_def hash_of_def c_def)
    have "insert h ?K \<subseteq> hash_of J ` set (done_calls @ [c])" using sub by (auto simp: h_def)
    then have "\<not> card (hash_of J ` set (done_calls @ [c])) \<le> 64" using False card_mono [of "hash_of J ` set (done_calls @ [c])" "insert h ?K"] by simp
    then show "run_counts J b st' ?done_calls" using d len sub s by (auto simp: run_counts_def)
  next
    case True
    note q = repeated_call_counts [OF assms(2) d, folded c_def, folded h_def, OF True lim]
    have len': "length (ss_calls st') \<le> 64" using q True distinct_card [of "map fst (ss_calls st')"] by simp
    have bl: "h \<in> hash_of J ` set done_calls" if blocked
    proof -
      have "counted h st \<noteq> 0" using that q lim by auto
      then have "h \<in> ?K" by (auto simp: counted_def split: option.splits dest!: map_of_SomeD intro: rev_image_eqI)
      then show ?thesis using sub by blast
    qed
    then have "hash_of J ` set ?done_calls = insert h (hash_of J ` set done_calls)" by (auto simp: h_def)
    moreover have "run_counts J b st' ?done_calls" if le: "card (insert h (hash_of J ` set done_calls)) \<le> 64"
    proof -
      have "card (hash_of J ` set done_calls) \<le> 64" using le by (rule le_trans [OF card_mono, rotated 2]) auto
      then have o: "?K = hash_of J ` set done_calls" "\<And>k. hash_count J k done_calls \<le> counted k st" "\<And>c. count_list done_calls c \<le> run_limit b c"
        using assms(1) unfolding run_counts_def by blast+
      have "hash_count J k ?done_calls \<le> counted k st'" for k using o(2) [of k] q by (cases "k = h") (auto simp: hash_count_def h_def)
      moreover have "count_list ?done_calls k \<le> run_limit b k" for k
      proof (cases "\<not> blocked \<and> k = c")
        case True
        have "count_list done_calls c \<le> counted h st" using o(2) [of h] count_le_hash_count [of done_calls c J] by (simp add: h_def)
        then show ?thesis using True q by simp
      qed (use o(3) [of k] in auto)
      ultimately show ?thesis using q len' o(1) \<open>hash_of J ` set ?done_calls = insert h (hash_of J ` set done_calls)\<close> by (simp add: run_counts_def)
    qed
    moreover have "run_counts J b st' ?done_calls" if "\<not> card (insert h (hash_of J ` set done_calls)) \<le> 64"
      using that q len' sub \<open>hash_of J ` set ?done_calls = insert h (hash_of J ` set done_calls)\<close> by (auto simp: run_counts_def)
    ultimately show "run_counts J b st' ?done_calls" by blast
  qed
qed

section \<open>Shortening a conversation\<close>

lemma text_turns_props:
  assumes "text_turns J msgs = i # j # ts"
  shows "1 \<le> i" "i < j" "j < length msgs"
proof -
  have "sorted_wrt (<) (text_turns J msgs)" unfolding text_turns_def by (rule sorted_wrt_filter) simp
  then show "i < j" using assms by simp
  have "i \<in> set (text_turns J msgs)" "j \<in> set (text_turns J msgs)" using assms by simp_all
  then show "1 \<le> i" "j < length msgs" by (simp_all add: text_turns_def)
qed

lemma cut_subseq: "i \<le> j \<Longrightarrow> subseq (take i xs @ drop j xs) xs"
proof -
  assume "i \<le> j"
  then have "suffix (drop j xs) (drop i xs)" by (metis le_add_diff_inverse2 drop_drop suffix_drop)
  then have "subseq (take i xs @ drop j xs) (take i xs @ drop i xs)" by (intro list_emb_append_mono suffix_imp_subseq) simp_all
  then show ?thesis by (simp only: append_take_drop_id)
qed

text \<open>
  (C19) What is kept of a conversation: its first message, with the context, and its last always stay, and what is left is in order. Either the rest fits the
  limit, or at most one text of the owner is left after the first message and nothing more can be dropped.
\<close>

theorem conv_fit_keeps:
  assumes "conv_fit J mx msgs = (msgs', fits)" "msgs \<noteq> []"
  shows "msgs' \<noteq> [] \<and> hd msgs' = hd msgs \<and> List.last msgs' = List.last msgs \<and> subseq msgs' msgs \<and>
    (if fits then \<exists>json. cJSON_PrintUnformatted J (CArray msgs') = Some json \<and> length json \<le> mx else length (text_turns J msgs') \<le> 1)"
  using assms
proof (induction J mx msgs arbitrary: msgs' rule: conv_fit.induct)
  case (1 J mx msgs)
  let ?f = "case cJSON_PrintUnformatted J (CArray msgs) of Some json \<Rightarrow> length json \<le> mx | None \<Rightarrow> False"
  show ?case
  proof (cases "\<not> ?f \<and> (\<exists>i j ts. text_turns J msgs = i # j # ts)")
    case True
    then obtain i j ts where f: "\<not> ?f" "text_turns J msgs = i # j # ts" by blast
    note ij = text_turns_props [OF f(2)]
    let ?ms = "take i msgs @ drop j msgs"
    have "conv_fit J mx ?ms = (msgs', fits)" using 1(2) f by (subst (asm) conv_fit.simps) simp
    moreover have ne: "?ms \<noteq> []" using ij by simp
    ultimately have IH: "msgs' \<noteq> [] \<and> hd msgs' = hd ?ms \<and> List.last msgs' = List.last ?ms \<and> subseq msgs' ?ms \<and>
      (if fits then \<exists>json. cJSON_PrintUnformatted J (CArray msgs') = Some json \<and> length json \<le> mx else length (text_turns J msgs') \<le> 1)"
      by (rule "1.IH" [OF f(1,2) refl])
    have "hd ?ms = hd msgs" "List.last ?ms = List.last msgs" using ij by (simp_all add: hd_append)
    moreover have "subseq ?ms msgs" using ij by (intro cut_subseq) simp
    ultimately show ?thesis using IH subseq_order.trans by metis
  next
    case False
    show ?thesis
    proof (cases ?f)
      case True
      then have "msgs' = msgs" "fits" using 1(2) by (auto simp: conv_fit.simps)
      then show ?thesis using True 1(3) by (auto split: option.splits)
    next
      case nf: False
      have e: "conv_fit J mx msgs = (msgs, False)" using nf False by (subst conv_fit.simps) (auto split: list.splits)
      have "length (text_turns J msgs) \<le> 1" using nf False by (cases "text_turns J msgs"; cases "tl (text_turns J msgs)") auto
      then show ?thesis using e 1(2,3) by simp
    qed
  qed
qed

definition long_conv :: "cjson list" where
  "long_conv = [CObject [(''role'', CString ''user''), (''content'', CString ''a'')], CObject [(''role'', CString ''assistant''), (''content'', CString ''b'')]]"

theorem conv_fit_keeps_witness:
  "conv_fit (table_cjson [(CArray long_conv, ''xy'')]) 2 long_conv = (long_conv, True) \<and>
     (\<exists>json. cJSON_PrintUnformatted (table_cjson [(CArray long_conv, ''xy'')]) (CArray long_conv) = Some json \<and> length json \<le> 2)"
proof -
  have c: "conv_fit (table_cjson [(CArray long_conv, ''xy'')]) 2 long_conv = (long_conv, True)" by (subst conv_fit.simps) (simp add: table_cjson_def)
  have "long_conv \<noteq> []" by (simp add: long_conv_def)
  with conv_fit_keeps [OF c] c show ?thesis by simp
qed

end
