(* ===== verification/Agent_Loop.thy ===== *)
theory Agent_Loop
  imports Agent
begin

text \<open>
  What the sessions of \<open>src/agent.c\<close> guarantee, over the definitions of \<open>Agent\<close>: frames of every step, conversations in which every call is
  answered, totality, and the properties of a whole session that follow from them.
\<close>

section \<open>What a step leaves alone\<close>

text \<open>
  Between two calls of the model, a session keeps every agent but for the cache of its memories, the record of calls and the kept
  conversation; the plugins too, unless \<open>p\<close>.
\<close>

definition leaves :: "bool \<Rightarrow> sess \<Rightarrow> sess \<Rightarrow> bool" where
  "leaves p g g' \<longleftrightarrow> same_agents (w_agents (g_world g)) (w_agents (g_world g')) \<and> (p \<or> w_plugins (g_world g') = w_plugins (g_world g)) \<and>
     g_ios g' = g_ios g \<and> g_tls g' = g_tls g \<and> g_conv g' = g_conv g"

lemma leaves_refl [simp]: "leaves p g g"
  by (simp add: leaves_def)

lemma leaves_trans: "leaves p g1 g2 \<Longrightarrow> leaves p g2 g3 \<Longrightarrow> leaves p g1 g3"
  unfolding leaves_def using same_agents_trans by auto

lemma leaves_weaken: "leaves p g g' \<Longrightarrow> leaves True g g'"
  by (simp add: leaves_def)

lemma log_msg_kept [simp]: "leaves p g (log_msg J E c r s ty g)"
  by (simp add: leaves_def log_msg_def tick_def Let_def)

lemma say_kept [simp]: "leaves p g (say c s g)"
  by (simp add: leaves_def say_def)

lemma act_kept [simp]: "leaves p g (act c s g)"
  by (simp add: leaves_def act_def)

lemma chat_line_kept [simp]: "leaves p g (chat_line_add E c who s g)"
  by (simp add: leaves_def chat_line_add_def tick_def Let_def)

lemma tick_kept: "tick E g = (g', e) \<Longrightarrow> leaves p g g'"
  by (auto simp: leaves_def tick_def)

lemma world_kept: "same_agents (w_agents (g_world g)) (w_agents w) \<Longrightarrow> p \<or> w_plugins w = w_plugins (g_world g) \<Longrightarrow> leaves p g (g\<lparr>g_world := w\<rparr>)"
  by (simp add: leaves_def)

lemma relay_kept: "leaves p g (relay_block J E c b g)"
proof -
  have "leaves p g (say c s (log_msg J E c [] u ty g))" for s u ty using log_msg_kept say_kept leaves_trans by blast
  moreover from this have "leaves p g (chat_line_add E c who v (say c s (log_msg J E c [] u ty g)))" for who v s u ty using chat_line_kept leaves_trans by blast
  ultimately show ?thesis by (simp add: relay_block_def Let_def)
qed

lemma fold_kept: "(\<And>x g. leaves p g (f x g)) \<Longrightarrow> leaves p g (fold f xs g)"
  by (induction xs arbitrary: g) (auto intro: leaves_trans)

text \<open>The identity of the agent that runs.\<close>

lemma same_agents_nth: "same_agents as bs \<Longrightarrow> i < length as \<Longrightarrow> i < length bs \<and> same_identity (as ! i) (bs ! i)"
  unfolding same_agents_def by (auto simp: list_all2_conv_all_nth)

lemma same_identity_fields:
  assumes "same_identity a b"
  shows "a_name b = a_name a" "a_is_builder b = a_is_builder a" "a_is_hub b = a_is_hub a" "a_provider b = a_provider a"
    "a_history_budget b = a_history_budget a" "a_max_turns b = a_max_turns a" "a_personality b = a_personality a" "a_n_peers b = a_n_peers a"
    "a_prompt_extra b = a_prompt_extra a" "a_specialty b = a_specialty a" "a_objectives b = a_objectives a"
  using assms by (auto simp: same_identity_def)

lemma leaves_self:
  assumes "leaves p g g'" "tx_me (sx_tool c) < length (w_agents (g_world g))"
  shows "same_identity (self c g) (self c g')" "tx_me (sx_tool c) < length (w_agents (g_world g'))"
  using assms same_agents_nth unfolding leaves_def self_def by blast+

section \<open>Tool calls\<close>

lemma run_builtin_changes:
  assumes "run_builtin J e x i input trig th sz (st, w) = Some ((st', w'), result)"
  shows "same_agents (w_agents w) (w_agents w') \<and> (i \<noteq> TOOL_CREATE_PLUGIN \<longrightarrow> w_plugins w' = w_plugins w) \<and>
    w_ran w' = w_ran w \<and> ss_calls st' = ss_calls st"
  using assms tool_changes tool_keeps_history
  by (auto simp: run_builtin_def Let_def split: prod.splits option.splits if_splits dest: agent_message_frame)

lemma perform_changes:
  assumes "perform J e x name input trig th sz (st, w) = Some ((st', w'), result)"
  shows "same_agents (w_agents w) (w_agents w') \<and> (tool_find (Some name) \<noteq> Some TOOL_CREATE_PLUGIN \<longrightarrow> w_plugins w' = w_plugins w) \<and>
    w_ran w' = w_ran w @ [(name, input)] \<and> ss_calls st' = ss_calls st"
proof (cases "tool_find (Some name)")
  case None
  with assms obtain r where "run_plugin J e name input sz (w\<lparr>w_ran := w_ran w @ [(name, input)]\<rparr>) = Some (w', r)" "st' = st"
    by (auto simp: perform_def Let_def)
  with run_plugin_frame [OF this(1)] None show ?thesis by simp
next
  case (Some i)
  with assms have "run_builtin J e x i input trig th sz (st, w\<lparr>w_ran := w_ran w @ [(name, input)]\<rparr>) = Some ((st', w'), result)"
    by (simp add: perform_def Let_def)
  from run_builtin_changes [OF this] Some show ?thesis by simp
qed

text \<open>A call is refused, blocked as a repetition, or run.\<close>

lemma run_tool_cases:
  assumes "run_tool J e x tools call trig th sz (st, w) = Some ((st', w'), result)"
  obtains (refused) "w' = w" "st' = st"
  | (blocked) kvs st1 where "repeated_call J (tc_name call) (CObject kvs) (run_limit (a_is_builder (me x w)) (tc_name call, CObject kvs)) st = (st1, True)"
      "w' = w" "ss_calls st' = ss_calls st1"
  | (performed) kvs st1 where "tool_offered J tools (tc_name call)"
      "repeated_call J (tc_name call) (CObject kvs) (run_limit (a_is_builder (me x w)) (tc_name call, CObject kvs)) st = (st1, False)"
      "perform J e x (tc_name call) (CObject kvs) trig th sz (st1, w) = Some ((st', w'), result)"
proof (cases "tool_offered J tools (tc_name call) \<and> (\<exists>kvs. cJSON_Parse J (tc_input call) = Some (CObject kvs))")
  case False
  then show thesis using assms refused by (cases "cJSON_Parse J (tc_input call)") (auto simp: run_tool_def Let_def split: cjson.splits if_splits)
next
  case True
  then obtain kvs where k: "tool_offered J tools (tc_name call)" "cJSON_Parse J (tc_input call) = Some (CObject kvs)" by blast
  define limit where "limit = run_limit (a_is_builder (me x w)) (tc_name call, CObject kvs)"
  have l: "(if a_is_builder (me x w) \<and> tool_find (Some (tc_name call)) = Some TOOL_READ_FILE then 1 else 2 :: nat) = limit"
    by (simp add: limit_def run_limit_def)
  obtain st1 b where r: "repeated_call J (tc_name call) (CObject kvs) limit st = (st1, b)" by fastforce
  note u = assms [unfolded run_tool_def Let_def prod.case l k option.case cjson.case r]
  show thesis
  proof (cases b)
    case True
    then show thesis using u k(1) r [unfolded limit_def] by (intro blocked [of kvs st1]) auto
  next
    case False
    then show thesis using u k(1) r [unfolded limit_def] by (intro performed [of kvs st1]) auto
  qed
qed

lemma run_tool_changes:
  assumes "run_tool J e x tools call trig th sz (st, w) = Some ((st', w'), result)"
  shows "same_agents (w_agents w) (w_agents w') \<and>
    (w_plugins w' = w_plugins w \<or> tool_offered J tools (tc_name call) \<and> tool_find (Some (tc_name call)) = Some TOOL_CREATE_PLUGIN)"
  using assms by (cases rule: run_tool_cases) (auto dest: perform_changes)

subsection \<open>The history of calls\<close>

text \<open>
  After \<open>past\<close>, the calls of this session that were run: each is of a tool that was offered, and they are counted in the table of
  the session. \<open>b\<close>: the session is of the builder.
\<close>

definition ran_ok :: "cjson_api \<Rightarrow> bool \<Rightarrow> cjson list \<Rightarrow> (string \<times> cjson) list \<Rightarrow> session_state \<Rightarrow> world \<Rightarrow> bool" where
  "ran_ok J b tools past st w \<longleftrightarrow> (\<exists>cs. w_ran w = past @ cs \<and> list_all (\<lambda>(n, i). tool_offered J tools n) cs \<and> run_counts J b st cs)"

lemma ran_ok_same: "ran_ok J b tools past st w \<Longrightarrow> w_ran w' = w_ran w \<Longrightarrow> ss_calls st' = ss_calls st \<Longrightarrow> ran_ok J b tools past st' w'"
  unfolding ran_ok_def using run_counts_same by auto

lemma run_tool_ran:
  assumes "run_tool J e x tools call trig th sz (st, w) = Some ((st', w'), result)" "ran_ok J b tools past st w" "a_is_builder (me x w) = b"
  shows "ran_ok J b tools past st' w'"
proof -
  obtain cs where cs: "w_ran w = past @ cs" "list_all (\<lambda>(n, i). tool_offered J tools n) cs" "run_counts J b st cs" using assms(2) by (auto simp: ran_ok_def)
  from assms(1) show ?thesis
  proof (cases rule: run_tool_cases)
    case refused
    then show ?thesis using assms(2) by simp
  next
    case (blocked kvs st1)
    from run_counts_call [OF cs(3) blocked(1) [unfolded assms(3)]] blocked(2,3) cs(1,2) run_counts_same show ?thesis by (auto simp: ran_ok_def)
  next
    case (performed kvs st1)
    note p = perform_changes [OF performed(3)]
    from run_counts_call [OF cs(3) performed(2) [unfolded assms(3)]] have "run_counts J b st' (cs @ [(tc_name call, CObject kvs)])"
      using p by (auto intro: run_counts_same)
    then show ?thesis unfolding ran_ok_def using p cs(1,2) performed(1) by (intro exI [of _ "cs @ [(tc_name call, CObject kvs)]"]) simp
  qed
qed

lemma effects_run_nothing [simp]:
  "w_ran (g_world (log_msg J E c r s ty g)) = w_ran (g_world g)" "w_ran (g_world (say c s g)) = w_ran (g_world g)"
  "w_ran (g_world (act c s g)) = w_ran (g_world g)" "w_ran (g_world (chat_line_add E c who s g)) = w_ran (g_world g)"
  by (simp_all add: log_msg_def say_def act_def chat_line_add_def tick_def Let_def)

lemma tick_runs_nothing: "tick E g = (g', e) \<Longrightarrow> g_world g' = g_world g"
  by (auto simp: tick_def)

lemma relay_runs_nothing [simp]: "w_ran (g_world (relay_block J E c bl g)) = w_ran (g_world g)"
  by (simp add: relay_block_def Let_def)

lemma fold_runs_nothing: "(\<And>x g. w_ran (g_world (f x g)) = w_ran (g_world g)) \<Longrightarrow> w_ran (g_world (fold f xs g)) = w_ran (g_world g)"
  by (induction xs arbitrary: g) simp_all

subsection \<open>Calls\<close>

lemma run_call_kept:
  assumes "run_call J E c tools call (g, st) = Some ((g', st'), b)"
    "p \<or> \<not> (tool_offered J tools (tc_name call) \<and> tool_find (Some (tc_name call)) = Some TOOL_CREATE_PLUGIN)"
  shows "leaves p g g' \<and> (\<exists>result. b = result_block J (tc_id call) result)"
proof -
  define g1 where "g1 = log_msg J E c [] (drop 6 (buf_set 400 (''calls '' @ tc_name call @ ''('' @ summarize_args (ae_fmt E) (cJSON_Parse J (tc_input call)) 256 @ '')''))) MSG_TOOL_CALL
    (act c (buf_set 400 (''calls '' @ tc_name call @ ''('' @ summarize_args (ae_fmt E) (cJSON_Parse J (tc_input call)) 256 @ '')'')) g)"
  obtain g2 e where t: "tick E g1 = (g2, e)" by fastforce
  have "leaves p g g1" unfolding g1_def by (rule leaves_trans [OF act_kept log_msg_kept])
  then have k: "leaves p g g2" using tick_kept [OF t] leaves_trans by blast
  from assms(1) obtain st1 w result where r: "run_tool J e (sx_tool c) tools call (sx_trig c) (sx_thread c) 32768 (st, g_world g2) = Some ((st1, w), result)"
    "g' = log_msg J E c [] result MSG_TOOL_RESULT (g2\<lparr>g_world := w\<rparr>)" "b = result_block J (tc_id call) result"
    unfolding run_call_def Let_def prod.case g1_def [symmetric] t by auto
  have "leaves p g2 (g2\<lparr>g_world := w\<rparr>)" by (rule world_kept) (use run_tool_changes [OF r(1)] assms(2) in auto)
  with k have "leaves p g (g2\<lparr>g_world := w\<rparr>)" by (rule leaves_trans)
  then show ?thesis using r(2,3) log_msg_kept leaves_trans by blast
qed

lemma run_calls_kept:
  assumes "run_calls J E c tools calls (g, st) = Some ((g', st'), bs)"
    "p \<or> (\<forall>n. tool_offered J tools n \<longrightarrow> tool_find (Some n) \<noteq> Some TOOL_CREATE_PLUGIN)"
  shows "leaves p g g' \<and> list_all2 (\<lambda>call b. \<exists>result. b = result_block J (tc_id call) result) calls bs"
  using assms(1)
proof (induction calls arbitrary: g st bs)
  case (Cons call calls)
  from Cons.prems obtain g1 st1 b bs' where s: "run_call J E c tools call (g, st) = Some ((g1, st1), b)"
    "run_calls J E c tools calls (g1, st1) = Some ((g', st'), bs')" "bs = b # bs'"
    by (auto simp: bind_eq_Some_conv)
  have "leaves p g g1 \<and> (\<exists>result. b = result_block J (tc_id call) result)" by (rule run_call_kept [OF s(1)]) (use assms(2) in blast)
  with Cons.IH [OF s(2)] s(3) show ?case by (auto intro: leaves_trans)
qed simp

lemma run_call_ran:
  assumes "run_call J E c tools call (g, st) = Some ((g', st'), bl)" "ran_ok J b tools past st (g_world g)" "a_is_builder (self c g) = b"
  shows "ran_ok J b tools past st' (g_world g')"
proof -
  define g1 where "g1 = log_msg J E c [] (drop 6 (buf_set 400 (''calls '' @ tc_name call @ ''('' @ summarize_args (ae_fmt E) (cJSON_Parse J (tc_input call)) 256 @ '')''))) MSG_TOOL_CALL
    (act c (buf_set 400 (''calls '' @ tc_name call @ ''('' @ summarize_args (ae_fmt E) (cJSON_Parse J (tc_input call)) 256 @ '')'')) g)"
  obtain g2 e where t: "tick E g1 = (g2, e)" by fastforce
  have k: "w_ran (g_world g2) = w_ran (g_world g)" "a_is_builder (me (sx_tool c) (g_world g2)) = b"
    using tick_runs_nothing [OF t] assms(3) by (simp_all add: g1_def log_msg_def act_def tick_def Let_def self_def)
  from assms(1) obtain st1 w result where r: "run_tool J e (sx_tool c) tools call (sx_trig c) (sx_thread c) 32768 (st, g_world g2) = Some ((st1, w), result)"
    "g' = log_msg J E c [] result MSG_TOOL_RESULT (g2\<lparr>g_world := w\<rparr>)" "st' = note_result (tc_name call) result st1"
    unfolding run_call_def Let_def prod.case g1_def [symmetric] t by auto
  have "ran_ok J b tools past st1 w" by (rule run_tool_ran [OF r(1) _ k(2)]) (rule ran_ok_same [OF assms(2) k(1) refl])
  moreover have "w_ran (g_world g') = w_ran w" by (simp add: r(2))
  moreover have "ss_calls st' = ss_calls st1" by (simp add: r(3) note_result_def Let_def)
  ultimately show ?thesis by (rule ran_ok_same)
qed

lemma run_calls_ran:
  assumes "run_calls J E c tools calls (g, st) = Some ((g', st'), bs)" "ran_ok J b tools past st (g_world g)" "a_is_builder (self c g) = b"
    "tx_me (sx_tool c) < length (w_agents (g_world g))"
  shows "ran_ok J b tools past st' (g_world g')"
  using assms
proof (induction calls arbitrary: g st bs)
  case (Cons call calls)
  from Cons.prems(1) obtain g1 st1 bl bs' where s: "run_call J E c tools call (g, st) = Some ((g1, st1), bl)"
    "run_calls J E c tools calls (g1, st1) = Some ((g', st'), bs')"
    by (auto simp: bind_eq_Some_conv)
  have "leaves True g g1" using run_call_kept [OF s(1), of True] by simp
  note i = leaves_self [OF this Cons.prems(4)]
  show ?case
    by (rule Cons.IH [OF s(2) run_call_ran [OF s(1) Cons.prems(2,3)] _ i(2)]) (use same_identity_fields(2) [OF i(1)] Cons.prems(3) in simp)
qed simp

section \<open>Conversations in which every call is answered\<close>

text \<open>The numbers of the calls that a message makes, and of the calls whose results it brings.\<close>

fun event_id :: "conv_event \<Rightarrow> string" where
  "event_id (Says role t) = []"
| "event_id (Calls i n a) = i"
| "event_id (Results i r) = i"

definition call_ids :: "cjson_api \<Rightarrow> cjson \<Rightarrow> string list" where
  "call_ids J m = map event_id (List.map_filter (block_call J) (msg_blocks J m))"

definition result_ids :: "cjson_api \<Rightarrow> cjson \<Rightarrow> string list" where
  "result_ids J m = map event_id (List.map_filter (block_result J) (msg_blocks J m))"

text \<open>
  The calls that are still to be answered after some messages, when \<open>ids\<close> were before them; \<open>None\<close> when a message does not bring the
  results of exactly the calls of the message before it, in their order.
\<close>

fun owes :: "cjson_api \<Rightarrow> string list \<Rightarrow> cjson list \<Rightarrow> string list option" where
  "owes J ids [] = Some ids"
| "owes J ids (m # ms) = (if result_ids J m = ids then owes J (call_ids J m) ms else None)"

definition answered :: "cjson_api \<Rightarrow> cjson list \<Rightarrow> bool" where
  "answered J msgs \<longleftrightarrow> owes J [] msgs = Some []"

lemma owes_append: "owes J ids (xs @ ys) = Option.bind (owes J ids xs) (\<lambda>i. owes J i ys)"
  by (induction xs arbitrary: ids) auto

lemma owes_ids: "map (\<lambda>m. (call_ids J m, result_ids J m)) xs = map (\<lambda>m. (call_ids J m, result_ids J m)) ys \<Longrightarrow> owes J ids xs = owes J ids ys"
proof (induction xs arbitrary: ys ids)
  case (Cons x xs)
  then obtain y ys' where "ys = y # ys'" "call_ids J x = call_ids J y" "result_ids J x = result_ids J y"
    "map (\<lambda>m. (call_ids J m, result_ids J m)) xs = map (\<lambda>m. (call_ids J m, result_ids J m)) ys'" by (cases ys) auto
  with Cons.IH show ?case by simp
qed simp

lemma agent_keys [simp]:
  "\<not> strcaseeq ''role'' ''content''" "\<not> strcaseeq ''content'' ''role''" "\<not> strcaseeq ''content'' ''type''" "\<not> strcaseeq ''content'' ''id''"
  "\<not> strcaseeq ''content'' ''tool_use_id''" "\<not> strcaseeq ''type'' ''tool_use_id''" "\<not> strcaseeq ''tool_use_id'' ''content''"
  "\<not> strcaseeq ''content'' ''name''" "\<not> strcaseeq ''content'' ''input''" "\<not> strcaseeq ''type'' ''content''" "\<not> strcaseeq ''name'' ''code''" "\<not> strcaseeq ''code'' ''name''"
  by (simp_all add: strcaseeq_def tolower_def is_upper_def byte_def)

text \<open>The messages the agent builds.\<close>

lemma user_msg_blocks: "cjson_laws J \<Longrightarrow> msg_blocks J (user_msg J s) = []"
  by (simp add: msg_blocks_def user_msg_def add_string_def cjson_obj lookup_ci_append array_items_def)

lemma text_msg_ids: "msg_blocks J m = [] \<Longrightarrow> call_ids J m = [] \<and> result_ids J m = []"
  by (simp add: call_ids_def result_ids_def)

lemma add_user_text_answered: "cjson_laws J \<Longrightarrow> answered J msgs \<Longrightarrow> answered J (add_user_text J s msgs)"
  using text_msg_ids [OF user_msg_blocks, of J s] by (simp add: answered_def add_user_text_def owes_append)

lemma role_content_blocks:
  "cjson_laws J \<Longrightarrow> msg_blocks J (cJSON_AddItemToObject J (add_string J ''role'' role (CObject [])) ''content'' v) = array_items v"
  by (simp add: msg_blocks_def add_string_def cjson_obj lookup_ci_append)

lemma result_block_event:
  assumes "cjson_laws J"
  shows "block_result J (result_block J cid result) = Some (Results cid result)" "block_call J (result_block J cid result) = None"
  using assms by (simp_all add: or_empty_def block_result_def block_call_def result_block_def Let_def add_string_def cjson_obj j_str_object lookup_ci_append)

lemma results_turn_ids:
  assumes "cjson_laws J" "list_all2 (\<lambda>call b. \<exists>result. b = result_block J (tc_id call) result) calls bs"
  shows "result_ids J (turn_msg J ''user'' bs) = map tc_id calls" "call_ids J (turn_msg J ''user'' bs) = []"
proof -
  have "map event_id (List.map_filter (block_result J) bs) = map tc_id calls \<and> List.map_filter (block_call J) bs = []"
    using assms(2) by (induction rule: list_all2_induct) (auto simp: map_filter_simps result_block_event [OF assms(1)])
  then show "result_ids J (turn_msg J ''user'' bs) = map tc_id calls" "call_ids J (turn_msg J ''user'' bs) = []"
    by (simp_all add: result_ids_def call_ids_def turn_msg_def role_content_blocks [OF assms(1)] array_items_def)
qed

lemma same_call_event:
  assumes "same_call J b c"
  shows "\<exists>n a. block_call J b = Some (Calls (tc_id c) n a)" "block_result J b = None"
  using assms by (auto simp: same_call_def block_call_def block_result_def or_empty_def)

lemma calls_turn_ids:
  assumes "cjson_laws J" "list_all (\<lambda>b. block_call J b = None \<and> block_result J b = None) texts" "list_all2 (same_call J) calls cs"
  shows "call_ids J (turn_msg J ''assistant'' (texts @ calls)) = map tc_id cs" "result_ids J (turn_msg J ''assistant'' (texts @ calls)) = []"
proof -
  have c: "map event_id (List.map_filter (block_call J) calls) = map tc_id cs \<and> List.map_filter (block_result J) calls = []"
    using assms(3) by (induction rule: list_all2_induct) (auto simp: map_filter_simps dest: same_call_event)
  have t: "List.map_filter (block_call J) texts = [] \<and> List.map_filter (block_result J) texts = []"
    using assms(2) by (induction texts) (auto simp: map_filter_simps)
  have ap: "List.map_filter f (xs @ ys) = List.map_filter f xs @ List.map_filter f ys" for f :: "cjson \<Rightarrow> conv_event option" and xs ys
    by (simp add: List.map_filter_def)
  show "call_ids J (turn_msg J ''assistant'' (texts @ calls)) = map tc_id cs" "result_ids J (turn_msg J ''assistant'' (texts @ calls)) = []"
    by (simp_all add: result_ids_def call_ids_def turn_msg_def role_content_blocks [OF assms(1)] array_items_def ap c t)
qed

subsection \<open>Trimming\<close>

text \<open>Trimming changes nothing of a block but its content.\<close>

definition same_but_content :: "cjson_api \<Rightarrow> cjson \<Rightarrow> cjson \<Rightarrow> bool" where
  "same_but_content J b' b \<longleftrightarrow> (\<forall>k. \<not> strcaseeq ''content'' k \<longrightarrow> cJSON_GetObjectItem J b' k = cJSON_GetObjectItem J b k)"

lemma same_but_content_events:
  assumes "same_but_content J b' b"
  shows "block_call J b' = block_call J b" "map_option event_id (block_result J b') = map_option event_id (block_result J b)"
proof -
  have "j_str J b' k = j_str J b k" if "k \<in> {''type'', ''id'', ''name'', ''tool_use_id''}" for k
    using assms that by (auto simp: same_but_content_def j_str_def)
  moreover have "cJSON_GetObjectItem J b' ''input'' = cJSON_GetObjectItem J b ''input''" using assms by (simp add: same_but_content_def)
  ultimately show "block_call J b' = block_call J b" "map_option event_id (block_result J b') = map_option event_id (block_result J b)"
    by (simp_all add: block_call_def block_result_def opt_item_def)
qed

lemma trim_block_ids:
  assumes "cjson_laws J" "trim_block J budget b tot = (b', t)"
  shows "same_but_content J b' b"
proof (cases "b' = b")
  case False
  then obtain kvs where "b = CObject kvs"
    using assms by (cases b) (auto simp: trim_block_def Let_def j_str_def cjson_law(4) or_empty_def split: if_splits)
  then show ?thesis using assms by (auto simp: trim_block_def same_but_content_def Let_def cjson_obj lookup_ci_replace split: if_splits)
qed (simp add: same_but_content_def)

lemma trim_blocks_ids:
  assumes "cjson_laws J"
  shows "list_all2 (same_but_content J) (fst (trim_blocks J budget bs tot)) bs"
proof (induction bs arbitrary: tot)
  case (Cons b bs)
  obtain b' t where t: "trim_block J budget b tot = (b', t)" by fastforce
  show ?case using Cons.IH [of t] trim_block_ids [OF assms t] by (simp add: t case_prod_unfold Let_def)
qed simp

lemma same_blocks_events:
  assumes "list_all2 (same_but_content J) xs ys"
  shows "List.map_filter (block_call J) xs = List.map_filter (block_call J) ys"
    "map event_id (List.map_filter (block_result J) xs) = map event_id (List.map_filter (block_result J) ys)"
proof -
  have m: "map f (List.map_filter h zs) = List.map_filter (map_option f \<circ> h) zs" for f :: "conv_event \<Rightarrow> string" and h :: "cjson \<Rightarrow> conv_event option" and zs
    by (induction zs) (auto simp: map_filter_simps split: option.split)
  show "List.map_filter (block_call J) xs = List.map_filter (block_call J) ys"
    "map event_id (List.map_filter (block_result J) xs) = map event_id (List.map_filter (block_result J) ys)"
    unfolding m using assms by (induction rule: list_all2_induct) (auto simp: map_filter_simps same_but_content_events split: option.split)
qed

lemma trim_msg_blocks:
  assumes "cjson_laws J"
  shows "msg_blocks J (fst (trim_msg J budget m tot)) = fst (trim_blocks J budget (msg_blocks J m) tot) \<and> j_str J (fst (trim_msg J budget m tot)) ''role'' = j_str J m ''role''"
proof (cases m)
  case (CObject kvs)
  define bs where "bs = fst (trim_blocks J budget (msg_blocks J m) tot)"
  have l: "length bs = length (msg_blocks J m)" using trim_blocks_ids [OF assms] by (auto simp: bs_def dest: list_all2_lengthD)
  have f: "fst (trim_msg J budget m tot) = CObject (update_ci ''content'' (with_items bs) kvs)" by (simp add: trim_msg_def case_prod_unfold bs_def update_item_def CObject Let_def)
  have "array_items (with_items bs v) = bs" if "cJSON_GetObjectItem J m ''content'' = Some v" for v
    using l that by (auto simp: msg_blocks_def array_items_def with_items_def split: cjson.splits)
  then have "msg_blocks J (CObject (update_ci ''content'' (with_items bs) kvs)) = bs"
    using l CObject assms by (auto simp: msg_blocks_def cjson_obj lookup_update_ci split: option.splits)
  moreover have "j_str J (CObject (update_ci ''content'' (with_items bs) kvs)) ''role'' = j_str J m ''role''"
    using CObject assms by (simp add: j_str_object lookup_update_ci)
  ultimately show ?thesis using f bs_def by simp
qed (use assms in \<open>auto simp: trim_msg_def update_item_def msg_blocks_def cjson_law(4) case_prod_unfold Let_def\<close>)

lemma trim_msgs_ids:
  assumes "cjson_laws J"
  shows "map (\<lambda>m. (call_ids J m, result_ids J m)) (trim_msgs J budget ms tot) = map (\<lambda>m. (call_ids J m, result_ids J m)) ms"
proof (induction ms arbitrary: tot)
  case (Cons m ms)
  obtain m' t where t: "trim_msg J budget m tot = (m', t)" by fastforce
  have "call_ids J m' = call_ids J m \<and> result_ids J m' = result_ids J m"
    using trim_msg_blocks [OF assms, of budget m tot] t unfolding call_ids_def result_ids_def
    using same_blocks_events [OF trim_blocks_ids [OF assms]] by simp
  then show ?case using Cons.IH by (simp add: t)
qed simp

lemma trim_history_answered:
  assumes "cjson_laws J"
  shows "answered J (trim_history J budget msgs) = answered J msgs"
proof -
  have "map (\<lambda>m. (call_ids J m, result_ids J m)) (trim_history J budget msgs) = map (\<lambda>m. (call_ids J m, result_ids J m)) msgs"
  proof (cases msgs rule: rev_cases)
    case (snoc ms m)
    then show ?thesis using trim_msgs_ids [OF assms] by (simp add: trim_history_def)
  qed (simp add: trim_history_def)
  then show ?thesis unfolding answered_def using owes_ids by metis
qed

subsection \<open>Shortening\<close>

lemma user_text_blocks: "user_text J m \<Longrightarrow> msg_blocks J m = []"
  by (auto simp: user_text_def msg_blocks_def array_items_def)

lemma owes_at_text:
  assumes "answered J msgs" "i < length msgs" "user_text J (msgs ! i)"
  shows "owes J [] (take i msgs) = Some [] \<and> owes J [] (drop i msgs) = Some []"
proof -
  have r: "result_ids J (msgs ! i) = []" using assms(3) text_msg_ids user_text_blocks by blast
  have "Option.bind (owes J [] (take i msgs)) (\<lambda>k. owes J k (drop i msgs)) = Some []"
    using assms(1) by (simp add: answered_def flip: owes_append)
  then obtain k where k: "owes J [] (take i msgs) = Some k" "owes J k (drop i msgs) = Some []" by (auto simp: bind_eq_Some_conv)
  moreover have "drop i msgs = msgs ! i # drop (Suc i) msgs" using assms(2) by (rule Cons_nth_drop_Suc [symmetric])
  ultimately have "k = []" using r by (auto split: if_splits)
  with k show ?thesis by simp
qed

lemma conv_fit_answered:
  assumes "cjson_laws J" "answered J msgs"
  shows "answered J (fst (conv_fit J mx msgs))"
  using assms(2)
proof (induction J mx msgs rule: conv_fit.induct)
  case (1 J mx msgs)
  let ?f = "case cJSON_PrintUnformatted J (CArray msgs) of Some json \<Rightarrow> length json \<le> mx | None \<Rightarrow> False"
  show ?case
  proof (cases "\<not> ?f \<and> (\<exists>i j ts. text_turns J msgs = i # j # ts)")
    case True
    then obtain i j ts where f: "\<not> ?f" "text_turns J msgs = i # j # ts" by blast
    then have "i \<in> set (text_turns J msgs)" "j \<in> set (text_turns J msgs)" by simp_all
    then have ij: "i < length msgs" "user_text J (msgs ! i)" "j < length msgs" "user_text J (msgs ! j)" by (simp_all add: text_turns_def)
    have "answered J (take i msgs @ drop j msgs)"
      using owes_at_text [OF 1(2) ij(1,2)] owes_at_text [OF 1(2) ij(3,4)] by (simp add: answered_def owes_append)
    from "1.IH" [OF f(1,2) refl this] f show ?thesis by (subst conv_fit.simps) simp
  next
    case False
    then have "conv_fit J mx msgs = (msgs, True) \<or> conv_fit J mx msgs = (msgs, False)"
      by (subst (1 2) conv_fit.simps) (auto split: list.splits)
    with 1(2) show ?thesis by auto
  qed
qed

section \<open>A turn\<close>

lemma auto_compile_kept:
  assumes "auto_compile J E c name code g = Some (g', result)"
  shows "leaves True g g'"
proof -
  define action where "action = buf_set 160 (''auto-compiles '' @ [CHR 0x27] @ name @ [CHR 0x27] @ '' from text'')"
  obtain g2 e where t: "tick E (log_msg J E c [] action MSG_TOOL_CALL (act c action g)) = (g2, e)" by fastforce
  from assms obtain w where r: "execute_tool J e (sx_tool c) TOOL_CREATE_PLUGIN (plugin_input J name code) 4096 (g_world g2) = Some (w, result)"
    "g' = log_msg J E c [] result MSG_TOOL_RESULT (g2\<lparr>g_world := w\<rparr>)"
    unfolding auto_compile_def Let_def action_def [symmetric] t prod.case by auto
  have "leaves True g g2" by (rule leaves_trans [OF leaves_trans [OF act_kept log_msg_kept] tick_kept [OF t]])
  moreover have "leaves True g2 (g2\<lparr>g_world := w\<rparr>)" by (rule world_kept) (use tool_changes [OF r(1)] in auto)
  ultimately show ?thesis unfolding r(2) by (rule leaves_trans [OF leaves_trans log_msg_kept])
qed

lemma auto_compile_runs_nothing:
  assumes "auto_compile J E c name code g = Some (g', result)"
  shows "w_ran (g_world g') = w_ran (g_world g)"
proof -
  define action where "action = buf_set 160 (''auto-compiles '' @ [CHR 0x27] @ name @ [CHR 0x27] @ '' from text'')"
  obtain g2 e where t: "tick E (log_msg J E c [] action MSG_TOOL_CALL (act c action g)) = (g2, e)" by fastforce
  from assms obtain w where r: "execute_tool J e (sx_tool c) TOOL_CREATE_PLUGIN (plugin_input J name code) 4096 (g_world g2) = Some (w, result)"
    "g' = log_msg J E c [] result MSG_TOOL_RESULT (g2\<lparr>g_world := w\<rparr>)"
    unfolding auto_compile_def Let_def action_def [symmetric] t prod.case by auto
  show ?thesis using tool_keeps_history [OF r(1)] tick_runs_nothing [OF t] by (simp add: r(2))
qed

lemma after_text_reply_runs_nothing:
  assumes "after_text_reply J E c nomem s st msgs g = Some (g', st', msgs', nx)"
  shows "w_ran (g_world g') = w_ran (g_world g) \<and> ss_calls st' = ss_calls st"
proof (cases "a_is_builder (self c g) \<and> \<not> ss_plugin_done st")
  case False
  then show ?thesis using assms(1) by (auto simp: after_text_reply_def split: if_splits)
next
  case True
  note u = assms(1) [unfolded after_text_reply_def if_P [OF True] Let_def]
  show ?thesis
  proof (cases "if nomem then None else builder_extract_code s 64 32768")
    case None
    then show ?thesis using u by (auto split: if_splits)
  next
    case (Some nc)
    obtain name code where nc: "nc = (name, code)" by fastforce
    from u [unfolded Some nc] obtain g1 result where a: "auto_compile J E c name code g = Some (g1, result)" by (auto split: option.splits)
    show ?thesis using auto_compile_runs_nothing [OF a] u [unfolded Some nc] by (auto simp: a split: if_splits)
  qed
qed

text \<open>After a reply without calls the session goes on with one more text for the model, or ends with the conversation as it is.\<close>

lemma after_text_reply_frame:
  assumes "after_text_reply J E c nomem s st msgs g = Some (g', st', msgs', nx)" "p \<or> \<not> a_is_builder (self c g)"
  shows "leaves p g g' \<and> (if nx = GoOn then \<exists>t. msgs' = add_user_text J t msgs else msgs' = msgs)"
proof (cases "a_is_builder (self c g) \<and> \<not> ss_plugin_done st")
  case False
  then show ?thesis using assms(1) by (auto simp: after_text_reply_def split: if_splits)
next
  case True
  then have p: "p" using assms(2) by blast
  note u = assms(1) [unfolded after_text_reply_def if_P [OF True] Let_def]
  show ?thesis
  proof (cases "if nomem then None else builder_extract_code s 64 32768")
    case None
    then show ?thesis using u by (auto split: if_splits)
  next
    case (Some nc)
    obtain name code where nc: "nc = (name, code)" by fastforce
    from u [unfolded Some nc] obtain g1 result where a: "auto_compile J E c name code g = Some (g1, result)" by (auto split: option.splits)
    have k: "leaves p g g1" using auto_compile_kept [OF a] p by simp
    then have "leaves p g (say c t g1)" for t using say_kept leaves_trans by blast
    with k u [unfolded Some nc] show ?thesis by (auto simp: a split: if_splits)
  qed
qed

lemma llm_call_openai_reply:
  assumes "llm_call e J prov sys messages tools st = (st', io, out, 0)" "provider_type prov \<noteq> ''anthropic''"
  shows "\<exists>v err. openai_reply e J v (blank_response\<lparr>lr_error := err\<rparr>) = (out, 0)"
  using assms by (auto simp: llm_call_def call_openai_def Let_def split: option.splits prod.splits if_splits)

text \<open>The turn that the model's reply becomes, for a provider of the OpenAI format.\<close>

definition consistent_reply :: "cjson_api \<Rightarrow> llm_response \<Rightarrow> bool" where
  "consistent_reply J out \<longleftrightarrow> (\<exists>texts calls. lr_content out = Some (CArray (texts @ calls)) \<and>
     list_all (\<lambda>b. block_call J b = None \<and> block_result J b = None) texts \<and> list_all2 (same_call J) calls (tool_calls out))"

lemma llm_call_consistent:
  assumes "llm_call e J prov sys messages tools st = (st', io, out, 0)" "provider_type prov \<noteq> ''anthropic''" "cjson_laws J"
  shows "consistent_reply J out"
proof -
  obtain v err where "openai_reply e J v (blank_response\<lparr>lr_error := err\<rparr>) = (out, 0)" using llm_call_openai_reply [OF assms(1,2)] by blast
  from openai_reply_turn [OF this assms(3)] show ?thesis unfolding consistent_reply_def by (auto simp: blank_response_def)
qed

lemma reply_ids:
  assumes "cjson_laws J" "consistent_reply J out" "owes J [] msgs = Some []"
    "msgs' = (if content_blocks out \<noteq> [] then msgs @ [cJSON_AddItemToObject J (add_string J ''role'' ''assistant'' (CObject [])) ''content'' (the (lr_content out))] else msgs)"
  shows "owes J [] msgs' = Some (map tc_id (tool_calls out))"
proof -
  from assms(2) obtain texts calls where c: "lr_content out = Some (CArray (texts @ calls))"
    "list_all (\<lambda>b. block_call J b = None \<and> block_result J b = None) texts" "list_all2 (same_call J) calls (tool_calls out)"
    unfolding consistent_reply_def by blast
  have b: "content_blocks out = texts @ calls" by (simp add: content_blocks_def opt_items_def c(1) array_items_def)
  show ?thesis
  proof (cases "texts @ calls = []")
    case True
    then have "calls = []" by simp
    with c(3) have "tool_calls out = []" by simp
    with True b assms(3,4) show ?thesis by simp
  next
    case False
    with b c(1) assms(4) have "msgs' = msgs @ [turn_msg J ''assistant'' (texts @ calls)]" by (simp add: turn_msg_def)
    then show ?thesis using assms(3) calls_turn_ids [OF assms(1) c(2,3)] by (simp add: owes_append)
  qed
qed

lemma turn_reply_frame:
  assumes "turn_reply J E c tools n out r = Some (r', nx)" "p \<or> \<not> a_is_builder (self c (r_g r))"
    "p \<or> (\<forall>n. tool_offered J tools n \<longrightarrow> tool_find (Some n) \<noteq> Some TOOL_CREATE_PLUGIN)" "tx_me (sx_tool c) < length (w_agents (g_world (r_g r)))"
  shows "leaves p (r_g r) (r_g r') \<and> (cjson_laws J \<longrightarrow> consistent_reply J out \<longrightarrow> answered J (r_msgs r) \<longrightarrow> answered J (r_msgs r'))"
proof -
  define g1 where "g1 = fold (relay_block J E c) (text_blocks out) (r_g r)"
  define s where "s = (if ae_turn E n 0 then [] else reply_text (text_blocks out))"
  define answer where "answer = (if s \<noteq> [] then (if ae_turn E n 1 then None else Some s) else r_answer r)"
  define msgs where "msgs = (if content_blocks out \<noteq> [] then r_msgs r @ [cJSON_AddItemToObject J (add_string J ''role'' ''assistant'' (CObject [])) ''content'' (the (lr_content out))] else r_msgs r)"
  define r1 where "r1 = r\<lparr>r_g := g1, r_answer := answer, r_msgs := msgs\<rparr>"
  note u = assms(1) [unfolded turn_reply_def Let_def, folded g1_def s_def, folded answer_def, folded msgs_def, folded r1_def]
  have k: "leaves p (r_g r) g1" unfolding g1_def by (rule fold_kept [OF relay_kept])
  have ids: "owes J [] msgs = Some (map tc_id (tool_calls out))" if "cjson_laws J" "consistent_reply J out" "answered J (r_msgs r)"
    by (rule reply_ids [OF that(1,2) that(3) [unfolded answered_def] msgs_def])
  show ?thesis
  proof (cases "tool_calls out = []")
    case False
    then have t: "turn_calls J E c tools out r1 = Some (r', nx)" using u by simp
    obtain g st results where c: "run_calls J E c tools (tool_calls out) (g1, r_st r) = Some ((g, st), results)"
      using t by (auto simp: turn_calls_def r1_def split: option.splits)
    define msgs1 where "msgs1 = msgs @ [turn_msg J ''user'' results]"
    note f = run_calls_kept [OF c assms(3)]
    have r': "r_msgs r' \<in> {msgs1, trim_history J (nat (a_history_budget (self c g))) msgs1}" "r_g r' = g \<or> r_g r' = say c PROMPT_STUCK g"
      using t by (auto simp: turn_calls_def r1_def c Let_def msgs1_def split: if_splits)
    have "leaves p (r_g r) (r_g r')" using r'(2) k f say_kept leaves_trans by metis
    moreover have "answered J (r_msgs r')" if "cjson_laws J" "consistent_reply J out" "answered J (r_msgs r)"
    proof -
      have "answered J msgs1" using ids [OF that] results_turn_ids [OF that(1) conjunct2 [OF f]] by (simp add: answered_def msgs1_def owes_append)
      then show ?thesis using r'(1) trim_history_answered [OF that(1)] by auto
    qed
    ultimately show ?thesis by blast
  next
    case True
    then have an: "answered J msgs" if "cjson_laws J" "consistent_reply J out" "answered J (r_msgs r)" using ids [OF that] by (simp add: answered_def)
    show ?thesis
    proof (cases "stop_reason out = ''refusal''")
      case refusal: True
      then have "r_msgs r' = msgs" "r_g r' = g1 \<or> r_g r' = say c PROMPT_REFUSED g1" using u True by (auto simp: r1_def)
      then show ?thesis using an k say_kept leaves_trans by metis
    next
      case False
      obtain g st msgs' where a: "after_text_reply J E c (ae_turn E n 2) s (r_st r) msgs g1 = Some (g, st, msgs', nx)" "r_g r' = g" "r_msgs r' = msgs'"
        using u True False by auto
      have "a_is_builder (self c g1) = a_is_builder (self c (r_g r))" using same_identity_fields(2) [OF leaves_self(1) [OF k assms(4)]] .
      then have "leaves p g1 g \<and> (if nx = GoOn then \<exists>t. msgs' = add_user_text J t msgs else msgs' = msgs)"
        by (intro after_text_reply_frame [OF a(1)]) (use assms(2) in simp)
      then show ?thesis using a(2,3) k an add_user_text_answered leaves_trans by (metis (no_types, lifting))
    qed
  qed
qed

lemma turn_reply_ran:
  assumes "turn_reply J E c tools n out r = Some (r', nx)" "ran_ok J b tools past (r_st r) (g_world (r_g r))" "a_is_builder (self c (r_g r)) = b"
    "tx_me (sx_tool c) < length (w_agents (g_world (r_g r)))"
  shows "ran_ok J b tools past (r_st r') (g_world (r_g r'))"
proof -
  define g1 where "g1 = fold (relay_block J E c) (text_blocks out) (r_g r)"
  define s where "s = (if ae_turn E n 0 then [] else reply_text (text_blocks out))"
  define answer where "answer = (if s \<noteq> [] then (if ae_turn E n 1 then None else Some s) else r_answer r)"
  define msgs where "msgs = (if content_blocks out \<noteq> [] then r_msgs r @ [cJSON_AddItemToObject J (add_string J ''role'' ''assistant'' (CObject [])) ''content'' (the (lr_content out))] else r_msgs r)"
  define r1 where "r1 = r\<lparr>r_g := g1, r_answer := answer, r_msgs := msgs\<rparr>"
  note u = assms(1) [unfolded turn_reply_def Let_def, folded g1_def s_def, folded answer_def, folded msgs_def, folded r1_def]
  have k: "leaves True (r_g r) g1" unfolding g1_def by (rule fold_kept [OF relay_kept])
  note i = leaves_self [OF k assms(4)]
  have w: "w_ran (g_world g1) = w_ran (g_world (r_g r))" unfolding g1_def by (rule fold_runs_nothing) simp
  have ok: "ran_ok J b tools past (r_st r) (g_world g1)" by (rule ran_ok_same [OF assms(2) w refl])
  show ?thesis
  proof (cases "tool_calls out = []")
    case False
    then have t: "turn_calls J E c tools out r1 = Some (r', nx)" using u by simp
    obtain g st results where c: "run_calls J E c tools (tool_calls out) (g1, r_st r) = Some ((g, st), results)"
      using t by (auto simp: turn_calls_def r1_def split: option.splits)
    have "ran_ok J b tools past st (g_world g)"
      by (rule run_calls_ran [OF c ok _ i(2)]) (use same_identity_fields(2) [OF i(1)] assms(3) in simp)
    moreover have "w_ran (g_world (r_g r')) = w_ran (g_world g) \<and> ss_calls (r_st r') = ss_calls st"
      using t by (auto simp: turn_calls_def r1_def c Let_def split: if_splits)
    ultimately show ?thesis by (auto intro: ran_ok_same)
  next
    case True
    show ?thesis
    proof (cases "stop_reason out = ''refusal''")
      case refusal: True
      then have "w_ran (g_world (r_g r')) = w_ran (g_world g1) \<and> ss_calls (r_st r') = ss_calls (r_st r)" using u True by (auto simp: r1_def)
      then show ?thesis using ok by (auto intro: ran_ok_same)
    next
      case False
      obtain g st msgs' where a: "after_text_reply J E c (ae_turn E n 2) s (r_st r) msgs g1 = Some (g, st, msgs', nx)" "r_g r' = g" "r_st r' = st"
        using u True False by auto
      show ?thesis using after_text_reply_runs_nothing [OF a(1)] ok by (auto simp: a(2,3) intro: ran_ok_same)
    qed
  qed
qed

section \<open>The loop\<close>

text \<open>
  What a number of turns do: at most \<open>k\<close> calls of the model. \<open>p\<close>: the plugins may change; \<open>q\<close>: every call of a tool is
  answered in the conversation.
\<close>

definition progress :: "cjson_api \<Rightarrow> bool \<Rightarrow> bool \<Rightarrow> nat \<Rightarrow> turn_state \<Rightarrow> turn_state \<Rightarrow> bool" where
  "progress J p q k r r' \<longleftrightarrow>
     same_agents (w_agents (g_world (r_g r))) (w_agents (g_world (r_g r'))) \<and> (p \<or> w_plugins (g_world (r_g r')) = w_plugins (g_world (r_g r))) \<and>
     g_conv (r_g r') = g_conv (r_g r) \<and> extra_hdrs (g_tls (r_g r')) = [] \<and> (q \<longrightarrow> answered J (r_msgs r')) \<and>
     (\<exists>new. g_ios (r_g r') = g_ios (r_g r) @ new \<and> length new \<le> k \<and> list_all (\<lambda>(m, io). io_ok 3 io \<and> (q \<longrightarrow> answered J m)) new)"

lemma progress_trans: "progress J p q k r r1 \<Longrightarrow> progress J p q k' r1 r2 \<Longrightarrow> progress J p q (k + k') r r2"
  unfolding progress_def using same_agents_trans by (auto simp: list_all_iff)

lemma progress_self:
  assumes "progress J p q k r r'" "tx_me (sx_tool c) < length (w_agents (g_world (r_g r)))"
  shows "same_identity (self c (r_g r)) (self c (r_g r'))" "tx_me (sx_tool c) < length (w_agents (g_world (r_g r')))"
  using assms same_agents_nth unfolding progress_def self_def by blast+

lemma leaves_progress:
  assumes "leaves p (r_g r) (r_g r')" "extra_hdrs (g_tls (r_g r)) = []" "q \<longrightarrow> answered J (r_msgs r')"
  shows "progress J p q 0 r r'"
  using assms by (simp add: progress_def leaves_def)

lemma llm_call_io_ok:
  assumes "llm_call e J prov sys messages tools st = (st', io, out, rc)" "extra_hdrs st = []" "cjson_laws J"
  shows "io_ok 3 io \<and> extra_hdrs st' = [] \<and> (rc = 0 \<or> rc = -1 \<and> lr_error out \<noteq> [])"
  using llm_call_ok [OF assms] unfolding io_ok_def by blast

lemma session_turn_progress:
  assumes "session_turn J E c prompt tools n r = Some (r', nx)" "p \<or> \<not> a_is_builder (self c (r_g r))"
    "p \<or> (\<forall>n. tool_offered J tools n \<longrightarrow> tool_find (Some n) \<noteq> Some TOOL_CREATE_PLUGIN)" "tx_me (sx_tool c) < length (w_agents (g_world (r_g r)))"
    "extra_hdrs (g_tls (r_g r)) = []" "cjson_laws J" "q \<longrightarrow> provider_type (a_provider (self c (r_g r))) \<noteq> ''anthropic'' \<and> answered J (r_msgs r)"
  shows "progress J p q 1 r r'"
proof -
  obtain tls io out rc where l: "llm_call (ae_llm E n) J (a_provider (self c (r_g r))) (Some prompt) (CArray (r_msgs r)) (Some (CArray tools)) (g_tls (r_g r)) = (tls, io, out, rc)"
    by (metis prod_cases4)
  define g1 where "g1 = (r_g r)\<lparr>g_tls := tls, g_ios := g_ios (r_g r) @ [(r_msgs r, io)]\<rparr>"
  note u = assms(1) [unfolded session_turn_def Let_def l prod.case, folded g1_def] and ok = llm_call_io_ok [OF l assms(5,6)]
  have p1: "progress J p q 1 r (r\<lparr>r_g := g1\<rparr>)"
    using ok assms(7) by (auto simp: progress_def g1_def)
  have "progress J p q 0 (r\<lparr>r_g := g1\<rparr>) r'"
  proof (rule leaves_progress)
    show "extra_hdrs (g_tls (r_g (r\<lparr>r_g := g1\<rparr>))) = []" using ok by (simp add: g1_def)
    have "leaves p g1 (r_g r') \<and> (q \<longrightarrow> answered J (r_msgs r'))"
    proof (cases "rc = 0")
      case False
      then show ?thesis using u assms(7) by auto
    next
      case True
      then have t: "turn_reply J E c tools n out (r\<lparr>r_g := g1\<rparr>) = Some (r', nx)" using u by simp
      have "self c g1 = self c (r_g r)" "w_agents (g_world g1) = w_agents (g_world (r_g r))" by (simp_all add: self_def g1_def)
      then have "leaves p g1 (r_g r') \<and> (cjson_laws J \<longrightarrow> consistent_reply J out \<longrightarrow> answered J (r_msgs r) \<longrightarrow> answered J (r_msgs r'))"
        using turn_reply_frame [OF t, of p] assms(2-4) by simp
      then show ?thesis using llm_call_consistent [OF l [unfolded True]] assms(6,7) by blast
    qed
    then show "leaves p (r_g (r\<lparr>r_g := g1\<rparr>)) (r_g r')" "q \<longrightarrow> answered J (r_msgs r')" by simp_all
  qed
  from progress_trans [OF p1 this] show ?thesis by simp
qed

lemma session_turns_progress:
  assumes "session_turns J E c prompt tools k n r = Some (r', failed, limit)" "p \<or> \<not> a_is_builder (self c (r_g r))"
    "p \<or> (\<forall>n. tool_offered J tools n \<longrightarrow> tool_find (Some n) \<noteq> Some TOOL_CREATE_PLUGIN)" "tx_me (sx_tool c) < length (w_agents (g_world (r_g r)))"
    "extra_hdrs (g_tls (r_g r)) = []" "cjson_laws J" "q \<longrightarrow> provider_type (a_provider (self c (r_g r))) \<noteq> ''anthropic'' \<and> answered J (r_msgs r)"
  shows "progress J p q k r r'"
  using assms
proof (induction k arbitrary: n r)
  case 0
  then show ?case by (simp add: progress_def)
next
  case (Suc k)
  from Suc.prems(1) obtain r1 nx where s: "session_turn J E c prompt tools n r = Some (r1, nx)"
    "if nx = GoOn then session_turns J E c prompt tools k (n + 1) r1 = Some (r', failed, limit) else r1 = r'"
    by (auto simp: bind_eq_Some_conv split: if_splits)
  have p1: "progress J p q 1 r r1" by (rule session_turn_progress [OF s(1) Suc.prems(2-7)])
  note i = progress_self [OF p1 Suc.prems(4)]
  have "progress J p q k r1 r'"
  proof (cases "nx = GoOn")
    case True
    have "extra_hdrs (g_tls (r_g r1)) = []" "q \<longrightarrow> answered J (r_msgs r1)" using p1 by (simp_all add: progress_def)
    then show ?thesis using s(2) True Suc.prems(2,3,6,7) i same_identity_fields [OF i(1)] by (intro Suc.IH [of "n + 1" r1]) auto
  next
    case False
    then show ?thesis using s(2) p1 by (auto simp: progress_def)
  qed
  from progress_trans [OF p1 this] show ?case by simp
qed

lemma session_turn_ran:
  assumes "session_turn J E c prompt tools n r = Some (r', nx)" "ran_ok J b tools past (r_st r) (g_world (r_g r))" "a_is_builder (self c (r_g r)) = b"
    "tx_me (sx_tool c) < length (w_agents (g_world (r_g r)))"
  shows "ran_ok J b tools past (r_st r') (g_world (r_g r'))"
proof -
  obtain tls io out rc where l: "llm_call (ae_llm E n) J (a_provider (self c (r_g r))) (Some prompt) (CArray (r_msgs r)) (Some (CArray tools)) (g_tls (r_g r)) = (tls, io, out, rc)"
    by (metis prod_cases4)
  define g1 where "g1 = (r_g r)\<lparr>g_tls := tls, g_ios := g_ios (r_g r) @ [(r_msgs r, io)]\<rparr>"
  note u = assms(1) [unfolded session_turn_def Let_def l prod.case, folded g1_def]
  show ?thesis
  proof (cases "rc = 0")
    case False
    then have "w_ran (g_world (r_g r')) = w_ran (g_world (r_g r)) \<and> ss_calls (r_st r') = ss_calls (r_st r)" using u by (auto simp: g1_def)
    then show ?thesis using assms(2) by (auto intro: ran_ok_same)
  next
    case True
    then have t: "turn_reply J E c tools n out (r\<lparr>r_g := g1\<rparr>) = Some (r', nx)" using u by simp
    show ?thesis by (rule turn_reply_ran [OF t]) (use assms(2-4) in \<open>simp_all add: g1_def self_def\<close>)
  qed
qed

lemma session_turns_ran:
  assumes "session_turns J E c prompt tools k n r = Some (r', failed, limit)" "ran_ok J b tools past (r_st r) (g_world (r_g r))"
    "a_is_builder (self c (r_g r)) = b" "tx_me (sx_tool c) < length (w_agents (g_world (r_g r)))" "extra_hdrs (g_tls (r_g r)) = []" "cjson_laws J"
  shows "ran_ok J b tools past (r_st r') (g_world (r_g r'))"
  using assms
proof (induction k arbitrary: n r)
  case (Suc k)
  from Suc.prems(1) obtain r1 nx where s: "session_turn J E c prompt tools n r = Some (r1, nx)"
    "if nx = GoOn then session_turns J E c prompt tools k (n + 1) r1 = Some (r', failed, limit) else r1 = r'"
    by (auto simp: bind_eq_Some_conv split: if_splits)
  have p1: "progress J True False 1 r r1" by (rule session_turn_progress [OF s(1) _ _ Suc.prems(4-6)]) simp_all
  note i = progress_self [OF p1 Suc.prems(4)]
  have ok: "ran_ok J b tools past (r_st r1) (g_world (r_g r1))" by (rule session_turn_ran [OF s(1) Suc.prems(2-4)])
  show ?case
  proof (cases "nx = GoOn")
    case True
    have "extra_hdrs (g_tls (r_g r1)) = []" using p1 by (simp add: progress_def)
    then show ?thesis using s(2) True ok i Suc.prems(3,6) same_identity_fields(2) [OF i(1)] by (intro Suc.IH [of "n + 1" r1]) auto
  next
    case False
    then show ?thesis using s(2) ok by simp
  qed
qed simp

section \<open>The session\<close>

lemma first_turn_frame:
  assumes "build_first_turn J nomem e x ty trig data chan w = (w', tn)"
  shows "same_agents (w_agents w) (w_agents w') \<and> w_plugins w' = w_plugins w \<and> w_out w' = w_out w \<and> w_ran w' = w_ran w"
proof -
  obtain c where c: "fst (memory_search J None 15 32768 (w_fs w) (a_memory (me x w))) = (a_memory (me x w))\<lparr>mem_cache := c\<rparr>" using memory_ops_dir(1) by blast
  have "w' = w \<or> w' = set_memory (tx_me x) (fst (memory_search J None 15 32768 (w_fs w) (a_memory (me x w)))) w"
    using assms by (auto simp: build_first_turn_def Let_def case_prod_unfold split: if_splits)
  then show ?thesis using set_memory_frame [OF c] by auto
qed

lemma session_open_frame:
  assumes "session_open J E x store th ty data g0 = (g1, c, resume, conv_id, sq, tn)"
  shows "sx_tool c = x" "sx_trig c = parse_trigger J ty data" "sx_type c = ty" "sx_thread c = th"
    "same_agents (w_agents (g_world g0)) (w_agents (g_world g1))" "w_plugins (g_world g1) = w_plugins (g_world g0)" "g_ios g1 = g_ios g0" "g_tls g1 = g_tls g0"
    "resume \<Longrightarrow> g_conv g1 = g_conv g0 \<and> g_conv g0 \<noteq> None" "g_conv g1 = g_conv g0 \<or> g_conv g1 = None" "w_ran (g_world g1) = w_ran (g_world g0)"
proof -
  obtain g2 e where t: "tick E g0 = (g2, e)" by fastforce
  have g2: "g_world g2 = g_world g0" "g_conv g2 = g_conv g0" "g_ios g2 = g_ios g0" "g_tls g2 = g_tls g0" using t by (auto simp: tick_def)
  define trig where "trig = parse_trigger J ty data"
  define talk where "talk = (ti_relay trig \<and> g_chat g2 \<noteq> None)"
  obtain chat cid where ch: "(if talk then chat_id (te_now e) (g_chat g2) else (g_chat g2, 0)) = (chat, cid)" by fastforce
  define rs where "rs = (talk \<and> g_conv g2 \<noteq> None \<and> g_conv_id g2 = cid)"
  define g3 where "g3 = g2\<lparr>g_chat := chat, g_conv := (if talk \<and> \<not> rs then None else g_conv g2)\<rparr>"
  define c1 where "c1 = \<lparr>sx_tool = x, sx_store = store, sx_thread = th, sx_type = ty, sx_trig = trig, sx_talk = talk\<rparr>"
  obtain ls sq1 where l: "(if talk \<and> \<not> ae_start E 0
    then chat_render (if rs then g_conv_seq g3 else 0) (if rs then Some (a_name (self c1 g3)) else None) 6464 chat else ([], 0)) = (ls, sq1)" by fastforce
  define chan where "chan = (if ls \<noteq> [] then buf_set 6464 (PROMPT_CHAT_HEADER ls) else [])"
  obtain w op1 where w: "(if ae_start E 0 then (g_world g3, None)
    else if rs then (g_world g3, build_next_turn J (\<lambda>i. ae_start E (i + 2)) e ty trig data chan)
    else build_first_turn J (\<lambda>i. ae_start E (i + 2)) e x ty trig data chan (g_world g3)) = (w, op1)" by fastforce
  have u: "g1 = g3\<lparr>g_world := w\<rparr>" "c = c1" "resume = rs"
    using assms [unfolded session_open_def Let_def t prod.case, folded trig_def, folded talk_def, unfolded ch prod.case, folded rs_def, folded g3_def,
      folded c1_def, unfolded l prod.case, folded chan_def, unfolded w prod.case] by simp_all
  have g3: "g_world g3 = g_world g0" "g_ios g3 = g_ios g0" "g_tls g3 = g_tls g0" by (simp_all add: g3_def g2)
  show "sx_tool c = x" "sx_trig c = parse_trigger J ty data" "sx_type c = ty" "sx_thread c = th" "g_ios g1 = g_ios g0" "g_tls g1 = g_tls g0"
    by (simp_all add: u c1_def trig_def g3)
  show "resume \<Longrightarrow> g_conv g1 = g_conv g0 \<and> g_conv g0 \<noteq> None" "g_conv g1 = g_conv g0 \<or> g_conv g1 = None"
    by (auto simp: u rs_def g3_def g2)
  have "same_agents (w_agents (g_world g0)) (w_agents w) \<and> w_plugins w = w_plugins (g_world g0) \<and> w_ran w = w_ran (g_world g0)"
    using w first_turn_frame unfolding g3 by (auto split: if_splits)
  then show "same_agents (w_agents (g_world g0)) (w_agents (g_world g1))" "w_plugins (g_world g1) = w_plugins (g_world g0)"
    "w_ran (g_world g1) = w_ran (g_world g0)" by (simp_all add: u)
qed

lemma answer_one_kept: "leaves p g (answer_one J E c msg req g)"
proof -
  obtain g2 e where t: "tick E g = (g2, e)" by fastforce
  obtain w out where m: "agent_message J e (sx_tool c) (Some req) msg (sx_thread c) True 256 (g_world g2) = (w, out)" by fastforce
  have "leaves p g2 (g2\<lparr>g_world := w\<rparr>)" by (rule world_kept) (use agent_message_frame [OF m] in simp_all)
  then have "leaves p g (log_msg J E c req msg MSG_DELEGATION (g2\<lparr>g_world := w\<rparr>))" using tick_kept [OF t] log_msg_kept leaves_trans by metis
  then show ?thesis by (simp add: answer_one_def t m)
qed

lemma deliver_kept: "leaves p g (deliver_answer J E c st answer failed g)"
  unfolding deliver_answer_def by (simp add: fold_kept [OF answer_one_kept])

lemma session_close_frame:
  assumes "session_close J E c conv_id sq r failed limit = g'"
  shows "\<exists>g2. leaves p (r_g r) g2 \<and> (g' = g2 \<or> (\<exists>mx. g' = g2\<lparr>g_conv := Some (fst (conv_fit J mx (r_msgs r))), g_conv_id := conv_id, g_conv_seq := sq\<rparr>))"
proof -
  define a where "a = self c (r_g r)"
  define notice where "notice = buf_set 4096 (PROMPT_MAX_TURNS (dec_nat (max_turns_of a)))"
  define st where "st = (if limit then (r_st r)\<lparr>ss_notice := notice\<rparr> else r_st r)"
  define g1 where "g1 = (if limit then say c notice (r_g r) else r_g r)"
  define g2 where "g2 = (if ti_requesters (sx_trig c) \<noteq> [] then deliver_answer J E c st (r_answer r) failed g1 else g1)"
  define mx where "mx = (if a_history_budget a > 0 then nat (a_history_budget a) else 65536)"
  define close where "close m = g2\<lparr>g_conv := Some m, g_conv_id := conv_id, g_conv_seq := sq\<rparr>" for m
  have "leaves p (r_g r) g1" by (cases limit) (simp_all add: g1_def)
  then have k: "leaves p (r_g r) g2" using leaves_trans [OF _ deliver_kept] unfolding g2_def by (cases "ti_requesters (sx_trig c) \<noteq> []") simp_all
  obtain msgs fits where m: "conv_fit J mx (r_msgs r) = (msgs, fits)" by fastforce
  note u = assms [unfolded session_close_def Let_def, folded a_def, folded notice_def mx_def, folded st_def g1_def, folded g2_def, unfolded m prod.case, folded close_def]
  obtain b where b: "g' = (if b then close msgs else g2)" by (rule that [OF u [symmetric]])
  have "g' = g2 \<or> (\<exists>mx. g' = close (fst (conv_fit J mx (r_msgs r))))"
  proof (cases b)
    case True
    then have "g' = close (fst (conv_fit J mx (r_msgs r)))" using b m by simp
    then show ?thesis by (intro disjI2 exI)
  qed (simp add: b)
  with k show ?thesis unfolding close_def by (intro exI [of _ g2] conjI)
qed

lemma answer_one_runs_nothing: "w_ran (g_world (answer_one J E c msg req g)) = w_ran (g_world g)"
proof -
  obtain g2 e where t: "tick E g = (g2, e)" by fastforce
  obtain w out where m: "agent_message J e (sx_tool c) (Some req) msg (sx_thread c) True 256 (g_world g2) = (w, out)" by fastforce
  have "w_ran w = w_ran (g_world g)" using agent_message_frame [OF m] tick_runs_nothing [OF t] by simp
  then show ?thesis by (simp add: answer_one_def t m)
qed

lemma session_close_runs_nothing: "w_ran (g_world (session_close J E c conv_id sq r failed limit)) = w_ran (g_world (r_g r))"
proof -
  have d: "w_ran (g_world (deliver_answer J E c st answer fl g)) = w_ran (g_world g)" for st answer fl g
    by (simp add: deliver_answer_def fold_runs_nothing [OF answer_one_runs_nothing])
  show ?thesis by (simp add: session_close_def Let_def case_prod_unfold d)
qed

text \<open>The whole session in one statement, from which the properties below follow.\<close>

lemma agent_session_progress:
  assumes "agent_run_session J E x store th ty data g = Some (g', failed)" "cjson_laws J" "tx_me x < length (w_agents (g_world g))" "extra_hdrs (g_tls g) = []"
    "p \<or> \<not> a_is_builder (me x (g_world g)) \<and> (\<forall>n. tool_offered J (agent_tools J False (w_plugins (g_world g))) n \<longrightarrow> tool_find (Some n) \<noteq> Some TOOL_CREATE_PLUGIN)"
    "q \<longrightarrow> provider_type (a_provider (me x (g_world g))) \<noteq> ''anthropic'' \<and> (\<forall>ms. g_conv g = Some ms \<longrightarrow> answered J ms)"
  shows "same_agents (w_agents (g_world g)) (w_agents (g_world g')) \<and> (p \<or> w_plugins (g_world g') = w_plugins (g_world g)) \<and> extra_hdrs (g_tls g') = [] \<and>
    (q \<longrightarrow> (\<forall>ms. g_conv g' = Some ms \<longrightarrow> answered J ms)) \<and>
    (\<exists>new. g_ios g' = g_ios g @ new \<and> length new \<le> max_turns_of (me x (g_world g)) \<and> list_all (\<lambda>(m, io). io_ok 3 io \<and> (q \<longrightarrow> answered J m)) new)"
proof -
  obtain g1 c resume conv_id sq tn where o: "session_open J E x store th ty data g = (g1, c, resume, conv_id, sq, tn)" by (metis prod_cases6)
  note f = session_open_frame [OF o]
  have bnd: "tx_me (sx_tool c) < length (w_agents (g_world g1))" and id1: "same_identity (me x (g_world g)) (self c g1)"
    using same_agents_nth [OF f(5) assms(3)] f(1) by (simp_all add: self_def)
  note i1 = same_identity_fields [OF id1]
  show ?thesis
  proof (cases tn)
    case None
    then have "g' = g1" using assms(1) o by (simp add: agent_run_session_def)
    then show ?thesis using f assms(4,6) by auto
  next
    case (Some op)
    define prompt where "prompt = build_system_prompt x (g_world g1) 65536"
    define tools where "tools = agent_tools J (a_is_builder (self c g1)) (w_plugins (g_world g1))"
    define msgs where "msgs = add_user_text J op (if resume then the (g_conv g1) else [])"
    define g2 where "g2 = (if resume then g1\<lparr>g_conv := None\<rparr> else g1)"
    define g3 where "g3 = (if sx_talk c \<and> ty = TRIG_IRC then chat_line_add E c (owner_label (a_name (self c g2))) data g2 else g2)"
    define r0 where "r0 = \<lparr>r_g = g3, r_st = new_state, r_msgs = msgs, r_answer = None\<rparr>"
    have k: "leaves False g2 g3" by (simp add: g3_def)
    have g2: "w_agents (g_world g2) = w_agents (g_world g1)" "w_plugins (g_world g2) = w_plugins (g_world g1)" "g_ios g2 = g_ios g1" "g_tls g2 = g_tls g1"
      "self c g2 = self c g1" "g_conv g2 = None \<or> g_conv g2 = g_conv g1" by (simp_all add: g2_def self_def)
    note u = assms(1) [unfolded agent_run_session_def o Some prod.case option.case Let_def, folded prompt_def tools_def msgs_def g2_def, folded g3_def, folded r0_def]
    obtain r fl lim where s: "session_turns J E c prompt tools (max_turns_of (self c g3)) 0 r0 = Some (r, fl, lim)" "g' = session_close J E c conv_id sq r fl lim"
      using u by (auto simp: bind_eq_Some_conv)
    have id3: "same_identity (self c g1) (self c g3)" "tx_me (sx_tool c) < length (w_agents (g_world g3))" using leaves_self [OF k, of c] bnd g2 by simp_all
    note i3 = same_identity_fields [OF id3(1)]
    have mt: "max_turns_of (self c g3) = max_turns_of (me x (g_world g))" using i1 i3 by (simp add: max_turns_of_def)
    have an: "answered J msgs" if q
      using that assms(2,6) f(9) by (auto simp: msgs_def answered_def intro!: add_user_text_answered [unfolded answered_def])
    have t: "p \<or> (\<forall>n. tool_offered J tools n \<longrightarrow> tool_find (Some n) \<noteq> Some TOOL_CREATE_PLUGIN)" using assms(5) i1 f(6) by (auto simp: tools_def)
    have pr: "progress J p q (max_turns_of (me x (g_world g))) r0 r"
      unfolding mt [symmetric] by (rule session_turns_progress [OF s(1) _ t _ _ assms(2)])
        (use assms(4-6) i1 i3 id3 g2 k f(8) an in \<open>auto simp: r0_def leaves_def\<close>)
    obtain gc where gc: "leaves p (r_g r) gc" "g' = gc \<or> (\<exists>mx. g' = gc\<lparr>g_conv := Some (fst (conv_fit J mx (r_msgs r))), g_conv_id := conv_id, g_conv_seq := sq\<rparr>)"
      using session_close_frame [OF s(2) [symmetric]] by blast
    have w: "g_world g' = g_world gc" "g_ios g' = g_ios gc" "g_tls g' = g_tls gc" using gc(2) by auto
    have k0: "same_agents (w_agents (g_world g)) (w_agents (g_world (r_g r0)))" "w_plugins (g_world (r_g r0)) = w_plugins (g_world g)" "g_ios (r_g r0) = g_ios g"
      "g_conv (r_g r0) = None \<or> g_conv (r_g r0) = g_conv g"
      using k f g2 same_agents_trans by (auto simp: r0_def leaves_def)
    have conv: "answered J ms" if "q" "g_conv g' = Some ms" for ms
    proof -
      have "answered J (r_msgs r)" using pr that(1) by (simp add: progress_def)
      then have "answered J (fst (conv_fit J mx (r_msgs r)))" for mx by (rule conv_fit_answered [OF assms(2)])
      moreover have "g_conv gc = None \<or> g_conv gc = g_conv g" using gc(1) pr k0(4) by (auto simp: leaves_def progress_def)
      ultimately show ?thesis using gc(2) that assms(6) by auto
    qed
    have "same_agents (w_agents (g_world g)) (w_agents (g_world g'))"
      using k0(1) pr gc(1) same_agents_trans unfolding w(1) progress_def leaves_def by metis
    moreover have "\<exists>new. g_ios g' = g_ios g @ new \<and> length new \<le> max_turns_of (me x (g_world g)) \<and> list_all (\<lambda>(m, io). io_ok 3 io \<and> (q \<longrightarrow> answered J m)) new"
      using pr k0(3) gc(1) unfolding w(2) progress_def leaves_def by simp
    ultimately show ?thesis using conv pr gc(1) k0(2) w by (auto simp: progress_def leaves_def)
  qed
qed

lemma agent_session_ran:
  assumes "agent_run_session J E x store th ty data g = Some (g', failed)" "cjson_laws J" "tx_me x < length (w_agents (g_world g))" "extra_hdrs (g_tls g) = []"
  shows "\<exists>st. ran_ok J (a_is_builder (me x (g_world g))) (agent_tools J (a_is_builder (me x (g_world g))) (w_plugins (g_world g))) (w_ran (g_world g)) st (g_world g')"
proof -
  obtain g1 c resume conv_id sq tn where o: "session_open J E x store th ty data g = (g1, c, resume, conv_id, sq, tn)" by (metis prod_cases6)
  note f = session_open_frame [OF o]
  have bnd: "tx_me (sx_tool c) < length (w_agents (g_world g1))" and id1: "same_identity (me x (g_world g)) (self c g1)"
    using same_agents_nth [OF f(5) assms(3)] f(1) by (simp_all add: self_def)
  define b where "b = a_is_builder (me x (g_world g))"
  have b: "a_is_builder (self c g1) = b" using same_identity_fields(2) [OF id1] by (simp add: b_def)
  define tools where "tools = agent_tools J b (w_plugins (g_world g))"
  have none: "ran_ok J b tools (w_ran (g_world g)) new_state w" if "w_ran w = w_ran (g_world g)" for w
    using that run_counts_start by (auto simp: ran_ok_def)
  show ?thesis unfolding b_def [symmetric] tools_def [symmetric]
  proof (cases tn)
    case None
    then have "g' = g1" using assms(1) o by (simp add: agent_run_session_def)
    then show "\<exists>st. ran_ok J b tools (w_ran (g_world g)) st (g_world g')" using none f(11) by blast
  next
    case (Some op)
    define prompt where "prompt = build_system_prompt x (g_world g1) 65536"
    define msgs where "msgs = add_user_text J op (if resume then the (g_conv g1) else [])"
    define g2 where "g2 = (if resume then g1\<lparr>g_conv := None\<rparr> else g1)"
    define g3 where "g3 = (if sx_talk c \<and> ty = TRIG_IRC then chat_line_add E c (owner_label (a_name (self c g2))) data g2 else g2)"
    define r0 where "r0 = \<lparr>r_g = g3, r_st = new_state, r_msgs = msgs, r_answer = None\<rparr>"
    have tl: "agent_tools J (a_is_builder (self c g1)) (w_plugins (g_world g1)) = tools" by (simp add: tools_def b f(6))
    note u = assms(1) [unfolded agent_run_session_def o Some prod.case option.case Let_def, folded prompt_def msgs_def g2_def, folded g3_def, folded r0_def, unfolded tl]
    obtain r fl lim where s: "session_turns J E c prompt tools (max_turns_of (self c g3)) 0 r0 = Some (r, fl, lim)" "g' = session_close J E c conv_id sq r fl lim"
      using u by (auto simp: bind_eq_Some_conv)
    have k: "leaves True g2 g3" by (simp add: g3_def)
    have g2: "g_world g2 = g_world g1" "g_tls g2 = g_tls g1" "self c g2 = self c g1" by (simp_all add: g2_def self_def)
    note i = leaves_self [OF k, of c, unfolded g2, OF bnd]
    have "ran_ok J b tools (w_ran (g_world g)) (r_st r) (g_world (r_g r))"
    proof (rule session_turns_ran [OF s(1)])
      show "ran_ok J b tools (w_ran (g_world g)) (r_st r0) (g_world (r_g r0))" using none [of "g_world g3"] f(11) by (simp add: r0_def g3_def g2)
      show "a_is_builder (self c (r_g r0)) = b" using same_identity_fields(2) [OF i(1)] b by (simp add: r0_def)
      show "tx_me (sx_tool c) < length (w_agents (g_world (r_g r0)))" using i(2) by (simp add: r0_def)
      show "extra_hdrs (g_tls (r_g r0)) = []" using k assms(4) f(8) g2(2) by (simp add: r0_def leaves_def)
    qed (rule assms(2))
    then show "\<exists>st. ran_ok J b tools (w_ran (g_world g)) st (g_world g')" unfolding s(2) by (blast intro: ran_ok_same session_close_runs_nothing)
  qed
qed

section \<open>Every session ends\<close>

lemma run_builtin_defined:
  assumes "cjson_laws J" "env_ends e" "256 \<le> sz"
  shows "\<exists>s result. run_builtin J e x i (CObject kvs) trig th sz (st, w) = Some (s, result)"
proof -
  obtain input' problem where a: "tool_check_args J i (CObject kvs) sz = (input', problem)" by fastforce
  define to' where "to' = (if i = TOOL_SEND_MESSAGE then messenger_resolve (tx_messenger x) (j_str J (CObject kvs) ''to'') else None)"
  have "\<exists>w' result. (case problem of Some msg \<Rightarrow> Some (w, msg)
     | None \<Rightarrow> if is_requester trig to'
               then (case j_str J input' ''content'' of Some c \<Rightarrow> Some (agent_message J e x to' c th True sz w) | None \<Rightarrow> None)
               else execute_tool J e x i input' sz w) = Some (w', result)"
  proof (cases problem)
    case None
    obtain kvs' where k: "input' = CObject kvs'" "list_all (arg_ok J input') (t_params (TOOLS i))" using checked_args [OF assms(1) a [unfolded None]] by blast
    show ?thesis
    proof (cases "is_requester trig to'")
      case True
      then have "i = TOOL_SEND_MESSAGE" by (auto simp: to'_def is_requester_def split: if_splits)
      then obtain t where "j_str J input' ''content'' = Some t" using checked_strings(3) [OF k(2)] by blast
      then show ?thesis using None True by (cases "agent_message J e x to' t th True sz w") simp
    next
      case False
      then show ?thesis using execute_tool_result [OF assms k(2) [unfolded k(1)], of x w] None k(1) by auto
    qed
  qed simp
  then show ?thesis by (auto simp: run_builtin_def a to'_def [symmetric])
qed

lemma perform_defined:
  assumes "cjson_laws J" "env_ends e" "256 \<le> sz"
  shows "\<exists>s result. perform J e x name (CObject kvs) trig th sz (st, w) = Some (s, result)"
proof (cases "tool_find (Some name)")
  case None
  obtain w' res where "run_plugin J e name (CObject kvs) sz (w\<lparr>w_ran := w_ran w @ [(name, CObject kvs)]\<rparr>) = Some (w', res)"
    using run_plugin_defined [OF assms(2), of sz J name "CObject kvs" "w\<lparr>w_ran := w_ran w @ [(name, CObject kvs)]\<rparr>"] assms(3) by auto
  with None show ?thesis by (simp add: perform_def Let_def)
next
  case (Some i)
  then show ?thesis using run_builtin_defined [OF assms] by (simp add: perform_def Let_def)
qed

lemma run_tool_defined:
  assumes "cjson_laws J" "env_ends e" "256 \<le> sz"
  shows "\<exists>s result. run_tool J e x tools call trig th sz (st, w) = Some (s, result)"
proof (cases "tool_offered J tools (tc_name call) \<and> (\<exists>kvs. cJSON_Parse J (tc_input call) = Some (CObject kvs))")
  case False
  then show ?thesis by (cases "cJSON_Parse J (tc_input call)") (auto simp: run_tool_def Let_def split: cjson.splits)
next
  case True
  then obtain kvs where k: "tool_offered J tools (tc_name call)" "cJSON_Parse J (tc_input call) = Some (CObject kvs)" by blast
  define limit where "limit = (if a_is_builder (me x w) \<and> tool_find (Some (tc_name call)) = Some TOOL_READ_FILE then 1 else 2 :: nat)"
  obtain st1 b where r: "repeated_call J (tc_name call) (CObject kvs) limit st = (st1, b)" by fastforce
  obtain s result where p: "perform J e x (tc_name call) (CObject kvs) trig th sz (st1, w) = Some (s, result)" using perform_defined [OF assms] by blast
  show ?thesis unfolding run_tool_def Let_def prod.case limit_def [symmetric] k option.case cjson.case r
    using p by (cases b) auto
qed

lemma run_call_defined:
  assumes "cjson_laws J" "\<And>n. env_ends (ae_tool E n)"
  shows "\<exists>s b. run_call J E c tools call (g, st) = Some (s, b)"
proof -
  define g1 where "g1 = log_msg J E c [] (drop 6 (buf_set 400 (''calls '' @ tc_name call @ ''('' @ summarize_args (ae_fmt E) (cJSON_Parse J (tc_input call)) 256 @ '')''))) MSG_TOOL_CALL
    (act c (buf_set 400 (''calls '' @ tc_name call @ ''('' @ summarize_args (ae_fmt E) (cJSON_Parse J (tc_input call)) 256 @ '')'')) g)"
  obtain g2 e where t: "tick E g1 = (g2, e)" by fastforce
  then have "env_ends e" using assms(2) by (auto simp: tick_def)
  from run_tool_defined [OF assms(1) this, of 32768 "sx_tool c" tools call "sx_trig c" "sx_thread c" st "g_world g2"] obtain s result where
    "run_tool J e (sx_tool c) tools call (sx_trig c) (sx_thread c) 32768 (st, g_world g2) = Some (s, result)" by auto
  then show ?thesis unfolding run_call_def Let_def prod.case g1_def [symmetric] t by (cases s) simp
qed

lemma run_calls_defined:
  assumes "cjson_laws J" "\<And>n. env_ends (ae_tool E n)"
  shows "\<exists>s bs. run_calls J E c tools calls (g, st) = Some (s, bs)"
proof (induction calls arbitrary: g st)
  case (Cons call calls)
  obtain g1 st1 b where "run_call J E c tools call (g, st) = Some ((g1, st1), b)" using run_call_defined [OF assms, of c tools call g st] by auto
  with Cons.IH [of g1 st1] show ?case by auto
qed simp

lemma auto_compile_defined:
  assumes "cjson_laws J" "\<And>n. env_ends (ae_tool E n)"
  shows "\<exists>g1 result. auto_compile J E c name code g = Some (g1, result)"
proof -
  define action where "action = buf_set 160 (''auto-compiles '' @ [CHR 0x27] @ name @ [CHR 0x27] @ '' from text'')"
  obtain g2 e where t: "tick E (log_msg J E c [] action MSG_TOOL_CALL (act c action g)) = (g2, e)" by fastforce
  then have "env_ends e" using assms(2) by (auto simp: tick_def)
  moreover have i: "plugin_input J name code = CObject [(''name'', CString name), (''code'', CString code)]"
    using assms(1) by (simp add: plugin_input_def add_string_def cjson_obj)
  ultimately have "\<exists>w' out. create_plugin_tool J e (plugin_input J name code) 4096 (g_world g2) = Some (w', out) \<and> length out < 4096"
    unfolding i using assms(1) by (intro create_plugin_defined [where c = code and n = name]) (simp_all add: j_str_object)
  then show ?thesis unfolding auto_compile_def Let_def action_def [symmetric] t prod.case by (auto simp: execute_tool_def)
qed

lemma turn_defined:
  assumes "cjson_laws J" "\<And>n. env_ends (ae_tool E n)"
  shows "\<exists>r' nx. session_turn J E c prompt tools n r = Some (r', nx)"
proof -
  have a: "\<exists>y. after_text_reply J E c nomem s st msgs g = Some y" for nomem s st msgs g
  proof (cases "if nomem then None else builder_extract_code s 64 32768")
    case None
    then show ?thesis by (simp add: after_text_reply_def Let_def)
  next
    case (Some nc)
    obtain g1 result where "auto_compile J E c (fst nc) (snd nc) g = Some (g1, result)" using auto_compile_defined [OF assms] by blast
    with Some show ?thesis by (simp add: after_text_reply_def Let_def case_prod_unfold)
  qed
  have t: "\<exists>y. turn_calls J E c tools out r = Some y" for out r
    using run_calls_defined [OF assms, of c tools "tool_calls out" "r_g r" "r_st r"] by (auto simp: turn_calls_def Let_def)
  obtain A where A: "\<And>nomem s st msgs g. after_text_reply J E c nomem s st msgs g = Some (A nomem s st msgs g)" using a by metis
  have "\<exists>y. turn_reply J E c tools n out r = Some y" for out r
    using t by (simp add: turn_reply_def Let_def A del: split_paired_Ex)
  then obtain R where R: "\<And>out r. turn_reply J E c tools n out r = Some (R out r)" by metis
  then have "\<exists>y. session_turn J E c prompt tools n r = Some y" by (simp add: session_turn_def Let_def case_prod_unfold del: split_paired_Ex)
  then show ?thesis by auto
qed

lemma session_turns_defined:
  assumes "cjson_laws J" "\<And>n. env_ends (ae_tool E n)"
  shows "\<exists>r' failed limit. session_turns J E c prompt tools k n r = Some (r', failed, limit)"
proof (induction k arbitrary: n r)
  case (Suc k)
  obtain r1 nx where "session_turn J E c prompt tools n r = Some (r1, nx)" using turn_defined [OF assms] by blast
  with Suc.IH [of "n + 1" r1] show ?case by auto
qed auto

lemma agent_session_defined:
  assumes "cjson_laws J" "\<And>n. env_ends (ae_tool E n)"
  shows "\<exists>g' failed. agent_run_session J E x store th ty data g = Some (g', failed)"
proof -
  obtain g1 c resume conv_id sq tn where o: "session_open J E x store th ty data g = (g1, c, resume, conv_id, sq, tn)" by (metis prod_cases6)
  show ?thesis
  proof (cases tn)
    case (Some op)
    have "\<exists>y. session_turns J E c prompt tools k n r = Some y" for prompt tools k n r using session_turns_defined [OF assms] by blast
    then obtain Y where "\<And>prompt tools k n r. session_turns J E c prompt tools k n r = Some (Y prompt tools k n r)" by metis
    then show ?thesis by (simp add: agent_run_session_def o Some Let_def case_prod_unfold)
  qed (auto simp: agent_run_session_def o)
qed

section \<open>Tools of a role\<close>

text \<open>The schemas of the plugins never have the name of a built-in tool; compiling keeps this.\<close>

definition schemas_apart :: "cjson_api \<Rightarrow> plugin_registry \<Rightarrow> bool" where
  "schemas_apart J reg \<longleftrightarrow> list_all (\<lambda>p. \<exists>n. j_str J (pl_schema p) ''name'' = Some n \<and> tool_find (Some n) = None) (pr_plugins reg)"

lemma plugin_schema_name: "cjson_laws J \<Longrightarrow> j_str J (plugin_schema J name desc schema) ''name'' = Some name"
  by (simp add: plugin_schema_def Let_def add_string_def cjson_obj j_str_object lookup_ci_append)

lemma plugin_compile_schemas:
  assumes "schemas_apart J r" "cjson_laws J" "plugin_compile J e r src mtime sz = Some (r', err, rc)"
  shows "schemas_apart J r'"
  using assms(3)
proof (cases rule: plugin_compile_cases)
  case failed
  then show ?thesis using assms(1) by (simp add: schemas_apart_def record_failure_def)
next
  case (loaded t name fn desc schema slot)
  have "\<exists>n. j_str J (pl_schema (new_entry J src mtime (name, fn, desc, schema))) ''name'' = Some n \<and> tool_find (Some n) = None"
    using build_name [OF loaded(2)] plugin_schema_name [OF assms(2)] by (simp add: new_entry_def)
  then show ?thesis using assms(1) loaded(5) set_update_subset_insert
    by (fastforce simp: schemas_apart_def put_entry_def list_all_iff split: option.splits)
qed

lemma tool_find_name: "tool_find (Some n) = Some i \<Longrightarrow> n = t_name (TOOLS i)"
  by (auto simp: tool_find_def find_Some_iff)

lemma create_plugin_name: "t_name (TOOLS i) = t_name (TOOLS TOOL_CREATE_PLUGIN) \<Longrightarrow> i = TOOL_CREATE_PLUGIN"
  by (cases i) simp_all

lemma create_plugin_offered:
  assumes "cjson_laws J" "schemas_apart J reg" "tool_offered J (agent_tools J False reg) n"
  shows "tool_find (Some n) \<noteq> Some TOOL_CREATE_PLUGIN"
proof
  assume f: "tool_find (Some n) = Some TOOL_CREATE_PLUGIN"
  obtain ts where ts: "tools_to_json J False = CArray ts" using tools_to_json_list [OF assms(1)] by blast
  have "map (\<lambda>t. j_str J t ''name'') ts = map (\<lambda>i. Some (t_name (TOOLS i))) (filter (\<lambda>i. i \<noteq> TOOL_CREATE_PLUGIN) tool_ids)"
    using tools_offered_by_role [OF assms(1) ts] unfolding if_False .
  then have s: "(\<lambda>t. j_str J t ''name'') ` set ts = (\<lambda>i. Some (t_name (TOOLS i))) ` {i \<in> set tool_ids. i \<noteq> TOOL_CREATE_PLUGIN}"
    unfolding set_map [symmetric] set_filter [symmetric] by simp
  from assms(3) consider t where "t \<in> set ts" "j_str J t ''name'' = Some n" | p where "p \<in> set (pr_plugins reg)" "j_str J (pl_schema p) ''name'' = Some n"
    by (auto simp: tool_offered_def agent_tools_def list_ex_iff ts array_items_def plugin_schemas_sorted)
  then show False
  proof cases
    case 1
    then have "Some n \<in> (\<lambda>t. j_str J t ''name'') ` set ts" by (metis image_eqI)
    then obtain i where "i \<noteq> TOOL_CREATE_PLUGIN" "n = t_name (TOOLS i)" unfolding s by blast
    with create_plugin_name tool_find_name [OF f] show False by metis
  next
    case 2
    then show False using assms(2) f by (auto simp: schemas_apart_def list_all_iff)
  qed
qed

section \<open>Properties of a session\<close>

text \<open>
  (C2) A session always ends: whatever the model, the server, the files and the tools do, as long as commands, compilers and plugins end or
  pass their time limits, the session returns after at most as many calls of the model as the agent may take turns, each of at
  most three requests with waits of at most a minute.
\<close>

theorem agent_session_returns:
  assumes "cjson_laws J" "\<And>n. env_ends (ae_tool E n)" "tx_me x < length (w_agents (g_world g))" "extra_hdrs (g_tls g) = []"
  shows "\<exists>g' failed new. agent_run_session J E x store th ty data g = Some (g', failed) \<and> g_ios g' = g_ios g @ new \<and>
    length new \<le> max_turns_of (me x (g_world g)) \<and> list_all (\<lambda>(m, io). io_ok 3 io) new"
proof -
  obtain g' failed where s: "agent_run_session J E x store th ty data g = Some (g', failed)" using agent_session_defined [OF assms(1,2)] by blast
  from agent_session_progress [OF s assms(1,3,4), of True False] s show ?thesis by auto
qed

text \<open>
  (C1) For a provider of the OpenAI format, every conversation that a session sends to the model is complete: each message brings the results of
  exactly the calls of the message before it, in their order, so no call is left without a result and no result lacks its
  call. Trimming old results, dropping old exchanges and the texts that the agent adds keep it so, and so does the
  conversation that is kept for the next session.
\<close>

theorem agent_session_conversation:
  assumes "agent_run_session J E x store th ty data g = Some (g', failed)" "cjson_laws J" "tx_me x < length (w_agents (g_world g))" "extra_hdrs (g_tls g) = []"
    "provider_type (a_provider (me x (g_world g))) \<noteq> ''anthropic''" "\<And>ms. g_conv g = Some ms \<Longrightarrow> answered J ms"
  shows "\<exists>new. g_ios g' = g_ios g @ new \<and> list_all (\<lambda>(msgs, io). answered J msgs) new \<and> (\<forall>ms. g_conv g' = Some ms \<longrightarrow> answered J ms)"
proof -
  have q: "True \<longrightarrow> provider_type (a_provider (me x (g_world g))) \<noteq> ''anthropic'' \<and> (\<forall>ms. g_conv g = Some ms \<longrightarrow> answered J ms)" using assms(5,6) by blast
  obtain new where "g_ios g' = g_ios g @ new" "list_all (\<lambda>(m, io). io_ok 3 io \<and> (True \<longrightarrow> answered J m)) new" "\<forall>ms. g_conv g' = Some ms \<longrightarrow> answered J ms"
    using agent_session_progress [OF assms(1-4) _ q, of True] by auto
  then show ?thesis by (intro exI [of _ new]) (auto simp: list_all_iff)
qed

text \<open>
  (C3) \<open>create_plugin\<close> is for the builder only: whatever the model asks for and whatever text it writes, a session of another agent runs no call of
  \<open>create_plugin\<close>, since the tool is not offered to it and a plugin cannot take its name, and it compiles, loads and removes no plugin itself: the registry of loaded
  plugins is the same before and after. (Files that its other tools put below \<open>plugins/\<close> are a matter of the daemon's next scan.) And no
  session changes the name, role, provider or limits of any agent.
\<close>

theorem create_plugin_builder_only:
  assumes "agent_run_session J E x store th ty data g = Some (g', failed)" "cjson_laws J" "tx_me x < length (w_agents (g_world g))" "extra_hdrs (g_tls g) = []"
    "\<not> a_is_builder (me x (g_world g))" "schemas_apart J (w_plugins (g_world g))"
  shows "w_plugins (g_world g') = w_plugins (g_world g) \<and> same_agents (w_agents (g_world g)) (w_agents (g_world g')) \<and>
    (\<exists>cs. w_ran (g_world g') = w_ran (g_world g) @ cs \<and> (\<forall>(name, input) \<in> set cs. tool_find (Some name) \<noteq> Some TOOL_CREATE_PLUGIN))"
proof -
  note no = create_plugin_offered [OF assms(2,6)]
  have "False \<or> \<not> a_is_builder (me x (g_world g)) \<and> (\<forall>n. tool_offered J (agent_tools J False (w_plugins (g_world g))) n \<longrightarrow> tool_find (Some n) \<noteq> Some TOOL_CREATE_PLUGIN)"
    using assms(5) no by blast
  from agent_session_progress [OF assms(1-4) this, of False]
  have "w_plugins (g_world g') = w_plugins (g_world g) \<and> same_agents (w_agents (g_world g)) (w_agents (g_world g'))" by simp
  moreover obtain cs where "w_ran (g_world g') = w_ran (g_world g) @ cs"
    "list_all (\<lambda>(n, i). tool_offered J (agent_tools J False (w_plugins (g_world g))) n) cs"
    using agent_session_ran [OF assms(1-4)] assms(5) by (auto simp: ran_ok_def)
  then have "w_ran (g_world g') = w_ran (g_world g) @ cs \<and> (\<forall>(name, input) \<in> set cs. tool_find (Some name) \<noteq> Some TOOL_CREATE_PLUGIN)"
    using no by (auto simp: list_all_iff)
  ultimately show ?thesis by blast
qed

text \<open>
  (C18) No tool runs more often with the same arguments than its limit in a session: of the calls that a whole session runs, over all of its turns and however they are mixed with
  others, a call with the same tool and the same arguments occurs at most twice, and at most once when the builder reads a file. This holds as long as the calls run
  have at most 64 different hashes, the size of the table. (Code that the builder only prints is compiled without a call.)
\<close>

theorem repeated_calls_bounded:
  assumes "agent_run_session J E x store th ty data g = Some (g', failed)" "cjson_laws J" "tx_me x < length (w_agents (g_world g))" "extra_hdrs (g_tls g) = []"
  shows "\<exists>cs. w_ran (g_world g') = w_ran (g_world g) @ cs \<and>
    (card (hash_of J ` set cs) \<le> 64 \<longrightarrow> (\<forall>name input. count_list cs (name, input) \<le>
       (if a_is_builder (me x (g_world g)) \<and> tool_find (Some name) = Some TOOL_READ_FILE then 1 else 2)))"
proof -
  obtain st cs where "w_ran (g_world g') = w_ran (g_world g) @ cs" "run_counts J (a_is_builder (me x (g_world g))) st cs"
    using agent_session_ran [OF assms] by (auto simp: ran_ok_def)
  then show ?thesis by (intro exI [of _ cs]) (auto simp: run_counts_def run_limit_def)
qed

lemma system_prompt_same:
  assumes "same_agents (w_agents w) (w_agents w')" "tx_me x < length (w_agents w)" "\<not> a_is_builder (me x w)"
  shows "build_system_prompt x w' sz = build_system_prompt x w sz"
proof -
  note m = same_identity_fields [OF conjunct2 [OF same_agents_nth [OF assms(1,2)]]]
  have l: "list_all2 same_identity (peers x w) (peers x w')" using assms(1) by (simp add: peers_def m same_agents_def list_all2_takeI)
  let ?line = "\<lambda>(i, p) b. if i = tx_me x then b else buf_appendf 4096 b (''- '' @ a_name p @ (if a_specialty p \<noteq> [] then DASH else []) @ a_specialty p @
    (if a_is_builder p then PROMPT_BUILDER_PEER else []) @ [LF])"
  have "fold ?line (enumerate k ps') b = fold ?line (enumerate k ps) b" if "list_all2 same_identity ps ps'" for ps ps' k b
    using that by (induction ps ps' arbitrary: k b rule: list_all2_induct) (simp_all add: same_identity_fields)
  from this [OF l] have "peer_lines x w' = peer_lines x w" by (simp add: peer_lines_def)
  then show ?thesis using assms(3) by (simp add: build_system_prompt_def m objective_lines_def Let_def)
qed

text \<open>
  (C17) The system prompt stays the same, so the provider's cache of it stays valid: after a session of any agent, whatever it did, the prompt of every agent
  that is no builder is the one it had before, byte for byte.
\<close>

theorem system_prompt_stable:
  assumes "agent_run_session J E x store th ty data g = Some (g', failed)" "cjson_laws J" "tx_me x < length (w_agents (g_world g))" "extra_hdrs (g_tls g) = []"
    "tx_me y < length (w_agents (g_world g))" "\<not> a_is_builder (me y (g_world g))"
  shows "build_system_prompt y (g_world g') sz = build_system_prompt y (g_world g) sz"
proof -
  have "same_agents (w_agents (g_world g)) (w_agents (g_world g'))" using agent_session_progress [OF assms(1-4), of True False] by simp
  then show ?thesis by (rule system_prompt_same [OF _ assms(5,6)])
qed

section \<open>Where requests are answered twice or not at all\<close>

text \<open>The table of agents that were written to has eight places, a batch of requests up to sixteen senders: the ninth is not noted, and is answered again at the end.\<close>

lemma ninth_answer_not_noted:
  assumes "run_builtin J e x TOOL_SEND_MESSAGE input trig th sz (st, w) = Some ((st', w'), result)" "8 \<le> length (ss_sent_to st)"
  shows "ss_sent_to st' = ss_sent_to st"
  using assms by (auto simp: run_builtin_def Let_def split: prod.splits if_splits)

text \<open>When memory is exhausted at the start, the session ends without an answer to the agents that asked: it sends and shows nothing.\<close>

lemma session_oom_unanswered:
  assumes "ae_start E 0"
  shows "\<exists>g'. agent_run_session J E x store th ty data g = Some (g', True) \<and> g_world g' = g_world g"
proof -
  obtain g1 c resume conv_id sq tn where o: "session_open J E x store th ty data g = (g1, c, resume, conv_id, sq, tn)" by (metis prod_cases6)
  have "tn = None \<and> g_world g1 = g_world g"
    using o assms by (simp add: session_open_def Let_def tick_def case_prod_unfold) (auto simp: case_prod_unfold split: if_splits)
  then show ?thesis by (simp add: agent_run_session_def o)
qed

section \<open>Instances\<close>

definition agent_sample :: agent_ctx where
  "agent_sample = \<lparr>a_name = ''bob'', a_personality = [], a_prompt_extra = [], a_specialty = [], a_max_turns = 5, a_history_budget = 0, a_is_hub = False,
     a_is_builder = False, a_provider = prov_sample, a_memory = \<lparr>memory_dir = ''m'', mem_cache = None\<rparr>, a_scheduler = ''s'', a_objectives = [], a_n_peers = 1,
     a_busy = True, a_last_session = 0\<rparr>"

definition sess_sample :: sess where
  "sess_sample = \<lparr>g_world = world_sample\<lparr>w_agents := [agent_sample]\<rparr>, g_chat = None, g_tls = \<lparr>extra_hdrs = [], req_timeout = 0\<rparr>, g_conv = Some turns_sample,
     g_conv_id = 1, g_conv_seq = 0, g_step = 0, g_ios = []\<rparr>"

definition agent_env_sample :: agent_env where
  "agent_env_sample = \<lparr>ae_tool = (\<lambda>_. tool_sample), ae_llm = (\<lambda>_. llm_sample), ae_start = (\<lambda>_. False), ae_turn = (\<lambda>_ _. False), ae_msg = False, ae_fmt = (\<lambda>_. [])\<rparr>"

lemma sess_sample_props:
  "tx_me ctx_sample < length (w_agents (g_world sess_sample))" "extra_hdrs (g_tls sess_sample) = []" "env_ends (ae_tool agent_env_sample n)"
  "provider_type (a_provider (me ctx_sample (g_world sess_sample))) \<noteq> ''anthropic''" "\<not> a_is_builder (me ctx_sample (g_world sess_sample))"
  "max_turns_of (me ctx_sample (g_world sess_sample)) = 5" "schemas_apart J (w_plugins (g_world sess_sample))"
  by (simp_all add: sess_sample_def ctx_sample_def agent_env_sample_def tool_sample_ends agent_sample_def prov_sample_def max_turns_of_def
    schemas_apart_def world_sample_def)

lemma turns_sample_answered: "answered llm_cjson turns_sample"
  by (simp add: answered_def turns_sample_def result_ids_def call_ids_def msg_blocks_def array_items_def cjson_law(3) [OF llm_cjson_laws] block_call_def
    block_result_def j_str_object [OF llm_cjson_laws] prov_keys_differ strcaseeq_def tolower_def is_upper_def byte_def map_filter_simps or_empty_def)

lemma session_sample:
  obtains g' failed where "agent_run_session llm_cjson agent_env_sample ctx_sample ''log'' None TRIG_IRC ''hi'' sess_sample = Some (g', failed)"
  using agent_session_defined [OF llm_cjson_laws sess_sample_props(3)] by blast

theorem agent_session_returns_witness:
  "\<exists>g' failed new. agent_run_session llm_cjson agent_env_sample ctx_sample ''log'' None TRIG_IRC ''hi'' sess_sample = Some (g', failed) \<and>
     g_ios g' = g_ios sess_sample @ new \<and> length new \<le> 5 \<and> list_all (\<lambda>(m, io). io_ok 3 io) new"
  using agent_session_returns [OF llm_cjson_laws sess_sample_props(3,1,2)] unfolding sess_sample_props(6) .

theorem agent_session_conversation_witness:
  "\<exists>g' failed new. agent_run_session llm_cjson agent_env_sample ctx_sample ''log'' None TRIG_IRC ''hi'' sess_sample = Some (g', failed) \<and>
     g_ios g' = g_ios sess_sample @ new \<and> list_all (\<lambda>(msgs, io). answered llm_cjson msgs) new \<and> (\<forall>ms. g_conv g' = Some ms \<longrightarrow> answered llm_cjson ms)"
proof -
  obtain g' failed where s: "agent_run_session llm_cjson agent_env_sample ctx_sample ''log'' None TRIG_IRC ''hi'' sess_sample = Some (g', failed)"
    by (rule session_sample)
  have "answered llm_cjson ms" if "g_conv sess_sample = Some ms" for ms using that turns_sample_answered by (simp add: sess_sample_def)
  from agent_session_conversation [OF s llm_cjson_laws sess_sample_props(1,2,4) this] s show ?thesis by blast
qed

theorem create_plugin_builder_only_witness:
  "\<exists>g' failed cs. agent_run_session llm_cjson agent_env_sample ctx_sample ''log'' None TRIG_IRC ''hi'' sess_sample = Some (g', failed) \<and>
     w_plugins (g_world g') = w_plugins (g_world sess_sample) \<and> same_agents (w_agents (g_world sess_sample)) (w_agents (g_world g')) \<and>
     w_ran (g_world g') = w_ran (g_world sess_sample) @ cs"
proof -
  obtain g' failed where s: "agent_run_session llm_cjson agent_env_sample ctx_sample ''log'' None TRIG_IRC ''hi'' sess_sample = Some (g', failed)"
    by (rule session_sample)
  from create_plugin_builder_only [OF s llm_cjson_laws sess_sample_props(1,2,5,7)] s show ?thesis by blast
qed

text \<open>A session in which the model cannot be called runs no tool.\<close>

lemma failing_turns_run_nothing:
  assumes "session_turns J E c prompt tools k n r = Some (r', failed, limit)" "\<And>e prov sys ms ts st. snd (snd (snd (llm_call e J prov sys ms ts st))) \<noteq> 0"
  shows "w_ran (g_world (r_g r')) = w_ran (g_world (r_g r))"
proof (cases k)
  case (Suc k')
  have "session_turn J E c prompt tools n r = Some (r', Failed)" if "session_turn J E c prompt tools n r = Some (r', nx)" for r' nx
    using that assms(2) by (auto simp: session_turn_def Let_def case_prod_unfold)
  with assms(1) Suc have s: "session_turn J E c prompt tools n r = Some (r', Failed)" by (fastforce simp: bind_eq_Some_conv split: if_splits)
  then show ?thesis using assms(2) by (auto simp: session_turn_def Let_def case_prod_unfold)
qed (use assms(1) in simp)

lemma failing_session_runs_nothing:
  assumes "agent_run_session J E x store th ty data g = Some (g', failed)" "\<And>e prov sys ms ts st. snd (snd (snd (llm_call e J prov sys ms ts st))) \<noteq> 0"
  shows "w_ran (g_world g') = w_ran (g_world g)"
proof -
  obtain g1 c resume conv_id sq tn where o: "session_open J E x store th ty data g = (g1, c, resume, conv_id, sq, tn)" by (metis prod_cases6)
  note f = session_open_frame(11) [OF o]
  show ?thesis
  proof (cases tn)
    case None
    then show ?thesis using assms(1) o f by (auto simp: agent_run_session_def)
  next
    case (Some op)
    define g2 where "g2 = (if resume then g1\<lparr>g_conv := None\<rparr> else g1)"
    define g3 where "g3 = (if sx_talk c \<and> ty = TRIG_IRC then chat_line_add E c (owner_label (a_name (self c g2))) data g2 else g2)"
    note u = assms(1) [unfolded agent_run_session_def o Some prod.case option.case Let_def, folded g2_def, folded g3_def]
    obtain prompt tools k r0 r fl lim where s: "session_turns J E c prompt tools k 0 r0 = Some (r, fl, lim)" "r_g r0 = g3" "g' = session_close J E c conv_id sq r fl lim"
      using u by (auto simp: bind_eq_Some_conv)
    have "w_ran (g_world g3) = w_ran (g_world g)" using f by (simp add: g3_def g2_def)
    then show ?thesis using failing_turns_run_nothing [OF s(1) assms(2)] by (simp add: s(2,3) session_close_runs_nothing)
  qed
qed

lemma unprintable_calls_fail: "snd (snd (snd (llm_call e (table_cjson []) prov sys ms ts st))) \<noteq> 0"
  by (simp add: llm_call_def call_anthropic_def call_openai_def table_cjson_def)

theorem repeated_calls_bounded_witness:
  "\<exists>g' failed cs. agent_run_session (table_cjson []) agent_env_sample ctx_sample ''log'' None TRIG_IRC ''hi'' sess_sample = Some (g', failed) \<and>
     w_ran (g_world g') = w_ran (g_world sess_sample) @ cs \<and> card (hash_of (table_cjson []) ` set cs) \<le> 64 \<and> count_list cs (''exec'', CObject []) \<le> 2"
proof -
  obtain g' failed where s: "agent_run_session (table_cjson []) agent_env_sample ctx_sample ''log'' None TRIG_IRC ''hi'' sess_sample = Some (g', failed)"
    using agent_session_defined [OF empty_cjson_laws sess_sample_props(3)] by blast
  from repeated_calls_bounded [OF s empty_cjson_laws sess_sample_props(1,2)] obtain cs where cs: "w_ran (g_world g') = w_ran (g_world sess_sample) @ cs"
    "card (hash_of (table_cjson []) ` set cs) \<le> 64 \<longrightarrow> count_list cs (''exec'', CObject []) \<le> 2" using sess_sample_props(5) by fastforce
  have "cs = []" using failing_session_runs_nothing [OF s unprintable_calls_fail] cs(1) by simp
  then have "card (hash_of (table_cjson []) ` set cs) \<le> 64" by simp
  with s cs show ?thesis by blast
qed

theorem system_prompt_stable_witness:
  "\<exists>g' failed. agent_run_session llm_cjson agent_env_sample ctx_sample ''log'' None TRIG_IRC ''hi'' sess_sample = Some (g', failed) \<and>
     build_system_prompt ctx_sample (g_world g') 65536 = build_system_prompt ctx_sample (g_world sess_sample) 65536"
proof -
  obtain g' failed where s: "agent_run_session llm_cjson agent_env_sample ctx_sample ''log'' None TRIG_IRC ''hi'' sess_sample = Some (g', failed)"
    by (rule session_sample)
  from system_prompt_stable [OF s llm_cjson_laws sess_sample_props(1,2,1,5), of 65536] s show ?thesis by blast
qed

end
