(* ===== verification/Cli.thy ===== *)
theory Cli
  imports Event_Loop Plugin
begin

text \<open>
  \<open>src/main.c\<close>: the command line of the program, in a build with plugins and without a baked prefix. The short commands talk to the daemon over one
  connection of the control socket; the others start the daemon or the terminal client, which are modelled in their own
  theories. Paths are relative to the working directory, so changing it gives another view of the files.

  The lemmas show what each command asks the daemon to do, from the arguments of the program to the state of the daemon.
\<close>

section \<open>One request\<close>

text \<open>What the process prints and what it writes to the daemon.\<close>

datatype cli_out = Out string | Err string | Frame string

record conn_env =
  cn_ok :: bool
  cn_hdr :: "io_res list"
  cn_body :: "io_res list"
  cn_reads :: "rd_res list"

definition request :: "conn_env \<Rightarrow> 32 word \<Rightarrow> string option \<Rightarrow> 32 word \<Rightarrow> bool \<Rightarrow> cli_out list \<times> int" where
  "request e cmd data len want_reply =
     (if \<not> cn_ok e then ([Err (''Cannot connect to daemon'' @ [LF])], 1)
      else let (w, rc) = sock_send (cn_hdr e) (cn_body e) cmd data len
           in if rc \<noteq> 0 then ([Frame w, Err (''Request failed'' @ [LF])], 1)
              else (Frame w # (if want_reply
                               then (case sock_read_cmd (cn_reads e) 4096 of Some (type, reply, n, rest) \<Rightarrow> [Out (cstr reply @ [LF])] | None \<Rightarrow> [])
                               else []), 0))"

text \<open>\<open>probe\<close>: the first connection, closed at once.\<close>

definition cmd_irc_info :: "bool \<Rightarrow> conn_env \<Rightarrow> fs \<Rightarrow> cli_out list \<times> int" where
  "cmd_irc_info probe e fs =
     (if probe then request e SOCK_CMD_IRC_INFO None 0 True
      else let path = buf_set 4200 (cli_data_dir fs 4096 @ ''/irc.secret'')
           in case file_slurp fs path of
                Slurped data \<Rightarrow> ([Out (cstr data)], 0)
              | _ \<Rightarrow> ([Err (''Cannot connect to daemon and no '' @ path @ '' found'' @ [LF])], 1))"

definition cmd_msg :: "conn_env \<Rightarrow> string \<Rightarrow> string \<Rightarrow> cli_out list \<times> int" where
  "cmd_msg e agent tx =
     (let tot = length agent + 1 + length tx
      in if tot \<ge> 4096 then ([Err (''Message too long'' @ [LF])], 1)
         else let (outs, rc) = request e SOCK_CMD_MSG (Some (agent @ NUL # tx)) (of_nat tot) False
              in if rc \<noteq> 0 then (outs, 1) else (outs @ [Out (''Message sent to '' @ agent @ ''.'' @ [LF])], 0))"

text \<open>A registry of its own, empty; \<open>None\<close> when the compiler never ends.\<close>

definition cmd_compile :: "cjson_api \<Rightarrow> compile_env \<Rightarrow> int \<Rightarrow> string \<Rightarrow> (cli_out list \<times> int) option" where
  "cmd_compile J e mtime src =
     map_option (\<lambda>(r, err, rc). if rc = 0 then ([Out (''Compiled and loaded: '' @ src @ '' (plugin: '' @ err @ '')'' @ [LF])], 0)
                                else ([Err (''Compilation failed:'' @ [LF] @ err @ [LF])], 1))
       (plugin_compile J e \<lparr>pr_dir = [], pr_plugins = [], pr_failed = []\<rparr> src mtime 4096)"

section \<open>Starting the daemon\<close>

datatype fork_res = ForkFails | Parent nat | Child

datatype main_res = Exit "cli_out list" int | DaemonRuns daemon_t fs | TuiRuns "string option"

definition shutdown_handler :: "daemon_t \<Rightarrow> daemon_t" where
  "shutdown_handler d = d\<lparr>d_shutdown := True\<rparr>"

text \<open>\<open>devnull\<close>: the streams of a daemon in the background could be redirected. A daemon that starts goes on with its event loop.\<close>

definition cmd_daemon :: "fork_res \<Rightarrow> string \<Rightarrow> bool \<Rightarrow> boot_env \<Rightarrow> fs \<Rightarrow> bool \<Rightarrow> main_res" where
  "cmd_daemon fk errno devnull be fs daemonize =
     (case (if daemonize then fk else Child) of
        ForkFails \<Rightarrow> Exit [Err (''fork: '' @ errno @ [LF])] 1
      | Parent pid \<Rightarrow> Exit [Out (''Daemon started (pid='' @ dec_nat pid @ '')'' @ [LF])] 0
      | Child \<Rightarrow>
          (case ini_load fs ''etc/config.ini'' of
             None \<Rightarrow> Exit (if daemonize \<and> devnull then [] else [Err (''Cannot load etc/config.ini'' @ [LF])]) 1
           | Some cfg \<Rightarrow> (case daemon_start be cfg fs of None \<Rightarrow> Exit [] 1 | Some (d, fs') \<Rightarrow> DaemonRuns d fs')))"

section \<open>The command line\<close>

record main_env =
  mn_chdir :: "fs \<Rightarrow> string \<Rightarrow> fs option"
  mn_errno :: string
  mn_probe :: bool
  mn_conn :: conn_env
  mn_compile :: compile_env
  mn_mtime :: int
  mn_fork :: fork_res
  mn_devnull :: bool
  mn_boot :: boot_env

definition usage_text :: string where
  "usage_text = ''shclaw v0.1.3 '' @ [CHR 0xE2, CHR 0x80, CHR 0x94] @ '' self-contained multi-agent AI daemon'' @ [LF, LF] @
     ''Usage:'' @ [LF] @
     ''  shclaw [options]           Start daemon (foreground)'' @ [LF] @
     ''  shclaw [options] -d        Start daemon (background)'' @ [LF] @
     ''  shclaw [options] status    Show agent status'' @ [LF] @
     ''  shclaw [options] msg <agent> <text>  Send message'' @ [LF] @
     ''  shclaw [options] stop      Graceful shutdown'' @ [LF] @
     ''  shclaw [options] irc-info  Show IRC channel + key'' @ [LF] @
     ''  shclaw [options] compile <file.c>  Compile a plugin'' @ [LF] @
     ''  shclaw [options] tui [agent]       Terminal chat UI'' @ [LF] @
     [LF] @ ''Options:'' @ [LF] @
     ''  --workdir=DIR  Set working directory (instance root)'' @ [LF] @
     ''                 Auto-detected if $PWD/etc/config.ini exists'' @ [LF, LF]"

definition no_config_text :: string where
  "no_config_text = ''No etc/config.ini found in current directory.'' @ [LF, LF] @ ''Either run shclaw from an instance directory containing'' @ [LF] @
     ''etc/config.ini, or specify one with:'' @ [LF, LF] @ ''  shclaw --workdir=/path/to/instance'' @ [LF, LF]"

text \<open>The options: the rest of the arguments, the files of the working directory, and whether it was given.\<close>

fun main_options :: "main_env \<Rightarrow> string list \<Rightarrow> fs \<Rightarrow> bool \<Rightarrow> cli_out list + string list \<times> fs \<times> bool" where
  "main_options e [] fs workdir_set = Inr ([], fs, workdir_set)"
| "main_options e (a # as) fs workdir_set =
     (if \<not> starts_with ''--'' a then Inr (a # as, fs, workdir_set)
      else if starts_with ''--workdir='' a
      then (case mn_chdir e fs (drop 10 a) of
              None \<Rightarrow> Inl [Err (''Cannot chdir to '' @ [CHR 0x27] @ drop 10 a @ [CHR 0x27] @ '': '' @ mn_errno e @ [LF])]
            | Some fs' \<Rightarrow> main_options e as fs' True)
      else Inl [Err (''Unknown option: '' @ a @ [LF]), Err usage_text])"

abbreviation exits :: "cli_out list \<times> int \<Rightarrow> main_res" where
  "exits r \<equiv> Exit (fst r) (snd r)"

definition main_command :: "cjson_api \<Rightarrow> main_env \<Rightarrow> fs \<Rightarrow> string list \<Rightarrow> main_res option" where
  "main_command J e fs args =
     (case args of
        [] \<Rightarrow> Some (cmd_daemon (mn_fork e) (mn_errno e) (mn_devnull e) (mn_boot e) fs False)
      | cmd # as \<Rightarrow>
          if cmd = ''-d'' then Some (cmd_daemon (mn_fork e) (mn_errno e) (mn_devnull e) (mn_boot e) fs True)
          else if cmd = ''status'' then Some (exits (request (mn_conn e) SOCK_CMD_STATUS None 0 True))
          else if cmd = ''stop''
          then (let (outs, rc) = request (mn_conn e) SOCK_CMD_STOP None 0 False
                in Some (if rc \<noteq> 0 then Exit outs 1 else Exit (outs @ [Out (''Stop signal sent.'' @ [LF])]) 0))
          else if cmd = ''irc-info'' then Some (exits (cmd_irc_info (mn_probe e) (mn_conn e) fs))
          else if cmd = ''msg''
          then (case as of
                  agent # tx # more' \<Rightarrow> Some (exits (cmd_msg (mn_conn e) agent tx))
                | _ \<Rightarrow> Some (Exit [Err (''Usage: shclaw msg <agent> <text>'' @ [LF])] 1))
          else if cmd = ''compile''
          then (case as of
                  src # more' \<Rightarrow> map_option exits (cmd_compile J (mn_compile e) (mn_mtime e) src)
                | [] \<Rightarrow> Some (Exit [Err (''Usage: shclaw compile <file.c>'' @ [LF])] 1))
          else if cmd = ''tui'' then Some (TuiRuns (case as of [] \<Rightarrow> None | t # more' \<Rightarrow> Some t))
          else Some (Exit [Err usage_text] 1))"

definition main_run :: "cjson_api \<Rightarrow> main_env \<Rightarrow> fs \<Rightarrow> string list \<Rightarrow> main_res option" where
  "main_run J e fs args =
     (case main_options e args fs False of
        Inl outs \<Rightarrow> Some (Exit outs 1)
      | Inr (rest, fs', workdir_set) \<Rightarrow>
          if \<not> workdir_set \<and> \<not> file_exists fs' ''etc/config.ini'' then Some (Exit [Err no_config_text] 1) else main_command J e fs' rest)"

section \<open>From the command line to the daemon\<close>

lemma main_run_command:
  "\<not> starts_with ''--'' cmd \<Longrightarrow> file_exists fs ''etc/config.ini'' \<Longrightarrow> main_run J e fs (cmd # as) = main_command J e fs (cmd # as)"
  by (simp add: main_run_def)

text \<open>
  (C23) \<open>shclaw msg\<close>: when the process reports that the message was sent, the bytes it wrote, once the daemon has read them from a new connection,
  however split, queue the text, whole and unchanged, for the agent of that name and no other; and a message that the daemon
  could not take in one frame is refused before anything is sent.
\<close>

theorem cli_message_reaches_agent:
  assumes "file_exists fs ''etc/config.ini''" "main_run J e fs [''msg'', agent, tx] = Some (Exit outs rc)"
    "daemon_wf d" "i < length (d_agents d)" "a_name (d_agents d ! i) = agent" "length (d_queue d) < 64" "\<not> cl_oom c i" "NUL \<notin> set tx"
  shows "if rc = 0
    then \<exists>w. outs = [Frame w, Out (''Message sent to '' @ agent @ ''.'' @ [LF])] \<and>
           (stream (cl_reads c) = w \<longrightarrow> handle_new_client J c (Some n) d = (d\<lparr>d_queue := d_queue d @ [(i, tx)]\<rparr>, [Queued i tx, Closed n]))
    else rc = 1 \<and> (\<exists>m. Err m \<in> set outs) \<and> (4096 \<le> length (agent @ NUL # tx) \<longrightarrow> (\<forall>w. Frame w \<notin> set outs))"
proof -
  have m: "Exit outs rc = exits (cmd_msg (mn_conn e) agent tx)"
    using assms(2) main_run_command [OF _ assms(1), of "''msg''" J e "[agent, tx]"] by (simp add: main_command_def starts_with_def)
  let ?len = "of_nat (length agent + 1 + length tx) :: 32 word"
  obtain w r where s: "sock_send (cn_hdr (mn_conn e)) (cn_body (mn_conn e)) SOCK_CMD_MSG (Some (agent @ NUL # tx)) ?len = (w, r)" by fastforce
  show ?thesis
  proof (cases "length agent + 1 + length tx < 4096 \<and> cn_ok (mn_conn e) \<and> r = 0")
    case True
    then have o: "outs = [Frame w, Out (''Message sent to '' @ agent @ ''.'' @ [LF])]" "rc = 0" using m s by (simp_all add: cmd_msg_def request_def)
    have "handle_new_client J c (Some n) d = (d\<lparr>d_queue := d_queue d @ [(i, tx)]\<rparr>, [Queued i tx, Closed n])" if "stream (cl_reads c) = w"
      by (rule client_message_queued [OF assms(3-8) _ _ that, of "cn_hdr (mn_conn e)" "cn_body (mn_conn e)"]) (use True s in \<open>simp_all add: add.commute\<close>)
    with o show ?thesis by simp
  next
    case False
    then have "rc = 1" "\<exists>m. Err m \<in> set outs" using m s by (auto simp: cmd_msg_def request_def Let_def split: if_splits)
    moreover have "Frame v \<notin> set outs" if "4096 \<le> length (agent @ NUL # tx)" for v using m that by (simp add: cmd_msg_def)
    ultimately show ?thesis by simp
  qed
qed

text \<open>\<open>shclaw stop\<close> makes the daemon leave its loop, as the signals do.\<close>

lemma cli_stop_stops:
  assumes "file_exists fs ''etc/config.ini''" "main_run J e fs [''stop''] = Some (Exit outs 0)"
  shows "\<exists>w. outs = [Frame w, Out (''Stop signal sent.'' @ [LF])] \<and>
    (stream (cl_reads c) = w \<longrightarrow> handle_new_client J c (Some n) d = (shutdown_handler d, [Closed n]))"
proof -
  obtain w r where s: "sock_send (cn_hdr (mn_conn e)) (cn_body (mn_conn e)) SOCK_CMD_STOP None 0 = (w, r)" by fastforce
  have o: "outs = [Frame w, Out (''Stop signal sent.'' @ [LF])]" "r = 0"
    using assms(2) s main_run_command [OF _ assms(1), of "''stop''" J e "[]"] by (auto simp: main_command_def request_def starts_with_def split: if_splits)
  have w: "w = le32 SOCK_CMD_STOP @ le32 0" using s o(2) by (auto simp: sock_send_def Let_def write_all_prefix split: prod.splits if_splits dest: write_all_prefix)
  have "handle_new_client J c (Some n) d = (shutdown_handler d, [Closed n])" if "stream (cl_reads c) = w"
  proof -
    have "stream (cl_reads c) = le32 SOCK_CMD_STOP @ le32 (0 :: 32 word) @ [] @ []" using that w by simp
    from sock_read_frame [OF this, of 4096] obtain k rest where "sock_read_cmd (cl_reads c) 4096 = Some (SOCK_CMD_STOP, [], k, rest)" by auto
    then show ?thesis by (simp add: handle_new_client_def shutdown_handler_def)
  qed
  with o show ?thesis by simp
qed

text \<open>A request whose reply is lost: nothing is printed, and the process still reports success.\<close>

lemma cli_status_silent:
  assumes "cn_ok (mn_conn e)" "sock_send (cn_hdr (mn_conn e)) (cn_body (mn_conn e)) SOCK_CMD_STATUS None 0 = (w, 0)" "sock_read_cmd (cn_reads (mn_conn e)) 4096 = None"
  shows "main_command J e fs [''status''] = Some (Exit [Frame w] 0)"
  using assms by (simp add: main_command_def request_def)

definition main_sample :: main_env where
  "main_sample = \<lparr>mn_chdir = (\<lambda>_ _. None), mn_errno = [], mn_probe = True, mn_conn = \<lparr>cn_ok = True, cn_hdr = [], cn_body = [], cn_reads = []\<rparr>,
     mn_compile = compile_sample ''weather'', mn_mtime = 0, mn_fork = Child, mn_devnull = True, mn_boot = boot_sample\<rparr>"

theorem cli_message_reaches_agent_witness:
  "\<exists>d c agent outs. main_run (table_cjson []) main_sample [''etc/config.ini'' \<mapsto> File []] [''msg'', agent, ''hi''] = Some (Exit outs 0) \<and>
     handle_new_client (table_cjson []) c (Some 9) d = (d\<lparr>d_queue := d_queue d @ [(0, ''hi'')]\<rparr>, [Queued 0 ''hi'', Closed 9])"
proof -
  obtain d fs where s: "daemon_start boot_sample boot_cfg boot_fs = Some (d, fs)" using boot_sample_starts by blast
  note p = daemon_start_props [OF s]
  define agent where "agent = a_name (d_agents d ! 0)"
  have v: "length agent < 32" using p by (auto simp: agent_def daemon_wf_def agents_wf_def list_all_iff)
  let ?fs = "[''etc/config.ini'' \<mapsto> File []]"
  have f: "file_exists ?fs ''etc/config.ini''" by (simp add: file_exists_def)
  obtain w where w: "sock_send [] [] SOCK_CMD_MSG (Some (agent @ NUL # ''hi'')) (of_nat (length agent + 1 + length ''hi'')) = (w, 0)" using sock_send_all by blast
  obtain outs where m: "main_run (table_cjson []) main_sample ?fs [''msg'', agent, ''hi''] = Some (Exit outs 0)" "Frame w \<in> set outs"
    using main_run_command [OF _ f, of "''msg''" "table_cjson []" main_sample "[agent, ''hi'']"] v w
    by (simp add: main_command_def starts_with_def cmd_msg_def request_def main_sample_def)
  define c where "c = msg_client\<lparr>cl_reads := [RBytes w]\<rparr>"
  have "w \<noteq> []" using w by (auto simp: sock_send_def write_all_all le32_def Let_def split: if_splits)
  then have r: "stream (cl_reads c) = w" by (simp add: c_def)
  have "if (0 :: int) = 0
    then \<exists>w. outs = [Frame w, Out (''Message sent to '' @ agent @ ''.'' @ [LF])] \<and>
           (stream (cl_reads c) = w \<longrightarrow> handle_new_client (table_cjson []) c (Some 9) d = (d\<lparr>d_queue := d_queue d @ [(0, ''hi'')]\<rparr>, [Queued 0 ''hi'', Closed 9]))
    else (0 :: int) = 1 \<and> (\<exists>m. Err m \<in> set outs) \<and> (4096 \<le> length (agent @ NUL # ''hi'') \<longrightarrow> (\<forall>w. Frame w \<notin> set outs))"
    by (rule cli_message_reaches_agent [OF f m(1)]) (use p in \<open>simp_all add: agent_def c_def msg_client_def\<close>)
  then show ?thesis using m r by auto
qed

end
