(* ===== verification/Logging.thy ===== *)
theory Logging
  imports Memory
begin

text \<open>
  \<open>src/log.c\<close>: lines to standard error and to one file per day. The state are the directory, the day of the open file and its
  path; the lock, and the handlers that hold it over \<open>fork\<close>, are not modelled.

  The lemmas show that logging only ever adds to files, and that a line goes, whole, to the file of its own day, unless the program was silent for a year.
\<close>

section \<open>State and operations\<close>

record log_t =
  lg_dir :: string
  lg_day :: int
  lg_file :: "string option"

text \<open>What the system does: whether a file can be opened, and an append.\<close>

record log_env =
  lg_opens :: bool
  lg_append :: append_env

definition tm_yday :: "time \<Rightarrow> int" where
  "tm_yday t = (let d = t div 86400 + 719162 in d - days_before_year (year_of_day d))"

definition log_path :: "string \<Rightarrow> time \<Rightarrow> string" where
  "log_path dir t =
     (let u = gmtime_r t
      in buf_set 4200 (dir @ ''/shclaw_'' @ fmt_0d 4 (tm_year u + 1900) @ ''-'' @ fmt_0d 2 (tm_mon u + 1) @ ''-'' @ fmt_0d 2 (tm_mday u) @ ''.log''))"

text \<open>Opening for appending makes the file. The last result is what goes to standard error.\<close>

definition log_open_day :: "log_env \<Rightarrow> time \<Rightarrow> log_t \<times> fs \<Rightarrow> (log_t \<times> fs) \<times> string" where
  "log_open_day e t = (\<lambda>(s, fs).
     let path = log_path (lg_dir s) t
     in if lg_opens e then ((s\<lparr>lg_file := Some path, lg_day := tm_yday t\<rparr>, if fs path = None then fs(path \<mapsto> File []) else fs), [])
        else ((s\<lparr>lg_file := None, lg_day := tm_yday t\<rparr>, fs), ''warning: cannot open log file '' @ path @ [LF]))"

text \<open>The directories that are made come last.\<close>

definition log_init :: "log_env \<Rightarrow> time \<Rightarrow> string \<Rightarrow> log_t \<times> fs \<Rightarrow> (log_t \<times> fs) \<times> string \<times> string list" where
  "log_init e t log_dir = (\<lambda>(s, fs).
     let (s', err) = log_open_day e t (s\<lparr>lg_dir := buf_set 4096 log_dir\<rparr>, fs) in (s', err, mkdirs_for log_dir @ [log_dir]))"

definition log_close :: "log_t \<Rightarrow> log_t" where
  "log_close s = s\<lparr>lg_file := None, lg_dir := []\<rparr>"

definition log_line :: "string \<Rightarrow> string \<Rightarrow> time \<Rightarrow> string" where
  "log_line level msg t =
     (let u = gmtime_r t
      in buf_set 32 (fmt_0d 4 (tm_year u + 1900) @ ''-'' @ fmt_0d 2 (tm_mon u + 1) @ ''-'' @ fmt_0d 2 (tm_mday u) @ '' '' @ fmt_0d 2 (tm_hour u) @ '':'' @
           fmt_0d 2 (tm_min u) @ '':'' @ fmt_0d 2 (tm_sec u)) @ '' ['' @ level @ ''] '' @ buf_set 4096 msg @ [LF])"

definition log_write :: "log_env \<Rightarrow> string \<Rightarrow> string \<Rightarrow> time \<Rightarrow> log_t \<times> fs \<Rightarrow> (log_t \<times> fs) \<times> string" where
  "log_write e level msg t s0 =
     (let line = log_line level msg t;
          ((s, fs), err) = (if lg_dir (fst s0) \<noteq> [] \<and> tm_yday t \<noteq> lg_day (fst s0) then log_open_day e t s0 else (s0, []))
      in ((s, case lg_file s of None \<Rightarrow> fs | Some p \<Rightarrow> fst (append_file (lg_append e) p line fs)), err @ line))"

definition log_info :: "log_env \<Rightarrow> string \<Rightarrow> time \<Rightarrow> log_t \<times> fs \<Rightarrow> (log_t \<times> fs) \<times> string" where
  "log_info e = log_write e ''INFO''"

definition log_warn :: "log_env \<Rightarrow> string \<Rightarrow> time \<Rightarrow> log_t \<times> fs \<Rightarrow> (log_t \<times> fs) \<times> string" where
  "log_warn e = log_write e ''WARN''"

definition log_error :: "log_env \<Rightarrow> string \<Rightarrow> time \<Rightarrow> log_t \<times> fs \<Rightarrow> (log_t \<times> fs) \<times> string" where
  "log_error e = log_write e ''ERROR''"

section \<open>Logging only adds\<close>

definition node_bytes :: "fnode option \<Rightarrow> string" where
  "node_bytes n = (case n of None \<Rightarrow> [] | Some (File d) \<Rightarrow> d | Some (Unreadable d) \<Rightarrow> d)"

definition grown :: "fs \<Rightarrow> fs \<Rightarrow> bool" where
  "grown fs fs' \<longleftrightarrow> (\<forall>p. \<exists>more'. node_bytes (fs' p) = node_bytes (fs p) @ more')"

lemma grown_refl [simp]: "grown fs fs"
  by (simp add: grown_def)

lemma grown_trans: "grown a b \<Longrightarrow> grown b c \<Longrightarrow> grown a c"
  unfolding grown_def by (metis append.assoc)

lemma open_day_grown: "log_open_day e t (s, fs) = ((s', fs'), err) \<Longrightarrow> grown fs fs'"
  by (auto simp: log_open_day_def Let_def grown_def node_bytes_def split: if_splits)

lemma append_node_bytes: "node_bytes (Some (append_node n d)) = node_bytes n @ d"
  by (cases n rule: option.exhaust) (auto simp: append_node_def node_bytes_def split: fnode.split)

lemma append_grown: "grown fs (fst (append_file e p d fs))"
  by (auto simp: append_file_def append_node_def grown_def node_bytes_def split: append_env.splits option.splits fnode.splits)

lemma log_write_grown:
  assumes "log_write e level msg t (s, fs) = ((s', fs'), err)"
  shows "grown fs fs'"
proof -
  obtain s1 fs1 e1 where o: "(if lg_dir s \<noteq> [] \<and> tm_yday t \<noteq> lg_day s then log_open_day e t (s, fs) else ((s, fs), [])) = ((s1, fs1), e1)" by (metis prod.exhaust)
  then have "grown fs fs1" using open_day_grown by (auto split: if_splits)
  moreover have "fs' = (case lg_file s1 of None \<Rightarrow> fs1 | Some p \<Rightarrow> fst (append_file (lg_append e) p (log_line level msg t) fs1))"
    using assms o by (auto simp: log_write_def Let_def)
  then have "grown fs1 fs'" using append_grown by (auto split: option.splits)
  ultimately show ?thesis by (rule grown_trans)
qed

section \<open>One file per day\<close>

text \<open>The open file is the one of time \<open>t0\<close>.\<close>

definition log_wf :: "time \<Rightarrow> log_t \<Rightarrow> bool" where
  "log_wf t0 s \<longleftrightarrow> lg_dir s \<noteq> [] \<and> lg_file s = Some (log_path (lg_dir s) t0) \<and> lg_day s = tm_yday t0"

lemma log_path_day:
  assumes "tm_year (gmtime_r t) = tm_year (gmtime_r t0)" "tm_yday t = tm_yday t0"
  shows "log_path dir t = log_path dir t0"
proof -
  have y: "year_of_day (t div 86400 + 719162) = year_of_day (t0 div 86400 + 719162)" using assms(1) by (simp add: gmtime_r_def Let_def case_prod_unfold)
  then have "t div 86400 = t0 div 86400" using assms(2) by (simp add: tm_yday_def Let_def)
  then have "tm_mon (gmtime_r t) = tm_mon (gmtime_r t0)" "tm_mday (gmtime_r t) = tm_mday (gmtime_r t0)" by (simp_all add: gmtime_r_def Let_def case_prod_unfold)
  then show ?thesis using assms(1) by (simp add: log_path_def Let_def)
qed

text \<open>
  A record goes to the file of its own day, at its end and whole, and to no other file, whatever the day of the last record was in the same year; so the
  logs of a running program are one file per day.
\<close>

lemma log_line_filed:
  assumes "log_wf t0 s" "tm_year (gmtime_r t) = tm_year (gmtime_r t0)" "lg_opens e" "lg_append e = AppendOk"
  shows "\<exists>s' fs' err. log_write e level msg t (s, fs) = ((s', fs'), err) \<and> log_wf t s' \<and> lg_dir s' = lg_dir s \<and>
    node_bytes (fs' (log_path (lg_dir s) t)) = node_bytes (fs (log_path (lg_dir s) t)) @ log_line level msg t \<and>
    (\<forall>p. p \<noteq> log_path (lg_dir s) t \<longrightarrow> fs' p = fs p)"
proof -
  define p where "p = log_path (lg_dir s) t"
  have ap: "node_bytes (fst (append_file (lg_append e) p d f) p) = node_bytes (f p) @ d \<and> (\<forall>q. q \<noteq> p \<longrightarrow> fst (append_file (lg_append e) p d f) q = f q)" for d f
    using assms(4) by (simp add: append_file_def append_node_bytes)
  show ?thesis
  proof (cases "tm_yday t = lg_day s")
    case True
    then have "p = log_path (lg_dir s) t0" unfolding p_def by (intro log_path_day [OF assms(2)]) (use assms(1) in \<open>simp add: log_wf_def\<close>)
    then have f: "lg_file s = Some p" using assms(1) by (simp add: log_wf_def)
    have "log_write e level msg t (s, fs) = ((s, fst (append_file (lg_append e) p (log_line level msg t) fs)), log_line level msg t)"
      using True f by (simp add: log_write_def Let_def)
    moreover have "log_wf t s" using assms(1) True f by (simp add: log_wf_def p_def)
    ultimately show ?thesis unfolding p_def [symmetric] using ap by blast
  next
    case False
    define s1 fs1 where "s1 = s\<lparr>lg_file := Some p, lg_day := tm_yday t\<rparr>" and "fs1 = (if fs p = None then fs(p \<mapsto> File []) else fs)"
    have d: "lg_dir s \<noteq> []" using assms(1) by (simp add: log_wf_def)
    have o: "log_open_day e t (s, fs) = ((s1, fs1), [])" using assms(3) by (simp add: log_open_day_def Let_def s1_def fs1_def p_def)
    have "log_write e level msg t (s, fs) = ((s1, fst (append_file (lg_append e) p (log_line level msg t) fs1)), log_line level msg t)"
      using False d o by (simp add: log_write_def s1_def Let_def)
    moreover have "log_wf t s1" "lg_dir s1 = lg_dir s" using d by (simp_all add: log_wf_def s1_def p_def)
    moreover have b: "node_bytes (fs1 p) = node_bytes (fs p)" "\<And>q. q \<noteq> p \<Longrightarrow> fs1 q = fs q" by (simp_all add: fs1_def node_bytes_def)
    have "node_bytes (fst (append_file (lg_append e) p (log_line level msg t) fs1) p) = node_bytes (fs p) @ log_line level msg t"
      using ap [of "log_line level msg t" fs1] b(1) by simp
    moreover have "\<forall>q. q \<noteq> p \<longrightarrow> fst (append_file (lg_append e) p (log_line level msg t) fs1) q = fs q" using ap [of "log_line level msg t" fs1] b(2) by simp
    ultimately show ?thesis unfolding p_def [symmetric] by (intro exI conjI) assumption+
  qed
qed

lemma log_init_wf: "lg_opens e \<Longrightarrow> log_dir \<noteq> [] \<Longrightarrow> log_init e t log_dir (s, fs) = ((s', fs'), err, ds) \<Longrightarrow> log_wf t s'"
  by (cases log_dir) (auto simp: log_init_def log_open_day_def log_wf_def Let_def buf_set_def)

end
