(* ===== verification/Spec2Isabelle.thy ===== *)
theory Spec2Isabelle
  imports Event_Loop Tui Ca Agent_Loop Cli Logging
begin

text \<open>
  A model of shclaw, a daemon in C that runs LLM agents and talks to its owner over IRC, a
  terminal client and a command line. The parts of the program and the theories that model them
  (C files under \<open>src/src\<close>, declarations in \<open>src/include/tc.h\<close>):

  \<^item> \<open>Prelude\<close>, \<open>Calendar\<close>: bytes, C strings, decimal text, \<open>strtol\<close>, 32-bit wrap-around, and the
    calendar functions of the C library (\<open>gmtime_r\<close>, \<open>timegm\<close>, a time zone as a parameter).
  \<^item> \<open>Util\<close> (\<open>util.c\<close>): complete writes, atomic replacement of files, UTF-8, ISO times; also the file
    system of the model (a map from paths to nodes) and the interface \<open>append_store\<close> of stores that grow at
    their end. \<open>Cjson\<close>: the JSON library as a record of functions with named laws, and the accessors of
    \<open>util.c\<close> over it.
  \<^item> \<open>Ini\<close> (\<open>ini.c\<close>), \<open>Irc_Parse\<close> (\<open>irc_parse.c\<close>), \<open>Irc\<close> (\<open>irc.c\<close>), \<open>Sock\<close> (\<open>sock.c\<close>), \<open>Http\<close> (\<open>http.c\<close>):
    configuration, mentions, the IRC client, the frames of the control socket, the HTTP client.
  \<^item> \<open>Chat\<close> and \<open>Session\<close> (\<open>session.c\<close>), \<open>Scheduler\<close> (\<open>scheduler.c\<close>), \<open>Memory\<close> (\<open>memory.c\<close>), \<open>Messenger\<close>
    (\<open>messenger.c\<close>), \<open>Tool_Exec\<close> (\<open>tool_exec.c\<close>): the stores and services of an agent.
  \<^item> \<open>Config\<close>, \<open>Daemon\<close>, \<open>Daemon_Steps\<close>, \<open>Event_Loop\<close> (\<open>daemon.c\<close>): start-up, the operations of the
    event loop, the daemon as a transition system, and its properties.
  \<^item> \<open>Tool_Table\<close> and \<open>Tools\<close> (\<open>tools.c\<close>), \<open>Plugin\<close> (\<open>plugin.c\<close>), \<open>Tui\<close> (\<open>tui.c\<close>), \<open>Ca\<close> (\<open>ca.c\<close>): the table of
    tools with the check of their arguments, what each tool does, the registry of plugins, the terminal client, the certificate store.
  \<^item> \<open>Provider\<close> (\<open>provider.c\<close>): calls of a language model in two protocols, with their retries, and the conversion of
    the conversation between them.
  \<^item> \<open>Prompt\<close> (\<open>prompt.h\<close> and the first part of \<open>agent.c\<close>), \<open>Agent\<close> (\<open>agent.c\<close>), \<open>Agent_Loop\<close>: the texts and the turns built from a
    trigger; a session of an agent with the model, over \<open>Tools\<close>, \<open>Plugin\<close> and \<open>Provider\<close>; and what a session guarantees: it ends, it sends
    only complete conversations, it runs no call more often than its limit, it leaves roles and system prompts alone, and only the builder's
    session runs \<open>create_plugin\<close> and changes the registry of loaded plugins.
  \<^item> \<open>Cli\<close> (\<open>main.c\<close>), \<open>Logging\<close> (\<open>log.c\<close>): the command line, and the files of the log.

  The kernel, the clock, random numbers, TLS, the compiler and memory exhaustion are environment: an
  operation takes what they answer as arguments (a script of partial writes, the bytes of each read, the
  time), and the theorems hold for all answers. Locks are not modelled; an operation is one step.
  Buffers keep their sizes (\<open>buf_set\<close>, \<open>buf_appendf\<close>), integers their width where it matters.

  Loops are recursive functions with a measure. A session has the fuel \<open>max_turns_of\<close>, which is the bound of the loop in the code; a wait for a child
  ends when the clock passes its time limit, and a child that is killed then is reaped: the hypothesis \<open>env_ends\<close>.

  A command run by \<open>exec\<close> and a plugin may do anything to the files: \<open>te_exec_fs\<close> and \<open>te_plugin_fs\<close> give the file system they leave, for every
  command and input, and a session is proved for all of them. The world has one field that the program does not have, \<open>w_ran\<close>, the calls that \<open>run_tool\<close> ran so
  far; nothing reads it but the theorems. What is said of the registry of plugins is about loaded plugins: a file that an agent puts below \<open>plugins/\<close> is
  loaded by the next \<open>plugin_scan\<close>, which is an operation of \<open>Plugin\<close>. The registry keeps files and names apart only while paths have less than 4096 bytes and
  names less than 64 (\<open>long_names_collide\<close> shows the code otherwise). Configurations are read back for values without a comment after
  them, which the parser does not know (\<open>ini_inline_comment_kept\<close>).

  Not modelled: what runs in a child after \<open>fork\<close> (a command, the compiler, a plugin), and the calls of the kernel and of BearSSL that open a
  socket, a TLS session or a library (\<open>net_connect\<close>, \<open>tls_client_start\<close>, \<open>sock_server_create\<close>, the pipes and \<open>waitpid\<close> loops below
  what their callers see, the raw mode of the terminal): their code is a sequence of system calls, and what they answer is a parameter of the model.
  The round of the event loop does not call \<open>plugin_scan\<close> (every five seconds in the code), since the daemon's other state does not depend on it. The build
  with plugins is modelled, not \<open>TC_NO_PLUGINS\<close> nor the variant for Cosmopolitan. After a failed write, removing the temporary file is taken to succeed.
  Functions that only release memory (\<open>ini_free\<close>, \<open>llm_response_free\<close>) have no counterpart. The calls of the log in the other files are
  left out, since they change nothing but the log.
\<close>

section \<open>From the terminal to the agent\<close>

text \<open>The bytes an operation of the client wrote to a socket.\<close>

definition sent_to :: "int \<Rightarrow> tui_out list \<Rightarrow> string" where
  "sent_to s outs = concat (map (\<lambda>x. case x of ToSock f w \<Rightarrow> if f = s then w else [] | _ \<Rightarrow> []) outs)"

lemma handle_submit_text:
  assumes "tui_wf st" "t_input st \<noteq> []" "hd (t_input st) \<noteq> CHR ''/''" "0 \<le> t_event_fd st"
    "sock_send (fst (sv_send e)) (snd (sv_send e)) 5 (Some (t_target st @ NUL # t_input st)) (of_nat (length (t_target st @ NUL # t_input st))) = (w, 0)"
  shows "\<exists>st'. handle_submit e st = Some (st', [ToSock (t_event_fd st) w]) \<and> t_input st' = [] \<and> t_target st' = t_target st"
proof -
  obtain sb where sb: "tui_add_text st (Some GREEN) 3 (buf_set 512 (''you: '' @ t_input st)) = Some (st\<lparr>t_sb := sb, t_dirty := True\<rparr>)"
    using tui_add_text_wf [OF assms(1), of "Some GREEN"] by blast
  have l: "length (t_target st) + 1 + length (t_input st) < 4096" using assms(1) by (simp add: tui_wf_def)
  have g: "send_to_agent e (st\<lparr>t_sb := sb, t_dirty := True\<rparr>) (t_input st) = ([ToSock (t_event_fd st) w], 0)"
    using assms(4,5) l by (simp add: send_to_agent_def add.commute add.left_commute)
  show ?thesis using assms(2,3) unfolding handle_submit_def sb bind.bind_lunit g by simp
qed

lemma index_of_Some: "x \<in> set xs \<Longrightarrow> \<exists>i. index_of x xs = Some i"
  by (induction xs) auto

text \<open>
  (C12) From the terminal to the agent: when the user types a line that is no command and presses Enter, the client writes one frame to
  its connection; once the daemon has read those bytes, however they were split over reads, the line, whole and unchanged, is
  queued for the agent that the client names and for no other, and nothing else in the daemon changes.
\<close>

theorem tui_line_reaches_agent:
  assumes "tui_wf st" "\<not> t_quit st" "t_input st = []" "0 \<le> t_event_fd st"
    "list_all plain_char tx" "tx \<noteq> []" "hd tx \<noteq> CHR ''/''" "length tx \<le> 511"
    "sock_send (fst (sv_send (E 0))) (snd (sv_send (E 0))) 5 (Some (t_target st @ NUL # tx)) (of_nat (length (t_target st @ NUL # tx))) = (w, 0)"
    "daemon_wf d" "i < length (d_agents d)" "a_name (d_agents d ! i) = t_target st" "length (d_queue d) < 64" "\<not> cl_oom e i"
    "c \<in> set (d_tui_clients d)"
  shows "\<exists>st' outs. handle_input E (tx @ [CR]) st = Some (st', outs) \<and> t_input st' = [] \<and>
     (stream (cl_reads e) = sent_to (t_event_fd st) outs \<longrightarrow>
      handle_tui_client e c True d = (d\<lparr>d_queue := d_queue d @ [(i, tx)]\<rparr>, [Queued i tx]))"
proof -
  let ?st = "st\<lparr>t_input := tx, t_pos := length tx\<rparr>" and ?data = "t_target st @ NUL # tx"
  have p: "t_pos st = 0" using assms(1,3) by (simp add: tui_wf_def)
  have wf: "tui_wf ?st" using assms(1,5,8) by (simp add: tui_wf_def)
  have k: "handle_keys E (tx @ [CR]) st = handle_keys E [CR] ?st"
    using handle_keys_typed [OF assms(5,2), of E "[CR]"] assms(3,8) p by simp
  have "\<exists>st'. handle_submit (E 0) ?st = Some (st', [ToSock (t_event_fd ?st) w]) \<and> t_input st' = [] \<and> t_target st' = t_target ?st"
    by (rule handle_submit_text [OF wf]) (use assms(4,6,7,9) in simp_all)
  then obtain st' where s: "handle_submit (E 0) ?st = Some (st', [ToSock (t_event_fd st) w])" "t_input st' = []" by auto
  have h: "handle_input E (tx @ [CR]) st = Some (st'\<lparr>t_dirty := True\<rparr>, [ToSock (t_event_fd st) w])"
    using assms(2) s(1) by (simp add: handle_input_def k handle_key_def byte_def)
  have len: "length ?data \<le> 4095" using assms(1,8) by (simp add: tui_wf_def)
  have "handle_tui_client e c True d = (d\<lparr>d_queue := d_queue d @ [(i, tx)]\<rparr>, [Queued i tx])" if st: "stream (cl_reads e) = w"
  proof -
    have z: "NUL \<notin> set tx" using assms(5) by (auto simp: list_all_iff plain_char_def byte_def)
    obtain n rest where r: "sock_read_cmd (cl_reads e) 4096 = Some (SOCK_CMD_MSG, ?data, n, rest)"
      "route_msg (cl_oom e) ?data d = (d\<lparr>d_queue := d_queue d @ [(i, tx)]\<rparr>, [Queued i tx])"
      using msg_frame_routed [OF assms(10-12,13), of "cl_oom e" tx, OF assms(14) z len assms(9) [folded SOCK_CMD_MSG_def] st] by blast
    obtain j where "index_of c (d_tui_clients d) = Some j" using index_of_Some [OF assms(15)] by blast
    then show ?thesis by (simp add: handle_tui_client_def r sock_cmds)
  qed
  then show ?thesis using h s(2) by (simp add: sent_to_def)
qed

theorem tui_line_reaches_agent_witness:
  "\<exists>st E d e st' outs. handle_input E (''hi'' @ [CR]) st = Some (st', outs) \<and>
     handle_tui_client e 9 True d = (d\<lparr>d_queue := d_queue d @ [(0, ''hi'')]\<rparr>, [Queued 0 ''hi''])"
proof -
  obtain d0 fs where s: "daemon_start boot_sample boot_cfg boot_fs = Some (d0, fs)" using boot_sample_starts by blast
  note p = daemon_start_props [OF s]
  define d where "d = d0\<lparr>d_tui_clients := [9]\<rparr>"
  have wf: "daemon_wf d" using p by (simp add: d_def daemon_wf_def agents_wf_def)
  define tgt where "tgt = a_name (d_agents d ! 0)"
  have v: "length tgt < 32" using p by (auto simp: tgt_def d_def daemon_wf_def agents_wf_def list_all_iff)
  define st where "st = tui_sample\<lparr>t_target := tgt, t_input := [], t_pos := 0\<rparr>"
  have st: "tui_wf st" using tui_sample_wf v by (simp add: st_def tui_wf_def)
  define E :: "nat \<Rightarrow> submit_env" where "E = (\<lambda>_. \<lparr>sv_conn = None, sv_hdr = [], sv_reads = [], sv_send = ([], [])\<rparr>)"
  obtain w where w: "sock_send (fst (sv_send (E 0))) (snd (sv_send (E 0))) 5 (Some (t_target st @ NUL # ''hi'')) (of_nat (length (t_target st @ NUL # ''hi''))) = (w, 0)"
    using sock_send_all [of 5 "t_target st @ NUL # ''hi''" "of_nat (length (t_target st @ NUL # ''hi''))"] unfolding E_def by auto
  have h: "handle_keys E (''hi'' @ [CR]) st = handle_keys E [CR] (st\<lparr>t_input := ''hi'', t_pos := Suc (Suc 0)\<rparr>)"
    using handle_keys_typed [of "''hi''" st E "[CR]"] by (simp add: st_def tui_sample_def plain_char_def byte_def del: handle_keys.simps)
  define e where "e = msg_client\<lparr>cl_reads := [RBytes w]\<rparr>"
  have "w \<noteq> []" using w by (auto simp: E_def sock_send_def write_all_all le32_def Let_def split: if_splits)
  then have r: "stream (cl_reads e) = w" by (simp add: e_def)
  have "\<exists>st' outs. handle_input E (''hi'' @ [CR]) st = Some (st', outs) \<and> t_input st' = [] \<and>
     (stream (cl_reads e) = sent_to (t_event_fd st) outs \<longrightarrow>
      handle_tui_client e 9 True d = (d\<lparr>d_queue := d_queue d @ [(0, ''hi'')]\<rparr>, [Queued 0 ''hi'']))"
    by (rule tui_line_reaches_agent [where E = E, OF st _ _ _ _ _ _ _ w wf])
       (use p in \<open>simp_all add: st_def tui_sample_def plain_char_def byte_def d_def tgt_def e_def msg_client_def\<close>)
  moreover have "sent_to (t_event_fd st) outs = w" if "handle_input E (''hi'' @ [CR]) st = Some (st', outs)" for st' outs
  proof -
    let ?st = "st\<lparr>t_input := ''hi'', t_pos := Suc (Suc 0)\<rparr>"
    have "tui_wf ?st" using st by (simp add: tui_wf_def plain_char_def byte_def)
    from handle_submit_text [OF this, of "E 0" w] w obtain st2 where "handle_submit (E 0) ?st = Some (st2, [ToSock (t_event_fd st) w])"
      by (auto simp: st_def tui_sample_def)
    then show ?thesis using that unfolding handle_input_def h by (auto simp: handle_key_def byte_def sent_to_def st_def tui_sample_def)
  qed
  ultimately show ?thesis using r by metis
qed

end
